(* ===== verification/Prelude.thy ===== *)
theory Prelude
  imports Complex_Main "HOL-Library.Word" "HOL-Library.List_Lexorder"
begin

text \<open>
  Shared vocabulary of the development: the strings and bytes of the JavaScript
  runtime, results that may be an error, tables of rows with a primary key, and the
  generic lemmas and rule collections the components use.

  A JavaScript string is a sequence of 16-bit code units (\<open>jstr\<close>); \<open>length\<close> counts
  code units, as \<open>String.prototype.length\<close> does, and the order on \<open>jstr\<close> is the
  lexicographic order by code unit, which is the order of \<open><\<close> on strings and of
  \<open>Array.prototype.sort\<close> without a comparator.  A \<open>Uint8Array\<close> is a list of bytes.
\<close>

named_theorems guard_simps \<open>definitions and splits that turn a chain of guards into its cases\<close>
named_theorems frame_simps \<open>what an operation leaves unchanged\<close>

subsection \<open>Strings and bytes\<close>

type_synonym jstr = "16 word list"
type_synonym bytes = "8 word list"

text \<open>A string literal of the source; the literals of this program are ASCII.\<close>

definition js :: "string \<Rightarrow> jstr" where
  "js s = map of_char s"

lemma of_char_word16_eq [simp]: "(of_char c :: 16 word) = of_char d \<longleftrightarrow> c = d"
proof
  assume "(of_char c :: 16 word) = of_char d"
  then have "(of_nat (of_char c) :: 16 word) = of_nat (of_char d)"
    by (simp add: of_nat_of_char)
  then have "take_bit 16 (of_char c :: nat) = take_bit 16 (of_char d)"
    by (simp add: word_of_nat_eq_iff del: of_char_eq_iff)
  moreover have "(of_char c :: nat) < 2 ^ 16" "(of_char d :: nat) < 2 ^ 16"
    by (cases c, simp, cases d, simp)
  ultimately have "(of_char c :: nat) = of_char d"
    by (simp only: take_bit_nat_eq_self)
  then show "c = d" by simp
qed simp

lemma js_eq_iff [simp]: "js s = js t \<longleftrightarrow> s = t"
  unfolding js_def by (metis inj_map_eq_map inj_on_def of_char_word16_eq)

lemma js_Nil [simp]: "js [] = []"
  by (simp add: js_def)

lemma js_eq_Nil [simp]: "js s = [] \<longleftrightarrow> s = []"
  by (simp add: js_def)

lemma length_js [simp]: "length (js s) = length s"
  by (simp add: js_def)

text \<open>\<open>s.slice(a)\<close> and \<open>s.slice(a, b)\<close> for non-negative bounds.\<close>

definition slice_from :: "nat \<Rightarrow> 'a list \<Rightarrow> 'a list" where
  "slice_from a s = drop a s"

definition slice :: "nat \<Rightarrow> nat \<Rightarrow> 'a list \<Rightarrow> 'a list" where
  "slice a b s = take (b - a) (drop a s)"

text \<open>\<open>Array.prototype.join\<close>.\<close>

fun join :: "'a list \<Rightarrow> 'a list list \<Rightarrow> 'a list" where
  "join sep [] = []"
| "join sep [x] = x"
| "join sep (x # y # ys) = x @ sep @ join sep (y # ys)"

subsection \<open>Results\<close>

text \<open>
  A computation that may throw returns \<open>'e + 'a\<close>: \<open>Inl\<close> the error thrown, \<open>Inr\<close> the
  value returned.  \<open>seqR\<close> is sequencing: the first error wins.
\<close>

definition seqR :: "'e + 'a \<Rightarrow> ('a \<Rightarrow> 'e + 'b) \<Rightarrow> 'e + 'b" where
  "seqR x f = (case x of Inl e \<Rightarrow> Inl e | Inr a \<Rightarrow> f a)"

lemma seqR_simps [simp]: "seqR (Inl e) f = Inl e" "seqR (Inr a) f = f a"
  by (simp_all add: seqR_def)

lemma seqR_Inr_iff: "seqR x f = Inr b \<longleftrightarrow> (\<exists>a. x = Inr a \<and> f a = Inr b)"
  by (cases x) auto

text \<open>\<open>array.map(f)\<close> for an \<open>f\<close> that may throw: left to right, first error wins.\<close>

fun mapR :: "('a \<Rightarrow> 'e + 'b) \<Rightarrow> 'a list \<Rightarrow> 'e + 'b list" where
  "mapR f [] = Inr []"
| "mapR f (x # xs) = seqR (f x) (\<lambda>y. seqR (mapR f xs) (\<lambda>ys. Inr (y # ys)))"

lemma mapR_Inr_iff: "mapR f xs = Inr ys \<longleftrightarrow> list_all2 (\<lambda>x y. f x = Inr y) xs ys"
  by (induction xs arbitrary: ys) (auto simp: seqR_Inr_iff list_all2_Cons1)

lemma mapR_total: "(\<And>x. x \<in> set xs \<Longrightarrow> f x = Inr (g x)) \<Longrightarrow> mapR f xs = Inr (map g xs)"
  by (induction xs) auto

lemma mapR_cong [fundef_cong]:
  "xs = ys \<Longrightarrow> (\<And>x. x \<in> set ys \<Longrightarrow> f x = g x) \<Longrightarrow> mapR f xs = mapR g ys"
proof -
  assume "xs = ys" and "\<And>x. x \<in> set ys \<Longrightarrow> f x = g x"
  then have "\<And>x. x \<in> set xs \<Longrightarrow> f x = g x" by simp
  then have "mapR f xs = mapR g xs" by (induction xs) auto
  with \<open>xs = ys\<close> show ?thesis by simp
qed

definition is_ok :: "'e + 'a \<Rightarrow> bool" where
  "is_ok r = (case r of Inl _ \<Rightarrow> False | Inr _ \<Rightarrow> True)"

lemma is_ok_simps [simp]: "is_ok (Inr x)" "\<not> is_ok (Inl e)"
  by (simp_all add: is_ok_def)

lemma is_ok_iff: "is_ok r \<longleftrightarrow> (\<exists>x. r = Inr x)"
  by (cases r) auto

lemma is_ok_seqR_Inr [simp]: "is_ok (seqR x (\<lambda>a. Inr (g a))) \<longleftrightarrow> is_ok x"
  by (cases x) auto

lemma is_ok_mapR: "is_ok (mapR f xs) \<longleftrightarrow> (\<forall>x \<in> set xs. is_ok (f x))"
proof (induction xs)
  case (Cons x xs)
  then show ?case by (cases "f x"; cases "mapR f xs") auto
qed simp

text \<open>The option counterpart, for loops that stop at the first \<open>None\<close>.\<close>

fun mapO :: "('a \<Rightarrow> 'b option) \<Rightarrow> 'a list \<Rightarrow> 'b list option" where
  "mapO f [] = Some []"
| "mapO f (x # xs) =
     (case f x of None \<Rightarrow> None
      | Some y \<Rightarrow> (case mapO f xs of None \<Rightarrow> None | Some ys \<Rightarrow> Some (y # ys)))"

lemma mapO_Some_iff: "mapO f xs = Some ys \<longleftrightarrow> list_all2 (\<lambda>x y. f x = Some y) xs ys"
proof (induction xs arbitrary: ys)
  case (Cons x xs)
  show ?case
    by (cases "f x"; cases "mapO f xs"; cases ys) (auto simp flip: Cons.IH)
qed auto

lemma mapO_total: "(\<And>x. x \<in> set xs \<Longrightarrow> f x = Some (g x)) \<Longrightarrow> mapO f xs = Some (map g xs)"
  by (induction xs) auto

lemma mapO_cong [fundef_cong]:
  assumes "xs = ys" and "\<And>x. x \<in> set ys \<Longrightarrow> f x = g x"
  shows "mapO f xs = mapO g ys"
proof -
  have "(\<And>x. x \<in> set xs \<Longrightarrow> f x = g x) \<Longrightarrow> mapO f xs = mapO g xs"
    by (induction xs) (auto split: option.split)
  with assms show ?thesis by simp
qed

subsection \<open>Iteration\<close>

lemma funpow_add': "(f ^^ m) ((f ^^ n) x) = (f ^^ (n + m)) x"
  by (simp add: funpow_add add.commute [of n m])

end
