(* ===== verification/Js_Number.thy ===== *)
theory Js_Number
  imports Prelude
begin

text \<open>
  JavaScript numbers.  A Number is an IEEE 754 double: \<open>NaN\<close>, an infinity, or a finite
  value, held here as the rational it denotes (so \<open>-0\<close> and \<open>0\<close> are the same value;
  nothing in the program tells them apart).  \<open>fl\<close> is the rounding every arithmetic
  operation ends with, to nearest with ties to even; \<open>js_number\<close> is \<open>Number(s)\<close> on a
  string, \<open>num_str\<close> is \<open>String(x)\<close> and \<open>JSON.stringify(x)\<close>.  The lemmas are the ones
  the components need: integers up to \<open>2^53\<close> are exact and rounding is monotone.
\<close>

datatype jsnum = NaN | PosInf | NegInf | Fin rat

subsection \<open>Integer logarithms of rationals\<close>

function int_log :: "int \<Rightarrow> int \<Rightarrow> nat" where
  "int_log b n = (if 2 \<le> b \<and> b \<le> n then Suc (int_log b (n div b)) else 0)"
  by pat_completeness auto
termination
proof (relation "measure (\<lambda>(b, n). nat n)")
  show "((b, n div b), (b, n)) \<in> measure (\<lambda>(b, n). nat n)" if "2 \<le> b \<and> b \<le> n" for b n :: int
    using that int_div_less_self [of n b] by simp
qed simp

declare int_log.simps [simp del]

lemma int_log_bounds: "2 \<le> b \<Longrightarrow> 1 \<le> n \<Longrightarrow> b ^ int_log b n \<le> n \<and> n < b ^ Suc (int_log b n)"
proof (induction b n rule: int_log.induct)
  case (1 b n)
  show ?case
  proof (cases "b \<le> n")
    case True
    have q: "1 \<le> n div b"
      using True 1(2) by (simp add: pos_imp_zdiv_pos_iff int_one_le_iff_zero_less)
    with 1 True have IH: "b ^ int_log b (n div b) \<le> n div b" "n div b < b ^ Suc (int_log b (n div b))"
      by auto
    have e: "n = b * (n div b) + n mod b" "0 \<le> n mod b" "n mod b < b"
      using 1(2) by simp_all
    have "b * b ^ int_log b (n div b) \<le> b * (n div b)"
      using IH(1) 1(2) by (intro mult_left_mono) auto
    also have "\<dots> \<le> n" using e by linarith
    finally have lo: "b ^ int_log b n \<le> n"
      using True 1(2) by (simp add: int_log.simps [of b n])
    have "b * (n div b + 1) = b * (n div b) + b" by (simp add: distrib_left)
    then have "n < b * (n div b + 1)" using e by linarith
    also have "\<dots> \<le> b * b ^ Suc (int_log b (n div b))"
      using IH(2) 1(2) by (intro mult_left_mono) auto
    finally show ?thesis using lo True 1(2) by (simp add: int_log.simps [of b n])
  next
    case False
    with 1 show ?thesis by (simp add: int_log.simps [of b n])
  qed
qed

definition ilog :: "int \<Rightarrow> rat \<Rightarrow> int" where
  "ilog b x =
     (if x \<ge> 1 then int (int_log b \<lfloor>x\<rfloor>)
      else - int (Suc (int_log b (\<lceil>1 / x\<rceil> - 1))))"

lemma ilog_bounds:
  assumes "0 < x" and "2 \<le> b"
  shows "of_int b powi ilog b x \<le> x" and "x < of_int b powi (ilog b x + 1)"
proof -
  have "of_int b powi ilog b x \<le> x \<and> x < of_int b powi (ilog b x + 1)"
  proof (cases "x \<ge> 1")
    case True
    define n where "n = \<lfloor>x\<rfloor>"
    define k where "k = int_log b n"
    have n: "1 \<le> n" "of_int n \<le> x" "x < of_int (n + 1)"
      using True unfolding n_def by (simp_all add: le_floor_iff) linarith
    have k: "b ^ k \<le> n" "n + 1 \<le> b ^ Suc k"
      using int_log_bounds [OF assms(2) n(1)] by (auto simp: k_def)
    have l: "ilog b x = int k" "int k + 1 = int (Suc k)"
      using True by (simp_all add: ilog_def k_def n_def)
    have "(of_int b :: rat) ^ k \<le> of_int n"
      using k(1) by (metis of_int_le_iff of_int_power)
    moreover have "(of_int (n + 1) :: rat) \<le> of_int b ^ Suc k"
      using k(2) by (metis of_int_le_iff of_int_power)
    ultimately show ?thesis
      using n unfolding l(1) unfolding l(2) power_int_of_nat by linarith
  next
    case False
    define n where "n = \<lceil>1 / x\<rceil> - 1"
    define k where "k = int_log b n"
    have "1 / x > 1"
      using False assms(1) by simp
    then have n: "1 \<le> n" "of_int n < 1 / x" "1 / x \<le> of_int (n + 1)"
      unfolding n_def by linarith+
    have k: "b ^ k \<le> n" "n + 1 \<le> b ^ Suc k"
      using int_log_bounds [OF assms(2) n(1)] by (auto simp: k_def)
    have l: "ilog b x = - int (Suc k)" "- int (Suc k) + 1 = - int k"
      using False by (simp_all add: ilog_def k_def n_def)
    have b0: "(of_int b :: rat) > 0" using assms(2) by simp
    have "1 / x \<le> of_int b ^ Suc k"
      using n(3) k(2) by (metis of_int_le_iff of_int_power order_trans)
    then have 1: "inverse (of_int b ^ Suc k) \<le> x"
      using assms(1) b0 by (simp add: field_simps)
    have "(of_int b :: rat) ^ k < 1 / x"
      using k(1) n(2) by (metis of_int_le_iff of_int_power order_le_less_trans)
    then have 2: "x < inverse (of_int b ^ k)"
      using assms(1) b0 by (simp add: field_simps)
    from 1 2 show ?thesis
      unfolding l(1) unfolding l(2) by (simp only: power_int_minus power_int_of_nat)
  qed
  then show "of_int b powi ilog b x \<le> x" and "x < of_int b powi (ilog b x + 1)"
    by auto
qed

subsection \<open>Rounding to a double\<close>

definition round_half_even :: "rat \<Rightarrow> int" where
  "round_half_even x =
     (let f = \<lfloor>x\<rfloor>; d = x - of_int f
      in if d < 1/2 then f else if d > 1/2 then f + 1 else if even f then f else f + 1)"

lemma round_half_even_of_int [simp]: "round_half_even (of_int n) = n"
  by (simp add: round_half_even_def)

lemma round_half_even_mono: "x \<le> y \<Longrightarrow> round_half_even x \<le> round_half_even y"
proof -
  assume xy: "x \<le> y"
  then have f: "\<lfloor>x\<rfloor> \<le> \<lfloor>y\<rfloor>" by (rule floor_mono)
  show ?thesis
  proof (cases "\<lfloor>x\<rfloor> = \<lfloor>y\<rfloor>")
    case True
    with xy show ?thesis by (auto simp: round_half_even_def Let_def)
  next
    case False
    with f have "\<lfloor>x\<rfloor> + 1 \<le> \<lfloor>y\<rfloor>" by simp
    then show ?thesis by (auto simp: round_half_even_def Let_def)
  qed
qed

text \<open>The exponent of the last of the 53 significant bits; subnormals stop at \<open>-1074\<close>.\<close>

definition ulp_exp :: "rat \<Rightarrow> int" where
  "ulp_exp x = max (ilog 2 \<bar>x\<bar> - 52) (-1074)"

definition fl_val :: "rat \<Rightarrow> rat" where
  "fl_val x = (if x = 0 then 0 else
     of_int (round_half_even (x / 2 powi ulp_exp x)) * 2 powi ulp_exp x)"

definition fl :: "rat \<Rightarrow> jsnum" where
  "fl x = (let y = fl_val x in
     if y \<ge> 2 ^ 1024 then PosInf else if y \<le> - (2 ^ 1024) then NegInf else Fin y)"

lemma round_half_even_minus: "round_half_even (- x) = - round_half_even x"
proof -
  consider "x = of_int \<lfloor>x\<rfloor>" | "x \<noteq> of_int \<lfloor>x\<rfloor>" by blast
  then show ?thesis
  proof cases
    case 1
    then show ?thesis by (metis of_int_minus round_half_even_of_int)
  next
    case 2
    have "\<lfloor>- x\<rfloor> = - \<lfloor>x\<rfloor> - 1"
      using 2 by (simp add: floor_minus ceiling_altdef)
    then show ?thesis by (auto simp: round_half_even_def Let_def)
  qed
qed

lemma fl_val_minus: "fl_val (- x) = - fl_val x"
  by (simp add: fl_val_def ulp_exp_def round_half_even_minus)

lemma fl_val_exact:
  assumes "x = of_int n * 2 powi ulp_exp x"
  shows "fl_val x = x"
proof (cases "x = 0")
  case False
  have "x / 2 powi ulp_exp x = of_int n"
    using assms by (simp add: field_simps)
  then show ?thesis
    using False assms by (simp add: fl_val_def)
qed (simp add: fl_val_def)

lemma pow_less_exp:
  assumes "(of_int b :: rat) powi m < of_int b powi n" and "2 \<le> b"
  shows "m < n"
proof (rule ccontr)
  assume "\<not> m < n"
  then have "(of_int b :: rat) powi n \<le> of_int b powi m"
    using assms(2) by (intro power_int_increasing) auto
  with assms(1) show False by simp
qed

lemma ilog_mono:
  assumes "0 < x" and "x \<le> y" and "2 \<le> b"
  shows "ilog b x \<le> ilog b y"
proof -
  have "(of_int b :: rat) powi ilog b x < of_int b powi (ilog b y + 1)"
    using ilog_bounds [of x b] ilog_bounds [of y b] assms by linarith
  then have "ilog b x < ilog b y + 1"
    using assms(3) by (rule pow_less_exp)
  then show ?thesis by simp
qed

lemma ilog2_bounds:
  assumes "0 < x"
  shows "2 powi ilog 2 x \<le> x" and "x < 2 powi (ilog 2 x + 1)"
  using ilog_bounds [OF assms, of 2] by auto

lemma pow2_less_exp: "(2 :: rat) powi m < 2 powi n \<Longrightarrow> m < n"
  using pow_less_exp [of 2 m n] by simp

lemma of_int_abs_bound: "\<bar>n\<bar> \<le> 2 ^ k \<Longrightarrow> \<bar>of_int n :: rat\<bar> \<le> 2 ^ k"
  by (metis of_int_abs of_int_le_iff of_int_numeral of_int_power)

lemma fl_val_of_int:
  assumes "\<bar>n\<bar> \<le> 2 ^ 53"
  shows "fl_val (of_int n) = of_int n"
proof (cases "n = 0")
  case False
  define x where "x = \<bar>of_int n :: rat\<bar>"
  define L where "L = ilog 2 x"
  have xi: "x = of_int \<bar>n\<bar>" by (simp add: x_def)
  have "1 \<le> \<bar>n\<bar>" using False by simp
  then have x: "1 \<le> x" "x \<le> 2 ^ 53"
    using of_int_abs_bound [OF assms] by (simp_all add: xi flip: of_int_abs)
  have b: "2 powi L \<le> x" "x < 2 powi (L + 1)"
    using ilog2_bounds [of x] x(1) by (auto simp: L_def)
  have "(2::rat) powi 0 < 2 powi (L + 1)" using b(2) x(1) by simp
  then have L0: "0 \<le> L" using pow2_less_exp [of 0 "L + 1"] by simp
  have "(2::rat) powi L < 2 powi 54" using b(1) x(2) by simp
  then have L1: "L \<le> 53" using pow2_less_exp [of L 54] by simp
  have u: "ulp_exp (of_int n) = L - 52"
    using L0 by (simp add: ulp_exp_def L_def x_def)
  show ?thesis
  proof (cases "L = 53")
    case True
    then have "x = 2 ^ 53" using b(1) x(2) by simp
    then have "\<bar>n\<bar> = 2 ^ 53" unfolding xi by (metis of_int_eq_iff of_int_numeral of_int_power)
    then have "n = 2 ^ 52 * 2 \<or> n = - (2 ^ 52) * 2" by (simp add: abs_if split: if_splits)
    then obtain m where "n = m * 2" by blast
    with True u show ?thesis by (intro fl_val_exact [of _ m]) simp
  next
    case False
    define k where "k = nat (52 - L)"
    have "L - 52 = - int k" using False L1 by (simp add: k_def)
    with u show ?thesis
      by (intro fl_val_exact [of _ "n * 2 ^ k"]) (simp add: power_int_minus)
  qed
qed (simp add: fl_val_def)

lemma fl_of_int: "\<bar>n\<bar> \<le> 2 ^ 53 \<Longrightarrow> fl (of_int n) = Fin (of_int n)"
proof -
  assume n: "\<bar>n\<bar> \<le> 2 ^ 53"
  then have "- (2 ^ 53) \<le> (of_int n :: rat)" "(of_int n :: rat) \<le> 2 ^ 53"
    using of_int_abs_bound [OF n] by linarith+
  then show ?thesis by (simp add: fl_def fl_val_of_int [OF n])
qed

lemma fl_val_mono_pos:
  assumes "0 < x" and "x \<le> y"
  shows "fl_val x \<le> fl_val y"
proof -
  define u v where "u = ulp_exp x" and "v = ulp_exp y"
  have uv: "u \<le> v"
    using ilog_mono [OF assms, of 2] assms by (simp add: u_def v_def ulp_exp_def)
  have fx: "fl_val x = of_int (round_half_even (x / 2 powi u)) * 2 powi u"
    and fy: "fl_val y = of_int (round_half_even (y / 2 powi v)) * 2 powi v"
    using assms by (simp_all add: fl_val_def u_def v_def)
  show ?thesis
  proof (cases "u = v")
    case True
    then have "x / 2 powi u \<le> y / 2 powi v"
      using assms(2) by (simp add: divide_right_mono)
    from round_half_even_mono [OF this] True show ?thesis
      unfolding fx fy by (simp add: mult_right_mono)
  next
    case False
    with uv have "u < v" by simp
    then have v: "v = ilog 2 y - 52"
      using assms by (auto simp: u_def v_def ulp_exp_def split: if_splits)
    have "x / 2 powi u < 2 powi 53"
    proof -
      have "x < 2 powi (u + 53)"
      proof -
        have "x < 2 powi (ilog 2 x + 1)" using assms(1) by (rule ilog2_bounds)
        also have "\<dots> \<le> 2 powi (u + 53)"
          by (rule power_int_increasing) (use assms(1) in \<open>auto simp: u_def ulp_exp_def\<close>)
        finally show ?thesis .
      qed
      then show ?thesis by (simp add: field_simps power_int_add)
    qed
    then have "x / 2 powi u \<le> of_int (2 ^ 53)" by simp
    from round_half_even_mono [OF this] have "round_half_even (x / 2 powi u) \<le> 2 ^ 53"
      by (simp only: round_half_even_of_int)
    then have "(of_int (round_half_even (x / 2 powi u)) :: rat) \<le> 2 ^ 53"
      by (metis of_int_le_iff of_int_numeral of_int_power)
    then have "fl_val x \<le> 2 ^ 53 * 2 powi u" unfolding fx by (simp add: mult_right_mono)
    also have "\<dots> = 2 ^ 52 * 2 powi (u + 1)" by (simp add: power_int_add)
    also have "\<dots> \<le> 2 ^ 52 * 2 powi v"
      using \<open>u < v\<close> by (intro mult_left_mono power_int_increasing) auto
    also have "\<dots> \<le> fl_val y"
    proof -
      have "2 powi (v + 52) \<le> y" using ilog2_bounds(1) [of y] assms v by simp
      then have "of_int (2 ^ 52) \<le> y / 2 powi v" by (simp add: field_simps power_int_add)
      from round_half_even_mono [OF this] have "2 ^ 52 \<le> round_half_even (y / 2 powi v)"
        by (simp only: round_half_even_of_int)
      then have "(2 ^ 52 :: rat) \<le> of_int (round_half_even (y / 2 powi v))"
        by (metis of_int_le_iff of_int_numeral of_int_power)
      then show ?thesis unfolding fy by (simp add: mult_right_mono)
    qed
    finally show ?thesis .
  qed
qed

lemma fl_val_nonneg: "0 \<le> x \<Longrightarrow> 0 \<le> fl_val x"
proof (cases "x = 0")
  case False
  assume "0 \<le> x"
  then have "of_int 0 \<le> x / 2 powi ulp_exp x" by simp
  from round_half_even_mono [OF this] have "0 \<le> round_half_even (x / 2 powi ulp_exp x)"
    by (simp only: round_half_even_of_int)
  then show ?thesis using False by (simp add: fl_val_def)
qed (simp add: fl_val_def)

lemma fl_val_mono: "x \<le> y \<Longrightarrow> fl_val x \<le> fl_val y"
proof -
  assume xy: "x \<le> y"
  consider "0 < x" | "x \<le> 0" "0 \<le> y" | "y < 0" by linarith
  then show ?thesis
  proof cases
    case 1
    with xy show ?thesis by (simp add: fl_val_mono_pos)
  next
    case 2
    then show ?thesis
      using fl_val_nonneg [of y] fl_val_nonneg [of "- x"] by (simp add: fl_val_minus)
  next
    case 3
    with xy show ?thesis
      using fl_val_mono_pos [of "- y" "- x"] by (simp add: fl_val_minus)
  qed
qed

text \<open>Rounding keeps the order of two rationals, whatever their size.\<close>

fun num_le :: "jsnum \<Rightarrow> jsnum \<Rightarrow> bool" where
  "num_le NaN _ = False"
| "num_le _ NaN = False"
| "num_le NegInf _ = True"
| "num_le _ PosInf = True"
| "num_le (Fin a) (Fin b) = (a \<le> b)"
| "num_le _ _ = False"

lemma fl_mono: "x \<le> y \<Longrightarrow> num_le (fl x) (fl y)"
  using fl_val_mono [of x y] by (auto simp: fl_def Let_def)

lemma fl_not_NaN [simp]: "fl x \<noteq> NaN"
  by (simp add: fl_def Let_def)

text \<open>The comparison operators: any comparison with \<open>NaN\<close> is false.\<close>

definition num_lt :: "jsnum \<Rightarrow> jsnum \<Rightarrow> bool" where
  "num_lt a b = (num_le a b \<and> \<not> num_le b a)"

definition is_finite_num :: "jsnum \<Rightarrow> bool" where
  "is_finite_num x = (case x of Fin _ \<Rightarrow> True | _ \<Rightarrow> False)"

text \<open>\<open>Number.isInteger\<close>.\<close>

definition is_integer :: "jsnum \<Rightarrow> bool" where
  "is_integer x = (case x of Fin r \<Rightarrow> of_int \<lfloor>r\<rfloor> = r | _ \<Rightarrow> False)"

subsection \<open>Arithmetic\<close>

definition is_zero :: "jsnum \<Rightarrow> bool" where
  "is_zero x = (x = Fin 0)"

fun num_mul :: "jsnum \<Rightarrow> jsnum \<Rightarrow> jsnum" where
  "num_mul (Fin a) (Fin b) = fl (a * b)"
| "num_mul NaN _ = NaN"
| "num_mul _ NaN = NaN"
| "num_mul x y =
     (if is_zero x \<or> is_zero y then NaN
      else if num_lt x (Fin 0) = num_lt y (Fin 0) then PosInf else NegInf)"

fun num_add :: "jsnum \<Rightarrow> jsnum \<Rightarrow> jsnum" where
  "num_add (Fin a) (Fin b) = fl (a + b)"
| "num_add NaN _ = NaN"
| "num_add _ NaN = NaN"
| "num_add PosInf NegInf = NaN"
| "num_add NegInf PosInf = NaN"
| "num_add PosInf _ = PosInf"
| "num_add _ PosInf = PosInf"
| "num_add _ _ = NegInf"

text \<open>Division by (positive) zero gives an infinity or \<open>NaN\<close>.\<close>

fun num_div :: "jsnum \<Rightarrow> jsnum \<Rightarrow> jsnum" where
  "num_div (Fin a) (Fin b) =
     (if b \<noteq> 0 then fl (a / b) else if a = 0 then NaN else if a > 0 then PosInf else NegInf)"
| "num_div NaN _ = NaN"
| "num_div _ NaN = NaN"
| "num_div (Fin a) _ = Fin 0"
| "num_div x (Fin b) = (if b < 0 then (if x = PosInf then NegInf else PosInf) else x)"
| "num_div _ _ = NaN"

text \<open>\<open>Math.round\<close>: the nearest integer, halves upwards.\<close>

fun math_round :: "jsnum \<Rightarrow> jsnum" where
  "math_round (Fin a) = Fin (of_int \<lfloor>a + 1/2\<rfloor>)"
| "math_round x = x"

subsection \<open>Decimal digits\<close>

definition digit_unit :: "int \<Rightarrow> 16 word" where
  "digit_unit d = of_int (48 + d)"

definition is_digit :: "16 word \<Rightarrow> bool" where
  "is_digit u = (48 \<le> u \<and> u \<le> 57)"

definition digit_val :: "16 word \<Rightarrow> int" where
  "digit_val u = uint u - 48"

text \<open>The decimal digits of a non-negative integer.\<close>

function dec_str :: "int \<Rightarrow> jstr" where
  "dec_str n = (if n < 10 then [digit_unit n] else dec_str (n div 10) @ [digit_unit (n mod 10)])"
  by pat_completeness auto
termination by (relation "measure nat") auto

declare dec_str.simps [simp del]

definition digits_val :: "jstr \<Rightarrow> int" where
  "digits_val s = foldl (\<lambda>a u. 10 * a + digit_val u) 0 s"

lemma uint_digit_unit: "0 \<le> d \<Longrightarrow> d < 10 \<Longrightarrow> uint (digit_unit d) = 48 + d"
  unfolding digit_unit_def uint_word_of_int by (rule mod_pos_pos_trivial) simp_all

lemma digit_val_unit [simp]: "0 \<le> d \<Longrightarrow> d < 10 \<Longrightarrow> digit_val (digit_unit d) = d"
  by (simp add: digit_val_def uint_digit_unit)

lemma is_digit_unit [simp]: "0 \<le> d \<Longrightarrow> d < 10 \<Longrightarrow> is_digit (digit_unit d)"
  by (simp add: is_digit_def word_le_def uint_digit_unit)

lemma is_digit_val: "is_digit u \<Longrightarrow> 0 \<le> digit_val u \<and> digit_val u < 10"
  by (simp add: is_digit_def word_le_def digit_val_def)

lemma digit_unit_val [simp]: "digit_unit (digit_val u) = u"
  by (simp add: digit_val_def digit_unit_def)

lemma digits_val_snoc [simp]: "digits_val (s @ [u]) = 10 * digits_val s + digit_val u"
  by (simp add: digits_val_def)

lemma digits_val_dec_str [simp]: "0 \<le> n \<Longrightarrow> digits_val (dec_str n) = n"
proof (induction n rule: dec_str.induct)
  case (1 n)
  show ?case
  proof (cases "n < 10")
    case True
    then show ?thesis using 1(2) by (simp add: dec_str.simps [of n] digits_val_def)
  next
    case False
    then show ?thesis using 1 by (simp add: dec_str.simps [of n])
  qed
qed

lemma dec_str_digits: "0 \<le> n \<Longrightarrow> list_all is_digit (dec_str n)"
proof (induction n rule: dec_str.induct)
  case (1 n)
  then show ?case by (subst dec_str.simps) auto
qed

lemma dec_str_nonempty [simp]: "dec_str n \<noteq> []"
  by (subst dec_str.simps) simp

lemma dec_str_inject: "0 \<le> m \<Longrightarrow> 0 \<le> n \<Longrightarrow> dec_str m = dec_str n \<longleftrightarrow> m = n"
  by (metis digits_val_dec_str)

lemma digits_val_bounds: "list_all is_digit s \<Longrightarrow> 0 \<le> digits_val s \<and> digits_val s < 10 ^ length s"
proof (induction s rule: rev_induct)
  case (snoc u s)
  then show ?case using is_digit_val [of u] by auto
qed (simp add: digits_val_def)

subsection \<open>Numbers to strings\<close>

text \<open>
  \<open>Number::toString\<close>: the shortest digit string \<open>s\<close> (of \<open>k\<close> digits) with
  \<open>s * 10 powi (n - k)\<close> rounding back to \<open>x\<close>, the closest to \<open>x\<close> among those of
  that length.  Seventeen digits always suffice for a double.
\<close>

definition dec_candidate :: "rat \<Rightarrow> nat \<Rightarrow> (int \<times> int) option" where
  "dec_candidate x k =
     (let n = ilog 10 x + 1;
          d = x / 10 powi (n - int k);
          f = \<lfloor>d\<rfloor>;
          ok = (\<lambda>s. fl (of_int s * 10 powi (n - int k)) = Fin x);
          pick = (\<lambda>s. Some (if s = 10 ^ k then (10 ^ (k - 1), n + 1) else (s, n)))
      in if ok f \<and> ok (f + 1)
         then (if round_half_even d = f then pick f else pick (f + 1))
         else if ok f then pick f else if ok (f + 1) then pick (f + 1) else None)"

fun dec_search :: "rat \<Rightarrow> nat list \<Rightarrow> int \<times> int" where
  "dec_search x [] = (0, 0)"
| "dec_search x (k # ks) =
     (case dec_candidate x k of Some p \<Rightarrow> p | None \<Rightarrow> dec_search x ks)"

definition zeros :: "int \<Rightarrow> jstr" where
  "zeros n = replicate (nat n) (digit_unit 0)"

definition pos_num_str :: "rat \<Rightarrow> jstr" where
  "pos_num_str x =
     (let (s, n) = dec_search x [1..<18]; ds = dec_str s; k = int (length ds)
      in if k \<le> n \<and> n \<le> 21 then ds @ zeros (n - k)
         else if 0 < n \<and> n \<le> 21 then take (nat n) ds @ js ''.'' @ drop (nat n) ds
         else if -6 < n \<and> n \<le> 0 then js ''0.'' @ zeros (- n) @ ds
         else take 1 ds @ (if k = 1 then [] else js ''.'' @ drop 1 ds) @
              js ''e'' @ (if n - 1 < 0 then js ''-'' else js ''+'') @ dec_str \<bar>n - 1\<bar>)"

definition num_str :: "jsnum \<Rightarrow> jstr" where
  "num_str x = (case x of
     NaN \<Rightarrow> js ''NaN'' | PosInf \<Rightarrow> js ''Infinity'' | NegInf \<Rightarrow> js ''-Infinity''
   | Fin r \<Rightarrow> (if r = 0 then js ''0'' else if r < 0 then js ''-'' @ pos_num_str (- r)
              else pos_num_str r))"

subsection \<open>Strings to numbers\<close>

text \<open>The white space and line terminators \<open>Number()\<close> trims.\<close>

definition is_js_space :: "16 word \<Rightarrow> bool" where
  "is_js_space u = ((9 \<le> u \<and> u \<le> 13) \<or> (0x2000 \<le> u \<and> u \<le> 0x200A) \<or>
     u \<in> set [32, 0xA0, 0x1680, 0x2028, 0x2029, 0x202F, 0x205F, 0x3000, 0xFEFF])"

definition js_trim :: "jstr \<Rightarrow> jstr" where
  "js_trim s = rev (dropWhile is_js_space (rev (dropWhile is_js_space s)))"

definition hex_val :: "16 word \<Rightarrow> int option" where
  "hex_val u = (if is_digit u then Some (uint u - 48)
                else if 97 \<le> u \<and> u \<le> 102 then Some (uint u - 87)
                else if 65 \<le> u \<and> u \<le> 70 then Some (uint u - 55) else None)"

fun radix_val :: "int \<Rightarrow> int \<Rightarrow> jstr \<Rightarrow> int option" where
  "radix_val b a [] = Some a"
| "radix_val b a (u # us) =
     (case hex_val u of Some d \<Rightarrow> (if d < b then radix_val b (b * a + d) us else None)
      | None \<Rightarrow> None)"

text \<open>An exponent part: empty, or \<open>e\<close> with an optional sign and at least one digit.\<close>

definition exp_part :: "jstr \<Rightarrow> int option" where
  "exp_part s = (case s of [] \<Rightarrow> Some 0
     | u # r \<Rightarrow> if u \<noteq> 101 \<and> u \<noteq> 69 then None
         else (let neg = (take 1 r = js ''-'');
                   ds = (if take 1 r = js ''-'' \<or> take 1 r = js ''+'' then drop 1 r else r)
               in if ds \<noteq> [] \<and> list_all is_digit ds
                  then Some (if neg then - digits_val ds else digits_val ds)
                  else None))"

definition dec_unsigned :: "jstr \<Rightarrow> rat option" where
  "dec_unsigned s =
     (let ip = takeWhile is_digit s; r1 = dropWhile is_digit s;
          dot = (take 1 r1 = js ''.'');
          fp = (if dot then takeWhile is_digit (drop 1 r1) else []);
          r2 = (if dot then dropWhile is_digit (drop 1 r1) else r1)
      in if ip = [] \<and> fp = [] then None
         else map_option (\<lambda>e. of_int (digits_val (ip @ fp)) * 10 powi (e - int (length fp)))
                (exp_part r2))"

definition dec_signed :: "jstr \<Rightarrow> jsnum option" where
  "dec_signed s =
     (let neg = (take 1 s = js ''-'');
          r = (if take 1 s = js ''-'' \<or> take 1 s = js ''+'' then drop 1 s else s)
      in if r = js ''Infinity'' then Some (if neg then NegInf else PosInf)
         else map_option (\<lambda>q. fl (if neg then - q else q)) (dec_unsigned r))"

text \<open>\<open>Number(s)\<close> for a string \<open>s\<close>.\<close>

definition js_number :: "jstr \<Rightarrow> jsnum" where
  "js_number s0 =
     (let s = js_trim s0; p = take 2 s; r = drop 2 s;
          radix = (\<lambda>b. if r = [] then NaN
                   else (case radix_val b 0 r of Some n \<Rightarrow> fl (of_int n) | None \<Rightarrow> NaN))
      in if s = [] then Fin 0
         else if p = js ''0x'' \<or> p = js ''0X'' then radix 16
         else if p = js ''0o'' \<or> p = js ''0O'' then radix 8
         else if p = js ''0b'' \<or> p = js ''0B'' then radix 2
         else (case dec_signed s of Some x \<Rightarrow> x | None \<Rightarrow> NaN))"

end
