(* ===== verification/Js_Value.thy ===== *)
theory Js_Value
  imports Js_Number "HOL-Library.Multiset"
begin

text \<open>
  JavaScript values as the program meets them: what \<open>JSON.parse\<close> yields (\<open>JNull\<close> to
  \<open>JObj\<close>) and what the canonicalizer must refuse (\<open>JUndef\<close>, class instances, and the
  primitives \<open>typeof\<close> names \<open>function\<close>, \<open>symbol\<close> or \<open>bigint\<close>).  An object is the list
  of its own properties; \<open>wf_js\<close> says its keys are distinct, as every object's are.
  Also here: \<open>ToString\<close>, truthiness, \<open>JSON.stringify\<close> on strings, \<open>TextEncoder.encode\<close>.
\<close>

datatype jsval =
    JUndef
  | JNull
  | JBool bool
  | JNum jsnum
  | JStr jstr
  | JArr "jsval list"
  | JObj "(jstr \<times> jsval) list"
  | JInst "(jstr \<times> jsval) list"
  | JOther jstr

fun wf_js :: "jsval \<Rightarrow> bool" where
  "wf_js (JArr vs) = (\<forall>v \<in> set vs. wf_js v)"
| "wf_js (JObj kvs) = (distinct (map fst kvs) \<and> (\<forall>(k, v) \<in> set kvs. wf_js v))"
| "wf_js _ = True"

text \<open>Reading a property of a value other than \<open>undefined\<close> and \<open>null\<close>.\<close>

definition assoc :: "('k \<times> jsval) list \<Rightarrow> 'k \<Rightarrow> jsval" where
  "assoc kvs k = (case map_of kvs k of None \<Rightarrow> JUndef | Some v \<Rightarrow> v)"

fun field :: "jsval \<Rightarrow> string \<Rightarrow> jsval" where
  "field (JObj kvs) k = assoc kvs (js k)"
| "field (JInst kvs) k = assoc kvs (js k)"
| "field _ k = JUndef"

lemma assoc_Cons [simp]: "assoc ((k', v) # kvs) k = (if k' = k then v else assoc kvs k)"
  by (simp add: assoc_def)

lemma assoc_Nil [simp]: "assoc [] k = JUndef"
  by (simp add: assoc_def)

fun truthy :: "jsval \<Rightarrow> bool" where
  "truthy JUndef = False"
| "truthy JNull = False"
| "truthy (JBool b) = b"
| "truthy (JNum x) = (x \<noteq> NaN \<and> x \<noteq> Fin 0)"
| "truthy (JStr s) = (s \<noteq> [])"
| "truthy _ = True"

text \<open>
  \<open>ToString\<close>; \<open>None\<close> is the \<open>TypeError\<close> of an object whose own \<open>toString\<close> is not
  callable (nothing parsed from JSON is).  Array elements that are \<open>null\<close> or
  \<open>undefined\<close> join as the empty string.
\<close>

fun to_string :: "jsval \<Rightarrow> jstr option" where
  "to_string JUndef = Some (js ''undefined'')"
| "to_string JNull = Some (js ''null'')"
| "to_string (JBool b) = Some (if b then js ''true'' else js ''false'')"
| "to_string (JNum x) = Some (num_str x)"
| "to_string (JStr s) = Some s"
| "to_string (JArr vs) =
     map_option (join (js '',''))
       (mapO (\<lambda>v. if v = JNull \<or> v = JUndef then Some [] else to_string v) vs)"
| "to_string (JObj kvs) =
     (if map_of kvs (js ''toString'') = None then Some (js ''[object Object]'') else None)"
| "to_string (JInst kvs) = None"
| "to_string (JOther t) = None"

subsection \<open>Hexadecimal digits\<close>

definition hex_unit :: "int \<Rightarrow> 16 word" where
  "hex_unit d = (if d < 10 then of_int (48 + d) else of_int (87 + d))"

definition is_lower_hex :: "16 word \<Rightarrow> bool" where
  "is_lower_hex u = ((48 \<le> u \<and> u \<le> 57) \<or> (97 \<le> u \<and> u \<le> 102))"

definition is_hex :: "16 word \<Rightarrow> bool" where
  "is_hex u = (is_lower_hex u \<or> (65 \<le> u \<and> u \<le> 70))"

lemma uint_hex_unit: "0 \<le> d \<Longrightarrow> d < 16 \<Longrightarrow> uint (hex_unit d) = (if d < 10 then 48 + d else 87 + d)"
  unfolding hex_unit_def if_distrib [of uint] uint_word_of_int
  by (simp add: mod_pos_pos_trivial)

lemma hex_unit_lower [simp]: "0 \<le> d \<Longrightarrow> d < 16 \<Longrightarrow> is_lower_hex (hex_unit d)"
  by (simp add: is_lower_hex_def word_le_def uint_hex_unit)

lemma hex_val_unit [simp]: "0 \<le> d \<Longrightarrow> d < 16 \<Longrightarrow> hex_val (hex_unit d) = Some d"
  by (simp add: hex_val_def is_digit_def word_le_def uint_hex_unit)

lemma lower_is_hex [simp]: "is_lower_hex u \<Longrightarrow> is_hex u"
  by (simp add: is_hex_def)

subsection \<open>JSON.stringify on strings\<close>

definition is_high :: "16 word \<Rightarrow> bool" where
  "is_high u = (0xD800 \<le> u \<and> u \<le> 0xDBFF)"

definition is_low :: "16 word \<Rightarrow> bool" where
  "is_low u = (0xDC00 \<le> u \<and> u \<le> 0xDFFF)"

definition u_escape :: "16 word \<Rightarrow> jstr" where
  "u_escape u = [92, 117, hex_unit (uint u div 4096), hex_unit (uint u div 256 mod 16),
                 hex_unit (uint u div 16 mod 16), hex_unit (uint u mod 16)]"

definition escape_unit :: "16 word \<Rightarrow> jstr" where
  "escape_unit u =
     (if u = 34 then [92, 34] else if u = 92 then [92, 92]
      else if u = 8 then [92, 98] else if u = 9 then [92, 116]
      else if u = 10 then [92, 110] else if u = 12 then [92, 102]
      else if u = 13 then [92, 114]
      else if u < 32 then u_escape u else [u])"

text \<open>Surrogate pairs pass through; a surrogate without its partner is escaped.\<close>

fun json_units :: "jstr \<Rightarrow> jstr" where
  "json_units [] = []"
| "json_units [u] = (if is_high u \<or> is_low u then u_escape u else escape_unit u)"
| "json_units (u # v # us) =
     (if is_high u \<and> is_low v then u # v # json_units us
      else if is_high u \<or> is_low u then u_escape u @ json_units (v # us)
      else escape_unit u @ json_units (v # us))"

definition json_quote :: "jstr \<Rightarrow> jstr" where
  "json_quote s = [34] @ json_units s @ [34]"

subsection \<open>TextEncoder\<close>

definition utf8_point :: "int \<Rightarrow> bytes" where
  "utf8_point c =
     (if c < 0x80 then [of_int c]
      else if c < 0x800 then [of_int (0xC0 + c div 64), of_int (0x80 + c mod 64)]
      else if c < 0x10000 then
        [of_int (0xE0 + c div 4096), of_int (0x80 + c div 64 mod 64), of_int (0x80 + c mod 64)]
      else
        [of_int (0xF0 + c div 262144), of_int (0x80 + c div 4096 mod 64),
         of_int (0x80 + c div 64 mod 64), of_int (0x80 + c mod 64)])"

fun utf8 :: "jstr \<Rightarrow> bytes" where
  "utf8 [] = []"
| "utf8 [u] = utf8_point (if is_high u \<or> is_low u then 0xFFFD else uint u)"
| "utf8 (u # v # us) =
     (if is_high u \<and> is_low v
      then utf8_point (0x10000 + (uint u - 0xD800) * 0x400 + (uint v - 0xDC00)) @ utf8 us
      else utf8_point (if is_high u \<or> is_low u then 0xFFFD else uint u) @ utf8 (v # us))"

lemma utf8_ascii: "list_all (\<lambda>u. u < 0x80) s \<Longrightarrow> utf8 s = map (\<lambda>u. of_int (uint u)) s"
proof (induction s rule: utf8.induct)
  case (2 u)
  then show ?case
    by (auto simp: is_high_def is_low_def word_le_def word_less_def utf8_point_def)
next
  case (3 u v us)
  then have "\<not> is_high u" "\<not> is_low u" "uint u < 0x80"
    by (auto simp: is_high_def is_low_def word_le_def word_less_def)
  with 3 show ?case by (simp add: utf8_point_def)
qed simp

end
