(* ===== verification/Jcs.thy ===== *)
theory Jcs
  imports Js_Value
begin

text \<open>
  RFC 8785 canonical JSON (\<open>src/jcs.ts\<close>).  \<open>serialize\<close> follows the source's switch;
  its errors are the four \<open>JcsError\<close>s.  Proved: the text does not depend on the order
  of an object's keys at any depth, the keys come out sorted, and an error is raised
  exactly for values that are not plain JSON data.
\<close>

datatype jcs_error = NonFinite | UnsupportedType | NotPlainObject | UndefinedValue jstr

function serialize :: "jsval \<Rightarrow> jcs_error + jstr" where
  "serialize JNull = Inr (js ''null'')"
| "serialize (JBool b) = Inr (if b then js ''true'' else js ''false'')"
| "serialize (JNum x) = (if is_finite_num x then Inr (num_str x) else Inl NonFinite)"
| "serialize (JStr s) = Inr (json_quote s)"
| "serialize (JArr vs) =
     seqR (mapR serialize vs) (\<lambda>ps. Inr (js ''['' @ join (js '','') ps @ js '']''))"
| "serialize (JObj kvs) =
     seqR (mapR (\<lambda>k. case map_of kvs k of
                    None \<Rightarrow> Inl (UndefinedValue k)
                  | Some v \<Rightarrow> if v = JUndef then Inl (UndefinedValue k)
                      else seqR (serialize v) (\<lambda>t. Inr (json_quote k @ js '':'' @ t)))
             (sort (map fst kvs)))
       (\<lambda>parts. Inr (js ''{'' @ join (js '','') parts @ js ''}''))"
| "serialize (JInst kvs) = Inl NotPlainObject"
| "serialize JUndef = Inl UnsupportedType"
| "serialize (JOther t) = Inl UnsupportedType"
  by pat_completeness auto
termination
proof (relation "measure size")
  show "(v, JObj kvs) \<in> measure size" if "map_of kvs k = Some v" for kvs k v
    using size_list_estimation' [OF map_of_SomeD [OF that], of "size v" "size_prod (\<lambda>_. 0) size"]
    by simp
qed (auto simp: less_Suc_eq_le intro: size_list_estimation')

definition jcs :: "jsval \<Rightarrow> jcs_error + jstr" where
  "jcs v = serialize v"

definition jcsBytes :: "jsval \<Rightarrow> jcs_error + bytes" where
  "jcsBytes v = seqR (serialize v) (\<lambda>s. Inr (utf8 s))"

subsection \<open>Key order does not matter\<close>

lemma map_of_mset_eq:
  assumes "distinct (map fst xs)" and "mset xs = mset ys"
  shows "map_of xs = map_of ys"
proof -
  have "mset (map fst xs) = mset (map fst ys)"
    using assms(2) by simp
  then have "distinct (map fst ys)"
    using assms(1) by (metis mset_eq_imp_distinct_iff)
  moreover have "set xs = set ys"
    using assms(2) by (metis set_mset_mset)
  ultimately show ?thesis
    using assms(1) by (intro map_of_inject_set [THEN iffD2]) auto
qed

lemma serialize_perm:
  assumes "distinct (map fst kvs)" and "mset kvs = mset kvs'"
  shows "serialize (JObj kvs) = serialize (JObj kvs')"
proof -
  have "mset (map fst kvs) = mset (map fst kvs')"
    using assms(2) by simp
  then have "sort (map fst kvs) = sort (map fst kvs')"
    by (metis sorted_list_of_multiset_mset)
  then show ?thesis
    using map_of_mset_eq [OF assms] by simp
qed

text \<open>The value with every object's keys put in canonical order, at every depth.\<close>

fun norm :: "jsval \<Rightarrow> jsval" where
  "norm (JArr vs) = JArr (map norm vs)"
| "norm (JObj kvs) = JObj (sort_key fst (map (\<lambda>(k, v). (k, norm v)) kvs))"
| "norm v = v"

lemma norm_eq_JUndef [simp]: "norm v = JUndef \<longleftrightarrow> v = JUndef"
  by (cases v) simp_all

text \<open>One member of an object's text, as the loop over the sorted keys appends it.\<close>

definition obj_part :: "(jstr \<times> jsval) list \<Rightarrow> jstr \<Rightarrow> jcs_error + jstr" where
  "obj_part kvs k = (case map_of kvs k of
       None \<Rightarrow> Inl (UndefinedValue k)
     | Some v \<Rightarrow> if v = JUndef then Inl (UndefinedValue k)
         else seqR (serialize v) (\<lambda>t. Inr (json_quote k @ js '':'' @ t)))"

lemma serialize_JObj:
  "serialize (JObj kvs) = seqR (mapR (obj_part kvs) (sort (map fst kvs)))
     (\<lambda>parts. Inr (js ''{'' @ join (js '','') parts @ js ''}''))"
  unfolding serialize.simps obj_part_def [abs_def] ..

lemma serialize_JObj_cong:
  assumes "map fst kvs = map fst kvs'"
    and rel: "\<And>k. rel_option (\<lambda>v w. serialize v = serialize w \<and> (v = JUndef \<longleftrightarrow> w = JUndef))
             (map_of kvs k) (map_of kvs' k)"
  shows "serialize (JObj kvs) = serialize (JObj kvs')"
proof -
  have "obj_part kvs k = obj_part kvs' k" for k
    using rel [of k] by (cases "map_of kvs k"; cases "map_of kvs' k") (auto simp: obj_part_def)
  then have "obj_part kvs = obj_part kvs'" ..
  then show ?thesis unfolding serialize_JObj assms(1) by (rule arg_cong)
qed

lemma serialize_norm: "wf_js v \<Longrightarrow> serialize (norm v) = serialize v"
proof (induction v rule: norm.induct)
  case (1 vs)
  then have "mapR serialize (map norm vs) = mapR serialize vs"
    by (induction vs) auto
  then show ?case by simp
next
  case (2 kvs)
  define kvs' where "kvs' = map (\<lambda>(k, v). (k, norm v)) kvs"
  have keys: "map fst kvs' = map fst kvs"
    by (simp add: kvs'_def case_prod_beta comp_def)
  have "serialize (norm (JObj kvs)) = serialize (JObj kvs')"
    unfolding norm.simps kvs'_def [symmetric]
    by (rule serialize_perm [symmetric]) (use 2(2) in \<open>simp_all add: keys\<close>)
  also have "\<dots> = serialize (JObj kvs)"
  proof (rule serialize_JObj_cong [OF keys])
    fix k
    have m: "map_of kvs' k = map_option norm (map_of kvs k)"
      by (simp add: kvs'_def map_of_map)
    show "rel_option (\<lambda>v w. serialize v = serialize w \<and> (v = JUndef \<longleftrightarrow> w = JUndef))
            (map_of kvs' k) (map_of kvs k)"
    proof (cases "map_of kvs k")
      case (Some v)
      then have "(k, v) \<in> set kvs" by (rule map_of_SomeD)
      with 2 have "serialize (norm v) = serialize v" by auto
      with Some m show ?thesis by simp
    qed (simp add: m)
  qed
  finally show ?case .
qed simp_all

subsection \<open>What is accepted\<close>

text \<open>Plain JSON data: finite numbers, no \<open>undefined\<close>, no exotic object at any depth.\<close>

fun plain_json :: "jsval \<Rightarrow> bool" where
  "plain_json JUndef = False"
| "plain_json (JInst _) = False"
| "plain_json (JOther _) = False"
| "plain_json (JNum x) = is_finite_num x"
| "plain_json (JArr vs) = (\<forall>v \<in> set vs. plain_json v)"
| "plain_json (JObj kvs) = (\<forall>(k, v) \<in> set kvs. plain_json v)"
| "plain_json _ = True"

lemma serialize_ok_iff: "wf_js v \<Longrightarrow> is_ok (serialize v) \<longleftrightarrow> plain_json v"
proof (induction v rule: plain_json.induct)
  case (5 vs)
  then have "is_ok (mapR serialize vs) \<longleftrightarrow> (\<forall>v \<in> set vs. plain_json v)"
    by (simp add: is_ok_mapR)
  then show ?case by simp
next
  case (6 kvs)
  have f: "is_ok (obj_part kvs k) \<longleftrightarrow> plain_json v" if kv: "(k, v) \<in> set kvs" for k v
  proof -
    have "map_of kvs k = Some v" using kv 6(2) by simp
    moreover have "is_ok (serialize v) \<longleftrightarrow> plain_json v" using 6 kv by auto
    ultimately show ?thesis by (cases "v = JUndef") (auto simp: obj_part_def)
  qed
  have "is_ok (serialize (JObj kvs)) \<longleftrightarrow> (\<forall>k \<in> fst ` set kvs. is_ok (obj_part kvs k))"
    unfolding serialize_JObj is_ok_seqR_Inr is_ok_mapR by simp
  also have "\<dots> \<longleftrightarrow> (\<forall>kv \<in> set kvs. plain_json (snd kv))"
    using f by (force simp: ball_simps)
  finally show ?case by (simp add: case_prod_beta)
qed simp_all

end
