(* ===== verification/Errors.thy ===== *)
theory Errors
  imports Js_Value
begin

text \<open>
  Error codes, their HTTP status and the error response (\<open>src/errors.ts\<close>), and the
  exceptions a handler can raise: an \<open>ApiError\<close>, or anything else, which the server's
  \<open>wrap\<close> turns into \<open>INTERNAL\<close>.  An error carries its code and its details; the
  English message is not modelled.
\<close>

datatype ErrorCode =
    VALIDATION | SIG_MISMATCH | STALE_PAYLOAD | SEQ_REGRESSION | UNKNOWN_PROVIDER
  | UNKNOWN_OFFER | UNKNOWN_ATTESTATION | UNKNOWN_CHALLENGE | ATTESTATION_EXPIRED
  | ARCH_UNSUPPORTED | BENCH_FAILED | EXPIRED | EXPIRED_CURSOR | REVOKED | LIMIT_EXCEEDED
  | TERMS_TOO_LONG | RATE_LIMITED | INTERNAL

fun STATUS :: "ErrorCode \<Rightarrow> nat" where
  "STATUS VALIDATION = 400"
| "STATUS SIG_MISMATCH = 400"
| "STATUS ATTESTATION_EXPIRED = 400"
| "STATUS ARCH_UNSUPPORTED = 400"
| "STATUS BENCH_FAILED = 400"
| "STATUS EXPIRED = 400"
| "STATUS REVOKED = 400"
| "STATUS LIMIT_EXCEEDED = 400"
| "STATUS TERMS_TOO_LONG = 400"
| "STATUS UNKNOWN_PROVIDER = 404"
| "STATUS UNKNOWN_OFFER = 404"
| "STATUS UNKNOWN_ATTESTATION = 404"
| "STATUS UNKNOWN_CHALLENGE = 404"
| "STATUS SEQ_REGRESSION = 409"
| "STATUS STALE_PAYLOAD = 409"
| "STATUS EXPIRED_CURSOR = 409"
| "STATUS RATE_LIMITED = 429"
| "STATUS INTERNAL = 500"

fun code_name :: "ErrorCode \<Rightarrow> string" where
  "code_name VALIDATION = ''VALIDATION''"
| "code_name SIG_MISMATCH = ''SIG_MISMATCH''"
| "code_name STALE_PAYLOAD = ''STALE_PAYLOAD''"
| "code_name SEQ_REGRESSION = ''SEQ_REGRESSION''"
| "code_name UNKNOWN_PROVIDER = ''UNKNOWN_PROVIDER''"
| "code_name UNKNOWN_OFFER = ''UNKNOWN_OFFER''"
| "code_name UNKNOWN_ATTESTATION = ''UNKNOWN_ATTESTATION''"
| "code_name UNKNOWN_CHALLENGE = ''UNKNOWN_CHALLENGE''"
| "code_name ATTESTATION_EXPIRED = ''ATTESTATION_EXPIRED''"
| "code_name ARCH_UNSUPPORTED = ''ARCH_UNSUPPORTED''"
| "code_name BENCH_FAILED = ''BENCH_FAILED''"
| "code_name EXPIRED = ''EXPIRED''"
| "code_name EXPIRED_CURSOR = ''EXPIRED_CURSOR''"
| "code_name REVOKED = ''REVOKED''"
| "code_name LIMIT_EXCEEDED = ''LIMIT_EXCEEDED''"
| "code_name TERMS_TOO_LONG = ''TERMS_TOO_LONG''"
| "code_name RATE_LIMITED = ''RATE_LIMITED''"
| "code_name INTERNAL = ''INTERNAL''"

text \<open>The \<open>details\<close> argument: the object's members, or none.\<close>

type_synonym details = "(jstr \<times> jsval) list option"

datatype thrown = ApiError ErrorCode details | Uncaught

definition err :: "ErrorCode \<Rightarrow> thrown" where
  "err c = ApiError c None"

definition err_field :: "ErrorCode \<Rightarrow> string \<Rightarrow> thrown" where
  "err_field c f = ApiError c (Some [(js ''field'', JStr (js f))])"

definition num_of_int :: "int \<Rightarrow> jsval" where
  "num_of_int n = JNum (Fin (of_int n))"

definition err_retry :: "int \<Rightarrow> thrown" where
  "err_retry ms = ApiError RATE_LIMITED (Some [(js ''retryAfterMs'', num_of_int ms)])"

record response =
  status :: nat
  body :: jsval

definition json :: "nat \<Rightarrow> (string \<times> jsval) list \<Rightarrow> response" where
  "json st kvs = \<lparr>status = st, body = JObj (map (\<lambda>(k, v). (js k, v)) kvs)\<rparr>"

definition toResponse :: "ErrorCode \<Rightarrow> details \<Rightarrow> response" where
  "toResponse c d =
     \<lparr>status = STATUS c,
      body = JObj [(js ''error'', JObj ((js ''code'', JStr (js (code_name c))) #
        (case d of None \<Rightarrow> [] | Some kvs \<Rightarrow> [(js ''details'', JObj kvs)])))]\<rparr>"

text \<open>The handler wrapper of \<open>src/server.ts\<close>.\<close>

definition wrap :: "thrown + response \<Rightarrow> response" where
  "wrap r = (case r of
     Inr resp \<Rightarrow> resp
   | Inl (ApiError c d) \<Rightarrow> toResponse c d
   | Inl Uncaught \<Rightarrow> toResponse INTERNAL None)"

lemma STATUS_range: "STATUS c \<in> {400, 404, 409, 429, 500}"
  by (cases c) simp_all

lemma code_name_inject: "code_name c = code_name d \<longleftrightarrow> c = d"
  by (cases c; cases d) simp_all

end
