(* ===== verification/Crypto.thy ===== *)
theory Crypto
  imports Jcs Errors
begin

text \<open>
  Identity, hashing and signatures (\<open>src/crypto.ts\<close>).  The hash, the curve and the byte
  utilities are the packages \<open>@noble/hashes\<close> and \<open>@noble/curves\<close>, which are not part of
  this repository: they are the fields of \<open>noble\<close>, an argument of every definition that
  uses them.  \<open>noble_ok\<close> and \<open>key_ok\<close> state what their documentation promises, and
  appear as hypotheses where a proof needs them.  An exception is \<open>None\<close>.
\<close>

record noble =
  keccak_256 :: "bytes \<Rightarrow> bytes"
  bytesToHex :: "bytes \<Rightarrow> jstr"
  hexToBytes :: "jstr \<Rightarrow> bytes option"
  concatBytes :: "bytes list \<Rightarrow> bytes"
  secp_getPublicKey :: "bytes \<Rightarrow> bytes option"  \<comment> \<open>uncompressed\<close>
  secp_sign :: "bytes \<Rightarrow> bytes \<Rightarrow> bytes option"  \<comment> \<open>digest, private key; recovery byte first\<close>
  secp_recover :: "bytes \<Rightarrow> bytes \<Rightarrow> bytes option"  \<comment> \<open>signature, digest; compressed key\<close>
  point_uncompressed :: "bytes \<Rightarrow> bytes option"

subsection \<open>Lower-case hexadecimal\<close>

definition hex_byte :: "8 word \<Rightarrow> jstr" where
  "hex_byte b = [hex_unit (uint b div 16), hex_unit (uint b mod 16)]"

definition hex_of :: "bytes \<Rightarrow> jstr" where
  "hex_of bs = concat (map hex_byte bs)"

fun unhex :: "jstr \<Rightarrow> bytes option" where
  "unhex [] = Some []"
| "unhex [u] = None"
| "unhex (u # v # us) =
     (case (hex_val u, hex_val v, unhex us) of
        (Some a, Some b, Some bs) \<Rightarrow> Some (of_int (16 * a + b) # bs)
      | _ \<Rightarrow> None)"

lemma byte_split [simp]: "of_int (16 * (uint b div 16) + uint b mod 16) = (b :: 8 word)"
  by (metis mult.commute div_mult_mod_eq word_of_int_uint)

lemma byte_nibbles: "0 \<le> uint (b :: 8 word) div 16" "uint (b :: 8 word) div 16 < 16"
proof -
  have "uint b < 256" using uint_lt2p [of b] by simp
  then show "uint b div 16 < 16" by simp
  show "0 \<le> uint b div 16" by (simp add: pos_imp_zdiv_nonneg_iff)
qed

lemma length_hex_of [simp]: "length (hex_of bs) = 2 * length bs"
  by (induction bs) (simp_all add: hex_of_def hex_byte_def)

lemma hex_of_lower [simp]: "list_all is_lower_hex (hex_of bs)"
  by (induction bs) (simp_all add: hex_of_def hex_byte_def byte_nibbles)

lemma unhex_hex_of [simp]: "unhex (hex_of bs) = Some bs"
  by (induction bs) (simp_all add: hex_of_def hex_byte_def byte_nibbles del: of_int_add of_int_mult)

lemma hex_of_inject [simp]: "hex_of a = hex_of b \<longleftrightarrow> a = b"
  by (metis option.inject unhex_hex_of)

lemma unhex_length: "unhex s = Some bs \<Longrightarrow> length s = 2 * length bs"
  by (induction s arbitrary: bs rule: unhex.induct) (auto split: option.splits)

lemma unhex_total: "list_all is_hex s \<Longrightarrow> even (length s) \<Longrightarrow> \<exists>bs. unhex s = Some bs"
proof (induction s rule: unhex.induct)
  case (3 u v us)
  have "\<exists>a. hex_val x = Some a" if "is_hex x" for x
  proof -
    have "is_digit x \<or> (97 \<le> x \<and> x \<le> 102) \<or> (65 \<le> x \<and> x \<le> 70)"
      using that unfolding is_hex_def is_lower_hex_def is_digit_def by argo
    then show ?thesis
      by (cases "is_digit x"; cases "97 \<le> x \<and> x \<le> 102"; simp add: hex_val_def)
  qed
  then obtain a b where ab: "hex_val u = Some a" "hex_val v = Some b"
    using "3.prems"(1) by (metis list.pred_inject(2))
  obtain bs where "unhex us = Some bs"
    using "3.IH" "3.prems" by auto
  with ab show ?case by simp
qed auto

subsection \<open>What the packages promise\<close>

definition noble_ok :: "noble \<Rightarrow> bool" where
  "noble_ok N =
     ((\<forall>b. bytesToHex N b = hex_of b) \<and> (\<forall>s. hexToBytes N s = unhex s)
      \<and> (\<forall>bs. concatBytes N bs = concat bs) \<and> (\<forall>b. length (keccak_256 N b) = 32))"

lemma noble_okD:
  assumes "noble_ok N"
  shows "bytesToHex N b = hex_of b" "hexToBytes N s = unhex s"
    "concatBytes N bs = concat bs" "length (keccak_256 N b) = 32"
  using assms by (simp_all add: noble_ok_def)

text \<open>A key pair: every digest signed with it recovers to its public key.\<close>

definition key_ok :: "noble \<Rightarrow> bytes \<Rightarrow> bytes \<Rightarrow> bool" where
  "key_ok N priv pub =
     (secp_getPublicKey N priv = Some pub \<and>
      (\<forall>d. \<exists>v rs c. secp_sign N d priv = Some (v # rs) \<and> length rs = 64 \<and> (v = 0 \<or> v = 1)
           \<and> secp_recover N (v # rs) d = Some c \<and> point_uncompressed N c = Some pub))"

subsection \<open>Digests and addresses\<close>

definition DOMAIN_PREFIX :: bytes where
  "DOMAIN_PREFIX = 25 # utf8 (js ''Atlas Compute v1:'') @ [10]"

definition ox :: "jstr \<Rightarrow> jstr" where
  "ox s = js ''0x'' @ s"

definition payloadDigest :: "noble \<Rightarrow> jsval \<Rightarrow> jcs_error + bytes" where
  "payloadDigest N payload =
     seqR (jcsBytes payload) (\<lambda>b. Inr (keccak_256 N (concatBytes N [DOMAIN_PREFIX, b])))"

definition payloadHash :: "noble \<Rightarrow> jsval \<Rightarrow> jcs_error + jstr" where
  "payloadHash N payload = seqR (payloadDigest N payload) (\<lambda>d. Inr (ox (bytesToHex N d)))"

definition pub_address :: "noble \<Rightarrow> bytes \<Rightarrow> jstr" where
  "pub_address N pub = ox (bytesToHex N (slice_from 12 (keccak_256 N (slice_from 1 pub))))"

definition addressFromPrivateKey :: "noble \<Rightarrow> bytes \<Rightarrow> jstr option" where
  "addressFromPrivateKey N priv = map_option (pub_address N) (secp_getPublicKey N priv)"

text \<open>The package puts the recovery byte first; the wire format has it last.\<close>

definition signPayload :: "noble \<Rightarrow> jsval \<Rightarrow> bytes \<Rightarrow> jstr option" where
  "signPayload N payload priv =
     (case payloadDigest N payload of
        Inl _ \<Rightarrow> None
      | Inr digest \<Rightarrow>
          (case secp_sign N digest priv of
             None \<Rightarrow> None
           | Some sig \<Rightarrow>
               Some (ox (bytesToHex N (concatBytes N [slice_from 1 sig, slice 0 1 sig])))))"

definition SIG_RE :: "jstr \<Rightarrow> bool" where
  "SIG_RE s = (take 2 s = js ''0x'' \<and> length s = 132 \<and> list_all is_hex (drop 2 s))"

text \<open>
  Recover the signer's address from an \<open>r||s||v\<close> signature; \<open>Inr None\<close> is the
  \<open>null\<close> the source returns, \<open>Inl\<close> an exception of \<open>hexToBytes\<close> (which the regular
  expression rules out).
\<close>

definition recoverSignerOfDigest :: "noble \<Rightarrow> bytes \<Rightarrow> jstr \<Rightarrow> thrown + jstr option" where
  "recoverSignerOfDigest N digest signatureHex =
     (if \<not> SIG_RE signatureHex then Inr None
      else case hexToBytes N (slice_from 2 signatureHex) of
        None \<Rightarrow> Inl Uncaught
      | Some rsv \<Rightarrow>
          (if length rsv \<le> 64 then Inr None
           else let v0 = rsv ! 64; v = (if v0 = 27 \<or> v0 = 28 then v0 - 27 else v0) in
             if v \<noteq> 0 \<and> v \<noteq> 1 then Inr None
             else case secp_recover N (concatBytes N [[v], slice 0 64 rsv]) digest of
                 None \<Rightarrow> Inr None
               | Some compressed \<Rightarrow>
                   (case point_uncompressed N compressed of
                      None \<Rightarrow> Inr None
                    | Some uncompressed \<Rightarrow> Inr (Some (pub_address N uncompressed)))))"

definition recoverSigner :: "noble \<Rightarrow> jsval \<Rightarrow> jstr \<Rightarrow> thrown + jstr option" where
  "recoverSigner N payload signatureHex =
     (case payloadDigest N payload of
        Inl _ \<Rightarrow> Inl Uncaught
      | Inr digest \<Rightarrow> recoverSignerOfDigest N digest signatureHex)"

subsection \<open>Signing and recovering\<close>

lemma take_ox [simp]: "take 2 (ox s) = js ''0x''" "drop 2 (ox s) = s" "slice_from 2 (ox s) = s"
  by (simp_all add: ox_def slice_from_def)

lemma length_ox [simp]: "length (ox s) = 2 + length s"
  by (simp add: ox_def)

lemma ox_inject [simp]: "ox s = ox t \<longleftrightarrow> s = t"
  by (simp add: ox_def)

lemma SIG_RE_hex: "length bs = 65 \<Longrightarrow> SIG_RE (ox (hex_of bs))"
  by (simp add: SIG_RE_def list_all_iff) (metis hex_of_lower list_all_iff lower_is_hex)

lemma recover_sign:
  assumes N: "noble_ok N" and K: "key_ok N priv pub" and p: "is_ok (jcs payload)"
  shows "\<exists>sig. signPayload N payload priv = Some sig \<and>
           recoverSigner N payload sig = Inr (Some (pub_address N pub))"
proof -
  obtain s where "serialize payload = Inr s"
    using p by (auto simp: jcs_def is_ok_iff)
  then obtain d where d: "payloadDigest N payload = Inr d"
    by (simp add: payloadDigest_def jcsBytes_def)
  obtain v rs c where k: "secp_sign N d priv = Some (v # rs)" "length rs = 64" "v = 0 \<or> v = 1"
      "secp_recover N (v # rs) d = Some c" "point_uncompressed N c = Some pub"
    using K unfolding key_ok_def by blast
  let ?sig = "ox (hex_of (rs @ [v]))"
  have s: "signPayload N payload priv = Some ?sig"
    by (simp add: signPayload_def d k slice_from_def slice_def noble_okD [OF N])
  have "SIG_RE ?sig" using k(2) by (intro SIG_RE_hex) simp
  moreover have "v \<noteq> 27" "v \<noteq> 28" using k(3) by auto
  ultimately have "recoverSigner N payload ?sig = Inr (Some (pub_address N pub))"
    using k by (auto simp: recoverSigner_def d recoverSignerOfDigest_def noble_okD [OF N]
        nth_append slice_def Let_def)
  with s show ?thesis by blast
qed

text \<open>An address is \<open>0x\<close> and the lower-case digits of 20 bytes.\<close>

definition ADDRESS_RE :: "jstr \<Rightarrow> bool" where
  "ADDRESS_RE s = (take 2 s = js ''0x'' \<and> length s = 42 \<and> list_all is_lower_hex (drop 2 s))"

definition HASH_RE :: "jstr \<Rightarrow> bool" where
  "HASH_RE s = (take 2 s = js ''0x'' \<and> length s = 66 \<and> list_all is_lower_hex (drop 2 s))"

lemma pub_address_shape: "noble_ok N \<Longrightarrow> ADDRESS_RE (pub_address N pub)"
  by (simp add: pub_address_def ADDRESS_RE_def noble_okD slice_from_def)

lemma HASH_RE_hex: "length bs = 32 \<Longrightarrow> HASH_RE (ox (hex_of bs))"
  by (simp add: HASH_RE_def)

lemma recoverSigner_shape:
  "noble_ok N \<Longrightarrow> recoverSigner N p sig = Inr (Some a) \<Longrightarrow> ADDRESS_RE a"
  by (auto simp: recoverSigner_def recoverSignerOfDigest_def Let_def pub_address_shape
      split: sum.splits if_splits option.splits)

lemma payloadHash_shape: "noble_ok N \<Longrightarrow> payloadHash N p = Inr h \<Longrightarrow> HASH_RE h"
  by (auto simp: payloadHash_def payloadDigest_def seqR_Inr_iff HASH_RE_hex noble_okD)

subsection \<open>A concrete instance\<close>

text \<open>
  A small instance of the packages that keeps their promises, for evaluating the
  definitions on examples: the hash is a checksum, and every signature recovers to the
  one public key.
\<close>

definition toy_keccak :: "bytes \<Rightarrow> bytes" where
  "toy_keccak b = [0, 0, 0, 1 + sum_list b] @ replicate 28 0"

definition toy_pub :: bytes where
  "toy_pub = 4 # replicate 64 7"

definition toy :: noble where
  "toy = \<lparr>keccak_256 = toy_keccak, bytesToHex = hex_of, hexToBytes = unhex, concatBytes = concat,
     secp_getPublicKey = (\<lambda>_. Some toy_pub), secp_sign = (\<lambda>d k. Some (0 # replicate 64 1)),
     secp_recover = (\<lambda>s d. Some [2]), point_uncompressed = (\<lambda>c. Some toy_pub)\<rparr>"

lemma toy_ok: "noble_ok toy"
  by (simp add: noble_ok_def toy_def toy_keccak_def)

lemma toy_key: "key_ok toy priv toy_pub"
  by (simp add: key_ok_def toy_def)

end
