(* ===== verification/Js_Date.thy ===== *)
theory Js_Date
  imports Js_Number
begin

text \<open>
  The proleptic Gregorian calendar of the language's \<open>Date\<close>: milliseconds since the
  epoch to calendar fields and back.  \<open>day_from_year\<close> is the language standard's
  formula; \<open>year_from_day\<close> guesses the year from the mean length and corrects by one.
  Proved: the guess is right, the fields are in range, and the day number is recovered
  from the fields.
\<close>

definition leap_year :: "int \<Rightarrow> bool" where
  "leap_year y = (y mod 4 = 0 \<and> (y mod 100 \<noteq> 0 \<or> y mod 400 = 0))"

definition day_from_year :: "int \<Rightarrow> int" where
  "day_from_year y =
     365 * (y - 1970) + (y - 1969) div 4 - (y - 1901) div 100 + (y - 1601) div 400"

definition year_from_day :: "int \<Rightarrow> int" where
  "year_from_day d =
     (let y = 1970 + 400 * d div 146097
      in if d < day_from_year y then y - 1
         else if day_from_year (y + 1) \<le> d then y + 1 else y)"

lemma day_from_year_bounds:
  "146097 * (y - 1970) - 506 \<le> 400 * day_from_year y"
  "400 * day_from_year y \<le> 146097 * (y - 1970) + 589"
proof -
  define A where "A = (y - 1969) div 4"
  define B where "B = (y - 1901) div 100"
  define C where "C = (y - 1601) div 400"
  have "4 * A \<le> y - 1969" "y - 1969 \<le> 4 * A + 3"
    unfolding A_def by presburger+
  moreover have "100 * B \<le> y - 1901" "y - 1901 \<le> 100 * B + 99"
    unfolding B_def by presburger+
  moreover have "400 * C \<le> y - 1601" "y - 1601 \<le> 400 * C + 399"
    unfolding C_def by presburger+
  moreover have "day_from_year y = 365 * (y - 1970) + A - B + C"
    by (simp add: day_from_year_def A_def B_def C_def)
  ultimately have "146097 * (y - 1970) - 506 \<le> 400 * day_from_year y \<and>
      400 * day_from_year y \<le> 146097 * (y - 1970) + 589"
    by (simp add: algebra_simps)
  then show "146097 * (y - 1970) - 506 \<le> 400 * day_from_year y"
    "400 * day_from_year y \<le> 146097 * (y - 1970) + 589"
    by blast+
qed

lemma year_from_day_bounds:
  "day_from_year (year_from_day d) \<le> d \<and> d < day_from_year (year_from_day d + 1)"
proof -
  define q where "q = 400 * d div 146097"
  have q: "146097 * q \<le> 400 * d" "400 * d < 146097 * q + 146097"
    using mult_div_mod_eq [of 146097 "400 * d"] pos_mod_bound [of 146097 "400 * d"]
      pos_mod_sign [of 146097 "400 * d"] unfolding q_def by linarith+
  have "year_from_day d = (if d < day_from_year (1970 + q) then 1970 + q - 1
         else if day_from_year (1970 + q + 1) \<le> d then 1970 + q + 1 else 1970 + q)"
    by (simp add: year_from_day_def q_def Let_def)
  moreover have "day_from_year (1970 + q - 1) \<le> d"
    using day_from_year_bounds(2) [of "1970 + q - 1"] q by (simp add: algebra_simps)
  moreover have "d < day_from_year (1970 + q + 1 + 1)"
    using day_from_year_bounds(1) [of "1970 + q + 1 + 1"] q by (simp add: algebra_simps)
  ultimately show ?thesis by auto
qed

lemma div_succ:
  fixes x k :: int
  assumes "0 < k"
  shows "(x + 1) div k = x div k + (if (x + 1) mod k = 0 then 1 else 0)"
proof -
  have x: "x = k * (x div k) + x mod k" "0 \<le> x mod k" "x mod k < k"
    using assms by simp_all
  show ?thesis
  proof (cases "x mod k = k - 1")
    case True
    with x(1) have e: "x + 1 = k * (x div k + 1)" by (simp add: distrib_left)
    show ?thesis using assms unfolding e by simp
  next
    case False
    then have r: "x + 1 = k * (x div k) + (x mod k + 1)" "0 \<le> x mod k + 1" "x mod k + 1 < k"
      using x by linarith+
    show ?thesis
      using int_div_pos_eq [OF r] int_mod_pos_eq [OF r] x(2) by simp
  qed
qed

lemma day_from_year_Suc:
  "day_from_year (y + 1) = day_from_year y + (if leap_year y then 366 else 365)"
proof -
  have m: "(y - 1969 + 1) mod 4 = y mod 4" "(y - 1901 + 1) mod 100 = y mod 100"
    "(y - 1601 + 1) mod 400 = y mod 400"
    using mod_mult_self2 [of y 4 "-492"] mod_mult_self2 [of y 100 "-19"]
      mod_mult_self2 [of y 400 "-4"] by simp_all
  have d: "y + 1 - 1969 = y - 1969 + 1" "y + 1 - 1901 = y - 1901 + 1" "y + 1 - 1601 = y - 1601 + 1"
    by simp_all
  define A where "A = (y - 1969) div 4"
  define B where "B = (y - 1901) div 100"
  define C where "C = (y - 1601) div 400"
  have e: "day_from_year (y + 1) = 365 * (y + 1 - 1970) + (A + (if y mod 4 = 0 then 1 else 0))
      - (B + (if y mod 100 = 0 then 1 else 0)) + (C + (if y mod 400 = 0 then 1 else 0))"
    unfolding day_from_year_def d div_succ [of 4, OF zero_less_numeral]
      div_succ [of 100, OF zero_less_numeral] div_succ [of 400, OF zero_less_numeral] m
      A_def B_def C_def ..
  have f: "day_from_year y = 365 * (y - 1970) + A - B + C"
    by (simp only: day_from_year_def A_def B_def C_def)
  have "y mod 400 mod 100 = y mod 100" "y mod 100 mod 4 = y mod 4"
    by (simp_all add: mod_mod_cancel)
  then have n: "y mod 400 = 0 \<Longrightarrow> y mod 100 = 0" "y mod 100 = 0 \<Longrightarrow> y mod 4 = 0"
    by auto
  have L: "leap_year y \<longleftrightarrow> y mod 400 = 0 \<or> (y mod 4 = 0 \<and> y mod 100 \<noteq> 0)"
    using n unfolding leap_year_def by argo
  consider "y mod 400 = 0" "y mod 100 = 0" "y mod 4 = 0"
    | "y mod 400 \<noteq> 0" "y mod 100 = 0" "y mod 4 = 0"
    | "y mod 400 \<noteq> 0" "y mod 100 \<noteq> 0" "y mod 4 = 0"
    | "y mod 400 \<noteq> 0" "y mod 100 \<noteq> 0" "y mod 4 \<noteq> 0"
    using n by argo
  then show ?thesis
    unfolding e f L by cases (simp_all only: if_True if_False simp_thms, simp_all)
qed

subsection \<open>Months\<close>

text \<open>The day of the year on which month \<open>m\<close> (from 0) starts.\<close>

definition month_start :: "bool \<Rightarrow> int \<Rightarrow> int" where
  "month_start l m =
     [0, 31, 59, 90, 120, 151, 181, 212, 243, 273, 304, 334, 365] ! nat m
       + (if l \<and> 2 \<le> m then 1 else 0)"

definition month_of :: "bool \<Rightarrow> int \<Rightarrow> int" where
  "month_of l r =
     (let k = (if l then r - 1 else r)
      in if r < 31 then 0 else if k < 59 then 1 else if k < 90 then 2 else if k < 120 then 3
         else if k < 151 then 4 else if k < 181 then 5 else if k < 212 then 6
         else if k < 243 then 7 else if k < 273 then 8 else if k < 304 then 9
         else if k < 334 then 10 else 11)"

lemma month_start_simps [simp]:
  "month_start l 0 = 0" "month_start l 1 = 31" "month_start l 2 = (if l then 60 else 59)"
  "month_start l 3 = (if l then 91 else 90)" "month_start l 4 = (if l then 121 else 120)"
  "month_start l 5 = (if l then 152 else 151)" "month_start l 6 = (if l then 182 else 181)"
  "month_start l 7 = (if l then 213 else 212)" "month_start l 8 = (if l then 244 else 243)"
  "month_start l 9 = (if l then 274 else 273)" "month_start l 10 = (if l then 305 else 304)"
  "month_start l 11 = (if l then 335 else 334)"
  by (simp_all add: month_start_def)

lemma month_of_bounds:
  assumes "0 \<le> r" and "r < (if l then 366 else 365)"
  shows "0 \<le> month_of l r \<and> month_of l r \<le> 11 \<and>
    month_start l (month_of l r) \<le> r \<and> r \<le> month_start l (month_of l r) + 30"
  using assms unfolding month_of_def Let_def by (cases l) (simp_all split: if_split)

text \<open>\<open>MakeDay\<close>: days beyond the end of the month run on into the next ones.\<close>

definition make_day :: "int \<Rightarrow> int \<Rightarrow> int \<Rightarrow> int" where
  "make_day y m d = day_from_year y + month_start (leap_year y) m + d - 1"

record civil =
  c_year :: int
  c_month :: int
  c_day :: int

definition civil_of_day :: "int \<Rightarrow> civil" where
  "civil_of_day d =
     (let y = year_from_day d; l = leap_year y; r = d - day_from_year y; m = month_of l r
      in \<lparr>c_year = y, c_month = m, c_day = r - month_start l m + 1\<rparr>)"

lemma civil_of_day_bounds:
  "0 \<le> c_month (civil_of_day d)" "c_month (civil_of_day d) \<le> 11"
  "1 \<le> c_day (civil_of_day d)" "c_day (civil_of_day d) \<le> 31"
proof -
  let ?y = "year_from_day d"
  have "0 \<le> d - day_from_year ?y" "d - day_from_year ?y < (if leap_year ?y then 366 else 365)"
    using year_from_day_bounds [of d] day_from_year_Suc [of ?y] by linarith+
  from month_of_bounds [OF this] have b: "0 \<le> month_of (leap_year ?y) (d - day_from_year ?y)"
    "month_of (leap_year ?y) (d - day_from_year ?y) \<le> 11"
    "month_start (leap_year ?y) (month_of (leap_year ?y) (d - day_from_year ?y)) \<le> d - day_from_year ?y"
    "d - day_from_year ?y \<le> month_start (leap_year ?y) (month_of (leap_year ?y) (d - day_from_year ?y)) + 30"
    by blast+
  show "0 \<le> c_month (civil_of_day d)" "c_month (civil_of_day d) \<le> 11"
    "1 \<le> c_day (civil_of_day d)" "c_day (civil_of_day d) \<le> 31"
    using b by (simp_all add: civil_of_day_def Let_def)
qed

lemma make_day_civil:
  "make_day (c_year (civil_of_day d)) (c_month (civil_of_day d)) (c_day (civil_of_day d)) = d"
  by (simp add: make_day_def civil_of_day_def Let_def)

subsection \<open>Years of four digits\<close>

lemma year_from_day_range:
  assumes "day_from_year a \<le> d" and "d < day_from_year b"
  shows "a \<le> year_from_day d \<and> year_from_day d < b"
proof -
  have mono: "day_from_year x \<le> day_from_year y" if "x \<le> y" for x y
  proof -
    have "day_from_year x \<le> day_from_year (x + int n)" for n
    proof (induction n)
      case (Suc n)
      have e: "x + int (Suc n) = (x + int n) + 1" by simp
      show ?case unfolding e day_from_year_Suc using Suc by simp
    qed simp
    from this [of "nat (y - x)"] that show ?thesis by simp
  qed
  show ?thesis
    using year_from_day_bounds [of d] assms mono [of "year_from_day d + 1" a] mono [of b "year_from_day d"]
    by linarith
qed

subsection \<open>Fixed-width decimal fields\<close>

fun digits_n :: "nat \<Rightarrow> int \<Rightarrow> jstr" where
  "digits_n 0 x = []"
| "digits_n (Suc n) x = digits_n n (x div 10) @ [digit_unit (x mod 10)]"

lemma length_digits_n [simp]: "length (digits_n n x) = n"
  by (induction n arbitrary: x) auto

lemma digits_n_digits [simp]: "list_all is_digit (digits_n n x)"
  by (induction n arbitrary: x) auto

lemma digits_val_digits_n: "0 \<le> x \<Longrightarrow> x < 10 ^ n \<Longrightarrow> digits_val (digits_n n x) = x"
proof (induction n arbitrary: x)
  case (Suc n)
  have "x div 10 < 10 ^ n" using Suc.prems by auto
  with Suc show ?case by simp
qed (simp add: digits_val_def)

subsection \<open>toISOString and Date.parse\<close>

text \<open>
  \<open>new Date(ms).toISOString()\<close>, for a time value within the range of \<open>Date\<close>; a year
  outside 0..9999 is written with a sign and six digits.
\<close>

definition to_iso_string :: "int \<Rightarrow> jstr" where
  "to_iso_string ms =
     (let c = civil_of_day (ms div 86400000); t = ms mod 86400000; y = c_year c
      in (if 0 \<le> y \<and> y \<le> 9999 then digits_n 4 y
          else (if y < 0 then js ''-'' else js ''+'') @ digits_n 6 \<bar>y\<bar>)
         @ js ''-'' @ digits_n 2 (c_month c + 1)
         @ js ''-'' @ digits_n 2 (c_day c)
         @ js ''T'' @ digits_n 2 (t div 3600000)
         @ js '':'' @ digits_n 2 (t div 60000 mod 60)
         @ js '':'' @ digits_n 2 (t div 1000 mod 60)
         @ js ''.'' @ digits_n 3 (t mod 1000) @ js ''Z'')"

text \<open>The shape \<open>dddd-dd-ddTdd:dd:dd.dddZ\<close>.\<close>

definition iso_shape :: "jstr \<Rightarrow> bool" where
  "iso_shape s =
     (length s = 24 \<and> list_all is_digit (slice 0 4 s)
      \<and> slice 4 5 s = js ''-'' \<and> list_all is_digit (slice 5 7 s)
      \<and> slice 7 8 s = js ''-'' \<and> list_all is_digit (slice 8 10 s)
      \<and> slice 10 11 s = js ''T'' \<and> list_all is_digit (slice 11 13 s)
      \<and> slice 13 14 s = js '':'' \<and> list_all is_digit (slice 14 16 s)
      \<and> slice 16 17 s = js '':'' \<and> list_all is_digit (slice 17 19 s)
      \<and> slice 19 20 s = js ''.'' \<and> list_all is_digit (slice 20 23 s)
      \<and> slice 23 24 s = js ''Z'')"

text \<open>
  \<open>Date.parse\<close> on a string of that shape: \<open>None\<close> is \<open>NaN\<close>.  Hour 24 is the end of the
  day.  A day past the end of its month is taken as running on; engines differ there,
  and the caller's round trip rejects it either way.
\<close>

definition date_parse :: "jstr \<Rightarrow> int option" where
  "date_parse s =
     (let y = digits_val (slice 0 4 s); mo = digits_val (slice 5 7 s); d = digits_val (slice 8 10 s);
          h = digits_val (slice 11 13 s); mi = digits_val (slice 14 16 s);
          se = digits_val (slice 17 19 s); f = digits_val (slice 20 23 s)
      in if 1 \<le> mo \<and> mo \<le> 12 \<and> 1 \<le> d \<and> d \<le> 31 \<and> mi \<le> 59 \<and> se \<le> 59
            \<and> (h \<le> 23 \<or> (h = 24 \<and> mi = 0 \<and> se = 0 \<and> f = 0))
         then Some (make_day y (mo - 1) d * 86400000 + h * 3600000 + mi * 60000 + se * 1000 + f)
         else None)"

definition iso_range :: "int \<Rightarrow> bool" where
  "iso_range ms = (-62167219200000 \<le> ms \<and> ms < 253402300800000)"

lemma iso_range_year:
  assumes "iso_range ms"
  shows "0 \<le> c_year (civil_of_day (ms div 86400000))"
    and "c_year (civil_of_day (ms div 86400000)) < 10000"
proof -
  have "day_from_year 0 \<le> ms div 86400000" "ms div 86400000 < day_from_year 10000"
    using assms by (auto simp: iso_range_def day_from_year_def)
  from year_from_day_range [OF this]
  show "0 \<le> c_year (civil_of_day (ms div 86400000))"
    "c_year (civil_of_day (ms div 86400000)) < 10000"
    by (auto simp: civil_of_day_def Let_def)
qed

lemma slice_append_right [simp]:
  "length xs \<le> a \<Longrightarrow> slice a b (xs @ ys) = slice (a - length xs) (b - length xs) ys"
  by (simp add: slice_def)

lemma slice_append_left [simp]: "b \<le> length xs \<Longrightarrow> slice a b (xs @ ys) = slice a b xs"
  by (auto simp: slice_def)

lemma slice_all [simp]: "length xs \<le> b \<Longrightarrow> slice 0 b xs = xs"
  by (simp add: slice_def)

text \<open>The fields of a time within the day fit their widths.\<close>

lemma day_fields:
  fixes t :: int
  assumes "0 \<le> t" and "t < 86400000"
  shows "0 \<le> t div 3600000" "t div 3600000 \<le> 23"
    and "t div 3600000 * 3600000 + t div 60000 mod 60 * 60000 + t div 1000 mod 60 * 1000 + t mod 1000 = t"
proof -
  show "0 \<le> t div 3600000" using assms by simp
  have "t div 3600000 * 3600000 + t mod 3600000 = t" by simp
  moreover have "0 \<le> t mod 3600000" by simp
  ultimately show "t div 3600000 \<le> 23" using assms by linarith
  have "t = t div 1000 * 1000 + t mod 1000" by simp
  moreover have "t div 1000 = t div 60000 * 60 + t div 1000 mod 60"
    using div_mult_mod_eq [of "t div 1000" 60] by (simp flip: zdiv_zmult2_eq)
  moreover have "t div 60000 = t div 3600000 * 60 + t div 60000 mod 60"
    using div_mult_mod_eq [of "t div 60000" 60] by (simp flip: zdiv_zmult2_eq)
  ultimately show "t div 3600000 * 3600000 + t div 60000 mod 60 * 60000 + t div 1000 mod 60 * 1000
      + t mod 1000 = t"
    by linarith
qed

text \<open>Writing a time in the four-digit years and parsing it again gives the time back.\<close>

lemma date_parse_to_iso:
  assumes "iso_range ms"
  shows "iso_shape (to_iso_string ms) \<and> date_parse (to_iso_string ms) = Some ms"
proof -
  define D where "D = ms div 86400000"
  define t where "t = ms mod 86400000"
  define y where "y = c_year (civil_of_day D)"
  define mo where "mo = c_month (civil_of_day D)"
  define d where "d = c_day (civil_of_day D)"
  have y: "0 \<le> y" "y < 10 ^ 4" "y \<le> 9999"
    using iso_range_year [OF assms] by (simp_all add: y_def D_def)
  have mo: "0 \<le> mo" "mo \<le> 11" and d: "1 \<le> d" "d \<le> 31"
    using civil_of_day_bounds [of D] by (simp_all add: mo_def d_def)
  have t: "0 \<le> t" "t < 86400000" by (simp_all add: t_def)
  note f = day_fields [OF t]
  have s: "to_iso_string ms = digits_n 4 y @ js ''-'' @ digits_n 2 (mo + 1) @ js ''-'' @ digits_n 2 d
      @ js ''T'' @ digits_n 2 (t div 3600000) @ js '':'' @ digits_n 2 (t div 60000 mod 60)
      @ js '':'' @ digits_n 2 (t div 1000 mod 60) @ js ''.'' @ digits_n 3 (t mod 1000) @ js ''Z''"
    using y by (simp add: to_iso_string_def Let_def y_def mo_def d_def t_def D_def)
  have c: "t div 60000 mod 60 \<le> 59" "t div 1000 mod 60 \<le> 59"
    using pos_mod_bound [of 60 "t div 60000"] pos_mod_bound [of 60 "t div 1000"] by linarith+
  have b: "t mod 1000 < 10 ^ 3" by simp
  have v4: "digits_val (digits_n 4 y) = y"
    using y(1,2) by (rule digits_val_digits_n)
  have v2: "digits_val (digits_n 2 x) = x" if "0 \<le> x" "x \<le> 99" for x
    by (rule digits_val_digits_n) (use that in simp_all)
  have v3: "digits_val (digits_n 3 (t mod 1000)) = t mod 1000"
    by (rule digits_val_digits_n [OF _ b]) simp
  have v: "digits_val (digits_n 2 (mo + 1)) = mo + 1" "digits_val (digits_n 2 d) = d"
    using mo d by (auto intro!: v2)
  have vt: "digits_val (digits_n 2 (t div 3600000)) = t div 3600000"
    by (rule v2) (use f(1,2) in linarith)+
  have vm: "digits_val (digits_n 2 (t div 60000 mod 60)) = t div 60000 mod 60"
    "digits_val (digits_n 2 (t div 1000 mod 60)) = t div 1000 mod 60"
    by (rule v2 [OF pos_mod_sign]; use c in linarith)+
  have "make_day y mo d = D"
    by (simp add: y_def mo_def d_def make_day_civil)
  moreover have "D * 86400000 + t = ms" by (simp add: D_def t_def)
  ultimately have sum: "make_day y (mo + 1 - 1) d * 86400000 + t div 3600000 * 3600000
      + t div 60000 mod 60 * 60000 + t div 1000 mod 60 * 1000 + t mod 1000 = ms"
    using f(3) by simp
  have sl: "slice 0 4 (to_iso_string ms) = digits_n 4 y"
    "slice 5 7 (to_iso_string ms) = digits_n 2 (mo + 1)" "slice 8 10 (to_iso_string ms) = digits_n 2 d"
    "slice 11 13 (to_iso_string ms) = digits_n 2 (t div 3600000)"
    "slice 14 16 (to_iso_string ms) = digits_n 2 (t div 60000 mod 60)"
    "slice 17 19 (to_iso_string ms) = digits_n 2 (t div 1000 mod 60)"
    "slice 20 23 (to_iso_string ms) = digits_n 3 (t mod 1000)"
    unfolding s by simp_all
  have "date_parse (to_iso_string ms) = Some ms"
    unfolding date_parse_def sl v v3 v4 vt vm Let_def sum
    using mo d f(2) c by (simp only: if_True) simp
  moreover have "iso_shape (to_iso_string ms)"
    unfolding iso_shape_def sl unfolding s by simp
  ultimately show ?thesis by blast
qed

end
