(* ===== verification/Validate.thy ===== *)
theory Validate
  imports Crypto Js_Date
begin

text \<open>
  Field validators (\<open>src/validate.ts\<close>).  Proved: \<open>parseIso\<close> and \<open>toIso\<close> are inverse
  to each other on the four-digit years, so two accepted timestamps are equal strings
  exactly when they are equal instants; an accepted price is a finite number between 0
  and 99999999 whatever its digits.
\<close>

text \<open>\<open>ISO_RE\<close> is \<open>iso_shape\<close> of \<open>Js_Date\<close>; \<open>NaN\<close> is \<open>None\<close> of \<open>date_parse\<close>.\<close>

definition parseIso :: "jsval \<Rightarrow> int option" where
  "parseIso v = (case v of
     JStr s \<Rightarrow> if \<not> iso_shape s then None
        else (case date_parse s of
                None \<Rightarrow> None
              | Some ms \<Rightarrow> if to_iso_string ms \<noteq> s then None else Some ms)
   | _ \<Rightarrow> None)"

definition toIso :: "int \<Rightarrow> jstr" where
  "toIso ms = to_iso_string ms"

text \<open>\<open>PRICE_RE\<close>: \<open>(0|[1-9]d*)(.d+)?\<close>, anchored at both ends.\<close>

definition PRICE_RE :: "jstr \<Rightarrow> bool" where
  "PRICE_RE s =
     (let ip = takeWhile is_digit s; r = dropWhile is_digit s
      in ip \<noteq> [] \<and> (ip = js ''0'' \<or> take 1 ip \<noteq> js ''0'')
         \<and> (r = [] \<or> (take 1 r = js ''.'' \<and> drop 1 r \<noteq> [] \<and> list_all is_digit (drop 1 r))))"

definition isValidPrice :: "jsval \<Rightarrow> bool" where
  "isValidPrice v = (case v of JStr s \<Rightarrow> length s \<le> 8 \<and> PRICE_RE s | _ \<Rightarrow> False)"

definition OFFER_KEY_RE :: "jstr \<Rightarrow> bool" where
  "OFFER_KEY_RE s = (length s = 20 \<and> list_all is_lower_hex s)"

definition isAddress :: "jsval \<Rightarrow> bool" where
  "isAddress v = (case v of JStr s \<Rightarrow> ADDRESS_RE s | _ \<Rightarrow> False)"

definition isHash :: "jsval \<Rightarrow> bool" where
  "isHash v = (case v of JStr s \<Rightarrow> HASH_RE s | _ \<Rightarrow> False)"

definition isPlainObject :: "jsval \<Rightarrow> bool" where
  "isPlainObject v = (case v of JObj _ \<Rightarrow> True | JInst _ \<Rightarrow> True | _ \<Rightarrow> False)"

definition isEnvelope :: "jsval \<Rightarrow> bool" where
  "isEnvelope v =
     (isPlainObject v \<and> isPlainObject (field v ''payload'')
      \<and> (case field v ''signature'' of JStr s \<Rightarrow> SIG_RE s | _ \<Rightarrow> False))"

definition isPosInt :: "jsval \<Rightarrow> bool" where
  "isPosInt v = (case v of JNum x \<Rightarrow> is_integer x \<and> num_lt (Fin 0) x | _ \<Rightarrow> False)"

text \<open>The integer a number that passed \<open>Number.isInteger\<close> denotes.\<close>

definition int_of :: "jsval \<Rightarrow> int" where
  "int_of v = (case v of JNum (Fin r) \<Rightarrow> \<lfloor>r\<rfloor> | _ \<Rightarrow> 0)"

lemma isPosInt_iff: "isPosInt v \<longleftrightarrow> (\<exists>n > 0. v = num_of_int n)"
proof
  assume "isPosInt v"
  then obtain r where r: "v = JNum (Fin r)" "of_int \<lfloor>r\<rfloor> = r" "0 < r"
    by (auto simp: isPosInt_def is_integer_def num_lt_def split: jsval.splits jsnum.splits)
  have "v = num_of_int \<lfloor>r\<rfloor>" unfolding num_of_int_def r(2) by (rule r(1))
  moreover have "0 < \<lfloor>r\<rfloor>" using r(2,3) by (metis of_int_0_less_iff)
  ultimately show "\<exists>n > 0. v = num_of_int n" by blast
next
  assume "\<exists>n > 0. v = num_of_int n"
  then show "isPosInt v"
    by (auto simp: isPosInt_def is_integer_def num_lt_def num_of_int_def)
qed

subsection \<open>Timestamps\<close>

lemma parseIso_toIso: "iso_range ms \<Longrightarrow> parseIso (JStr (toIso ms)) = Some ms"
  using date_parse_to_iso [of ms] by (simp add: parseIso_def toIso_def)

lemma parseIso_Some_iff:
  "parseIso v = Some ms \<longleftrightarrow> v = JStr (toIso ms) \<and> iso_shape (toIso ms) \<and> date_parse (toIso ms) = Some ms"
proof (cases v)
  case (JStr s)
  have "parseIso v = Some ms \<longleftrightarrow> iso_shape s \<and> date_parse s = Some ms \<and> to_iso_string ms = s"
    unfolding JStr parseIso_def jsval.case by (auto split: option.split)
  then show ?thesis unfolding JStr toIso_def jsval.inject by metis
qed (simp_all add: parseIso_def)

subsection \<open>Prices\<close>

lemma digit_not_space: "is_digit u \<or> u = 46 \<Longrightarrow> \<not> is_js_space u"
proof -
  assume "is_digit u \<or> u = 46"
  then have "46 \<le> uint u" "uint u \<le> 57"
    by (auto simp: is_digit_def word_le_def)
  then show "\<not> is_js_space u"
    by (auto simp: is_js_space_def word_le_def)
qed

lemma js_trim_id: "list_all (\<lambda>u. \<not> is_js_space u) s \<Longrightarrow> js_trim s = s"
proof -
  assume s: "list_all (\<lambda>u. \<not> is_js_space u) s"
  have id: "dropWhile is_js_space xs = xs" if "list_all (\<lambda>u. \<not> is_js_space u) xs" for xs
    using that by (cases xs) auto
  show ?thesis
    using id [OF s] id [of "rev s"] s by (simp add: js_trim_def list_all_rev)
qed

lemma takeWhile_digits: "list_all is_digit (takeWhile is_digit s)"
  by (induction s) auto

text \<open>The exact decimal value of a string of the shape \<open>d+\<close> or \<open>d+.d+\<close>.\<close>

definition dec_value :: "jstr \<Rightarrow> rat" where
  "dec_value s =
     (let ip = takeWhile is_digit s; fp = drop 1 (dropWhile is_digit s)
      in of_int (digits_val (ip @ fp)) / 10 ^ length fp)"

definition decimal_shape :: "jstr \<Rightarrow> bool" where
  "decimal_shape s =
     (let ip = takeWhile is_digit s; r = dropWhile is_digit s
      in ip \<noteq> [] \<and> (r = [] \<or> (take 1 r = js ''.'' \<and> drop 1 r \<noteq> [] \<and> list_all is_digit (drop 1 r))))"

lemma PRICE_RE_decimal: "PRICE_RE s \<Longrightarrow> decimal_shape s"
  by (auto simp: PRICE_RE_def decimal_shape_def Let_def)

lemma dec_unsigned_decimal:
  assumes "decimal_shape s"
  shows "dec_unsigned s = Some (dec_value s)"
proof -
  define ip r where "ip = takeWhile is_digit s" and "r = dropWhile is_digit s"
  note d = assms [unfolded decimal_shape_def Let_def, folded ip_def r_def]
  consider "r = []" | "take 1 r = js ''.''" "drop 1 r \<noteq> []" "list_all is_digit (drop 1 r)"
    using d by blast
  then show ?thesis
  proof cases
    case 1
    then show ?thesis
      using d unfolding dec_unsigned_def dec_value_def Let_def ip_def [symmetric] r_def [symmetric]
      by (simp add: exp_part_def)
  next
    case 2
    define fp where "fp = drop 1 r"
    note f = 2 [folded fp_def]
    have t: "takeWhile is_digit fp = fp" "dropWhile is_digit fp = []"
      using f(3) by (simp_all add: list_all_iff takeWhile_eq_all_conv)
    show ?thesis
      using d f(1) unfolding dec_unsigned_def dec_value_def Let_def ip_def [symmetric] r_def [symmetric]
        fp_def [symmetric] t
      by (simp add: exp_part_def power_int_minus divide_inverse power_int_of_nat)
  qed
qed


lemma dec_signed_decimal:
  assumes "decimal_shape s"
  shows "dec_signed s = Some (fl (dec_value s))"
proof -
  obtain u us where s: "s = u # us" "is_digit u"
    using assms by (cases s) (auto simp: decimal_shape_def Let_def split: if_splits)
  have "u \<noteq> 45" "u \<noteq> 43" "u \<noteq> 73"
    using s(2) by (auto simp: is_digit_def word_le_def)
  then have "take 1 s \<noteq> js ''-''" "take 1 s \<noteq> js ''+''" "s \<noteq> js ''Infinity''"
    unfolding s by (auto simp: js_def of_char_def)
  then show ?thesis
    by (simp add: dec_signed_def dec_unsigned_decimal [OF assms])
qed

lemma decimal_units:
  assumes "decimal_shape s" and "u \<in> set s"
  shows "is_digit u \<or> u = 46"
proof -
  define ip r where "ip = takeWhile is_digit s" and "r = dropWhile is_digit s"
  note d = assms(1) [unfolded decimal_shape_def Let_def, folded ip_def r_def]
  have s: "set s = set ip \<union> set r"
    unfolding ip_def r_def by (metis set_append takeWhile_dropWhile_id)
  have "set r \<subseteq> set (take 1 r) \<union> set (drop 1 r)"
    by (metis append_take_drop_id order_refl set_append)
  moreover have "set (take 1 r) \<subseteq> {46}" "list_all is_digit (drop 1 r)"
    using d by (auto simp: js_def of_char_def)
  moreover have "list_all is_digit ip" unfolding ip_def by (rule takeWhile_digits)
  ultimately show ?thesis
    using assms(2) unfolding s list_all_iff by auto
qed

lemma js_number_decimal:
  assumes "decimal_shape s"
  shows "js_number s = fl (dec_value s)"
proof -
  have t: "js_trim s = s"
    by (rule js_trim_id) (use decimal_units [OF assms] digit_not_space in \<open>auto simp: list_all_iff\<close>)
  have ne: "s \<noteq> []" using assms by (auto simp: decimal_shape_def)
  have "c \<in> {CHR ''x'', CHR ''X'', CHR ''o'', CHR ''O'', CHR ''b'', CHR ''B''} \<Longrightarrow>
      take 2 s \<noteq> js [CHR ''0'', c]" for c
  proof
    assume c: "c \<in> {CHR ''x'', CHR ''X'', CHR ''o'', CHR ''O'', CHR ''b'', CHR ''B''}"
      and e: "take 2 s = js [CHR ''0'', c]"
    have "of_char c \<in> set (take 2 s)" unfolding e by (simp add: js_def)
    then have "of_char c \<in> set s" by (rule in_set_takeD)
    from decimal_units [OF assms this] show False
      using c by (auto simp: is_digit_def word_le_def of_char_def)
  qed
  then show ?thesis
    by (simp add: js_number_def t ne dec_signed_decimal [OF assms])
qed

text \<open>An integer part of at most eight digits, so at most 99999999 with any fraction.\<close>

lemma dec_value_bounds:
  assumes "decimal_shape s" and "length s \<le> 8"
  shows "0 \<le> dec_value s" and "dec_value s \<le> 99999999"
proof -
  define ip r where "ip = takeWhile is_digit s" and "r = dropWhile is_digit s"
  define fp where "fp = drop 1 r"
  note d = assms(1) [unfolded decimal_shape_def Let_def, folded ip_def r_def, folded fp_def]
  have dv: "dec_value s = of_int (digits_val (ip @ fp)) / 10 ^ length fp"
    by (simp add: dec_value_def Let_def ip_def r_def fp_def)
  have "list_all is_digit (ip @ fp)"
    using takeWhile_digits [of s] d by (auto simp: ip_def fp_def)
  then have v: "0 \<le> digits_val (ip @ fp)" "digits_val (ip @ fp) < 10 ^ length (ip @ fp)"
    using digits_val_bounds by blast+
  have "length ip + length r = length s"
    unfolding ip_def r_def by (metis length_append takeWhile_dropWhile_id)
  then have l: "length ip + length fp \<le> 8" "length ip \<le> 8"
    using assms(2) by (auto simp: fp_def)
  show "0 \<le> dec_value s" unfolding dv using v(1) by simp
  show "dec_value s \<le> 99999999"
  proof (cases "fp = []")
    case True
    have "(10 :: int) ^ length ip \<le> 10 ^ 8" using l(2) by (rule power_increasing) simp
    then have "digits_val (ip @ fp) \<le> 99999999" using v(2) True by simp
    then show ?thesis unfolding dv True by simp
  next
    case False
    then have l7: "length ip + length fp \<le> 7"
      using \<open>length ip + length r = length s\<close> assms(2) by (cases r) (auto simp: fp_def)
    have "(10 :: int) ^ length (ip @ fp) \<le> 10 ^ 7" using l7 by (intro power_increasing) auto
    then have "digits_val (ip @ fp) \<le> 99999999" using v(2) by simp
    then have a: "(of_int (digits_val (ip @ fp)) :: rat) \<le> 99999999" by simp
    have "(0 :: rat) \<le> of_int (digits_val (ip @ fp))" using v(1) by simp
    from mult_left_mono [OF one_le_power this, of 10 "length fp"]
    have "(of_int (digits_val (ip @ fp)) :: rat) \<le> of_int (digits_val (ip @ fp)) * 10 ^ length fp"
      by simp
    then have "of_int (digits_val (ip @ fp)) / 10 ^ length fp \<le> (of_int (digits_val (ip @ fp)) :: rat)"
      by (simp add: divide_le_eq)
    with a show ?thesis unfolding dv by simp
  qed
qed

lemma fl_between_ints:
  assumes "of_int a \<le> x" and "x \<le> of_int b" and "\<bar>a\<bar> \<le> 2 ^ 53" and "\<bar>b\<bar> \<le> 2 ^ 53"
  shows "\<exists>r. fl x = Fin r \<and> of_int a \<le> r \<and> r \<le> of_int b"
proof -
  have 1: "of_int a \<le> fl_val x" "fl_val x \<le> of_int b"
    using fl_val_mono [OF assms(1)] fl_val_mono [OF assms(2)] assms(3,4)
    by (simp_all add: fl_val_of_int)
  moreover have "- (2 ^ 53) \<le> (of_int a :: rat)" "(of_int b :: rat) \<le> 2 ^ 53"
    using of_int_abs_bound [OF assms(3)] of_int_abs_bound [OF assms(4)] by linarith+
  moreover have "(2 :: rat) ^ 53 < 2 ^ 1024" by (rule power_strict_increasing) simp_all
  ultimately have "\<not> fl_val x \<ge> 2 ^ 1024" "\<not> fl_val x \<le> - (2 ^ 1024)" by linarith+
  with 1 show ?thesis by (simp add: fl_def Let_def)
qed

lemma isValidPrice_value:
  assumes "isValidPrice v"
  shows "\<exists>s r. v = JStr s \<and> js_number s = Fin r \<and> 0 \<le> r \<and> r \<le> 99999999"
proof -
  obtain s where s: "v = JStr s" "length s \<le> 8" "PRICE_RE s"
    using assms by (auto simp: isValidPrice_def split: jsval.splits)
  note d = PRICE_RE_decimal [OF s(3)]
  have "\<exists>r. fl (dec_value s) = Fin r \<and> of_int 0 \<le> r \<and> r \<le> of_int 99999999"
    by (rule fl_between_ints) (use dec_value_bounds [OF d s(2)] in simp_all)
  then show ?thesis using s(1) by (simp add: js_number_decimal [OF d])
qed

end
