(* ===== verification/Config.thy ===== *)
theory Config
  imports Validate
begin

text \<open>
  Service configuration (\<open>src/config.ts\<close>).  The numeric settings are integers; the
  settings of the deployment (URLs, keys, the web directory) do not reach the
  protocol's logic and are left out, except the service key.  \<open>load_config\<close> fails, as
  the module's initialisation does, when the chain does not split evenly.
\<close>

type_synonym env = "string \<Rightarrow> jstr option"

text \<open>\<open>num\<close>: an unset or empty variable gives the default.\<close>

definition num :: "env \<Rightarrow> string \<Rightarrow> int \<Rightarrow> jsnum" where
  "num env name def =
     (case env name of None \<Rightarrow> Fin (of_int def) | Some v \<Rightarrow>
        if v = [] then Fin (of_int def) else js_number v)"

record config =
  port :: int
  serviceKeyIsDev :: bool
  chainLen :: int
  checkpoints :: int
  samples :: int
  challengeTtlMs :: int
  maxLaneMs :: int
  maxWorkers :: int
  attestationTtlMs :: int
  templateMaxAheadMs :: int
  termsMaxValidityMs :: int
  availMaxValidityMs :: int
  signedAtMaxFutureMs :: int
  offerCapPerProvider :: int
  heartbeatMin :: int
  heartbeatMax :: int
  livenessTtlMs :: int
  statsTtlMs :: int
  statsSampleMs :: int
  statsRetentionDays :: int
  queryMaxCandidates :: int
  queryDefaultLimit :: int
  queryMaxLimit :: int
  providersDefaultLimit :: int
  providersMaxLimit :: int

text \<open>Rate limits: requests, and the window in milliseconds.\<close>

definition rl_templatePerProvider :: "int \<times> int" where "rl_templatePerProvider = (20, 3600000)"
definition rl_availPerOffer :: "int \<times> int" where "rl_availPerOffer = (10, 60000)"
definition rl_profilePerProvider :: "int \<times> int" where "rl_profilePerProvider = (6, 3600000)"
definition rl_challengePerProvider :: "int \<times> int" where "rl_challengePerProvider = (4, 86400000)"
definition rl_challengePerIp :: "int \<times> int" where "rl_challengePerIp = (20, 86400000)"
definition rl_registrationPerIp :: "int \<times> int" where "rl_registrationPerIp = (30, 3600000)"
definition rl_queryPerIp :: "int \<times> int" where "rl_queryPerIp = (600, 60000)"
definition rl_livenessPerIp :: "int \<times> int" where "rl_livenessPerIp = (60, 60000)"

text \<open>
  The settings as integers: \<open>None\<close> when a variable is not an integer (the source would
  carry the \<open>NaN\<close> or the fraction along; a deployment that sets one is outside this
  model), or when the chain length is not divisible by the number of checkpoints (the
  remainder by zero is \<open>NaN\<close>, which is not zero).
\<close>

definition int_setting :: "env \<Rightarrow> string \<Rightarrow> int \<Rightarrow> int option" where
  "int_setting env name def =
     (case num env name def of Fin r \<Rightarrow> (if of_int \<lfloor>r\<rfloor> = r then Some \<lfloor>r\<rfloor> else None) | _ \<Rightarrow> None)"

definition load_config :: "env \<Rightarrow> config option" where
  "load_config env =
     Option.bind (int_setting env ''PORT'' 8080) (\<lambda>p.
     Option.bind (int_setting env ''ATLAS_CHAIN_LEN'' 1048576) (\<lambda>L.
     Option.bind (int_setting env ''ATLAS_CHECKPOINTS'' 1024) (\<lambda>C.
     Option.bind (int_setting env ''ATLAS_SAMPLES'' 16) (\<lambda>K.
     Option.bind (int_setting env ''ATLAS_CHALLENGE_TTL_MS'' (5 * 60000)) (\<lambda>cttl.
     Option.bind (int_setting env ''ATLAS_MAX_LANE_MS'' 120000) (\<lambda>lane.
     Option.bind (int_setting env ''ATLAS_ATTESTATION_TTL_DAYS'' 30) (\<lambda>adays.
     Option.bind (int_setting env ''ATLAS_OFFER_CAP'' 50) (\<lambda>cap.
     Option.bind (int_setting env ''ATLAS_LIVENESS_TTL_MS'' 1000) (\<lambda>lttl.
     Option.bind (int_setting env ''ATLAS_STATS_TTL_MS'' 2000) (\<lambda>sttl.
     Option.bind (int_setting env ''ATLAS_STATS_SAMPLE_MS'' 60000) (\<lambda>ssmp.
     Option.bind (int_setting env ''ATLAS_STATS_RETENTION_DAYS'' 90) (\<lambda>sret.
     if C = 0 \<or> L mod C \<noteq> 0 then None
     else Some \<lparr>
       port = p,
       serviceKeyIsDev = (case env ''ATLAS_SERVICE_PRIVKEY'' of None \<Rightarrow> True | Some k \<Rightarrow> k = []),
       chainLen = L, checkpoints = C, samples = K,
       challengeTtlMs = cttl, maxLaneMs = lane, maxWorkers = 256,
       attestationTtlMs = adays * 86400000,
       templateMaxAheadMs = 180 * 86400000,
       termsMaxValidityMs = 3600000,
       availMaxValidityMs = 3600000,
       signedAtMaxFutureMs = 120000,
       offerCapPerProvider = cap,
       heartbeatMin = 15, heartbeatMax = 900,
       livenessTtlMs = lttl, statsTtlMs = sttl,
       statsSampleMs = ssmp, statsRetentionDays = sret,
       queryMaxCandidates = 1000, queryDefaultLimit = 20, queryMaxLimit = 100,
       providersDefaultLimit = 50, providersMaxLimit = 200\<rparr>))))))))))))"

text \<open>What the handlers rely on: an evenly split chain and positive bounds.\<close>

definition config_ok :: "config \<Rightarrow> bool" where
  "config_ok c =
     (checkpoints c > 0 \<and> chainLen c > 0 \<and> chainLen c mod checkpoints c = 0 \<and> samples c \<ge> 0
      \<and> challengeTtlMs c > 0 \<and> maxLaneMs c > 0 \<and> offerCapPerProvider c > 0)"

definition default_config :: config where
  "default_config = (case load_config (\<lambda>_. None) of Some c \<Rightarrow> c | None \<Rightarrow> undefined)"

lemma load_default: "load_config (\<lambda>_. None) = Some default_config"
  by (simp add: default_config_def load_config_def int_setting_def num_def)

lemma load_config_fixed:
  assumes "load_config env = Some c"
  shows "checkpoints c \<noteq> 0" "chainLen c mod checkpoints c = 0"
    "termsMaxValidityMs c = 3600000" "availMaxValidityMs c = 3600000"
    "templateMaxAheadMs c = 180 * 86400000" "signedAtMaxFutureMs c = 120000"
    "maxWorkers c = 256" "queryMaxCandidates c = 1000" "queryMaxLimit c = 100"
  using assms unfolding load_config_def
  by (auto simp: Option.bind_eq_Some_conv split: if_splits)

end
