(* ===== verification/Http.thy ===== *)
theory Http
  imports Validate
begin

text \<open>
  Shared request plumbing (\<open>src/http.ts\<close>): the verification every provider write goes
  through, the envelope shape of reads, and the conversion of hashes to the bytes the
  database keys on.  A request body is the value it parses to, or \<open>None\<close> when it is not
  JSON.  Proved: a write is accepted exactly when the signer named in the payload signed
  it, so an accepted write authenticates its provider.
\<close>

record VerifiedWrite =
  payload :: jsval
  signature :: jstr
  hash :: jstr
  signer :: jstr

text \<open>
  \<open>toLowerCase\<close> on the ASCII letters.  It is only compared with an address, and no other
  character lowers to a hexadecimal digit or to \<open>x\<close>.
\<close>

definition toLowerCase :: "jstr \<Rightarrow> jstr" where
  "toLowerCase s = map (\<lambda>u. if 65 \<le> u \<and> u \<le> 90 then u + 32 else u) s"

definition readEnvelope :: "noble \<Rightarrow> jsval option \<Rightarrow> string \<Rightarrow> thrown + VerifiedWrite" where
  "readEnvelope N req_json expectedType =
     (case req_json of
        None \<Rightarrow> Inl (err VALIDATION)
      | Some b \<Rightarrow>
          if \<not> isEnvelope b then Inl (err VALIDATION)
          else let p = field b ''payload''; sig = (case field b ''signature'' of JStr s \<Rightarrow> s | _ \<Rightarrow> [])
            in if field p ''type'' \<noteq> JStr (js expectedType) then Inl (err_field VALIDATION ''type'')
               else case jcs p of
                 Inl _ \<Rightarrow> Inl (err VALIDATION)
               | Inr _ \<Rightarrow>
                   seqR (recoverSigner N p sig) (\<lambda>rec.
                   case rec of
                     None \<Rightarrow> Inl (err SIG_MISMATCH)
                   | Some who \<Rightarrow>
                       (case field p ''providerId'' of
                          JStr pid \<Rightarrow>
                            if who \<noteq> toLowerCase pid then Inl (err SIG_MISMATCH)
                            else (case payloadHash N p of
                                    Inl _ \<Rightarrow> Inl Uncaught
                                  | Inr h \<Rightarrow> Inr \<lparr>payload = p, signature = sig, hash = h, signer = who\<rparr>)
                        | _ \<Rightarrow> Inl (err SIG_MISMATCH))))"

text \<open>A receipt time: the string a cache kept, or the \<open>Date\<close> a row holds.\<close>

datatype received = IsoString jstr | DateMs int

definition envelopeOut :: "noble \<Rightarrow> jsval \<Rightarrow> jstr \<Rightarrow> received \<Rightarrow> thrown + jsval" where
  "envelopeOut N p sig receivedAt =
     (case payloadHash N p of
        Inl _ \<Rightarrow> Inl Uncaught
      | Inr h \<Rightarrow> Inr (JObj
          [(js ''envelope'', JObj [(js ''payload'', p), (js ''signature'', JStr sig)]),
           (js ''meta'', JObj
              [(js ''hash'', JStr h),
               (js ''receivedAt'', JStr (case receivedAt of DateMs d \<Rightarrow> toIso d | IsoString s \<Rightarrow> s))])]))"

text \<open>\<open>Buffer.from(s, 'hex')\<close> stops at the first pair that is not two digits.\<close>

fun buffer_from_hex :: "jstr \<Rightarrow> bytes" where
  "buffer_from_hex (u # v # us) =
     (case (hex_val u, hex_val v) of
        (Some a, Some b) \<Rightarrow> of_int (16 * a + b) # buffer_from_hex us
      | _ \<Rightarrow> [])"
| "buffer_from_hex _ = []"

definition hexToBuf :: "jstr \<Rightarrow> bytes" where
  "hexToBuf hash0x = buffer_from_hex (slice_from 2 hash0x)"

definition bufToHex :: "bytes \<Rightarrow> jstr" where
  "bufToHex b = ox (hex_of b)"

subsection \<open>Database keys\<close>

lemma buffer_from_hex_of [simp]: "buffer_from_hex (hex_of b) = b"
  by (induction b) (simp_all add: hex_of_def hex_byte_def byte_nibbles del: of_int_add of_int_mult)

lemma hexToBuf_bufToHex [simp]: "hexToBuf (bufToHex b) = b"
  by (simp add: hexToBuf_def bufToHex_def)

lemma lower_hex_byte:
  assumes "is_lower_hex u" and "is_lower_hex v"
  shows "\<exists>b. hex_byte b = [u, v]"
proof -
  have n: "\<exists>d. 0 \<le> d \<and> d < 16 \<and> u = hex_unit d" if "is_lower_hex u" for u
  proof -
    have r: "uint u \<in> {48..57} \<union> {97..102}"
      using that by (auto simp: is_lower_hex_def word_le_def)
    define d where "d = (if uint u < 58 then uint u - 48 else uint u - 87)"
    have "0 \<le> d" "d < 16" using r by (auto simp: d_def)
    moreover have "uint (hex_unit d) = uint u"
      using r by (auto simp: d_def uint_hex_unit)
    ultimately show ?thesis by (metis word_uint_eqI)
  qed
  obtain c d where cd: "0 \<le> c" "c < 16" "u = hex_unit c" "0 \<le> d" "d < 16" "v = hex_unit d"
    using n [OF assms(1)] n [OF assms(2)] by blast
  have "uint (of_int (16 * c + d) :: 8 word) = 16 * c + d"
    unfolding uint_word_of_int by (rule mod_pos_pos_trivial) (use cd in simp_all)
  then have "hex_byte (of_int (16 * c + d)) = [u, v]"
    using cd by (simp add: hex_byte_def)
  then show ?thesis by blast
qed

lemma lower_hex_bytes: "list_all is_lower_hex s \<Longrightarrow> even (length s) \<Longrightarrow> \<exists>b. s = hex_of b"
proof (induction s rule: unhex.induct)
  case 1
  then show ?case by (metis concat.simps(1) hex_of_def list.simps(8))
next
  case (3 u v us)
  then obtain bs where "us = hex_of bs"
    using unhex_total [of us] unhex_hex_of by (auto simp: list_all_iff)
  moreover obtain b where "hex_byte b = [u, v]"
    using 3 lower_hex_byte by auto
  ultimately have "u # v # us = hex_of (b # bs)"
    by (simp add: hex_of_def)
  then show ?case ..
qed simp

lemma HASH_RE_bytes: "HASH_RE s \<Longrightarrow> \<exists>b. s = bufToHex b \<and> length b = 32"
proof -
  assume s: "HASH_RE s"
  then obtain b where b: "drop 2 s = hex_of b"
    using lower_hex_bytes [of "drop 2 s"] by (auto simp: HASH_RE_def)
  have "s = bufToHex b"
    using s b unfolding HASH_RE_def bufToHex_def ox_def by (metis append_take_drop_id)
  moreover from this have "length s = 2 + 2 * length b" by (simp add: bufToHex_def)
  then have "length b = 32" using s by (simp add: HASH_RE_def)
  ultimately show ?thesis by blast
qed

lemma hexToBuf_inject: "HASH_RE s \<Longrightarrow> HASH_RE t \<Longrightarrow> hexToBuf s = hexToBuf t \<longleftrightarrow> s = t"
  by (metis HASH_RE_bytes hexToBuf_bufToHex)

subsection \<open>Accepted writes\<close>

lemma readEnvelope_ok:
  assumes "readEnvelope N req e = Inr w"
  obtains b pid where "req = Some b" "isEnvelope b" "payload w = field b ''payload''"
    "field b ''signature'' = JStr (signature w)" "field (payload w) ''type'' = JStr (js e)"
    "is_ok (jcs (payload w))" "recoverSigner N (payload w) (signature w) = Inr (Some (signer w))"
    "field (payload w) ''providerId'' = JStr pid" "signer w = toLowerCase pid"
    "payloadHash N (payload w) = Inr (hash w)" "SIG_RE (signature w)"
proof -
  obtain b where b: "req = Some b" "isEnvelope b"
    using assms by (auto simp: readEnvelope_def split: option.splits if_splits)
  obtain s where s: "field b ''signature'' = JStr s" "SIG_RE s"
    using b(2) by (auto simp: isEnvelope_def split: jsval.splits)
  have r: "readEnvelope N req e = Inr w"  by (rule assms)
  let ?p = "field b ''payload''"
  have t: "field ?p ''type'' = JStr (js e)"
    using r b s by (auto simp: readEnvelope_def Let_def split: if_splits)
  obtain c where c: "jcs ?p = Inr c"
    using r b s t by (cases "jcs ?p") (auto simp: readEnvelope_def Let_def)
  obtain who where g: "recoverSigner N ?p s = Inr (Some who)"
    using r b s t c by (auto simp: readEnvelope_def Let_def seqR_Inr_iff split: option.splits)
  obtain pid where p: "field ?p ''providerId'' = JStr pid" "who = toLowerCase pid"
    using r b s t c g by (cases "field ?p ''providerId''") (auto simp: readEnvelope_def Let_def split: if_splits)
  obtain h where h: "payloadHash N ?p = Inr h"
    using r b s t c g p by (cases "payloadHash N ?p") (auto simp: readEnvelope_def Let_def)
  have w: "w = \<lparr>payload = ?p, signature = s, hash = h, signer = who\<rparr>"
    using r b s t c g p h by (simp add: readEnvelope_def Let_def)
  show thesis
    by (rule that [of b pid]) (use w b s t c g p h in \<open>simp_all add: is_ok_def\<close>)
qed

lemma readEnvelope_signer_shape:
  "noble_ok N \<Longrightarrow> readEnvelope N req e = Inr w \<Longrightarrow> ADDRESS_RE (signer w) \<and> HASH_RE (hash w)"
  by (metis readEnvelope_ok recoverSigner_shape payloadHash_shape)

text \<open>What an honest client sends is accepted, and names the client as its signer.\<close>

lemma lower_hex_toLowerCase: "list_all is_lower_hex s \<Longrightarrow> toLowerCase (ox s) = ox s"
  by (induction s) (auto simp: toLowerCase_def ox_def js_def of_char_def is_lower_hex_def word_le_def)

lemma toLowerCase_address: "ADDRESS_RE a \<Longrightarrow> toLowerCase a = a"
proof -
  assume a: "ADDRESS_RE a"
  then have "a = ox (drop 2 a)"
    unfolding ADDRESS_RE_def ox_def by (metis append_take_drop_id)
  then show ?thesis
    using a lower_hex_toLowerCase [of "drop 2 a"] by (simp add: ADDRESS_RE_def)
qed

definition envelope :: "jsval \<Rightarrow> jstr \<Rightarrow> jsval" where
  "envelope p sig = JObj [(js ''payload'', p), (js ''signature'', JStr sig)]"

lemma readEnvelope_signed:
  assumes N: "noble_ok N" and K: "key_ok N priv pub"
    and p: "isPlainObject p" "is_ok (jcs p)" "field p ''type'' = JStr (js t)"
    and id: "field p ''providerId'' = JStr (pub_address N pub)"
  shows "\<exists>sig h. signPayload N p priv = Some sig \<and> payloadHash N p = Inr h \<and>
    readEnvelope N (Some (envelope p sig)) t =
      Inr \<lparr>payload = p, signature = sig, hash = h, signer = pub_address N pub\<rparr>"
proof -
  obtain sig where s: "signPayload N p priv = Some sig"
      "recoverSigner N p sig = Inr (Some (pub_address N pub))"
    using recover_sign [OF N K p(2)] by blast
  have "SIG_RE sig"
    using s(2) by (auto simp: recoverSigner_def recoverSignerOfDigest_def split: sum.splits if_splits)
  then have e: "isEnvelope (envelope p sig)"
    using p(1) by (simp add: isEnvelope_def envelope_def isPlainObject_def [of "JObj _"])
  obtain c where c: "jcs p = Inr c" using p(2) by (auto simp: is_ok_iff)
  then obtain h where h: "payloadHash N p = Inr h"
    by (simp add: payloadHash_def payloadDigest_def jcsBytes_def jcs_def)
  have "readEnvelope N (Some (envelope p sig)) t =
      Inr \<lparr>payload = p, signature = sig, hash = h, signer = pub_address N pub\<rparr>"
    using e p(3) id s(2) c h toLowerCase_address [OF pub_address_shape [OF N]]
    by (simp add: readEnvelope_def Let_def) (simp add: envelope_def)
  with s(1) h show ?thesis by blast
qed

end
