(* ===== verification/Bench.thy ===== *)
theory Bench
  imports Http
begin

text \<open>
  The benchmark's work function, its commitment and its verifier (\<open>src/bench.ts\<close>).
  Exceptions are \<open>Inl Uncaught\<close>; the sampling loop may run forever, so what calls it
  returns an option whose \<open>None\<close> means that the code does not return.  Proved here: the
  checkpoints, the Merkle paths, what the sampler yields and when it stops, that the
  verifier accepts the reference prover's proof, what an accepted proof shows locally,
  and that the unchecked length of a path lets one root open an index twice.
\<close>

record LaneParams =
  lp_seed :: bytes
  lp_laneNonce :: bytes
  lp_providerId :: jstr
  lp_laneId :: jstr
  lp_chainLen :: nat
  lp_checkpoints :: nat
  lp_samples :: nat

record Opening =
  op_seg :: nat
  op_prev :: jstr
  op_prevPath :: "jstr list option"
  op_next :: jstr
  op_nextPath :: "jstr list"

record WorkerProof =
  wp_workerIndex :: nat
  wp_root :: jstr
  wp_final :: jstr
  wp_finalPath :: "jstr list"
  wp_openings :: "Opening list"

definition LEAF_TAG :: bytes where "LEAF_TAG = [0]"
definition NODE_TAG :: bytes where "NODE_TAG = [1]"

text \<open>\<open>setUint32\<close> keeps the value modulo \<open>2^32\<close>, the high byte first.\<close>

definition u32be :: "nat \<Rightarrow> bytes" where
  "u32be n = map (\<lambda>k. of_nat (n div 256 ^ k)) [3, 2, 1, 0]"

text \<open>\<open>getUint32\<close> at offset 0.\<close>

definition getUint32 :: "bytes \<Rightarrow> nat" where
  "getUint32 b = foldl (\<lambda>a x. 256 * a + unat x) 0 (take 4 b)"

definition hexToBytesR :: "noble \<Rightarrow> jstr \<Rightarrow> thrown + bytes" where
  "hexToBytesR N s = (case hexToBytes N s of None \<Rightarrow> Inl Uncaught | Some b \<Rightarrow> Inr b)"

definition s0 :: "noble \<Rightarrow> LaneParams \<Rightarrow> nat \<Rightarrow> thrown + bytes" where
  "s0 N p workerIndex =
     seqR (hexToBytesR N (slice_from 2 (lp_providerId p))) (\<lambda>pid.
     Inr (keccak_256 N (concatBytes N
            [lp_seed p, lp_laneNonce p, pid, utf8 (lp_laneId p), u32be workerIndex])))"

text \<open>The loop of \<open>computeChain\<close>: \<open>j\<close> checkpoints are still to be computed.\<close>

primrec chain_loop :: "noble \<Rightarrow> nat \<Rightarrow> nat \<Rightarrow> bytes \<Rightarrow> bytes list \<Rightarrow> bytes list" where
  "chain_loop N segLen 0 state cps = cps"
| "chain_loop N segLen (Suc j) state cps =
     (let state = (keccak_256 N ^^ segLen) state in chain_loop N segLen j state (cps @ [state]))"

definition computeChain :: "noble \<Rightarrow> LaneParams \<Rightarrow> nat \<Rightarrow> thrown + bytes list" where
  "computeChain N p workerIndex =
     (let L = lp_chainLen p; C = lp_checkpoints p
      in if C = 0 \<or> L mod C \<noteq> 0 then Inl Uncaught
         else seqR (s0 N p workerIndex) (\<lambda>state. Inr (chain_loop N (L div C) C state [])))"

subsection \<open>Merkle trees\<close>

definition merkleLeaves :: "noble \<Rightarrow> bytes list \<Rightarrow> bytes list" where
  "merkleLeaves N checkpoints = map (\<lambda>c. keccak_256 N (concatBytes N [LEAF_TAG, c])) checkpoints"

definition merkle_node :: "noble \<Rightarrow> bytes \<Rightarrow> bytes \<Rightarrow> bytes" where
  "merkle_node N left right = keccak_256 N (concatBytes N [NODE_TAG, left, right])"

text \<open>One level up; the last node of an odd level is paired with itself.\<close>

fun next_level :: "noble \<Rightarrow> bytes list \<Rightarrow> bytes list" where
  "next_level N [] = []"
| "next_level N [a] = [merkle_node N a a]"
| "next_level N (a # b # r) = merkle_node N a b # next_level N r"

lemma length_next_level [simp]: "length (next_level N l) = (length l + 1) div 2"
  by (induction N l rule: next_level.induct) auto

text \<open>An empty list has no root (the source's \<open>undefined\<close>); callers have at least one leaf.\<close>

function merkleRoot :: "noble \<Rightarrow> bytes list \<Rightarrow> bytes" where
  "merkleRoot N level = (if length level > 1 then merkleRoot N (next_level N level) else level ! 0)"
  by pat_completeness auto
termination by (relation "measure (\<lambda>(N, l). length l)") auto

function merklePath :: "noble \<Rightarrow> bytes list \<Rightarrow> nat \<Rightarrow> bytes list" where
  "merklePath N level idx =
     (if length level > 1 then
        (if idx mod 2 = 0
         then (if idx + 1 < length level then level ! (idx + 1) else level ! idx)
         else level ! (idx - 1))
        # merklePath N (next_level N level) (idx div 2)
      else [])"
  by pat_completeness auto
termination by (relation "measure (\<lambda>(N, l, i). length l)") auto

declare merkleRoot.simps [simp del] merklePath.simps [simp del]

primrec fold_path :: "noble \<Rightarrow> bytes list \<Rightarrow> bytes \<Rightarrow> nat \<Rightarrow> bytes \<times> nat" where
  "fold_path N [] node idx = (node, idx)"
| "fold_path N (sibling # path) node idx =
     fold_path N path
       (if idx mod 2 = 0 then merkle_node N node sibling else merkle_node N sibling node)
       (idx div 2)"

definition verifyPath :: "noble \<Rightarrow> bytes \<Rightarrow> nat \<Rightarrow> bytes list \<Rightarrow> bytes \<Rightarrow> bool" where
  "verifyPath N checkpoint index path rt =
     (let (node, idx) = fold_path N path (keccak_256 N (concatBytes N [LEAF_TAG, checkpoint])) index
      in bytesToHex N node = bytesToHex N rt \<and> idx = 0)"

subsection \<open>Sampling\<close>

partial_function (option) sample_loop ::
    "(nat \<Rightarrow> nat) \<Rightarrow> nat \<Rightarrow> nat list \<Rightarrow> nat set \<Rightarrow> nat \<Rightarrow> nat list option" where
  "sample_loop draw m out seen ctr =
     (if length out < m then
        (let idx = draw ctr
         in if idx \<notin> seen then sample_loop draw m (out @ [idx]) (insert idx seen) (ctr + 1)
            else sample_loop draw m out seen (ctr + 1))
      else Some out)"

definition draw_index :: "noble \<Rightarrow> bytes \<Rightarrow> nat \<Rightarrow> nat \<Rightarrow> nat" where
  "draw_index N h C ctr = getUint32 (keccak_256 N (concatBytes N [h, u32be ctr])) mod C"

definition sample_seed :: "noble \<Rightarrow> bytes \<Rightarrow> jstr \<Rightarrow> bytes list \<Rightarrow> bytes" where
  "sample_seed N cid laneId roots = keccak_256 N (concatBytes N ([cid, utf8 laneId] @ roots))"

definition sampleIndices ::
    "noble \<Rightarrow> jstr \<Rightarrow> jstr \<Rightarrow> bytes list \<Rightarrow> nat \<Rightarrow> nat \<Rightarrow> (thrown + nat list) option" where
  "sampleIndices N challengeId laneId roots K C =
     (case hexToBytesR N (slice_from 2 challengeId) of
        Inl e \<Rightarrow> Some (Inl e)
      | Inr cid \<Rightarrow>
          map_option Inr
            (sample_loop (draw_index N (sample_seed N cid laneId roots) C) (min K C) [] {} 0))"

definition requiredSegments :: "nat list \<Rightarrow> nat list" where
  "requiredSegments sampled = 0 # filter (\<lambda>j. j \<noteq> 0) sampled"

subsection \<open>The reference prover\<close>

definition hex0x :: "noble \<Rightarrow> bytes \<Rightarrow> jstr" where
  "hex0x N b = ox (bytesToHex N b)"

definition prove_opening ::
    "noble \<Rightarrow> bytes \<Rightarrow> bytes list \<Rightarrow> bytes list \<Rightarrow> nat \<Rightarrow> Opening" where
  "prove_opening N start cps leaves j =
     \<lparr>op_seg = j,
      op_prev = hex0x N (if j = 0 then start else cps ! (j - 1)),
      op_prevPath = (if j = 0 then None else Some (map (hex0x N) (merklePath N leaves (j - 1)))),
      op_next = hex0x N (cps ! j),
      op_nextPath = map (hex0x N) (merklePath N leaves j)\<rparr>"

definition prove_worker ::
    "noble \<Rightarrow> nat \<Rightarrow> nat list \<Rightarrow> bytes \<Rightarrow> bytes list \<Rightarrow> nat \<Rightarrow> WorkerProof" where
  "prove_worker N C indices start cps w =
     (let leaves = merkleLeaves N cps
      in \<lparr>wp_workerIndex = w,
          wp_root = hex0x N (merkleRoot N leaves),
          wp_final = hex0x N (cps ! (C - 1)),
          wp_finalPath = map (hex0x N) (merklePath N leaves (C - 1)),
          wp_openings = map (prove_opening N start cps leaves) indices\<rparr>)"

definition proveLane ::
    "noble \<Rightarrow> LaneParams \<Rightarrow> nat \<Rightarrow> jstr \<Rightarrow> (thrown + WorkerProof list) option" where
  "proveLane N p workers challengeId =
     (case mapR (\<lambda>w. seqR (computeChain N p w) (\<lambda>cps. seqR (s0 N p w) (\<lambda>start. Inr (w, start, cps))))
             [0..<workers] of
        Inl e \<Rightarrow> Some (Inl e)
      | Inr perWorker \<Rightarrow>
          map_option (\<lambda>r. seqR r (\<lambda>sampled.
              Inr (map (\<lambda>(w, start, cps).
                     prove_worker N (lp_checkpoints p) (requiredSegments sampled) start cps w) perWorker)))
            (sampleIndices N challengeId (lp_laneId p)
               (map (\<lambda>(w, start, cps). merkleRoot N (merkleLeaves N cps)) perWorker)
               (lp_samples p) (lp_checkpoints p)))"

text \<open>The JSON a client sends for a proof.\<close>

definition opening_js :: "Opening \<Rightarrow> jsval" where
  "opening_js x = JObj
     [(js ''seg'', num_of_int (int (op_seg x))), (js ''prev'', JStr (op_prev x)),
      (js ''prevPath'', case op_prevPath x of None \<Rightarrow> JNull | Some l \<Rightarrow> JArr (map JStr l)),
      (js ''next'', JStr (op_next x)), (js ''nextPath'', JArr (map JStr (op_nextPath x)))]"

definition proof_js :: "WorkerProof \<Rightarrow> jsval" where
  "proof_js x = JObj
     [(js ''workerIndex'', num_of_int (int (wp_workerIndex x))), (js ''root'', JStr (wp_root x)),
      (js ''final'', JStr (wp_final x)), (js ''finalPath'', JArr (map JStr (wp_finalPath x))),
      (js ''openings'', JArr (map opening_js (wp_openings x)))]"

subsection \<open>The verifier\<close>

datatype reason =
    ProofCount
  | ProofMalformed nat
  | FinalUnbound nat
  | OpeningCount nat
  | OpeningMalformed nat nat
  | SegmentStart nat
  | StartNotInTree nat nat
  | EndNotInTree nat nat
  | Recomputation nat nat

datatype VerifyResult = LaneOk | Rejected reason

definition HEX32_RE :: "jstr \<Rightarrow> bool" where
  "HEX32_RE s = (take 2 s = js ''0x'' \<and> length s = 66 \<and> list_all is_lower_hex (drop 2 s))"

text \<open>\<open>RegExp.prototype.test\<close> converts its argument to a string.\<close>

definition HEX32_RE_test :: "jsval \<Rightarrow> thrown + bool" where
  "HEX32_RE_test v = (case to_string v of None \<Rightarrow> Inl Uncaught | Some s \<Rightarrow> Inr (HEX32_RE s))"

text \<open>
  \<open>hexToBytes(h.slice(2))\<close>: a value without a \<open>slice\<close> method, or an array, which slices to
  an array, makes one of the two calls throw.
\<close>

definition slice_bytes :: "noble \<Rightarrow> jsval \<Rightarrow> thrown + bytes" where
  "slice_bytes N h = (case h of JStr s \<Rightarrow> hexToBytesR N (slice_from 2 s) | _ \<Rightarrow> Inl Uncaught)"

definition path_bytes :: "noble \<Rightarrow> jsval \<Rightarrow> thrown + bytes list" where
  "path_bytes N v = (case v of JArr hs \<Rightarrow> mapR (slice_bytes N) hs | _ \<Rightarrow> Inl Uncaught)"

text \<open>The structural pass: the roots in worker order, or the first worker refused.\<close>

fun collect_roots :: "noble \<Rightarrow> nat \<Rightarrow> jsval list \<Rightarrow> thrown + (reason + bytes list)" where
  "collect_roots N w [] = Inr (Inr [])"
| "collect_roots N w (wp # wps) =
     (case (field wp ''root'', field wp ''final'', field wp ''finalPath'', field wp ''openings'') of
        (JStr r, JStr f, JArr _, JArr _) \<Rightarrow>
          (if \<not> truthy wp \<or> field wp ''workerIndex'' \<noteq> num_of_int (int w)
              \<or> \<not> HEX32_RE r \<or> \<not> HEX32_RE f
           then Inr (Inl (ProofMalformed w))
           else seqR (hexToBytesR N (slice_from 2 r)) (\<lambda>rb.
                seqR (collect_roots N (w + 1) wps) (\<lambda>rest.
                Inr (case rest of Inl e \<Rightarrow> Inl e | Inr rs \<Rightarrow> Inr (rb # rs)))))
      | _ \<Rightarrow> Inr (Inl (ProofMalformed w)))"

text \<open>One opening; \<open>None\<close> when nothing is wrong with it.\<close>

definition check_opening ::
    "noble \<Rightarrow> LaneParams \<Rightarrow> nat \<Rightarrow> bytes \<Rightarrow> nat \<Rightarrow> nat \<Rightarrow> jsval \<Rightarrow> thrown + reason option" where
  "check_opening N p w rt i j x =
     (if x = JUndef \<or> x = JNull then Inl Uncaught
      else if field x ''seg'' \<noteq> num_of_int (int j) then Inr (Some (OpeningMalformed w i))
      else seqR (HEX32_RE_test (field x ''prev'')) (\<lambda>ok1.
        if \<not> ok1 then Inr (Some (OpeningMalformed w i))
        else seqR (HEX32_RE_test (field x ''next'')) (\<lambda>ok2.
        if \<not> ok2 then Inr (Some (OpeningMalformed w i))
        else
          seqR (slice_bytes N (field x ''prev'')) (\<lambda>pv.
          seqR (slice_bytes N (field x ''next'')) (\<lambda>nx.
          seqR (if j = 0
                then seqR (s0 N p w) (\<lambda>s.
                     Inr (if field x ''prev'' \<noteq> JStr (hex0x N s) then Some (SegmentStart w) else None))
                else if \<not> truthy (field x ''prevPath'') then Inr (Some (StartNotInTree w j))
                else seqR (path_bytes N (field x ''prevPath'')) (\<lambda>pp.
                     Inr (if verifyPath N pv (j - 1) pp rt then None else Some (StartNotInTree w j))))
            (\<lambda>bad.
          case bad of Some e \<Rightarrow> Inr (Some e) | None \<Rightarrow>
          seqR (path_bytes N (field x ''nextPath'')) (\<lambda>np.
          if \<not> verifyPath N nx j np rt then Inr (Some (EndNotInTree w j))
          else
            \<comment> \<open>the loop runs while \<open>k < chainLen / C\<close>\<close>
            let state = (keccak_256 N ^^ ((lp_chainLen p + lp_checkpoints p - 1) div lp_checkpoints p)) pv
            in if bytesToHex N state \<noteq> bytesToHex N nx then Inr (Some (Recomputation w j))
               else Inr None)))))))"

fun check_openings ::
    "noble \<Rightarrow> LaneParams \<Rightarrow> nat \<Rightarrow> bytes \<Rightarrow> nat \<Rightarrow> nat list \<Rightarrow> jsval list \<Rightarrow> thrown + reason option" where
  "check_openings N p w rt i (j # js') (x # xs) =
     seqR (check_opening N p w rt i j x) (\<lambda>bad.
       case bad of Some e \<Rightarrow> Inr (Some e) | None \<Rightarrow> check_openings N p w rt (i + 1) js' xs)"
| "check_openings N p w rt i _ _ = Inr None"

definition jarr :: "jsval \<Rightarrow> jsval list" where
  "jarr v = (case v of JArr xs \<Rightarrow> xs | _ \<Rightarrow> [])"

definition check_worker ::
    "noble \<Rightarrow> LaneParams \<Rightarrow> nat list \<Rightarrow> nat \<Rightarrow> bytes \<Rightarrow> jsval \<Rightarrow> thrown + reason option" where
  "check_worker N p expected w rt wp =
     seqR (slice_bytes N (field wp ''final'')) (\<lambda>finalState.
     seqR (path_bytes N (field wp ''finalPath'')) (\<lambda>fp.
       if \<not> verifyPath N finalState (lp_checkpoints p - 1) fp rt then Inr (Some (FinalUnbound w))
       else let ops = jarr (field wp ''openings'')
         in if length ops \<noteq> length expected then Inr (Some (OpeningCount w))
            else check_openings N p w rt 0 expected ops))"

fun check_workers ::
    "noble \<Rightarrow> LaneParams \<Rightarrow> nat list \<Rightarrow> nat \<Rightarrow> bytes list \<Rightarrow> jsval list \<Rightarrow> thrown + reason option" where
  "check_workers N p expected w (r # rs) (wp # wps) =
     seqR (check_worker N p expected w r wp) (\<lambda>bad.
       case bad of Some e \<Rightarrow> Inr (Some e) | None \<Rightarrow> check_workers N p expected (w + 1) rs wps)"
| "check_workers N p expected w _ _ = Inr None"

definition verifyLane ::
    "noble \<Rightarrow> LaneParams \<Rightarrow> nat \<Rightarrow> jstr \<Rightarrow> jsval \<Rightarrow> (thrown + VerifyResult) option" where
  "verifyLane N p workers challengeId proofs =
     (case proofs of
        JArr wps \<Rightarrow>
          if length wps \<noteq> workers then Some (Inr (Rejected ProofCount))
          else (case collect_roots N 0 wps of
              Inl e \<Rightarrow> Some (Inl e)
            | Inr (Inl r) \<Rightarrow> Some (Inr (Rejected r))
            | Inr (Inr roots) \<Rightarrow>
                map_option (\<lambda>r.
                  seqR r (\<lambda>sampled.
                  seqR (check_workers N p (requiredSegments sampled) 0 roots wps) (\<lambda>bad.
                  Inr (case bad of None \<Rightarrow> LaneOk | Some e \<Rightarrow> Rejected e))))
                  (sampleIndices N challengeId (lp_laneId p) roots (lp_samples p) (lp_checkpoints p)))
      | _ \<Rightarrow> Some (Inr (Rejected ProofCount)))"

text \<open>\<open>Math.round((workers * chainLen) / (elapsedMs / 1000))\<close> on doubles.\<close>

definition laneScore :: "int \<Rightarrow> int \<Rightarrow> jsnum \<Rightarrow> jsnum" where
  "laneScore workers chainLen elapsedMs =
     math_round (num_div (num_mul (Fin (of_int workers)) (Fin (of_int chainLen)))
                         (num_div elapsedMs (Fin 1000)))"

subsection \<open>Checkpoints\<close>

text \<open>Checkpoint \<open>j\<close> (from 1) is the state after \<open>j * (L / C)\<close> hashes.\<close>

definition checkpoint :: "noble \<Rightarrow> nat \<Rightarrow> bytes \<Rightarrow> nat \<Rightarrow> bytes" where
  "checkpoint N segLen start j = (keccak_256 N ^^ (segLen * j)) start"

lemma checkpoint_0 [simp]: "checkpoint N segLen start 0 = start"
  by (simp add: checkpoint_def)

lemma checkpoint_Suc:
  "checkpoint N segLen start (Suc j) = (keccak_256 N ^^ segLen) (checkpoint N segLen start j)"
  by (simp add: checkpoint_def funpow_add' add.commute)

lemma checkpoint_shift:
  "checkpoint N segLen ((keccak_256 N ^^ segLen) start) j = checkpoint N segLen start (Suc j)"
  by (simp add: checkpoint_def funpow_add')

lemma chain_loop_eq:
  "chain_loop N segLen n st cps = cps @ map (\<lambda>j. checkpoint N segLen st (Suc j)) [0..<n]"
proof (induction n arbitrary: st cps)
  case (Suc n)
  have "map (\<lambda>j. checkpoint N segLen st (Suc j)) [0..<Suc n] =
      checkpoint N segLen st 1 # map (\<lambda>j. checkpoint N segLen st (Suc (Suc j))) [0..<n]"
    by (simp add: upt_conv_Cons map_Suc_upt [symmetric] del: upt_Suc)
  moreover have "checkpoint N segLen st 1 = (keccak_256 N ^^ segLen) st"
    by (simp add: checkpoint_def)
  ultimately show ?case
    by (simp only: chain_loop.simps Let_def Suc.IH checkpoint_shift append_assoc append_Cons append_Nil)
qed simp

lemma computeChain_eq:
  assumes "lp_checkpoints p \<noteq> 0" and "lp_chainLen p mod lp_checkpoints p = 0" and "s0 N p w = Inr st"
  shows "computeChain N p w = Inr (map (\<lambda>j. checkpoint N (lp_chainLen p div lp_checkpoints p) st (Suc j))
           [0..<lp_checkpoints p])"
  using assms by (simp add: computeChain_def Let_def chain_loop_eq)

subsection \<open>Merkle paths\<close>

lemma next_level_nth:
  "i < length l \<Longrightarrow> next_level N l ! (i div 2) =
     (if even i then merkle_node N (l ! i) (if i + 1 < length l then l ! (i + 1) else l ! i)
      else merkle_node N (l ! (i - 1)) (l ! i))"
proof (induction N l arbitrary: i rule: next_level.induct)
  case (3 N a b r)
  show ?case
  proof (cases "i < 2")
    case True
    then have "i = 0 \<or> i = 1" by auto
    then show ?thesis by auto
  next
    case False
    then obtain k where k: "i = k + 2" by (metis add.commute le_Suc_ex not_less)
    have "k < length r" using 3 k by simp
    from "3.IH" [OF this] show ?thesis
      unfolding k by (cases k) (auto simp: nth_Cons')
  qed
qed auto

lemma fold_path_append:
  "fold_path N (p @ q) node i = (case fold_path N p node i of (n', i') \<Rightarrow> fold_path N q n' i')"
  by (induction p arbitrary: node i) auto

lemma fold_path_merklePath:
  "i < length l \<Longrightarrow> fold_path N (merklePath N l i) (l ! i) i = (merkleRoot N l, 0)"
proof (induction N l i rule: merklePath.induct)
  case (1 N l i)
  show ?case
  proof (cases "length l > 1")
    case True
    have k: "i div 2 < length (next_level N l)" using "1.prems" by simp
    let ?sib = "if i mod 2 = 0 then (if i + 1 < length l then l ! (i + 1) else l ! i) else l ! (i - 1)"
    have "(if i mod 2 = 0 then merkle_node N (l ! i) ?sib else merkle_node N ?sib (l ! i))
        = next_level N l ! (i div 2)"
      unfolding next_level_nth [OF "1.prems", of N] by (simp add: even_iff_mod_2_eq_zero)
    then have "fold_path N (merklePath N l i) (l ! i) i =
        fold_path N (merklePath N (next_level N l) (i div 2)) (next_level N l ! (i div 2)) (i div 2)"
      unfolding merklePath.simps [of N l i] using True by simp
    also have "\<dots> = (merkleRoot N (next_level N l), 0)" using "1.IH" [OF True k] .
    finally show ?thesis using True by (simp add: merkleRoot.simps [of N l])
  next
    case False
    then have "i = 0" using "1.prems" by simp
    with False show ?thesis by (simp add: merklePath.simps [of N l] merkleRoot.simps [of N l])
  qed
qed

lemma merkleLeaves_nth:
  "i < length cps \<Longrightarrow> merkleLeaves N cps ! i = keccak_256 N (concatBytes N [LEAF_TAG, cps ! i])"
  by (simp add: merkleLeaves_def)

lemma length_merkleLeaves [simp]: "length (merkleLeaves N cps) = length cps"
  by (simp add: merkleLeaves_def)

lemma verifyPath_merklePath:
  "i < length cps \<Longrightarrow>
   verifyPath N (cps ! i) i (merklePath N (merkleLeaves N cps) i) (merkleRoot N (merkleLeaves N cps))"
  using fold_path_merklePath [of i "merkleLeaves N cps" N]
  by (simp add: verifyPath_def merkleLeaves_nth)

text \<open>A hash of this package is 32 bytes long; so are the nodes of a tree.\<close>

lemma length_keccak_iter: "noble_ok N \<Longrightarrow> 0 < n \<Longrightarrow> length ((keccak_256 N ^^ n) b) = 32"
  by (cases n) (simp_all add: noble_okD)

lemma merkleRoot_length:
  "noble_ok N \<Longrightarrow> l \<noteq> [] \<Longrightarrow> (\<forall>x \<in> set l. length x = 32) \<Longrightarrow> length (merkleRoot N l) = 32"
proof (induction N l rule: merkleRoot.induct)
  case (1 N l)
  show ?case
  proof (cases "length l > 1")
    case True
    have "\<forall>x \<in> set (next_level N l). length x = 32"
      using "1.prems"(1)
      by (induction N l rule: next_level.induct) (simp_all add: merkle_node_def noble_okD)
    with 1 True show ?thesis
      by (auto simp: merkleRoot.simps [of N l] simp flip: length_0_conv)
  qed (use 1 in \<open>auto simp: merkleRoot.simps [of N l]\<close>)
qed

subsection \<open>Binding\<close>

text \<open>
  The inputs hashed while a path is checked.  A hash with 32-byte outputs has collisions;
  what a proof may assume is that none occurs among the inputs at hand.
\<close>

primrec node_inputs :: "noble \<Rightarrow> bytes list \<Rightarrow> bytes \<Rightarrow> nat \<Rightarrow> bytes set" where
  "node_inputs N [] node i = {}"
| "node_inputs N (x # xs) node i =
     (let inp = (if i mod 2 = 0 then NODE_TAG @ node @ x else NODE_TAG @ x @ node)
      in insert inp (node_inputs N xs (keccak_256 N inp) (i div 2)))"

definition path_inputs :: "noble \<Rightarrow> bytes list \<Rightarrow> bytes \<Rightarrow> nat \<Rightarrow> bytes set" where
  "path_inputs N path c i = insert (LEAF_TAG @ c) (node_inputs N path (keccak_256 N (LEAF_TAG @ c)) i)"

definition collides :: "noble \<Rightarrow> bytes set \<Rightarrow> bytes set \<Rightarrow> bool" where
  "collides N A B = (\<exists>a \<in> A. \<exists>b \<in> B. a \<noteq> b \<and> keccak_256 N a = keccak_256 N b)"

lemma collides_insert:
  "\<not> collides N (insert a A) (insert b B) \<Longrightarrow>
     \<not> collides N A B \<and> (keccak_256 N a = keccak_256 N b \<longrightarrow> a = b)"
  by (auto simp: collides_def)

text \<open>Paths of the same length from the same index to the same root start at the same node.\<close>

lemma fold_path_inject:
  assumes N: "noble_ok N"
  shows "length p = length q \<Longrightarrow> length a = 32 \<Longrightarrow> length b = 32 \<Longrightarrow>
    fst (fold_path N p a i) = fst (fold_path N q b i) \<Longrightarrow>
    \<not> collides N (node_inputs N p a i) (node_inputs N q b i) \<Longrightarrow> a = b"
proof (induction p q arbitrary: a b i rule: list_induct2)
  case (Cons x xs y ys)
  let ?n = "\<lambda>a x. if i mod 2 = 0 then NODE_TAG @ a @ x else NODE_TAG @ x @ a"
  let ?k = "keccak_256 N"
  have f: "fold_path N (x # xs) a i = fold_path N xs (?k (?n a x)) (i div 2)"
    "fold_path N (y # ys) b i = fold_path N ys (?k (?n b y)) (i div 2)"
    by (simp_all add: merkle_node_def noble_okD [OF N])
  have c: "\<not> collides N (node_inputs N xs (?k (?n a x)) (i div 2)) (node_inputs N ys (?k (?n b y)) (i div 2))"
    "?k (?n a x) = ?k (?n b y) \<longrightarrow> ?n a x = ?n b y"
    by (rule collides_insert [THEN conjunct1], rule Cons.prems(4) [unfolded node_inputs.simps Let_def],
        rule collides_insert [THEN conjunct2], rule Cons.prems(4) [unfolded node_inputs.simps Let_def])
  have "?k (?n a x) = ?k (?n b y)"
    by (rule Cons.IH) (use Cons.prems(3) c(1) in \<open>simp_all only: f noble_okD [OF N]\<close>)
  with c(2) have "?n a x = ?n b y" by blast
  then show ?case
    using Cons.prems(1,2) by (auto split: if_splits)
qed simp

lemma verifyPath_binding:
  assumes N: "noble_ok N"
    and v: "verifyPath N c i p r" "verifyPath N d i q r" and l: "length p = length q"
    and nc: "\<not> collides N (path_inputs N p c i) (path_inputs N q d i)"
  shows "c = d"
proof -
  let ?a = "keccak_256 N (LEAF_TAG @ c)" and ?b = "keccak_256 N (LEAF_TAG @ d)"
  note n = collides_insert [OF nc [unfolded path_inputs_def]]
  have "fst (fold_path N p ?a i) = fst (fold_path N q ?b i)"
    using v by (auto simp: verifyPath_def noble_okD [OF N] split: prod.splits)
  then have "?a = ?b"
    using fold_path_inject [OF N l _ _ _ conjunct1 [OF n]] by (simp add: noble_okD [OF N])
  then show ?thesis using n by simp
qed

subsection \<open>What the sampler yields, and when it returns\<close>

text \<open>The distinct values of a list, in the order of their first occurrence.\<close>

definition keep_new :: "nat list \<Rightarrow> nat list" where
  "keep_new xs = foldl (\<lambda>out x. if x \<in> set out then out else out @ [x]) [] xs"

lemma keep_new_snoc:
  "keep_new (xs @ [x]) = (if x \<in> set (keep_new xs) then keep_new xs else keep_new xs @ [x])"
  by (simp add: keep_new_def)

lemma set_keep_new [simp]: "set (keep_new xs) = set xs"
  by (induction xs rule: rev_induct) (auto simp: keep_new_snoc keep_new_def [of "[]"])

lemma distinct_keep_new [simp]: "distinct (keep_new xs)"
  by (induction xs rule: rev_induct) (auto simp: keep_new_snoc keep_new_def [of "[]"])

lemma length_keep_new: "length (keep_new xs) = card (set xs)"
  by (metis distinct_card distinct_keep_new set_keep_new)

definition drawn :: "(nat \<Rightarrow> nat) \<Rightarrow> nat \<Rightarrow> nat list" where
  "drawn draw n = keep_new (map draw [0..<n])"

lemma drawn_Suc:
  "drawn draw (Suc n) = (if draw n \<in> set (drawn draw n) then drawn draw n else drawn draw n @ [draw n])"
  by (simp add: drawn_def keep_new_snoc)

lemma drawn_0 [simp]: "drawn draw 0 = []"
  by (simp add: drawn_def keep_new_def)

lemma sample_loop_step:
  "length (drawn draw n) < m \<Longrightarrow>
   sample_loop draw m (drawn draw n) (set (drawn draw n)) n =
   sample_loop draw m (drawn draw (Suc n)) (set (drawn draw (Suc n))) (Suc n)"
  by (subst sample_loop.simps) (auto simp: drawn_Suc Let_def insert_absorb)

lemma sample_loop_reach:
  "(\<forall>k < n. length (drawn draw k) < m) \<Longrightarrow>
   sample_loop draw m [] {} 0 = sample_loop draw m (drawn draw n) (set (drawn draw n)) n"
  by (induction n) (auto simp: sample_loop_step)

text \<open>The loop returns as soon as enough distinct values have been drawn.\<close>

lemma sample_loop_returns:
  assumes "m \<le> card (draw ` {..<n})"
  shows "\<exists>k \<le> n. sample_loop draw m [] {} 0 = Some (drawn draw k) \<and> length (drawn draw k) = m"
proof -
  define P where "P k = (m \<le> length (drawn draw k))" for k
  have "P n" using assms by (simp add: P_def drawn_def length_keep_new lessThan_atLeast0)
  define k where "k = (LEAST k. P k)"
  have k: "P k" "k \<le> n" "\<forall>i < k. \<not> P i"
    using \<open>P n\<close> unfolding k_def by (auto intro: LeastI Least_le dest: not_less_Least)
  have "length (drawn draw k) \<le> m"
  proof (cases k)
    case (Suc i)
    then have "length (drawn draw i) < m" using k(3) by (auto simp: P_def not_le)
    then show ?thesis unfolding Suc drawn_Suc by simp
  qed simp
  then have l: "length (drawn draw k) = m" using k(1) by (simp add: P_def)
  moreover have "sample_loop draw m [] {} 0 = sample_loop draw m (drawn draw k) (set (drawn draw k)) k"
    using k(3) by (intro sample_loop_reach) (auto simp: P_def not_le)
  then have "sample_loop draw m [] {} 0 = Some (drawn draw k)"
    using l by (subst (asm) (2) sample_loop.simps) simp
  ultimately show ?thesis using k(2) by blast
qed

text \<open>Conversely, a loop that returned has drawn that many distinct values.\<close>

lemma sample_loop_result:
  "sample_loop draw m out seen ctr = Some r \<Longrightarrow> length out \<le> m \<Longrightarrow> distinct out \<Longrightarrow> seen = set out \<Longrightarrow>
   set out \<subseteq> draw ` {..<ctr} \<Longrightarrow> length r = m \<and> distinct r \<and> (\<exists>n. set r \<subseteq> draw ` {..<n})"
proof (induction draw m out seen ctr r rule: sample_loop.raw_induct [rotated, consumes 1, case_names step])
  case (step loop draw m out seen ctr r)
  have sub: "set out \<subseteq> draw ` {..<ctr + 1}" "insert (draw ctr) (set out) \<subseteq> draw ` {..<ctr + 1}"
    using step.prems by (auto simp: lessThan_Suc)
  consider "\<not> length out < m" | "length out < m" "draw ctr \<in> seen" | "length out < m" "draw ctr \<notin> seen"
    by blast
  then show ?case
  proof cases
    case 1
    with step.hyps step.prems show ?thesis by auto
  next
    case 2
    with step.hyps have "loop draw m out seen (ctr + 1) = Some r" by (simp add: Let_def)
    then show ?thesis by (rule step.IH) (use step.prems sub in auto)
  next
    case 3
    with step.hyps have "loop draw m (out @ [draw ctr]) (insert (draw ctr) seen) (ctr + 1) = Some r"
      by (simp add: Let_def)
    then show ?thesis by (rule step.IH) (use step.prems sub 3 in auto)
  qed
qed

lemma sample_loop_None_iff:
  "sample_loop draw m [] {} 0 = None \<longleftrightarrow> (\<forall>n. card (draw ` {..<n}) < m)"
proof
  assume "sample_loop draw m [] {} 0 = None"
  then show "\<forall>n. card (draw ` {..<n}) < m"
    using sample_loop_returns [of m draw] by (metis not_le option.distinct(1))
next
  assume a: "\<forall>n. card (draw ` {..<n}) < m"
  show "sample_loop draw m [] {} 0 = None"
  proof (rule ccontr)
    assume "sample_loop draw m [] {} 0 \<noteq> None"
    then obtain r where "sample_loop draw m [] {} 0 = Some r" by blast
    from sample_loop_result [OF this] obtain n where r: "length r = m" "distinct r" "set r \<subseteq> draw ` {..<n}"
      by auto
    have "m \<le> card (draw ` {..<n})"
      using card_mono [OF _ r(3)] distinct_card [OF r(2)] r(1) by simp
    with a show False by (simp add: not_less [symmetric])
  qed
qed

lemma sampleIndices_result:
  assumes "sampleIndices N cid lane roots K C = Some (Inr out)" and "0 < C"
  shows "length out = min K C \<and> distinct out \<and> (\<forall>j \<in> set out. j < C)"
proof -
  obtain h where "sample_loop (draw_index N h C) (min K C) [] {} 0 = Some out"
    using assms(1) by (auto simp: sampleIndices_def split: sum.splits)
  from sample_loop_result [OF this] obtain n where
    "length out = min K C" "distinct out" "set out \<subseteq> draw_index N h C ` {..<n}" by auto
  then show ?thesis using assms(2) by (auto simp: draw_index_def)
qed

subsection \<open>What an accepted proof says\<close>

text \<open>Segments per chain: the recomputation loop runs while \<open>k < chainLen / C\<close>.\<close>

definition seg_len :: "LaneParams \<Rightarrow> nat" where
  "seg_len p = (lp_chainLen p + lp_checkpoints p - 1) div lp_checkpoints p"

lemma seg_len_div:
  "lp_checkpoints p \<noteq> 0 \<Longrightarrow> lp_chainLen p mod lp_checkpoints p = 0 \<Longrightarrow>
   seg_len p = lp_chainLen p div lp_checkpoints p"
proof -
  assume c: "lp_checkpoints p \<noteq> 0" and "lp_chainLen p mod lp_checkpoints p = 0"
  then obtain k where k: "lp_chainLen p = lp_checkpoints p * k" by auto
  have e: "lp_chainLen p + lp_checkpoints p - 1 = (lp_checkpoints p - 1) + lp_checkpoints p * k"
    using c k by simp
  show ?thesis using c unfolding seg_len_def unfolding e div_mult_self2 [OF c] unfolding k by simp
qed

definition opening_ok :: "noble \<Rightarrow> LaneParams \<Rightarrow> nat \<Rightarrow> bytes \<Rightarrow> nat \<Rightarrow> jsval \<Rightarrow> bool" where
  "opening_ok N p w rt j x =
     (field x ''seg'' = num_of_int (int j) \<and>
      (\<exists>pv nx np. length pv = 32 \<and> length nx = 32
         \<and> field x ''prev'' = JStr (hex0x N pv) \<and> field x ''next'' = JStr (hex0x N nx)
         \<and> (if j = 0 then s0 N p w = Inr pv
            else truthy (field x ''prevPath'') \<and>
                 (\<exists>pp. path_bytes N (field x ''prevPath'') = Inr pp \<and> verifyPath N pv (j - 1) pp rt))
         \<and> path_bytes N (field x ''nextPath'') = Inr np \<and> verifyPath N nx j np rt
         \<and> (keccak_256 N ^^ seg_len p) pv = nx))"

definition worker_ok :: "noble \<Rightarrow> LaneParams \<Rightarrow> nat list \<Rightarrow> nat \<Rightarrow> bytes \<Rightarrow> jsval \<Rightarrow> bool" where
  "worker_ok N p expected w rt wp =
     (\<exists>fs fp. slice_bytes N (field wp ''final'') = Inr fs
        \<and> path_bytes N (field wp ''finalPath'') = Inr fp
        \<and> verifyPath N fs (lp_checkpoints p - 1) fp rt
        \<and> list_all2 (opening_ok N p w rt) expected (jarr (field wp ''openings'')))"

lemma HEX32_RE_hash [simp]: "HEX32_RE s = HASH_RE s"
  by (simp add: HEX32_RE_def HASH_RE_def)

lemma hex_ok_iff:
  assumes "noble_ok N"
  shows "HEX32_RE_test v = Inr True \<and> slice_bytes N v = Inr b \<longleftrightarrow> v = JStr (hex0x N b) \<and> length b = 32"
proof
  assume a: "HEX32_RE_test v = Inr True \<and> slice_bytes N v = Inr b"
  then obtain s where s: "v = JStr s"
    by (auto simp: slice_bytes_def split: jsval.splits)
  then have "HASH_RE s" using a by (simp add: HEX32_RE_test_def)
  then obtain c where c: "s = bufToHex c" "length c = 32"
    using HASH_RE_bytes by blast
  then have "b = c"
    using a by (simp add: s slice_bytes_def hexToBytesR_def noble_okD [OF assms] bufToHex_def)
  with s c show "v = JStr (hex0x N b) \<and> length b = 32"
    by (simp add: hex0x_def bufToHex_def noble_okD [OF assms])
next
  assume "v = JStr (hex0x N b) \<and> length b = 32"
  then show "HEX32_RE_test v = Inr True \<and> slice_bytes N v = Inr b"
    by (simp add: HEX32_RE_test_def slice_bytes_def hexToBytesR_def hex0x_def noble_okD [OF assms]
        HASH_RE_hex)
qed

lemma check_opening_iff:
  assumes N: "noble_ok N"
  shows "check_opening N p w rt i j x = Inr None \<longleftrightarrow> opening_ok N p w rt j x"
proof
  assume c: "check_opening N p w rt i j x = Inr None"
  have x: "x \<noteq> JUndef" "x \<noteq> JNull" "field x ''seg'' = num_of_int (int j)"
    using c by (auto simp: check_opening_def split: if_splits)
  obtain pv where pv: "field x ''prev'' = JStr (hex0x N pv)" "length pv = 32"
    using c x hex_ok_iff [OF N, of "field x ''prev''"]
    by (auto simp: check_opening_def seqR_Inr_iff split: if_splits)
  obtain nx where nx: "field x ''next'' = JStr (hex0x N nx)" "length nx = 32"
    using c x hex_ok_iff [OF N, of "field x ''next''"]
    by (auto simp: check_opening_def seqR_Inr_iff split: if_splits)
  have t: "HEX32_RE_test (JStr (hex0x N pv)) = Inr True" "slice_bytes N (JStr (hex0x N pv)) = Inr pv"
    "HEX32_RE_test (JStr (hex0x N nx)) = Inr True" "slice_bytes N (JStr (hex0x N nx)) = Inr nx"
    using hex_ok_iff [OF N] pv nx by blast+
  have inj: "hex0x N a = hex0x N b \<longleftrightarrow> a = b" for a b
    by (simp add: hex0x_def noble_okD [OF N])
  show "opening_ok N p w rt j x"
    using c x pv nx
    by (auto simp: check_opening_def opening_ok_def t seqR_Inr_iff Let_def seg_len_def
        noble_okD [OF N] inj split: if_splits option.splits)
next
  assume "opening_ok N p w rt j x"
  then obtain pv nx np where o: "field x ''seg'' = num_of_int (int j)"
      "length pv = 32" "length nx = 32"
      "field x ''prev'' = JStr (hex0x N pv)" "field x ''next'' = JStr (hex0x N nx)"
      "if j = 0 then s0 N p w = Inr pv
            else truthy (field x ''prevPath'') \<and>
                 (\<exists>pp. path_bytes N (field x ''prevPath'') = Inr pp \<and> verifyPath N pv (j - 1) pp rt)"
      "path_bytes N (field x ''nextPath'') = Inr np" "verifyPath N nx j np rt"
      "(keccak_256 N ^^ seg_len p) pv = nx"
    unfolding opening_ok_def by blast
  have t: "HEX32_RE_test (JStr (hex0x N pv)) = Inr True" "slice_bytes N (JStr (hex0x N pv)) = Inr pv"
    "HEX32_RE_test (JStr (hex0x N nx)) = Inr True" "slice_bytes N (JStr (hex0x N nx)) = Inr nx"
    using hex_ok_iff [OF N] o(2,3) by blast+
  have "x \<noteq> JUndef" "x \<noteq> JNull" using o(4) by auto
  then show "check_opening N p w rt i j x = Inr None"
    using o by (auto simp: check_opening_def t Let_def seg_len_def split: if_splits)
qed

lemma check_openings_iff:
  assumes "noble_ok N"
  shows "length js' = length xs \<Longrightarrow>
    check_openings N p w rt i js' xs = Inr None \<longleftrightarrow> list_all2 (opening_ok N p w rt) js' xs"
proof (induction js' xs arbitrary: i rule: list_induct2)
  case (Cons j js' x xs)
  then show ?case
    using check_opening_iff [OF assms, of p w rt i j x] by (auto simp: seqR_Inr_iff split: option.splits)
qed simp

lemma check_worker_iff:
  assumes "noble_ok N"
  shows "check_worker N p expected w rt wp = Inr None \<longleftrightarrow> worker_ok N p expected w rt wp"
proof -
  have "length expected = length (jarr (field wp ''openings''))"
    if "list_all2 (opening_ok N p w rt) expected (jarr (field wp ''openings''))"
    using that by (rule list_all2_lengthD)
  then show ?thesis
    using check_openings_iff [OF assms, of expected "jarr (field wp ''openings'')"]
    by (auto simp: check_worker_def worker_ok_def seqR_Inr_iff Let_def split: if_splits)
qed

lemma check_workers_iff:
  assumes "noble_ok N"
  shows "length rs = length wps \<Longrightarrow> check_workers N p expected w rs wps = Inr None \<longleftrightarrow>
    (\<forall>k < length wps. worker_ok N p expected (w + k) (rs ! k) (wps ! k))"
proof (induction rs wps arbitrary: w rule: list_induct2)
  case (Cons r rs wp wps)
  show ?case
    using check_worker_iff [OF assms, of p expected w r wp]
    by (auto simp: seqR_Inr_iff Cons.IH All_less_Suc2 split: option.splits)
qed simp

lemma collect_roots_ok:
  "collect_roots N w wps = Inr (Inr rs) \<Longrightarrow> length rs = length wps \<and>
     (\<forall>k < length wps. field (wps ! k) ''workerIndex'' = num_of_int (int (w + k)) \<and>
        (\<exists>r f. field (wps ! k) ''root'' = JStr r \<and> HASH_RE r \<and> hexToBytes N (slice_from 2 r) = Some (rs ! k)
           \<and> field (wps ! k) ''final'' = JStr f \<and> HASH_RE f))"
proof (induction wps arbitrary: w rs)
  case (Cons wp wps)
  obtain r f where f: "field wp ''root'' = JStr r" "field wp ''final'' = JStr f" "HASH_RE r" "HASH_RE f"
      "field wp ''workerIndex'' = num_of_int (int w)" "truthy wp"
    using Cons.prems by (auto split: jsval.splits if_splits)
  obtain rb rs' where r: "hexToBytes N (slice_from 2 r) = Some rb" "rs = rb # rs'"
      "collect_roots N (w + 1) wps = Inr (Inr rs')"
    using Cons.prems f
    by (cases "hexToBytes N (slice_from 2 r)"; cases "collect_roots N (w + 1) wps"; cases "projr (collect_roots N (w + 1) wps)")
       (auto simp: hexToBytesR_def split: jsval.splits)
  have k: "w + 1 + n = w + Suc n" for n by simp
  from Cons.IH [OF r(3)] f r(1,2) show ?case
    unfolding length_Cons All_less_Suc2 nth_Cons_0 nth_Cons_Suc k by (simp del: of_nat_Suc of_nat_add)
qed simp

definition lane_ok ::
    "noble \<Rightarrow> LaneParams \<Rightarrow> nat \<Rightarrow> jstr \<Rightarrow> jsval list \<Rightarrow> bytes list \<Rightarrow> nat list \<Rightarrow> bool" where
  "lane_ok N p workers challengeId wps roots sampled =
     (length wps = workers
      \<and> collect_roots N 0 wps = Inr (Inr roots)
      \<and> sampleIndices N challengeId (lp_laneId p) roots (lp_samples p) (lp_checkpoints p) = Some (Inr sampled)
      \<and> (\<forall>w < workers. worker_ok N p (requiredSegments sampled) w (roots ! w) (wps ! w)))"

lemma verifyLane_iff:
  assumes "noble_ok N"
  shows "verifyLane N p workers cid proofs = Some (Inr LaneOk) \<longleftrightarrow>
    (\<exists>wps roots sampled. proofs = JArr wps \<and> lane_ok N p workers cid wps roots sampled)"
proof
  assume v: "verifyLane N p workers cid proofs = Some (Inr LaneOk)"
  then obtain wps where w: "proofs = JArr wps" "length wps = workers"
    by (auto simp: verifyLane_def split: jsval.splits if_splits)
  obtain roots where r: "collect_roots N 0 wps = Inr (Inr roots)"
    using v w by (auto simp: verifyLane_def split: sum.splits)
  obtain sampled where s:
    "sampleIndices N cid (lp_laneId p) roots (lp_samples p) (lp_checkpoints p) = Some (Inr sampled)"
    "check_workers N p (requiredSegments sampled) 0 roots wps = Inr None"
    using v w r by (auto simp: verifyLane_def seqR_Inr_iff split: option.splits)
  have l: "length roots = length wps"
    using collect_roots_ok [OF r] by blast
  have "lane_ok N p workers cid wps roots sampled"
    using w r s check_workers_iff [OF assms l, of p "requiredSegments sampled" 0] by (simp add: lane_ok_def)
  with w show "\<exists>wps roots sampled. proofs = JArr wps \<and> lane_ok N p workers cid wps roots sampled"
    by blast
next
  assume "\<exists>wps roots sampled. proofs = JArr wps \<and> lane_ok N p workers cid wps roots sampled"
  then obtain wps roots sampled where p: "proofs = JArr wps" and l: "lane_ok N p workers cid wps roots sampled"
    by blast
  have n: "length roots = length wps"
    using l collect_roots_ok unfolding lane_ok_def by blast
  have "check_workers N p (requiredSegments sampled) 0 roots wps = Inr None"
    using l check_workers_iff [OF assms n, of p "requiredSegments sampled" 0] by (simp add: lane_ok_def)
  then show "verifyLane N p workers cid proofs = Some (Inr LaneOk)"
    using l p by (simp add: verifyLane_def lane_ok_def)
qed

subsection \<open>Proofs that are accepted\<close>

text \<open>
  What the verifier asks of a worker's tree and openings, over bytes.  \<open>open_at\<close> gives a
  state and a path for an index; two of them, one for the start and one for the end of a
  segment, need not agree.
\<close>

lemma path_bytes_hex:
  "noble_ok N \<Longrightarrow> path_bytes N (JArr (map JStr (map (hex0x N) p))) = Inr p"
  by (induction p) (simp_all add: path_bytes_def slice_bytes_def hexToBytesR_def hex0x_def noble_okD)

lemma slice_bytes_hex: "noble_ok N \<Longrightarrow> slice_bytes N (JStr (hex0x N b)) = Inr b"
  by (simp add: slice_bytes_def hexToBytesR_def hex0x_def noble_okD)

lemma hex0x_HASH: "noble_ok N \<Longrightarrow> length b = 32 \<Longrightarrow> HASH_RE (hex0x N b)"
  by (simp add: hex0x_def noble_okD HASH_RE_hex)

text \<open>A worker's proof built from states, paths and openings given as bytes.\<close>

record byte_opening =
  bo_prev :: bytes
  bo_prevPath :: "bytes list"
  bo_next :: bytes
  bo_nextPath :: "bytes list"

definition mk_opening :: "noble \<Rightarrow> nat \<Rightarrow> byte_opening \<Rightarrow> Opening" where
  "mk_opening N j b =
     \<lparr>op_seg = j, op_prev = hex0x N (bo_prev b),
      op_prevPath = (if j = 0 then None else Some (map (hex0x N) (bo_prevPath b))),
      op_next = hex0x N (bo_next b), op_nextPath = map (hex0x N) (bo_nextPath b)\<rparr>"

definition mk_proof :: "noble \<Rightarrow> nat list \<Rightarrow> nat \<Rightarrow> bytes \<Rightarrow> bytes \<Rightarrow> bytes list \<Rightarrow> (nat \<Rightarrow> byte_opening) \<Rightarrow> WorkerProof" where
  "mk_proof N indices w rt fs fp bo =
     \<lparr>wp_workerIndex = w, wp_root = hex0x N rt, wp_final = hex0x N fs,
      wp_finalPath = map (hex0x N) fp,
      wp_openings = map (\<lambda>j. mk_opening N j (bo j)) indices\<rparr>"

definition byte_opening_ok :: "noble \<Rightarrow> LaneParams \<Rightarrow> nat \<Rightarrow> bytes \<Rightarrow> nat \<Rightarrow> byte_opening \<Rightarrow> bool" where
  "byte_opening_ok N p w rt j b =
     (length (bo_prev b) = 32 \<and> length (bo_next b) = 32
      \<and> (if j = 0 then s0 N p w = Inr (bo_prev b)
         else verifyPath N (bo_prev b) (j - 1) (bo_prevPath b) rt)
      \<and> verifyPath N (bo_next b) j (bo_nextPath b) rt
      \<and> (keccak_256 N ^^ seg_len p) (bo_prev b) = bo_next b)"

lemma opening_ok_mk:
  assumes N: "noble_ok N" and b: "byte_opening_ok N p w rt j b"
  shows "opening_ok N p w rt j (opening_js (mk_opening N j b))"
  unfolding opening_ok_def
  by (intro conjI exI [of _ "bo_prev b"] exI [of _ "bo_next b"] exI [of _ "bo_nextPath b"])
     (use b in \<open>auto simp: opening_js_def mk_opening_def byte_opening_ok_def
        path_bytes_hex [OF N, simplified]\<close>)

lemma worker_ok_mk:
  assumes N: "noble_ok N"
    and f: "verifyPath N fs (lp_checkpoints p - 1) fp rt"
    and o: "\<And>j. j \<in> set indices \<Longrightarrow> byte_opening_ok N p w rt j (bo j)"
  shows "worker_ok N p indices w rt (proof_js (mk_proof N indices w rt fs fp bo))"
  unfolding worker_ok_def
proof (intro exI conjI)
  show "slice_bytes N (field (proof_js (mk_proof N indices w rt fs fp bo)) ''final'') = Inr fs"
    by (simp add: proof_js_def mk_proof_def slice_bytes_hex [OF N])
  show "path_bytes N (field (proof_js (mk_proof N indices w rt fs fp bo)) ''finalPath'') = Inr fp"
    using path_bytes_hex [OF N] by (simp add: proof_js_def mk_proof_def)
  show "verifyPath N fs (lp_checkpoints p - 1) fp rt" by (rule f)
  show "list_all2 (opening_ok N p w rt) indices
      (jarr (field (proof_js (mk_proof N indices w rt fs fp bo)) ''openings''))"
    using o by (simp add: proof_js_def mk_proof_def jarr_def list.rel_map list.rel_refl_strong
        opening_ok_mk [OF N])
qed

lemma collect_roots_mk:
  assumes "noble_ok N"
    and "\<And>k. k < n \<Longrightarrow> length (rt (w + k)) = 32 \<and> length (fs (w + k)) = 32"
  shows "collect_roots N w (map (\<lambda>k. proof_js (mk_proof N indices k (rt k) (fs k) (fp k) (bo k))) [w..<w + n])
    = Inr (Inr (map rt [w..<w + n]))"
  using assms(2)
proof (induction n arbitrary: w)
  case (Suc n)
  have u: "[w..<w + Suc n] = w # [Suc w..<Suc w + n]"
    by (simp add: upt_conv_Cons del: upt_Suc)
  have IH: "collect_roots N (Suc w)
      (map (\<lambda>k. proof_js (mk_proof N indices k (rt k) (fs k) (fp k) (bo k))) [Suc w..<Suc w + n])
    = Inr (Inr (map rt [Suc w..<Suc w + n]))"
    by (rule Suc.IH) (use Suc.prems [of "Suc _"] in simp)
  have "length (rt w) = 32" "length (fs w) = 32" using Suc.prems [of 0] by simp_all
  then have h: "HASH_RE (hex0x N (rt w))" "HASH_RE (hex0x N (fs w))"
    using hex0x_HASH [OF assms(1)] by blast+
  have x: "hexToBytesR N (slice_from 2 (hex0x N (rt w))) = Inr (rt w)"
    by (simp add: hexToBytesR_def hex0x_def noble_okD [OF assms(1)])
  have f: "field (proof_js (mk_proof N indices w (rt w) (fs w) (fp w) (bo w))) ''root'' = JStr (hex0x N (rt w))"
    "field (proof_js (mk_proof N indices w (rt w) (fs w) (fp w) (bo w))) ''final'' = JStr (hex0x N (fs w))"
    "field (proof_js (mk_proof N indices w (rt w) (fs w) (fp w) (bo w))) ''workerIndex'' = num_of_int (int w)"
    "\<exists>l. field (proof_js (mk_proof N indices w (rt w) (fs w) (fp w) (bo w))) ''finalPath'' = JArr l"
    "\<exists>l. field (proof_js (mk_proof N indices w (rt w) (fs w) (fp w) (bo w))) ''openings'' = JArr l"
    "truthy (proof_js (mk_proof N indices w (rt w) (fs w) (fp w) (bo w)))"
    by (simp_all add: proof_js_def mk_proof_def)
  show ?case
    unfolding u list.map collect_roots.simps using f h x IH by (auto simp: Suc_eq_plus1 [symmetric] simp del: upt_Suc)
qed simp

subsection \<open>The reference prover's proof is accepted\<close>

lemma length_s0: "noble_ok N \<Longrightarrow> s0 N p w = Inr b \<Longrightarrow> length b = 32"
  by (auto simp: s0_def seqR_Inr_iff noble_okD)

lemma length_checkpoint: "noble_ok N \<Longrightarrow> length b = 32 \<Longrightarrow> length (checkpoint N k b j) = 32"
  using length_keccak_iter [of N "k * j" b] by (cases "k * j = 0") (auto simp: checkpoint_def)

lemma requiredSegments_less:
  "(\<forall>j \<in> set sampled. j < C) \<Longrightarrow> 0 < C \<Longrightarrow> j \<in> set (requiredSegments sampled) \<Longrightarrow> j < C"
  by (auto simp: requiredSegments_def)

definition honest_opening :: "noble \<Rightarrow> bytes \<Rightarrow> bytes list \<Rightarrow> nat \<Rightarrow> byte_opening" where
  "honest_opening N start cps j =
     \<lparr>bo_prev = (if j = 0 then start else cps ! (j - 1)),
      bo_prevPath = merklePath N (merkleLeaves N cps) (j - 1),
      bo_next = cps ! j, bo_nextPath = merklePath N (merkleLeaves N cps) j\<rparr>"

lemma prove_worker_mk:
  "prove_worker N C indices start cps w =
     mk_proof N indices w (merkleRoot N (merkleLeaves N cps)) (cps ! (C - 1))
       (merklePath N (merkleLeaves N cps) (C - 1)) (honest_opening N start cps)"
  by (simp add: prove_worker_def mk_proof_def prove_opening_def mk_opening_def honest_opening_def Let_def)

lemma honest_opening_ok:
  assumes N: "noble_ok N" and st: "s0 N p w = Inr st" and j: "j < C" and k: "seg_len p = k"
    and cps: "cps = map (\<lambda>j. checkpoint N k st (Suc j)) [0..<C]"
  shows "byte_opening_ok N p w (merkleRoot N (merkleLeaves N cps)) j (honest_opening N st cps j)"
proof -
  have l: "length st = 32" using N st by (rule length_s0)
  have n: "length cps = C" "i < C \<Longrightarrow> cps ! i = checkpoint N k st (Suc i)" for i
    by (simp_all add: cps)
  have s: "(if j = 0 then st else cps ! (j - 1)) = checkpoint N k st j"
    using n(2) [of "j - 1"] j by (cases j) auto
  show ?thesis
    using verifyPath_merklePath [of j cps N] verifyPath_merklePath [of "j - 1" cps N] j st
    by (auto simp: byte_opening_ok_def honest_opening_def s [simplified] n l k length_checkpoint [OF N l]
        checkpoint_Suc [symmetric] split: if_splits)
qed

lemma proveLane_accepted:
  assumes N: "noble_ok N" and C: "0 < lp_checkpoints p"
    and pr: "proveLane N p workers cid = Some (Inr proofs)"
  shows "verifyLane N p workers cid (JArr (map proof_js proofs)) = Some (Inr LaneOk)"
proof -
  let ?C = "lp_checkpoints p"
  obtain per where per: "mapR (\<lambda>w. seqR (computeChain N p w) (\<lambda>cps. seqR (s0 N p w)
      (\<lambda>start. Inr (w, start, cps)))) [0..<workers] = Inr per"
    using pr by (auto simp: proveLane_def split: sum.splits)
  define rts where "rts = map (\<lambda>(w, start, cps). merkleRoot N (merkleLeaves N cps)) per"
  obtain sampled where sm: "sampleIndices N cid (lp_laneId p) rts (lp_samples p) ?C = Some (Inr sampled)"
    and proofs: "proofs = map (\<lambda>(w, start, cps).
        prove_worker N ?C (requiredSegments sampled) start cps w) per"
    using pr per by (auto simp: proveLane_def rts_def seqR_Inr_iff)
  have r: "list_all2 (\<lambda>w x. \<exists>cps start. computeChain N p w = Inr cps \<and> s0 N p w = Inr start \<and> x = (w, start, cps))
      [0..<workers] per"
    using per [unfolded mapR_Inr_iff] by (rule list_all2_mono) (auto simp: seqR_Inr_iff)
  define st where "st w = projr (s0 N p w)" for w
  define cps where "cps w = map (\<lambda>j. checkpoint N (seg_len p) (st w) (Suc j)) [0..<?C]" for w
  have e: "x = (w, st w, cps w) \<and> s0 N p w = Inr (st w)"
    if "computeChain N p w = Inr c" "s0 N p w = Inr s" "x = (w, s, c)" for w x c s
  proof -
    have "lp_chainLen p mod ?C = 0"
      using that(1) by (auto simp: computeChain_def Let_def split: if_splits)
    moreover from this have "c = map (\<lambda>j. checkpoint N (seg_len p) s (Suc j)) [0..<?C]"
      using computeChain_eq [of p N w s] that C by (simp add: seg_len_div)
    ultimately show ?thesis using that by (simp add: st_def cps_def)
  qed
  have "list_all2 (\<lambda>w x. x = (w, st w, cps w) \<and> s0 N p w = Inr (st w)) [0..<workers] per"
    using r by (rule list_all2_mono) (use e in blast)
  then have per': "per = map (\<lambda>w. (w, st w, cps w)) [0..<workers]"
    and st: "\<forall>w < workers. s0 N p w = Inr (st w)"
    by (auto simp: list_all2_conv_all_nth intro: nth_equalityI)
  let ?rt = "\<lambda>w. merkleRoot N (merkleLeaves N (cps w))"
  let ?idx = "requiredSegments sampled"
  let ?pf = "\<lambda>w. proof_js (mk_proof N ?idx w (?rt w) (cps w ! (?C - 1))
      (merklePath N (merkleLeaves N (cps w)) (?C - 1)) (honest_opening N (st w) (cps w)))"
  have pjs: "map proof_js proofs = map ?pf [0..<workers]"
    by (simp add: proofs per' prove_worker_mk)
  have len: "length (?rt w) = 32 \<and> length (cps w ! (?C - 1)) = 32" if "w < workers" for w
  proof -
    have l: "length (st w) = 32" using length_s0 [OF N] st that by blast
    have "length (?rt w) = 32"
      by (rule merkleRoot_length [OF N])
         (use C in \<open>auto simp: merkleLeaves_def cps_def noble_okD [OF N]\<close>)
    then show ?thesis using C by (simp add: cps_def length_checkpoint [OF N l])
  qed
  have roots: "collect_roots N 0 (map ?pf [0..<workers]) = Inr (Inr (map ?rt [0..<workers]))"
    using collect_roots_mk [OF N, of workers ?rt 0 "\<lambda>w. cps w ! (?C - 1)"] len by simp
  have rts: "rts = map ?rt [0..<workers]" by (simp add: rts_def per')
  have "worker_ok N p ?idx w (?rt w) (?pf w)" if w: "w < workers" for w
  proof (rule worker_ok_mk [OF N])
    show "verifyPath N (cps w ! (?C - 1)) (?C - 1) (merklePath N (merkleLeaves N (cps w)) (?C - 1)) (?rt w)"
      by (rule verifyPath_merklePath) (use C in \<open>simp add: cps_def\<close>)
    show "byte_opening_ok N p w (?rt w) j (honest_opening N (st w) (cps w) j)" if "j \<in> set ?idx" for j
    proof (rule honest_opening_ok [OF N _ _ refl])
      show "s0 N p w = Inr (st w)" using st w by blast
      show "j < ?C"
        using requiredSegments_less [OF _ C that] sampleIndices_result [OF sm C] by blast
    qed (simp_all add: cps_def)
  qed
  then have "lane_ok N p workers cid (map ?pf [0..<workers]) (map ?rt [0..<workers]) sampled"
    using sm roots by (simp add: lane_ok_def rts)
  then show ?thesis
    unfolding verifyLane_iff [OF N] pjs by blast
qed

subsection \<open>One root, two trees\<close>

text \<open>
  \<open>verifyPath\<close> does not fix the length of a path.  The tree over \<open>ys\<close> whose first leaf is
  replaced by the root of the tree over \<open>xs\<close> opens every index from 1 on twice: to \<open>ys ! i\<close>
  by a path of the tree's depth, and to \<open>xs ! i\<close> by a path through the first leaf.
\<close>

definition twin_level :: "noble \<Rightarrow> bytes list \<Rightarrow> bytes list \<Rightarrow> bytes list" where
  "twin_level N xs ys = merkleRoot N (merkleLeaves N xs) # drop 1 (merkleLeaves N ys)"

definition twin_root :: "noble \<Rightarrow> bytes list \<Rightarrow> bytes list \<Rightarrow> bytes" where
  "twin_root N xs ys = merkleRoot N (twin_level N xs ys)"

definition inner_path :: "noble \<Rightarrow> bytes list \<Rightarrow> bytes list \<Rightarrow> nat \<Rightarrow> bytes list" where
  "inner_path N xs ys i = merklePath N (merkleLeaves N xs) i @ merklePath N (twin_level N xs ys) 0"

definition outer_path :: "noble \<Rightarrow> bytes list \<Rightarrow> bytes list \<Rightarrow> nat \<Rightarrow> bytes list" where
  "outer_path N xs ys i = merklePath N (twin_level N xs ys) i"

lemma inner_path_ok:
  assumes "i < length xs"
  shows "verifyPath N (xs ! i) i (inner_path N xs ys i) (twin_root N xs ys)"
proof -
  have "fold_path N (merklePath N (merkleLeaves N xs) i) (merkleLeaves N xs ! i) i =
      (merkleRoot N (merkleLeaves N xs), 0)"
    by (rule fold_path_merklePath) (use assms in simp)
  moreover have "fold_path N (merklePath N (twin_level N xs ys) 0) (merkleRoot N (merkleLeaves N xs)) 0 =
      (twin_root N xs ys, 0)"
    using fold_path_merklePath [of 0 "twin_level N xs ys" N] by (simp add: twin_root_def twin_level_def)
  ultimately show ?thesis
    using assms by (simp add: verifyPath_def inner_path_def fold_path_append merkleLeaves_nth)
qed

lemma outer_path_ok:
  assumes "0 < i" and "i < length ys"
  shows "verifyPath N (ys ! i) i (outer_path N xs ys i) (twin_root N xs ys)"
proof -
  have l: "i < length (twin_level N xs ys)" using assms by (simp add: twin_level_def)
  have "twin_level N xs ys ! i = keccak_256 N (concatBytes N [LEAF_TAG, ys ! i])"
    using assms by (cases i) (simp_all add: twin_level_def merkleLeaves_nth)
  with fold_path_merklePath [OF l, of N] show ?thesis
    by (simp add: verifyPath_def outer_path_def twin_root_def)
qed

lemma length_twin_root:
  assumes N: "noble_ok N" and "xs \<noteq> []"
  shows "length (twin_root N xs ys) = 32"
  unfolding twin_root_def
proof (rule merkleRoot_length [OF N])
  have "length (merkleRoot N (merkleLeaves N xs)) = 32"
    by (rule merkleRoot_length [OF N]) (use assms in \<open>auto simp: merkleLeaves_def noble_okD [OF N]\<close>)
  moreover have "\<forall>x \<in> set (merkleLeaves N ys). length x = 32"
    by (simp add: merkleLeaves_def noble_okD [OF N])
  ultimately show "\<forall>x \<in> set (twin_level N xs ys). length x = 32"
    by (auto simp: twin_level_def dest: in_set_dropD)
qed (simp add: twin_level_def)

text \<open>
  A lane proof over arbitrary states.  \<open>xs w\<close> are the states worker \<open>w\<close> claims for the
  starts of segments 1 and up (its head is the end of segment 0, which is anchored); the
  end of each segment is computed from its own start, so the segments do not depend on
  each other.
\<close>

definition seg_ends :: "noble \<Rightarrow> nat \<Rightarrow> bytes list \<Rightarrow> bytes list" where
  "seg_ends N k xs = hd xs # map (keccak_256 N ^^ k) (butlast xs)"

definition forged_opening :: "noble \<Rightarrow> nat \<Rightarrow> bytes \<Rightarrow> bytes list \<Rightarrow> nat \<Rightarrow> byte_opening" where
  "forged_opening N k start xs j =
     (let ys = seg_ends N k xs
      in \<lparr>bo_prev = (if j = 0 then start else xs ! (j - 1)), bo_prevPath = inner_path N xs ys (j - 1),
          bo_next = ys ! j,
          bo_nextPath = (if j = 0 then inner_path N xs ys 0 else outer_path N xs ys j)\<rparr>)"

definition forged_proof :: "noble \<Rightarrow> LaneParams \<Rightarrow> nat list \<Rightarrow> (nat \<Rightarrow> bytes list) \<Rightarrow> nat \<Rightarrow> WorkerProof" where
  "forged_proof N p indices xs w =
     (let k = seg_len p; C = lp_checkpoints p; ys = seg_ends N k (xs w)
      in mk_proof N indices w (twin_root N (xs w) ys) (xs w ! (C - 1)) (inner_path N (xs w) ys (C - 1))
           (forged_opening N k (projr (s0 N p w)) (xs w)))"

lemma seg_ends_nth:
  "xs \<noteq> [] \<Longrightarrow> j < length xs \<Longrightarrow>
   seg_ends N k xs ! j = (if j = 0 then xs ! 0 else (keccak_256 N ^^ k) (xs ! (j - 1)))"
  by (cases j) (auto simp: seg_ends_def hd_conv_nth nth_butlast)

lemma forged_opening_ok:
  assumes N: "noble_ok N" and st: "s0 N p w = Inr st" and j: "j < length xs"
    and xs: "\<forall>x \<in> set xs. length x = 32" "xs ! 0 = (keccak_256 N ^^ seg_len p) st"
  shows "byte_opening_ok N p w (twin_root N xs (seg_ends N (seg_len p) xs)) j
           (forged_opening N (seg_len p) st xs j)"
proof -
  let ?k = "seg_len p"
  have ne: "xs \<noteq> []" using j by auto
  have l: "length st = 32" by (rule length_s0 [OF N st])
  have e: "length (seg_ends N ?k xs) = length xs" using ne by (simp add: seg_ends_def)
  have x: "length (xs ! i) = 32" if "i < length xs" for i using that xs(1) by simp
  have y: "length ((keccak_256 N ^^ ?k) b) = 32" if "length b = 32" for b
    using that length_keccak_iter [OF N, of ?k b] by (cases "?k = 0") auto
  show ?thesis
  proof (cases j)
    case 0
    then show ?thesis
      using inner_path_ok [of 0 xs N "seg_ends N ?k xs"] j st l y [OF l] xs(2)
      by (simp add: byte_opening_ok_def forged_opening_def seg_ends_nth [OF ne] Let_def)
  next
    case (Suc i)
    then show ?thesis
      using inner_path_ok [of i xs N "seg_ends N ?k xs"] j x [of i] y [OF x [of i]]
        outer_path_ok [of j "seg_ends N ?k xs" N xs]
      by (simp add: byte_opening_ok_def forged_opening_def seg_ends_nth [OF ne] e Let_def)
  qed
qed

lemma forged_lane_accepted:
  assumes N: "noble_ok N" and C: "0 < lp_checkpoints p"
    and xs: "\<And>w. w < workers \<Longrightarrow> length (xs w) = lp_checkpoints p \<and> (\<forall>x \<in> set (xs w). length x = 32)
        \<and> (\<exists>st. s0 N p w = Inr st \<and> xs w ! 0 = (keccak_256 N ^^ seg_len p) st)"
    and sm: "sampleIndices N cid (lp_laneId p)
        (map (\<lambda>w. twin_root N (xs w) (seg_ends N (seg_len p) (xs w))) [0..<workers])
        (lp_samples p) (lp_checkpoints p) = Some (Inr sampled)"
  shows "verifyLane N p workers cid
           (JArr (map (\<lambda>w. proof_js (forged_proof N p (requiredSegments sampled) xs w)) [0..<workers]))
         = Some (Inr LaneOk)"
proof -
  let ?C = "lp_checkpoints p" and ?k = "seg_len p" and ?idx = "requiredSegments sampled"
  let ?ys = "\<lambda>w. seg_ends N ?k (xs w)"
  let ?rt = "\<lambda>w. twin_root N (xs w) (?ys w)"
  let ?bo = "\<lambda>w. forged_opening N ?k (projr (s0 N p w)) (xs w)"
  let ?pf = "\<lambda>w. proof_js (mk_proof N ?idx w (?rt w) (xs w ! (?C - 1)) (inner_path N (xs w) (?ys w) (?C - 1)) (?bo w))"
  have pf: "(\<lambda>w. proof_js (forged_proof N p ?idx xs w)) = ?pf"
    by (simp add: forged_proof_def Let_def)
  have len: "length (?rt w) = 32 \<and> length (xs w ! (?C - 1)) = 32" if "w < workers" for w
  proof -
    have "xs w \<noteq> []" using xs [OF that] C by auto
    moreover have "xs w ! (?C - 1) \<in> set (xs w)" using xs [OF that] C by simp
    ultimately show ?thesis using length_twin_root [OF N] xs [OF that] by blast
  qed
  have roots: "collect_roots N 0 (map ?pf [0..<workers]) = Inr (Inr (map ?rt [0..<workers]))"
    using collect_roots_mk [OF N, of workers ?rt 0 "\<lambda>w. xs w ! (?C - 1)"] len by simp
  have "worker_ok N p ?idx w (?rt w) (?pf w)" if w: "w < workers" for w
  proof (rule worker_ok_mk [OF N])
    show "verifyPath N (xs w ! (?C - 1)) (?C - 1) (inner_path N (xs w) (?ys w) (?C - 1)) (?rt w)"
      by (rule inner_path_ok) (use C xs [OF w] in simp)
    show "byte_opening_ok N p w (?rt w) j (?bo w j)" if "j \<in> set ?idx" for j
    proof -
      have "j < ?C" using requiredSegments_less [OF _ C that] sampleIndices_result [OF sm C] by blast
      moreover obtain st where "s0 N p w = Inr st" "xs w ! 0 = (keccak_256 N ^^ ?k) st"
        using xs [OF w] by blast
      ultimately show ?thesis
        using forged_opening_ok [OF N, of p w st j "xs w"] xs [OF w] by simp
    qed
  qed
  then have "lane_ok N p workers cid (map ?pf [0..<workers]) (map ?rt [0..<workers]) sampled"
    using sm roots by (simp add: lane_ok_def)
  then show ?thesis
    unfolding verifyLane_iff [OF N] pf by blast
qed

subsection \<open>Chains whose paths all have one length\<close>

text \<open>The states a worker's proof opens at an index of its tree, each with its path.\<close>

definition opened_at :: "noble \<Rightarrow> jsval list \<Rightarrow> nat \<Rightarrow> (bytes \<times> bytes list) set" where
  "opened_at N ops i =
     {(c, q). \<exists>x \<in> set ops.
        (field x ''seg'' = num_of_int (int i) \<and> field x ''next'' = JStr (hex0x N c)
           \<and> path_bytes N (field x ''nextPath'') = Inr q)
      \<or> (field x ''seg'' = num_of_int (int (i + 1)) \<and> field x ''prev'' = JStr (hex0x N c)
           \<and> path_bytes N (field x ''prevPath'') = Inr q)}"

definition opened_in :: "noble \<Rightarrow> LaneParams \<Rightarrow> jsval \<Rightarrow> nat \<Rightarrow> (bytes \<times> bytes list) set" where
  "opened_in N p wp i =
     opened_at N (jarr (field wp ''openings'')) i
     \<union> (if i = lp_checkpoints p - 1
        then {(c, q). slice_bytes N (field wp ''final'') = Inr c
                \<and> path_bytes N (field wp ''finalPath'') = Inr q} else {})"

definition uniform_paths :: "noble \<Rightarrow> LaneParams \<Rightarrow> jsval \<Rightarrow> bool" where
  "uniform_paths N p wp =
     (\<forall>i. \<forall>(c, q) \<in> opened_in N p wp i. \<forall>(d, r) \<in> opened_in N p wp i.
        length q = length r \<and> \<not> collides N (path_inputs N q c i) (path_inputs N r d i))"

lemma num_of_int_inject [simp]: "num_of_int a = num_of_int b \<longleftrightarrow> a = b"
  by (simp add: num_of_int_def)

lemma hex0x_inject: "noble_ok N \<Longrightarrow> hex0x N a = hex0x N b \<longleftrightarrow> a = b"
  by (simp add: hex0x_def noble_okD)

lemma worker_chain:
  assumes N: "noble_ok N" and C: "0 < lp_checkpoints p"
    and wk: "worker_ok N p expected w rt wp" and all: "{..<lp_checkpoints p} \<subseteq> set expected"
    and u: "uniform_paths N p wp" and st: "s0 N p w = Inr st"
  shows "slice_bytes N (field wp ''final'') = Inr (checkpoint N (seg_len p) st (lp_checkpoints p))"
proof -
  let ?C = "lp_checkpoints p" and ?k = "seg_len p" and ?ops = "jarr (field wp ''openings'')"
  obtain fs fp where f: "slice_bytes N (field wp ''final'') = Inr fs"
      "path_bytes N (field wp ''finalPath'') = Inr fp" "verifyPath N fs (?C - 1) fp rt"
    and ops: "list_all2 (opening_ok N p w rt) expected ?ops"
    using wk unfolding worker_ok_def by blast
  have op: "\<exists>x \<in> set ?ops. opening_ok N p w rt j x" if "j < ?C" for j
  proof -
    have "j \<in> set expected" using that all by auto
    then obtain i where i: "i < length expected" "expected ! i = j" by (auto simp: in_set_conv_nth)
    have "opening_ok N p w rt j (?ops ! i)" "i < length ?ops"
      using list_all2_nthD [OF ops i(1)] list_all2_lengthD [OF ops] i by auto
    then show ?thesis by (meson nth_mem)
  qed
  have uni: "length q = length r \<and> \<not> collides N (path_inputs N q c i) (path_inputs N r d i)"
    if "(c, q) \<in> opened_in N p wp i" "(d, r) \<in> opened_in N p wp i" for c q d r i
    using u that unfolding uniform_paths_def by blast
  have bind: "c = d"
    if "(c, q) \<in> opened_at N ?ops i" "(d, r) \<in> opened_at N ?ops i"
      "verifyPath N c i q rt" "verifyPath N d i r rt" for c d q r i
    using verifyPath_binding [OF N that(3,4)] uni [of c q i d r] that(1,2) by (simp add: opened_in_def)
  have nx: "\<exists>q. (checkpoint N ?k st (Suc j), q) \<in> opened_at N ?ops j \<and> verifyPath N (checkpoint N ?k st (Suc j)) j q rt"
    if "j < ?C" for j
    using that
  proof (induction j)
    case 0
    then obtain x where x: "x \<in> set ?ops" "opening_ok N p w rt 0 x" using op by blast
    then show ?case
      using st by (auto simp: opening_ok_def opened_at_def checkpoint_def)
  next
    case (Suc j)
    obtain q where q: "(checkpoint N ?k st (Suc j), q) \<in> opened_at N ?ops j"
        "verifyPath N (checkpoint N ?k st (Suc j)) j q rt"
      using Suc by auto
    obtain x where x: "x \<in> set ?ops" "opening_ok N p w rt (Suc j) x" using op Suc.prems by blast
    then obtain pv np pp where o: "field x ''seg'' = num_of_int (int (Suc j))"
        "field x ''prev'' = JStr (hex0x N pv)" "field x ''next'' = JStr (hex0x N ((keccak_256 N ^^ ?k) pv))"
        "path_bytes N (field x ''prevPath'') = Inr pp" "verifyPath N pv j pp rt"
        "path_bytes N (field x ''nextPath'') = Inr np" "verifyPath N ((keccak_256 N ^^ ?k) pv) (Suc j) np rt"
      by (auto simp: opening_ok_def)
    have "(pv, pp) \<in> opened_at N ?ops j"
      using x(1) o by (auto simp: opened_at_def intro!: bexI [of _ x])
    then have "pv = checkpoint N ?k st (Suc j)"
      using bind [OF _ q(1) o(5) q(2)] by blast
    then have "(keccak_256 N ^^ ?k) pv = checkpoint N ?k st (Suc (Suc j))"
      by (simp add: checkpoint_Suc)
    then show ?case
      using x(1) o by (auto simp: opened_at_def intro!: exI [of _ np] bexI [of _ x])
  qed
  obtain q where q: "(checkpoint N ?k st ?C, q) \<in> opened_at N ?ops (?C - 1)"
      "verifyPath N (checkpoint N ?k st ?C) (?C - 1) q rt"
    using nx [of "?C - 1"] C by auto
  have "(fs, fp) \<in> opened_in N p wp (?C - 1)" "(checkpoint N ?k st ?C, q) \<in> opened_in N p wp (?C - 1)"
    using f(1,2) q(1) by (simp_all add: opened_in_def)
  then have "fs = checkpoint N ?k st ?C"
    using verifyPath_binding [OF N f(3) q(2)] uni by blast
  with f(1) show ?thesis by simp
qed

subsection \<open>Properties\<close>

lemma computeChain_total:
  assumes "0 < lp_checkpoints p" and "lp_checkpoints p dvd lp_chainLen p"
    and "hexToBytesR N (slice_from 2 (lp_providerId p)) = Inr pid"
  shows "\<exists>st cps. s0 N p w = Inr st \<and> computeChain N p w = Inr cps"
  using assms by (auto simp: s0_def computeChain_def Let_def)

lemma proveLane_returns:
  assumes C: "0 < lp_checkpoints p" "lp_checkpoints p dvd lp_chainLen p"
    and hex: "hexToBytesR N (slice_from 2 (lp_providerId p)) = Inr pid" "hexToBytesR N (slice_from 2 cid) = Inr cb"
    and dr: "\<And>h. min (lp_samples p) (lp_checkpoints p) \<le> card (draw_index N h (lp_checkpoints p) ` {..<n})"
  shows "\<exists>proofs. proveLane N p workers cid = Some (Inr proofs) \<and> length proofs = workers"
proof -
  have "is_ok (mapR (\<lambda>w. seqR (computeChain N p w) (\<lambda>cps. seqR (s0 N p w) (\<lambda>start. Inr (w, start, cps))))
      [0..<workers])"
    unfolding is_ok_mapR
  proof
    fix w
    obtain st cps where "s0 N p w = Inr st" "computeChain N p w = Inr cps"
      using computeChain_total [OF C hex(1)] by blast
    then show "is_ok (seqR (computeChain N p w) (\<lambda>cps. seqR (s0 N p w) (\<lambda>start. Inr (w, start, cps))))"
      by simp
  qed
  then obtain per where per: "mapR (\<lambda>w. seqR (computeChain N p w) (\<lambda>cps. seqR (s0 N p w)
      (\<lambda>start. Inr (w, start, cps)))) [0..<workers] = Inr per"
    by (auto simp: is_ok_iff)
  then have "length per = workers"
    by (auto simp: mapR_Inr_iff dest: list_all2_lengthD)
  moreover have "\<exists>out. sampleIndices N cid (lp_laneId p) rts (lp_samples p) (lp_checkpoints p) = Some (Inr out)" for rts
    using sample_loop_returns [OF dr] by (auto simp: sampleIndices_def hex(2))
  ultimately show ?thesis using per by (fastforce simp: proveLane_def)
qed

text \<open>
  C1: the reference prover returns a proof and the verifier accepts it, whenever the chain
  splits evenly, the identifiers are hexadecimal, and the digest stream yields enough
  distinct segment indices (the sampling loop has no bound of its own).
\<close>

theorem reference_proof_accepted:
  assumes "noble_ok N" and "0 < lp_checkpoints p" and "lp_checkpoints p dvd lp_chainLen p"
    and "hexToBytesR N (slice_from 2 (lp_providerId p)) = Inr pid" and "hexToBytesR N (slice_from 2 cid) = Inr cb"
    and "\<And>h. min (lp_samples p) (lp_checkpoints p) \<le> card (draw_index N h (lp_checkpoints p) ` {..<n})"
  shows "\<exists>proofs. proveLane N p workers cid = Some (Inr proofs) \<and> length proofs = workers \<and>
    verifyLane N p workers cid (JArr (map proof_js proofs)) = Some (Inr LaneOk)"
  using proveLane_returns [OF assms(2-)] proveLane_accepted [OF assms(1,2)] by blast

definition toy_lane :: LaneParams where
  "toy_lane = \<lparr>lp_seed = [1, 2], lp_laneNonce = [3], lp_providerId = js ''0x0a0b'', lp_laneId = js ''core1'',
     lp_chainLen = 6, lp_checkpoints = 3, lp_samples = 1\<rparr>"

lemma toy_hex: "hexToBytesR toy (slice_from 2 (js ''0x0a0b'')) = Inr [10, 11]"
  by (simp add: hexToBytesR_def toy_def slice_from_def js_def of_char_def hex_val_def is_digit_def
      word_le_def)

theorem reference_proof_accepted_witness:
  "\<exists>proofs. proveLane toy toy_lane 2 (js ''0x0a0b'') = Some (Inr proofs) \<and> length proofs = 2 \<and>
    verifyLane toy toy_lane 2 (js ''0x0a0b'') (JArr (map proof_js proofs)) = Some (Inr LaneOk)"
  by (rule reference_proof_accepted [of toy toy_lane "[10, 11]" "js ''0x0a0b''" "[10, 11]" 1, OF toy_ok])
     (simp_all add: toy_lane_def toy_hex lessThan_Suc)

lemma toy_samples: "\<exists>out. sampleIndices toy (js ''0x0a0b'') (js ''core1'') rts 1 3 = Some (Inr out)"
  using sample_loop_returns [of 1 "draw_index toy h 3" 1 for h]
  by (auto simp: sampleIndices_def toy_hex lessThan_Suc)

text \<open>
  C2: \<open>verifyLane\<close> accepts exactly the submissions of the right number of worker proofs in
  which every worker's final state is in its tree at leaf \<open>C - 1\<close>, every required segment
  is opened, in order, inside that tree, each opened segment's end is the iterated hash of
  its start, and segment 0 starts at \<open>s_0\<close>; segment 0 and \<open>min K C\<close> distinct sampled
  segments in range are required.
\<close>

theorem verifyLane_exact:
  assumes "noble_ok N" and "0 < lp_checkpoints p"
  shows "verifyLane N p workers cid proofs = Some (Inr LaneOk) \<longleftrightarrow>
    (\<exists>wps roots sampled. proofs = JArr wps \<and> length wps = workers
      \<and> collect_roots N 0 wps = Inr (Inr roots)
      \<and> sampleIndices N cid (lp_laneId p) roots (lp_samples p) (lp_checkpoints p) = Some (Inr sampled)
      \<and> length sampled = min (lp_samples p) (lp_checkpoints p) \<and> distinct sampled
      \<and> (\<forall>j \<in> set sampled. j < lp_checkpoints p)
      \<and> (\<forall>w < workers. worker_ok N p (requiredSegments sampled) w (roots ! w) (wps ! w)))"
  unfolding verifyLane_iff [OF assms(1)] lane_ok_def
  using sampleIndices_result [OF _ assms(2), of N cid "lp_laneId p" _ "lp_samples p"] by blast

theorem verifyLane_exact_witness:
  "verifyLane toy toy_lane 0 (js ''0x0a0b'') (JArr []) = Some (Inr LaneOk)"
proof -
  obtain out where "sampleIndices toy (js ''0x0a0b'') (js ''core1'') [] 1 3 = Some (Inr out)"
    using toy_samples by blast
  moreover from this have "length out = min 1 3 \<and> distinct out \<and> (\<forall>j \<in> set out. j < 3)"
    by (rule sampleIndices_result) simp
  ultimately show ?thesis
    by (subst verifyLane_exact [OF toy_ok]) (auto simp: toy_lane_def)
qed


definition toy_one :: LaneParams where
  "toy_one = \<lparr>lp_seed = [1, 2], lp_laneNonce = [3], lp_providerId = js ''0x0a0b'', lp_laneId = js ''core1'',
     lp_chainLen = 2, lp_checkpoints = 1, lp_samples = 1\<rparr>"

lemma toy_one_uniform:
  assumes "wp = proof_js (prove_worker toy 1 [0] st [c] 0)"
  shows "uniform_paths toy toy_one wp"
proof -
  have m: "merklePath toy (merkleLeaves toy [c]) 0 = []"
    by (simp add: merklePath.simps merkleLeaves_def)
  have only: "x = (c, [])" if "x \<in> opened_in toy toy_one wp i" for x i
    using that slice_bytes_hex [OF toy_ok, of c]
    by (auto simp: opened_in_def opened_at_def assms proof_js_def prove_worker_def prove_opening_def
        opening_js_def jarr_def m path_bytes_def hex0x_inject [OF toy_ok] Let_def split: if_splits)
  have "\<not> collides toy (path_inputs toy [] c i) (path_inputs toy [] c i)" for i
    by (simp add: collides_def path_inputs_def)
  then show ?thesis
    unfolding uniform_paths_def using only by (auto dest!: only)
qed


text \<open>
  C4: the verifier accepts proofs without sequential work.  For any states \<open>xs w\<close> of 32
  bytes whose first is the true end of segment 0, a root exists under which every later
  segment opens with its claimed start and with an end computed from that start alone,
  and the claimed final state is whatever \<open>xs w\<close> ends with: the lengths of the paths are
  not checked, so one root holds two trees.
\<close>

theorem forged_lane_verifies:
  assumes "noble_ok N" and "0 < lp_checkpoints p"
    and "\<And>w. w < workers \<Longrightarrow> length (xs w) = lp_checkpoints p \<and> (\<forall>x \<in> set (xs w). length x = 32)
        \<and> (\<exists>st. s0 N p w = Inr st \<and> xs w ! 0 = checkpoint N (seg_len p) st 1)"
    and "sampleIndices N cid (lp_laneId p)
        (map (\<lambda>w. twin_root N (xs w) (seg_ends N (seg_len p) (xs w))) [0..<workers])
        (lp_samples p) (lp_checkpoints p) = Some (Inr sampled)"
  shows "verifyLane N p workers cid
           (JArr (map (\<lambda>w. proof_js (forged_proof N p (requiredSegments sampled) xs w)) [0..<workers]))
         = Some (Inr LaneOk)
    \<and> (\<forall>w < workers. slice_bytes N (field (proof_js (forged_proof N p (requiredSegments sampled) xs w)) ''final'')
         = Inr (xs w ! (lp_checkpoints p - 1)))"
  using forged_lane_accepted [OF assms(1,2) _ assms(4)] assms(3)
  by (auto simp: checkpoint_def forged_proof_def Let_def proof_js_def mk_proof_def slice_bytes_hex [OF assms(1)])

definition toy_states :: "nat \<Rightarrow> bytes list" where
  "toy_states w = [checkpoint toy 2 (projr (s0 toy toy_lane w)) 1, replicate 32 9, replicate 32 9]"

theorem forged_lane_verifies_witness:
  "\<exists>sampled. verifyLane toy toy_lane 1 (js ''0x0a0b'')
      (JArr (map (\<lambda>w. proof_js (forged_proof toy toy_lane (requiredSegments sampled) toy_states w)) [0..<1]))
      = Some (Inr LaneOk)"
proof -
  have sl: "seg_len toy_lane = 2" "lp_checkpoints toy_lane = 3" "lp_samples toy_lane = 1"
    "lp_laneId toy_lane = js ''core1''"
    by (simp_all add: seg_len_def toy_lane_def)
  obtain st where st: "s0 toy toy_lane 0 = Inr st"
    by (simp add: s0_def toy_lane_def toy_hex)
  obtain sampled where sm: "sampleIndices toy (js ''0x0a0b'') (lp_laneId toy_lane)
        (map (\<lambda>w. twin_root toy (toy_states w) (seg_ends toy (seg_len toy_lane) (toy_states w))) [0..<1])
        (lp_samples toy_lane) (lp_checkpoints toy_lane) = Some (Inr sampled)"
    unfolding sl using toy_samples by blast
  have "length (toy_states w) = lp_checkpoints toy_lane \<and> (\<forall>x \<in> set (toy_states w). length x = 32)
        \<and> (\<exists>st. s0 toy toy_lane w = Inr st \<and> toy_states w ! 0 = checkpoint toy (seg_len toy_lane) st 1)"
    if "w < 1" for w
    using that st length_checkpoint [OF toy_ok length_s0 [OF toy_ok st]] by (simp add: toy_states_def sl)
  from forged_lane_verifies [OF toy_ok _ this sm] show ?thesis
    unfolding sl by auto
qed

text \<open>
  C5: the sampling loop returns exactly when the digests, over all counters, name at least
  \<open>min K C\<close> distinct segments; it then yields that many distinct indices below \<open>C\<close>.
  Otherwise it runs forever.
\<close>

theorem sampler_returns_iff:
  assumes "0 < C" and "hexToBytesR N (slice_from 2 cid) = Inr cb"
  shows "((\<exists>out. sampleIndices N cid lane roots K C = Some (Inr out) \<and> length out = min K C
            \<and> distinct out \<and> (\<forall>j \<in> set out. j < C))
      \<longleftrightarrow> (\<exists>n. min K C \<le> card (draw_index N (sample_seed N cb lane roots) C ` {..<n})))
    \<and> (sampleIndices N cid lane roots K C = None
      \<longleftrightarrow> (\<forall>n. card (draw_index N (sample_seed N cb lane roots) C ` {..<n}) < min K C))"
proof -
  let ?d = "draw_index N (sample_seed N cb lane roots) C"
  have s: "sampleIndices N cid lane roots K C = map_option Inr (sample_loop ?d (min K C) [] {} 0)"
    by (simp add: sampleIndices_def assms(2))
  have n: "sampleIndices N cid lane roots K C = None \<longleftrightarrow> (\<forall>n. card (?d ` {..<n}) < min K C)"
    unfolding s option.map_disc_iff by (rule sample_loop_None_iff)
  have "(\<exists>out. sampleIndices N cid lane roots K C = Some (Inr out) \<and> length out = min K C
            \<and> distinct out \<and> (\<forall>j \<in> set out. j < C)) \<longleftrightarrow> sampleIndices N cid lane roots K C \<noteq> None"
  proof
    assume "sampleIndices N cid lane roots K C \<noteq> None"
    then obtain out where out: "sampleIndices N cid lane roots K C = Some (Inr out)"
      unfolding s by blast
    from sampleIndices_result [OF out assms(1)] out
    show "\<exists>out. sampleIndices N cid lane roots K C = Some (Inr out) \<and> length out = min K C
            \<and> distinct out \<and> (\<forall>j \<in> set out. j < C)" by blast
  qed auto
  then show ?thesis unfolding n not_all not_less using n by blast
qed

theorem sampler_returns_iff_witness:
  "\<exists>out. sampleIndices toy (js ''0x0a0b'') (js ''core1'') [] 1 3 = Some (Inr out) \<and> length out = min 1 3
            \<and> distinct out \<and> (\<forall>j \<in> set out. j < 3)"
  by (rule sampler_returns_iff [THEN conjunct1, THEN iffD2, OF _ toy_hex])
     (auto simp: lessThan_Suc intro!: exI [of _ 1])

end
