(* ===== verification/Records.thy ===== *)
theory Records
  imports Config Bench
begin

text \<open>
  What the service stores: the challenge state of \<open>src/handlers/attest.ts\<close>, the cached
  terms of \<open>src/redis.ts\<close>, and the rows of the schema in \<open>src/db.ts\<close>.  Times are
  milliseconds since the epoch.  A value stored as JSON text is held as the value, since
  parsing what was written gives it back.
\<close>

subsection \<open>Benchmark state\<close>

datatype LaneId = Single | Quad | Eight | Full

definition LANE_ORDER :: "LaneId list" where
  "LANE_ORDER = [Single, Quad, Eight, Full]"

fun lane_name :: "LaneId \<Rightarrow> string" where
  "lane_name Single = ''single''"
| "lane_name Quad = ''quad''"
| "lane_name Eight = ''eight''"
| "lane_name Full = ''full''"

fun lane_pos :: "LaneId \<Rightarrow> nat" where
  "lane_pos Single = 0"
| "lane_pos Quad = 1"
| "lane_pos Eight = 2"
| "lane_pos Full = 3"

lemma lane_pos_inject [simp]: "lane_pos a = lane_pos b \<longleftrightarrow> a = b"
  by (cases a; cases b) simp_all

lemma lane_name_inject [simp]: "lane_name a = lane_name b \<longleftrightarrow> a = b"
  by (cases a; cases b) simp_all

text \<open>The order the lanes run in.\<close>

instantiation LaneId :: linorder
begin

definition less_eq_LaneId :: "LaneId \<Rightarrow> LaneId \<Rightarrow> bool" where
  "less_eq_LaneId a b = (lane_pos a \<le> lane_pos b)"

definition less_LaneId :: "LaneId \<Rightarrow> LaneId \<Rightarrow> bool" where
  "less_LaneId a b = (lane_pos a < lane_pos b)"

instance
  by standard (auto simp: less_eq_LaneId_def less_LaneId_def)

end

lemma lanes_all: "(\<forall>l. P l) \<longleftrightarrow> P Single \<and> P Quad \<and> P Eight \<and> P Full"
  by (metis LaneId.exhaust)

lemma set_LANE_ORDER [simp]: "set LANE_ORDER = UNIV"
  by (auto simp: LANE_ORDER_def intro: LaneId.exhaust)

datatype LaneStatus = LanePending | LaneStarted | LaneDone

record LaneState =
  ls_workers :: int
  ls_status :: LaneStatus
  ls_issuedAt :: "int option"
  ls_nonce :: "jstr option"
  ls_elapsedMs :: "int option"

record BenchState =
  bs_providerId :: jstr
  bs_seed :: jstr
  bs_chainLen :: int
  bs_checkpoints :: int
  bs_samples :: int
  bs_deadlineMs :: int
  bs_arch :: jstr
  bs_coreCount :: int
  bs_ramGib :: jsnum
  bs_cpuModel :: "jstr option"
  bs_lanes :: "LaneId \<Rightarrow> LaneState"

subsection \<open>Cached terms\<close>

record TermsRec =
  tr_payload :: jsval
  tr_signature :: jstr
  tr_receivedAt :: jstr

subsection \<open>Rows\<close>

record log_row =
  l_hash :: bytes
  l_type :: string
  l_provider :: bytes
  l_payload :: jsval
  l_signature :: bytes
  l_received :: int

record provider_row =
  pr_id :: bytes
  pr_profile :: bytes
  pr_signed :: int
  pr_heartbeat :: int
  pr_firstSeen :: int
  pr_updated :: int

record scores =
  sc_single :: jsnum
  sc_quad :: jsnum
  sc_eight :: jsnum
  sc_full :: jsnum
  sc_ramBandwidth :: "jsnum option"
  sc_dagHash :: "jsnum option"

record att_row =
  at_id :: bytes
  at_provider :: bytes
  at_model :: string
  at_arch :: jstr
  at_cores :: int
  at_ram :: jsnum
  at_cpuModel :: "jstr option"
  at_scores :: scores
  at_measured :: int
  at_expires :: int
  at_signature :: bytes

record offer_row =
  of_id :: bytes
  of_provider :: bytes
  of_att :: bytes
  of_template :: jsval
  of_model :: string
  of_expires :: int
  of_revoked :: "int option"
  of_created :: int
  of_arch :: jstr
  of_cores :: int
  of_ram :: jsnum
  of_scores :: scores

text \<open>
  A sample of the market (\<open>market_snapshots\<close>): the counts, the live capacity, the lowest, middle
  and highest price, and what the demand simulator has spent and settled, when it runs.
\<close>

record snap_row =
  sn_at :: int
  sn_provTotal :: int
  sn_provActive :: int
  sn_provBusy :: int
  sn_offActive :: int
  sn_offLive :: int
  sn_offBusy :: int
  sn_atts :: int
  sn_cores :: int
  sn_ram :: rat
  sn_price :: "(rat \<times> rat \<times> rat) option"
  sn_sim :: "(rat \<times> int) option"

text \<open>
  A settled job of the demand simulator (\<open>dev_sim_jobs\<close>); \<open>sj_price\<close> is the decimal text of the
  \<open>numeric\<close> column.
\<close>

record sim_job =
  sj_id :: int
  sj_requestor :: jstr
  sj_requestorName :: jstr
  sj_shape :: jstr
  sj_provider :: jstr
  sj_providerName :: jstr
  sj_offer :: jstr
  sj_price :: jstr
  sj_run :: int
  sj_cost :: rat
  sj_started :: int
  sj_settled :: int

record db =
  payload_log :: "log_row list"
  providers :: "provider_row list"
  attestations :: "att_row list"
  offers :: "offer_row list"
  snapshots :: "snap_row list"
  sim_jobs :: "sim_job list"

end
