(* ===== verification/World.thy ===== *)
theory World
  imports Records
begin

text \<open>
  The state the handlers run in, and how they run.  Redis is a service outside this
  repository: the commands \<open>src/redis.ts\<close> issues are data, and what executes them is a
  parameter of the model (\<open>redis_exec\<close>), as are the packages (\<open>noble_fns\<close>), the clock, the
  random bytes and the fate of each database statement.  A handler is a function from
  the world to a result or an exception and the world it leaves; awaited calls run one
  after the other.
\<close>

subsection \<open>Redis keys, commands and replies\<close>

text \<open>
  The keys of \<open>src/redis.ts\<close>; their texts (\<open>terms:id\<close>, \<open>seq:id\<close>, ...) differ because the
  prefixes do and, for the counters, because the last segment is a number.
\<close>

datatype rkey =
    KTerms jstr
  | KSeq jstr
  | KBusy jstr
  | KAvailSeq jstr
  | KBench jstr
  | KRl string jstr int
  | KSnapshot
  | KStats
  | KSeen jstr

datatype rval =
    VTerms TermsRec
  | VNum int
  | VFlag
  | VBench BenchState
  | VIso jstr
  | VBlob jsval

datatype rcmd =
    PING
  | SET rkey rval "int option"  \<comment> \<open>with \<open>PX\<close>\<close>
  | GET rkey
  | MGET "rkey list"
  | DEL "rkey list"
  | EXISTS rkey
  | INCR rkey
  | PEXPIRE rkey int
  | ZADD jstr int  \<comment> \<open>the key is \<open>live:offers\<close>\<close>
  | ZREM jstr
  | ZREMRANGEBYSCORE int  \<comment> \<open>\<open>-inf\<close> to the number, exclusive\<close>
  | ZRANGEBYSCORE int  \<comment> \<open>the number to \<open>+inf\<close>\<close>
  | HSET jstr jstr  \<comment> \<open>the key is \<open>live:prices\<close>\<close>
  | HDEL jstr
  | HMGET "jstr list"

datatype rreply =
    RNil
  | ROk
  | RPong
  | RInt int
  | RVal rval
  | RVals "rval option list"
  | RIds "jstr list"
  | RStrs "jstr option list"

text \<open>
  A command is answered, or fails: with a connection error, which the wrapper absorbs, or
  with any other error, which it rethrows.
\<close>

datatype rresult = Reply rreply | ConnError | CmdError

record kv =
  kv_str :: "rkey \<Rightarrow> (rval \<times> int option) option"  \<comment> \<open>value and expiry time\<close>
  kv_live :: "(jstr \<times> int) list"  \<comment> \<open>members and scores of \<open>live:offers\<close>\<close>
  kv_prices :: "(jstr \<times> jstr) list"  \<comment> \<open>fields of \<open>live:prices\<close>\<close>

subsection \<open>Environment and world\<close>

datatype fate = Works | Fails | ReplyLost

record env =
  noble_fns :: noble
  cfg :: config
  svc_key :: bytes
  now_at :: "nat \<Rightarrow> int"
  random_at :: "nat \<Rightarrow> nat \<Rightarrow> bytes"
  redis_connect :: "nat \<Rightarrow> bool"
  redis_exec :: "nat \<Rightarrow> int \<Rightarrow> rcmd \<Rightarrow> kv \<Rightarrow> rresult \<times> kv"
  pg_fate :: "nat \<Rightarrow> fate"

text \<open>\<open>tick\<close> counts what the environment has been asked so far.\<close>

record world =
  tick :: nat
  client :: bool
  lastFailure :: int
  kvs :: kv
  tables :: db

type_synonym 'a io = "world \<Rightarrow> (thrown + 'a) \<times> world"

definition ret :: "'a \<Rightarrow> 'a io" where
  "ret a w = (Inr a, w)"

definition throw :: "thrown \<Rightarrow> 'a io" where
  "throw e w = (Inl e, w)"

text \<open>\<open>await m\<close>, then \<open>f\<close> with its result, unless \<open>m\<close> threw.\<close>

definition seqI :: "'a io \<Rightarrow> ('a \<Rightarrow> 'b io) \<Rightarrow> 'b io" where
  "seqI m f w = (case m w of (Inl e, w') \<Rightarrow> (Inl e, w') | (Inr a, w') \<Rightarrow> f a w')"

definition guardI :: "bool \<Rightarrow> thrown \<Rightarrow> unit io" where
  "guardI bad e = (if bad then throw e else ret ())"

definition liftI :: "thrown + 'a \<Rightarrow> 'a io" where
  "liftI r = (case r of Inl e \<Rightarrow> throw e | Inr a \<Rightarrow> ret a)"

definition time_now :: "env \<Rightarrow> int io" where
  "time_now E w = (Inr (now_at E (tick w)), w\<lparr>tick := tick w + 1\<rparr>)"

definition randomBytes :: "env \<Rightarrow> nat \<Rightarrow> bytes io" where
  "randomBytes E n w = (Inr (random_at E (tick w) n), w\<lparr>tick := tick w + 1\<rparr>)"

text \<open>
  A database statement: \<open>f\<close> is what it does to the tables at the server's time; a violated
  constraint (\<open>None\<close>) and a lost connection raise an exception nobody catches.  A
  connection lost after the statement took effect leaves the effect.
\<close>

definition pg :: "env \<Rightarrow> (int \<Rightarrow> db \<Rightarrow> ('a \<times> db) option) \<Rightarrow> 'a io" where
  "pg E f w =
     (let w' = w\<lparr>tick := tick w + 1\<rparr>
      in case f (now_at E (tick w)) (tables w) of
           None \<Rightarrow> (Inl Uncaught, w')
         | Some (a, d) \<Rightarrow>
             (case pg_fate E (tick w) of
                Works \<Rightarrow> (Inr a, w'\<lparr>tables := d\<rparr>)
              | Fails \<Rightarrow> (Inl Uncaught, w')
              | ReplyLost \<Rightarrow> (Inl Uncaught, w'\<lparr>tables := d\<rparr>)))"

definition pg_read :: "env \<Rightarrow> (int \<Rightarrow> db \<Rightarrow> 'a) \<Rightarrow> 'a io" where
  "pg_read E q = pg E (\<lambda>t d. Some (q t d, d))"

fun mapI :: "('a \<Rightarrow> 'b io) \<Rightarrow> 'a list \<Rightarrow> 'b list io" where
  "mapI f [] = ret []"
| "mapI f (x # xs) = seqI (f x) (\<lambda>y. seqI (mapI f xs) (\<lambda>ys. ret (y # ys)))"

subsection \<open>Reading a run backwards\<close>

lemma ret_Inr [simp]: "ret a w = (Inr b, w') \<longleftrightarrow> b = a \<and> w' = w"
  by (auto simp: ret_def)

lemma ret_not_Inl [simp]: "ret a w \<noteq> (Inl e, w')"
  by (simp add: ret_def)

lemma throw_not_Inr [simp]: "throw e w \<noteq> (Inr b, w')"
  by (simp add: throw_def)

lemma throw_Inl [simp]: "throw e w = (Inl e', w') \<longleftrightarrow> e' = e \<and> w' = w"
  by (auto simp: throw_def)

lemma seqI_Inr [guard_simps]:
  "seqI m f w = (Inr b, w') \<longleftrightarrow> (\<exists>a w1. m w = (Inr a, w1) \<and> f a w1 = (Inr b, w'))"
  by (auto simp: seqI_def split: prod.split sum.split)

lemma seqI_step: "m w = (Inr a, w1) \<Longrightarrow> seqI m f w = f a w1"
  by (simp add: seqI_def)

lemma guardI_Inr [guard_simps]: "guardI bad e w = (Inr u, w') \<longleftrightarrow> \<not> bad \<and> w' = w"
  by (simp add: guardI_def)

lemma liftI_Inr [guard_simps]: "liftI r w = (Inr a, w') \<longleftrightarrow> r = Inr a \<and> w' = w"
  by (cases r) (auto simp: liftI_def)

lemma time_now_Inr [guard_simps]:
  "time_now E w = (Inr t, w') \<longleftrightarrow> t = now_at E (tick w) \<and> w' = w\<lparr>tick := tick w + 1\<rparr>"
  by (auto simp: time_now_def)

lemma randomBytes_Inr [guard_simps]:
  "randomBytes E n w = (Inr b, w') \<longleftrightarrow> b = random_at E (tick w) n \<and> w' = w\<lparr>tick := tick w + 1\<rparr>"
  by (auto simp: randomBytes_def)

lemma pg_Inr [guard_simps]:
  "pg E f w = (Inr a, w') \<longleftrightarrow>
     (\<exists>d. f (now_at E (tick w)) (tables w) = Some (a, d) \<and> pg_fate E (tick w) = Works
        \<and> w' = w\<lparr>tick := tick w + 1, tables := d\<rparr>)"
  by (auto simp: pg_def Let_def split: option.split prod.split fate.split)

lemma pg_read_Inr [guard_simps]:
  "pg_read E q w = (Inr a, w') \<longleftrightarrow>
     a = q (now_at E (tick w)) (tables w) \<and> pg_fate E (tick w) = Works \<and> w' = w\<lparr>tick := tick w + 1\<rparr>"
  by (auto simp: pg_read_def pg_Inr)

subsection \<open>What a handler may do to the world\<close>

text \<open>
  The contract several handlers share: whatever happens, errors included, the world before
  and after a run are related by \<open>R\<close>.  A preorder is kept by sequencing, so it is enough
  to look at the primitive operations.
\<close>

definition keeps :: "(world \<Rightarrow> world \<Rightarrow> bool) \<Rightarrow> 'a io \<Rightarrow> bool" where
  "keeps R m = (\<forall>w. R w (snd (m w)))"

locale world_order =
  fixes R :: "world \<Rightarrow> world \<Rightarrow> bool"
  assumes refl: "R w w"
    and trans: "R u v \<Longrightarrow> R v w \<Longrightarrow> R u w"
    and tick: "R w (w\<lparr>tick := n\<rparr>)"
begin

lemma keeps_ret: "keeps R (ret a)"
  by (simp add: keeps_def ret_def refl)

lemma keeps_throw: "keeps R (throw e)"
  by (simp add: keeps_def throw_def refl)

lemma keeps_seqI: "keeps R m \<Longrightarrow> (\<And>a. keeps R (f a)) \<Longrightarrow> keeps R (seqI m f)"
proof -
  assume m: "keeps R m" and f: "\<And>a. keeps R (f a)"
  have "R w (snd (seqI m f w))" for w
  proof (cases "m w")
    case (Pair r w')
    have "R w w'" using m Pair by (metis keeps_def snd_conv)
    moreover have "R w' (snd (f a w'))" for a using f [of a] by (simp add: keeps_def)
    ultimately show ?thesis
      using trans by (cases r) (auto simp: seqI_def Pair)
  qed
  then show ?thesis by (simp add: keeps_def)
qed

lemma keeps_guardI: "keeps R (guardI bad e)"
  by (simp add: guardI_def keeps_throw keeps_ret)

lemma keeps_liftI: "keeps R (liftI r)"
  by (cases r) (simp_all add: liftI_def keeps_throw keeps_ret)

lemma keeps_time_now: "keeps R (time_now E)"
  by (simp add: keeps_def time_now_def tick)

lemma keeps_randomBytes: "keeps R (randomBytes E n)"
  by (simp add: keeps_def randomBytes_def tick)

lemma keeps_pg:
  assumes "\<And>t d a d' w. f t d = Some (a, d') \<Longrightarrow> R (w\<lparr>tables := d\<rparr>) (w\<lparr>tables := d'\<rparr>)"
  shows "keeps R (pg E f)"
  unfolding keeps_def
proof
  fix w
  have s: "R w (w\<lparr>tick := tick w + 1, tables := d\<rparr>)" if "f (now_at E (tick w)) (tables w) = Some (a, d)" for a d
  proof -
    have "R (w\<lparr>tick := tick w + 1\<rparr>) (w\<lparr>tick := tick w + 1, tables := d\<rparr>)"
      using assms [OF that, of "w\<lparr>tick := tick w + 1\<rparr>"] by simp
    then show ?thesis by (rule trans [OF tick])
  qed
  show "R w (snd (pg E f w))"
    using s tick [of w "tick w + 1"]
    by (auto simp: pg_def Let_def split: option.split prod.split fate.split)
qed

lemma keeps_pg_read: "keeps R (pg_read E q)"
  unfolding pg_read_def by (rule keeps_pg) (simp add: refl)

lemma keeps_mapI: "(\<And>x. keeps R (f x)) \<Longrightarrow> keeps R (mapI f xs)"
  by (induction xs) (auto intro: keeps_ret keeps_seqI)

lemma keeps_if: "keeps R m \<Longrightarrow> keeps R n \<Longrightarrow> keeps R (if b then m else n)"
  by simp

lemmas keeps_rules =
  keeps_ret keeps_throw keeps_seqI keeps_guardI keeps_liftI keeps_time_now keeps_randomBytes
  keeps_pg_read keeps_mapI keeps_if

end

subsection \<open>Invariants with what a step returns\<close>

text \<open>
  \<open>inv_io I m F\<close>: the invariant holds after \<open>m\<close> if it held before, whether \<open>m\<close> threw or
  not, and a value returned satisfies \<open>F\<close>.
\<close>

definition inv_io :: "(world \<Rightarrow> bool) \<Rightarrow> 'a io \<Rightarrow> ('a \<Rightarrow> bool) \<Rightarrow> bool" where
  "inv_io I m F =
     (\<forall>w. I w \<longrightarrow> (case m w of (Inl e, w') \<Rightarrow> I w' | (Inr a, w') \<Rightarrow> I w' \<and> F a))"

lemma inv_ret: "F a \<Longrightarrow> inv_io I (ret a) F"
  by (simp add: inv_io_def ret_def)

lemma inv_throw: "inv_io I (throw e) F"
  by (simp add: inv_io_def throw_def)

lemma inv_seqI:
  assumes "inv_io I m G" and "\<And>a. G a \<Longrightarrow> inv_io I (f a) F"
  shows "inv_io I (seqI m f) F"
  unfolding inv_io_def
proof (intro allI impI)
  fix w assume "I w"
  show "case seqI m f w of (Inl e, w') \<Rightarrow> I w' | (Inr a, w') \<Rightarrow> I w' \<and> F a"
  proof (cases "m w")
    case (Pair r w')
    with assms(1) \<open>I w\<close> have "case r of Inl e \<Rightarrow> I w' | Inr a \<Rightarrow> I w' \<and> G a"
      by (auto simp: inv_io_def split: sum.split dest!: spec [of _ w])
    then show ?thesis
      using assms(2) Pair by (cases r) (auto simp: seqI_def inv_io_def)
  qed
qed

lemma inv_guardI: "inv_io I (guardI bad e) (\<lambda>_. \<not> bad)"
  by (simp add: guardI_def inv_ret inv_throw)

lemma inv_keeps: "keeps (\<lambda>w w'. I w \<longrightarrow> I w') m \<Longrightarrow> inv_io I m (\<lambda>_. True)"
  by (force simp: inv_io_def keeps_def split: prod.split sum.split)

lemma inv_weaken: "inv_io I m G \<Longrightarrow> (\<And>a. G a \<Longrightarrow> F a) \<Longrightarrow> inv_io I m F"
  by (fastforce simp: inv_io_def split: prod.splits sum.splits)

lemma inv_pure_seqI: "(\<And>a. inv_io I (f a) F) \<Longrightarrow> inv_io I m (\<lambda>_. True) \<Longrightarrow> inv_io I (seqI m f) F"
  by (rule inv_seqI)

lemma inv_ioD: "inv_io I m F \<Longrightarrow> I w \<Longrightarrow> I (snd (m w))"
  by (cases "m w"; cases "fst (m w)") (fastforce simp: inv_io_def split: prod.splits sum.splits)+

lemma inv_io_Inr: "inv_io I m F \<Longrightarrow> I w \<Longrightarrow> m w = (Inr a, w') \<Longrightarrow> I w' \<and> F a"
  by (auto simp: inv_io_def)

end
