(* ===== verification/Redis_Store.thy ===== *)
theory Redis_Store
  imports World "HOL-Library.AList" "HOL-Library.Product_Lexorder"
begin

text \<open>
  The Redis wrapper (\<open>src/redis.ts\<close>): the circuit breaker around the connection and one
  definition per operation.  \<open>redis_documented\<close> is what the Redis documentation says the
  commands do; it is a hypothesis about the parameter \<open>redis_exec\<close>, never a definition
  the wrapper uses.
\<close>

subsection \<open>What the commands are documented to do\<close>

definition alive :: "int \<Rightarrow> kv \<Rightarrow> rkey \<Rightarrow> rval option" where
  "alive t s k = (case kv_str s k of
       None \<Rightarrow> None
     | Some (v, None) \<Rightarrow> Some v
     | Some (v, Some e) \<Rightarrow> if t < e then Some v else None)"

definition counter :: "int \<Rightarrow> kv \<Rightarrow> rkey \<Rightarrow> int" where
  "counter t s k = (case alive t s k of Some (VNum n) \<Rightarrow> n | _ \<Rightarrow> 0)"

definition zset_add :: "jstr \<Rightarrow> int \<Rightarrow> (jstr \<times> int) list \<Rightarrow> (jstr \<times> int) list" where
  "zset_add m sc z = (m, sc) # filter (\<lambda>(k, _). k \<noteq> m) z"

fun redis_reply :: "int \<Rightarrow> rcmd \<Rightarrow> kv \<Rightarrow> rreply" where
  "redis_reply t PING s = RPong"
| "redis_reply t (SET k v px) s = ROk"
| "redis_reply t (GET k) s = (case alive t s k of None \<Rightarrow> RNil | Some v \<Rightarrow> RVal v)"
| "redis_reply t (MGET ks) s = RVals (map (alive t s) ks)"
| "redis_reply t (DEL ks) s = RInt (int (length (filter (\<lambda>k. alive t s k \<noteq> None) ks)))"
| "redis_reply t (EXISTS k) s = RInt (if alive t s k = None then 0 else 1)"
| "redis_reply t (INCR k) s = RInt (counter t s k + 1)"
| "redis_reply t (PEXPIRE k ms) s = RInt (if alive t s k = None then 0 else 1)"
| "redis_reply t (ZADD m sc) s = RInt (if m \<in> fst ` set (kv_live s) then 0 else 1)"
| "redis_reply t (ZREM m) s = RInt (if m \<in> fst ` set (kv_live s) then 1 else 0)"
| "redis_reply t (ZREMRANGEBYSCORE x) s = RInt (int (length (filter (\<lambda>(_, sc). sc < x) (kv_live s))))"
| "redis_reply t (ZRANGEBYSCORE x) s =
     RIds (map snd (sort (map (\<lambda>(m, sc). (sc, m)) (filter (\<lambda>(_, sc). x \<le> sc) (kv_live s)))))"
| "redis_reply t (HSET f v) s = RInt (if f \<in> fst ` set (kv_prices s) then 0 else 1)"
| "redis_reply t (HDEL f) s = RInt (if f \<in> fst ` set (kv_prices s) then 1 else 0)"
| "redis_reply t (HMGET fs) s = RStrs (map (map_of (kv_prices s)) fs)"

fun redis_effect :: "int \<Rightarrow> rcmd \<Rightarrow> kv \<Rightarrow> kv" where
  "redis_effect t (SET k v px) s =
     s\<lparr>kv_str := (kv_str s)(k \<mapsto> (v, map_option (\<lambda>ms. t + ms) px))\<rparr>"
| "redis_effect t (DEL ks) s = s\<lparr>kv_str := (\<lambda>k. if k \<in> set ks then None else kv_str s k)\<rparr>"
| "redis_effect t (INCR k) s =
     s\<lparr>kv_str := (kv_str s)(k \<mapsto> (VNum (counter t s k + 1),
         if alive t s k = None then None else Option.bind (kv_str s k) snd))\<rparr>"
| "redis_effect t (PEXPIRE k ms) s =
     (case alive t s k of None \<Rightarrow> s | Some v \<Rightarrow> s\<lparr>kv_str := (kv_str s)(k \<mapsto> (v, Some (t + ms)))\<rparr>)"
| "redis_effect t (ZADD m sc) s = s\<lparr>kv_live := zset_add m sc (kv_live s)\<rparr>"
| "redis_effect t (ZREM m) s = s\<lparr>kv_live := filter (\<lambda>(k, _). k \<noteq> m) (kv_live s)\<rparr>"
| "redis_effect t (ZREMRANGEBYSCORE x) s = s\<lparr>kv_live := filter (\<lambda>(_, sc). x \<le> sc) (kv_live s)\<rparr>"
| "redis_effect t (HSET f v) s = s\<lparr>kv_prices := AList.update f v (kv_prices s)\<rparr>"
| "redis_effect t (HDEL f) s = s\<lparr>kv_prices := AList.delete f (kv_prices s)\<rparr>"
| "redis_effect t _ s = s"

text \<open>
  A command is answered as documented, or its connection fails before or after it ran.
  No command of the wrapper is ever refused: every key holds one type of value.
\<close>

definition redis_documented :: "env \<Rightarrow> bool" where
  "redis_documented E =
     (\<forall>n t c s. redis_exec E n t c s \<in>
        {(Reply (redis_reply t c s), redis_effect t c s), (ConnError, s), (ConnError, redis_effect t c s)})"

text \<open>The same without failures.\<close>

definition redis_up :: "env \<Rightarrow> bool" where
  "redis_up E = (\<forall>n t c s. redis_exec E n t c s = (Reply (redis_reply t c s), redis_effect t c s))"

lemma redis_up_documented: "redis_up E \<Longrightarrow> redis_documented E"
  by (simp add: redis_up_def redis_documented_def)

subsection \<open>The connection\<close>

definition RETRY_MS :: int where "RETRY_MS = 3000"

definition note_failure :: "env \<Rightarrow> unit io" where
  "note_failure E = seqI (time_now E) (\<lambda>t w. (Inr (), w\<lparr>client := False, lastFailure := t\<rparr>))"

definition getClient :: "env \<Rightarrow> bool io" where
  "getClient E w =
     (if client w then ret True w
      else seqI (time_now E) (\<lambda>t.
        if t - lastFailure w < RETRY_MS then ret False
        else (\<lambda>w. if redis_connect E (tick w) then (Inr True, w\<lparr>client := True\<rparr>)
                   else seqI (time_now E) (\<lambda>t w. (Inr False, w\<lparr>lastFailure := t\<rparr>)) w)) w)"

text \<open>\<open>client.onclose\<close>: the runtime calls it when the connection drops.\<close>

definition onclose :: "env \<Rightarrow> unit io" where
  "onclose E = note_failure E"

definition call_redis :: "env \<Rightarrow> rcmd \<Rightarrow> rresult io" where
  "call_redis E c w =
     (let (r, s) = redis_exec E (tick w) (now_at E (tick w)) c (kvs w)
      in (Inr r, w\<lparr>tick := tick w + 1, kvs := s\<rparr>))"

definition send :: "env \<Rightarrow> rcmd \<Rightarrow> rreply io" where
  "send E c =
     seqI (getClient E) (\<lambda>ok.
       if \<not> ok then ret RNil
       else seqI (call_redis E c) (\<lambda>r.
         case r of
           Reply x \<Rightarrow> ret x
         | ConnError \<Rightarrow> seqI (note_failure E) (\<lambda>_. ret RNil)
         | CmdError \<Rightarrow> throw Uncaught))"

definition available :: "env \<Rightarrow> bool io" where
  "available E = seqI (send E PING) (\<lambda>r. ret (r = RPong))"

subsection \<open>Terms and liveness\<close>

text \<open>Type assertions on replies; a reply of another type cannot occur.\<close>

definition as_num :: "rreply \<Rightarrow> int option" where
  "as_num r = (case r of RVal (VNum n) \<Rightarrow> Some n | _ \<Rightarrow> None)"

definition as_terms :: "rval option \<Rightarrow> TermsRec option" where
  "as_terms v = (case v of Some (VTerms x) \<Rightarrow> Some x | _ \<Rightarrow> None)"

definition reply_val :: "rreply \<Rightarrow> rval option" where
  "reply_val r = (case r of RVal v \<Rightarrow> Some v | _ \<Rightarrow> None)"

text \<open>The pairs of a batch reply, as the map the loop over it builds.\<close>

definition batch_map :: "jstr list \<Rightarrow> rval option list \<Rightarrow> (rval option \<Rightarrow> 'a option) \<Rightarrow> jstr \<Rightarrow> 'a option" where
  "batch_map ids vs f =
     foldl (\<lambda>m (i, v). case f v of None \<Rightarrow> m | Some x \<Rightarrow> m(i \<mapsto> x)) Map.empty (zip ids vs)"

definition setTerms :: "env \<Rightarrow> jstr \<Rightarrow> TermsRec \<Rightarrow> int \<Rightarrow> jstr \<Rightarrow> int \<Rightarrow> bool io" where
  "setTerms E offerId value pxMs price effectiveExpiryMs =
     seqI (send E (SET (KTerms offerId) (VTerms value) (Some (max 1 pxMs)))) (\<lambda>ok.
       if ok = RNil then ret False
       else seqI (send E (ZADD offerId effectiveExpiryMs)) (\<lambda>_.
            seqI (send E (HSET offerId price)) (\<lambda>_. ret True)))"

definition getTerms :: "env \<Rightarrow> jstr \<Rightarrow> TermsRec option io" where
  "getTerms E offerId = seqI (send E (GET (KTerms offerId))) (\<lambda>r. ret (as_terms (reply_val r)))"

definition getTermsBatch :: "env \<Rightarrow> jstr list \<Rightarrow> (jstr \<Rightarrow> TermsRec option) io" where
  "getTermsBatch E offerIds =
     (if offerIds = [] then ret Map.empty
      else seqI (send E (MGET (map KTerms offerIds))) (\<lambda>r.
        case r of RVals vs \<Rightarrow> ret (batch_map offerIds vs as_terms) | _ \<Rightarrow> ret Map.empty))"

definition dropOffer :: "env \<Rightarrow> jstr \<Rightarrow> unit io" where
  "dropOffer E offerId =
     seqI (send E (DEL [KTerms offerId, KSeq offerId, KBusy offerId, KAvailSeq offerId])) (\<lambda>_.
     seqI (send E (ZREM offerId)) (\<lambda>_.
     seqI (send E (HDEL offerId)) (\<lambda>_. ret ())))"

subsection \<open>Availability\<close>

definition setBusy :: "env \<Rightarrow> jstr \<Rightarrow> int \<Rightarrow> bool io" where
  "setBusy E offerId pxMs =
     seqI (send E (SET (KBusy offerId) VFlag (Some (max 1 pxMs)))) (\<lambda>r. ret (r \<noteq> RNil))"

definition clearBusy :: "env \<Rightarrow> jstr \<Rightarrow> unit io" where
  "clearBusy E offerId = seqI (send E (DEL [KBusy offerId])) (\<lambda>_. ret ())"

definition isBusy :: "env \<Rightarrow> jstr \<Rightarrow> bool io" where
  "isBusy E offerId = seqI (send E (EXISTS (KBusy offerId))) (\<lambda>r. ret (r = RInt 1))"

definition busyBatch :: "env \<Rightarrow> jstr list \<Rightarrow> jstr list io" where
  "busyBatch E offerIds =
     (if offerIds = [] then ret []
      else seqI (send E (MGET (map KBusy offerIds))) (\<lambda>r.
        case r of
          RVals vs \<Rightarrow>
            ret (foldl (\<lambda>out (i, v). if v = None \<or> i \<in> set out then out else out @ [i]) [] (zip offerIds vs))
        | _ \<Rightarrow> ret []))"

definition getAvailSeq :: "env \<Rightarrow> jstr \<Rightarrow> int option io" where
  "getAvailSeq E offerId = seqI (send E (GET (KAvailSeq offerId))) (\<lambda>r. ret (as_num r))"

definition setAvailSeq :: "env \<Rightarrow> jstr \<Rightarrow> int \<Rightarrow> unit io" where
  "setAvailSeq E offerId n = seqI (send E (SET (KAvailSeq offerId) (VNum n) None)) (\<lambda>_. ret ())"

definition liveOffers :: "env \<Rightarrow> int \<Rightarrow> (jstr \<times> jstr) list io" where
  "liveOffers E nowMs =
     seqI (send E (ZREMRANGEBYSCORE nowMs)) (\<lambda>_.
     seqI (send E (ZRANGEBYSCORE nowMs)) (\<lambda>r.
       case r of
         RIds ids \<Rightarrow>
           (if ids = [] then ret []
            else seqI (send E (HMGET ids)) (\<lambda>r.
              case r of
                RStrs prices \<Rightarrow>
                  ret (concat (map (\<lambda>(i, p). case p of None \<Rightarrow> [] | Some x \<Rightarrow> [(i, x)]) (zip ids prices)))
              | _ \<Rightarrow> ret []))
       | _ \<Rightarrow> ret []))"

definition getCachedSnapshot :: "env \<Rightarrow> jsval option io" where
  "getCachedSnapshot E = seqI (send E (GET KSnapshot)) (\<lambda>r.
     ret (case reply_val r of Some (VBlob b) \<Rightarrow> Some b | _ \<Rightarrow> None))"

definition setCachedSnapshot :: "env \<Rightarrow> jsval \<Rightarrow> int \<Rightarrow> unit io" where
  "setCachedSnapshot E blob pxMs = seqI (send E (SET KSnapshot (VBlob blob) (Some pxMs))) (\<lambda>_. ret ())"

definition getCachedStats :: "env \<Rightarrow> jsval option io" where
  "getCachedStats E = seqI (send E (GET KStats)) (\<lambda>r.
     ret (case reply_val r of Some (VBlob b) \<Rightarrow> Some b | _ \<Rightarrow> None))"

definition setCachedStats :: "env \<Rightarrow> jsval \<Rightarrow> int \<Rightarrow> unit io" where
  "setCachedStats E blob pxMs = seqI (send E (SET KStats (VBlob blob) (Some pxMs))) (\<lambda>_. ret ())"

subsection \<open>Sequence numbers, last seen, benchmark state\<close>

definition getSeq :: "env \<Rightarrow> jstr \<Rightarrow> int option io" where
  "getSeq E offerId = seqI (send E (GET (KSeq offerId))) (\<lambda>r. ret (as_num r))"

definition setSeq :: "env \<Rightarrow> jstr \<Rightarrow> int \<Rightarrow> unit io" where
  "setSeq E offerId n = seqI (send E (SET (KSeq offerId) (VNum n) None)) (\<lambda>_. ret ())"

definition touchProvider :: "env \<Rightarrow> jstr \<Rightarrow> jstr \<Rightarrow> unit io" where
  "touchProvider E providerId seenAt =
     seqI (send E (SET (KSeen providerId) (VIso seenAt) (Some (7 * 86400000)))) (\<lambda>_. ret ())"

definition as_iso :: "rval option \<Rightarrow> jstr option" where
  "as_iso v = (case v of Some (VIso s) \<Rightarrow> Some s | _ \<Rightarrow> None)"

definition lastSeen :: "env \<Rightarrow> jstr \<Rightarrow> jstr option io" where
  "lastSeen E providerId = seqI (send E (GET (KSeen providerId))) (\<lambda>r. ret (as_iso (reply_val r)))"

definition lastSeenBatch :: "env \<Rightarrow> jstr list \<Rightarrow> (jstr \<Rightarrow> jstr option) io" where
  "lastSeenBatch E providerIds =
     (if providerIds = [] then ret Map.empty
      else seqI (send E (MGET (map KSeen providerIds))) (\<lambda>r.
        case r of RVals vs \<Rightarrow> ret (batch_map providerIds vs as_iso) | _ \<Rightarrow> ret Map.empty))"

definition setBench :: "env \<Rightarrow> jstr \<Rightarrow> BenchState \<Rightarrow> int \<Rightarrow> bool io" where
  "setBench E challengeId st pxMs =
     seqI (send E (SET (KBench challengeId) (VBench st) (Some (max 1 pxMs)))) (\<lambda>r. ret (r \<noteq> RNil))"

definition getBench :: "env \<Rightarrow> jstr \<Rightarrow> BenchState option io" where
  "getBench E challengeId = seqI (send E (GET (KBench challengeId))) (\<lambda>r.
     ret (case reply_val r of Some (VBench b) \<Rightarrow> Some b | _ \<Rightarrow> None))"

definition dropBench :: "env \<Rightarrow> jstr \<Rightarrow> unit io" where
  "dropBench E challengeId = seqI (send E (DEL [KBench challengeId])) (\<lambda>_. ret ())"

subsection \<open>Rate limiting\<close>

definition rateLimit :: "env \<Rightarrow> string \<Rightarrow> jstr \<Rightarrow> int \<times> int \<Rightarrow> int io" where
  "rateLimit E scope key bound =
     (let maxN = fst bound; windowMs = snd bound in
      seqI (time_now E) (\<lambda>t.
      let windowStart = t div windowMs * windowMs; rk = KRl scope key windowStart in
      seqI (send E (INCR rk)) (\<lambda>r.
      case r of
        RInt n \<Rightarrow>
          seqI (if n = 1 then seqI (send E (PEXPIRE rk windowMs)) (\<lambda>_. ret ()) else ret ()) (\<lambda>_.
          if n > maxN then seqI (time_now E) (\<lambda>t2. ret (windowStart + windowMs - t2)) else ret 0)
      | _ \<Rightarrow> ret 0)))"

text \<open>The pattern \<open>if (retry > 0) throw err("RATE_LIMITED", ...)\<close>.\<close>

definition limited :: "env \<Rightarrow> string \<Rightarrow> jstr \<Rightarrow> int \<times> int \<Rightarrow> unit io" where
  "limited E scope key bound =
     seqI (rateLimit E scope key bound) (\<lambda>retry. guardI (retry > 0) (err_retry retry))"

subsection \<open>The wrapper touches nothing but Redis and its own connection state\<close>

definition same_tables :: "world \<Rightarrow> world \<Rightarrow> bool" where
  "same_tables w w' = (tables w' = tables w)"

interpretation frame: world_order same_tables
  by unfold_locales (simp_all add: same_tables_def)

lemma keeps_note_failure [frame_simps]: "keeps same_tables (note_failure E)"
  by (simp add: keeps_def note_failure_def seqI_def time_now_def same_tables_def)

lemma keeps_getClient [frame_simps]: "keeps same_tables (getClient E)"
  by (simp add: keeps_def getClient_def seqI_def time_now_def same_tables_def ret_def)

lemma keeps_call_redis [frame_simps]: "keeps same_tables (call_redis E c)"
  by (simp add: keeps_def call_redis_def same_tables_def Let_def case_prod_beta)

lemma keeps_send [frame_simps]: "keeps same_tables (send E c)"
  unfolding send_def
  by (intro frame.keeps_rules keeps_getClient)
     (auto split: rresult.split intro!: frame.keeps_rules keeps_note_failure keeps_call_redis)

lemma keeps_via_send: "(\<And>r. keeps same_tables (f r)) \<Longrightarrow> keeps same_tables (seqI (send E c) f)"
  by (intro frame.keeps_seqI keeps_send)

text \<open>One rule per operation, so that the handlers' frame proofs do not look inside.\<close>

lemma keeps_redis_ops [frame_simps]:
  "keeps same_tables (available E)" "keeps same_tables (setTerms E i v px price x)"
  "keeps same_tables (getTerms E i)" "keeps same_tables (getTermsBatch E is)"
  "keeps same_tables (dropOffer E i)" "keeps same_tables (setBusy E i px)"
  "keeps same_tables (clearBusy E i)" "keeps same_tables (isBusy E i)"
  "keeps same_tables (busyBatch E is)" "keeps same_tables (getAvailSeq E i)"
  "keeps same_tables (setAvailSeq E i n)" "keeps same_tables (liveOffers E x)"
  "keeps same_tables (getCachedSnapshot E)" "keeps same_tables (setCachedSnapshot E b px)"
  "keeps same_tables (getCachedStats E)" "keeps same_tables (setCachedStats E b px)"
  "keeps same_tables (getSeq E i)" "keeps same_tables (setSeq E i n)"
  "keeps same_tables (touchProvider E i sn)" "keeps same_tables (lastSeen E i)"
  "keeps same_tables (lastSeenBatch E is)" "keeps same_tables (setBench E i bst px)"
  "keeps same_tables (getBench E i)" "keeps same_tables (dropBench E i)"
  unfolding available_def setTerms_def getTerms_def getTermsBatch_def dropOffer_def setBusy_def
    clearBusy_def isBusy_def busyBatch_def getAvailSeq_def setAvailSeq_def liveOffers_def
    getCachedSnapshot_def setCachedSnapshot_def getCachedStats_def setCachedStats_def getSeq_def
    setSeq_def touchProvider_def lastSeen_def lastSeenBatch_def setBench_def getBench_def dropBench_def
  by (auto split: rreply.split intro!: keeps_via_send frame.keeps_rules)

lemma keeps_rateLimit [frame_simps]: "keeps same_tables (rateLimit E scope key bound)"
  unfolding rateLimit_def Let_def
  by (auto split: rreply.split intro!: keeps_via_send frame.keeps_rules)

lemma keeps_limited [frame_simps]: "keeps same_tables (limited E scope key bound)"
  unfolding limited_def by (intro frame.keeps_rules keeps_rateLimit)

subsection \<open>What a command does when Redis keeps its documentation\<close>

lemma getClient_Inr:
  "getClient E w = (r, w') \<Longrightarrow> (\<exists>ok. r = Inr ok) \<and> kvs w' = kvs w \<and> tick w \<le> tick w' \<and> tables w' = tables w"
  by (auto simp: getClient_def seqI_def time_now_def ret_def split: if_splits)

text \<open>\<open>sent E c w w' x\<close>: the command was answered with \<open>x\<close>, or failed and \<open>x\<close> is the null reply.\<close>

definition sent :: "env \<Rightarrow> rcmd \<Rightarrow> world \<Rightarrow> world \<Rightarrow> rreply \<Rightarrow> bool" where
  "sent E c w w' x =
     (tables w' = tables w \<and> tick w \<le> tick w' \<and>
      (\<exists>n \<ge> tick w. let t = now_at E n in
         x = redis_reply t c (kvs w) \<and> kvs w' = redis_effect t c (kvs w)
         \<or> x = RNil \<and> kvs w' \<in> {kvs w, redis_effect t c (kvs w)}))"

lemma send_documented:
  assumes R: "redis_documented E" and s: "send E c w = (r, w')"
  shows "\<exists>x. r = Inr x \<and> sent E c w w' x"
proof -
  obtain ok w1 where g: "getClient E w = (Inr ok, w1)" "kvs w1 = kvs w" "tick w \<le> tick w1" "tables w1 = tables w"
    using getClient_Inr [of E w] by (cases "getClient E w") fastforce
  let ?T = "now_at E (tick w1)"
  have "redis_exec E (tick w1) ?T c (kvs w) \<in>
      {(Reply (redis_reply ?T c (kvs w)), redis_effect ?T c (kvs w)), (ConnError, kvs w),
       (ConnError, redis_effect ?T c (kvs w))}"
    using R by (simp add: redis_documented_def)
  then have "\<exists>x. r = Inr x \<and> tables w' = tables w \<and> tick w1 \<le> tick w' \<and>
      (x = redis_reply ?T c (kvs w) \<and> kvs w' = redis_effect ?T c (kvs w)
       \<or> x = RNil \<and> kvs w' \<in> {kvs w, redis_effect ?T c (kvs w)})"
    using s g
    by (cases ok) (auto simp: send_def seqI_def ret_def call_redis_def note_failure_def time_now_def)
  then obtain x where "r = Inr x" "tables w' = tables w" "tick w1 \<le> tick w'"
      "x = redis_reply ?T c (kvs w) \<and> kvs w' = redis_effect ?T c (kvs w)
       \<or> x = RNil \<and> kvs w' \<in> {kvs w, redis_effect ?T c (kvs w)}" by blast
  then show ?thesis
    using g(3) by (auto simp: sent_def Let_def intro!: exI [of _ "tick w1"])
qed

lemma send_up:
  assumes "redis_up E" and "client w"
  shows "send E c w = (Inr (redis_reply (now_at E (tick w)) c (kvs w)),
     w\<lparr>tick := tick w + 1, kvs := redis_effect (now_at E (tick w)) c (kvs w)\<rparr>)"
  using assms by (simp add: send_def seqI_def getClient_def ret_def call_redis_def redis_up_def)

text \<open>While the breaker is open no command is sent.\<close>

lemma send_down:
  assumes "\<not> client w" and "now_at E (tick w) - lastFailure w < RETRY_MS"
  shows "send E c w = (Inr RNil, w\<lparr>tick := tick w + 1\<rparr>)"
  using assms by (simp add: send_def seqI_def getClient_def ret_def time_now_def)

lemma sent_time:
  "sent E c w w' x \<Longrightarrow> x \<noteq> RNil \<Longrightarrow>
     (\<exists>n \<ge> tick w. x = redis_reply (now_at E n) c (kvs w) \<and> kvs w' = redis_effect (now_at E n) c (kvs w))
     \<and> tables w' = tables w \<and> tick w \<le> tick w'"
  by (auto simp: sent_def Let_def)

subsection \<open>Values with a time to live\<close>

text \<open>
  What the service relies on where it stores a value under a key for a time: the contract
  of \<open>SET ... PX\<close>, \<open>GET\<close> and \<open>DEL\<close>, without the commands.
\<close>

locale ttl_store =
  fixes put :: "int \<Rightarrow> 'k \<Rightarrow> 'v \<Rightarrow> int \<Rightarrow> 's \<Rightarrow> 's"
    and del :: "int \<Rightarrow> 'k \<Rightarrow> 's \<Rightarrow> 's"
    and get :: "int \<Rightarrow> 'k \<Rightarrow> 's \<Rightarrow> 'v option"
  assumes get_put_same: "get t' k (put t k v px s) = (if t' < t + px then Some v else None)"
    and get_put_other: "k' \<noteq> k \<Longrightarrow> get t' k' (put t k v px s) = get t' k' s"
    and get_del_same: "get t' k (del t k s) = None"
    and get_del_other: "k' \<noteq> k \<Longrightarrow> get t' k' (del t k s) = get t' k' s"
begin

lemma fresh: "0 < px \<Longrightarrow> get t k (put t k v px s) = Some v"
  by (simp add: get_put_same)

lemma lapses: "t + px \<le> t' \<Longrightarrow> get t' k (put t k v px s) = None"
  by (simp add: get_put_same)

lemma last_write_wins:
  "get t' k (put t2 k v2 px2 (put t1 k v1 px1 s)) = (if t' < t2 + px2 then Some v2 else None)"
  by (simp add: get_put_same)

lemma deleted_stays_absent:
  assumes "\<forall>(t, k', v, px) \<in> set ops. k' \<noteq> k"
  shows "get t' k (foldl (\<lambda>s (t, k, v, px). put t k v px s) (del t k s) ops) = None"
  using assms
proof (induction ops rule: rev_induct)
  case (snoc x xs)
  then show ?case by (cases x) (auto simp: get_put_other)
qed (simp add: get_del_same)

end

interpretation ttl: ttl_store
  "\<lambda>t k v px. redis_effect t (SET k v (Some px))" "\<lambda>t k. redis_effect t (DEL [k])" "\<lambda>t k s. alive t s k"
  by unfold_locales (simp_all add: alive_def)

lemma alive_other [simp]:
  "alive t (s\<lparr>kv_live := z\<rparr>) k = alive t s k" "alive t (s\<lparr>kv_prices := h\<rparr>) k = alive t s k"
  by (simp_all add: alive_def)

lemma alive_set: "alive t (s\<lparr>kv_str := (kv_str s)(k \<mapsto> (v, e))\<rparr>) k' =
    (if k' = k then (case e of None \<Rightarrow> Some v | Some x \<Rightarrow> if t < x then Some v else None) else alive t s k')"
  by (auto simp: alive_def split: option.splits)

subsection \<open>The fixed window counter\<close>

text \<open>
  \<open>k\<close> requests have been counted under a key: its counter is \<open>k\<close>, and does not lapse
  before the window's end.
\<close>

definition counted :: "int \<Rightarrow> rkey \<Rightarrow> nat \<Rightarrow> kv \<Rightarrow> bool" where
  "counted wend rk k s =
     (if k = 0 then kv_str s rk = None
      else \<exists>e. kv_str s rk = Some (VNum (int k), e) \<and> (case e of None \<Rightarrow> True | Some x \<Rightarrow> wend \<le> x))"

lemma counted_incr:
  assumes c: "counted wend rk k s" and t: "t < wend"
  shows "redis_reply t (INCR rk) s = RInt (int k + 1) \<and> counted wend rk (Suc k) (redis_effect t (INCR rk) s)"
proof (cases k)
  case 0
  then have "kv_str s rk = None" using c by (simp add: counted_def)
  then show ?thesis by (simp add: 0 counted_def counter_def alive_def)
next
  case (Suc i)
  then obtain e where e: "kv_str s rk = Some (VNum (int k), e)" "case e of None \<Rightarrow> True | Some x \<Rightarrow> wend \<le> x"
    using c by (auto simp: counted_def)
  then have "alive t s rk = Some (VNum (int k))"
    using t by (auto simp: alive_def split: option.splits)
  with e show ?thesis by (simp add: counted_def counter_def)
qed

lemma counted_expire:
  assumes c: "counted wend rk (Suc k) s" and t: "wend \<le> t + win" "t < wend"
  shows "counted wend rk (Suc k) (redis_effect t (PEXPIRE rk win) s)"
proof -
  obtain e where e: "kv_str s rk = Some (VNum (int (Suc k)), e)" "case e of None \<Rightarrow> True | Some x \<Rightarrow> wend \<le> x"
    using c by (auto simp: counted_def)
  then have "alive t s rk = Some (VNum (int (Suc k)))"
    using t by (auto simp: alive_def split: option.splits)
  with t show ?thesis by (simp add: counted_def)
qed

text \<open>The clock stays within one window from a tick on.\<close>

definition in_window :: "env \<Rightarrow> int \<Rightarrow> int \<Rightarrow> nat \<Rightarrow> bool" where
  "in_window E start win n = (\<forall>i \<ge> n. start \<le> now_at E i \<and> now_at E i < start + win)"

lemma rateLimit_step:
  assumes R: "redis_up E" and cl: "client w" and win: "0 < win" "start mod win = 0"
    and cw: "in_window E start win (tick w)" and k: "counted (start + win) (KRl scope key start) k (kvs w)"
  shows "\<exists>r w'. rateLimit E scope key (m, win) w = (Inr r, w') \<and> (0 < r \<longleftrightarrow> m \<le> int k) \<and> r \<le> win
     \<and> client w' \<and> tick w \<le> tick w' \<and> counted (start + win) (KRl scope key start) (Suc k) (kvs w')"
proof -
  let ?rk = "KRl scope key start"
  have in_w: "start \<le> now_at E i" "now_at E i < start + win" if "tick w \<le> i" for i
    using cw that by (auto simp: in_window_def)
  have ws: "now_at E (tick w) div win * win = start"
  proof -
    obtain q where q: "start = win * q" using win by auto
    have "now_at E (tick w) div win = q"
      using in_w [of "tick w"] win(1) q by (intro int_div_pos_eq [of _ _ _ "now_at E (tick w) - start"]) auto
    then show ?thesis using q by simp
  qed
  define w1 where "w1 = w\<lparr>tick := tick w + 1\<rparr>"
  let ?t1 = "now_at E (tick w1)"
  define w2 where "w2 = w1\<lparr>tick := tick w1 + 1, kvs := redis_effect ?t1 (INCR ?rk) (kvs w)\<rparr>"
  have s1: "send E (INCR ?rk) w1 = (Inr (RInt (int k + 1)), w2)"
    using send_up [OF R, of w1 "INCR ?rk"] cl counted_incr [OF k, of ?t1] in_w [of "tick w1"]
    by (simp add: w1_def w2_def del: redis_effect.simps redis_reply.simps)
  have c2: "counted (start + win) ?rk (Suc k) (kvs w2)" "client w2" "tick w \<le> tick w2"
    using counted_incr [OF k, of ?t1] in_w [of "tick w1"] cl by (simp_all add: w1_def w2_def del: redis_effect.simps redis_reply.simps)
  define w3 where "w3 = (if k = 0 then w2\<lparr>tick := tick w2 + 1,
      kvs := redis_effect (now_at E (tick w2)) (PEXPIRE ?rk win) (kvs w2)\<rparr> else w2)"
  have s3: "(if int k + 1 = 1 then seqI (send E (PEXPIRE ?rk win)) (\<lambda>_. ret ()) else ret ()) w2 = (Inr (), w3)"
    using send_up [OF R c2(2), of "PEXPIRE ?rk win"] by (simp add: w3_def seqI_def ret_def del: redis_effect.simps)
  have c3: "counted (start + win) ?rk (Suc k) (kvs w3)" "client w3" "tick w \<le> tick w3"
    using c2 counted_expire [OF c2(1), of "now_at E (tick w2)" win] in_w [OF c2(3)] by (auto simp: w3_def simp del: redis_effect.simps)
  define r where "r = (if m < int k + 1 then start + win - now_at E (tick w3) else 0)"
  define w4 where "w4 = (if m < int k + 1 then w3\<lparr>tick := tick w3 + 1\<rparr> else w3)"
  have tm: "time_now E w = (Inr (now_at E (tick w)), w1)" "time_now E w3 = (Inr (now_at E (tick w3)), w3\<lparr>tick := tick w3 + 1\<rparr>)"
    by (simp_all add: time_now_def w1_def)
  have "rateLimit E scope key (m, win) w = (Inr r, w4)"
    unfolding rateLimit_def Let_def fst_conv snd_conv seqI_step [of "time_now E", OF tm(1)] ws
      seqI_step [of "send E (INCR ?rk)", OF s1] rreply.case
      seqI_step [of "if int k + 1 = 1 then seqI (send E (PEXPIRE ?rk win)) (\<lambda>_. ret ()) else ret ()", OF s3]
    by (simp add: seqI_step [of "time_now E", OF tm(2)] r_def w4_def ret_def)
  moreover have "0 < r \<longleftrightarrow> m \<le> int k" "r \<le> win"
    using in_w [OF c3(3)] win by (auto simp: r_def)
  ultimately show ?thesis using c3 by (auto simp: w4_def)
qed

subsection \<open>Stored challenge states\<close>

text \<open>\<open>P\<close> holds of every challenge state Redis holds.\<close>

definition benches :: "(jstr \<Rightarrow> BenchState \<Rightarrow> bool) \<Rightarrow> world \<Rightarrow> bool" where
  "benches P w = (\<forall>cid st e. kv_str (kvs w) (KBench cid) = Some (VBench st, e) \<longrightarrow> P cid st)"

definition bench_keep :: "(jstr \<Rightarrow> BenchState \<Rightarrow> bool) \<Rightarrow> world \<Rightarrow> world \<Rightarrow> bool" where
  "bench_keep P w w' = (benches P w \<longrightarrow> benches P w')"

interpretation bench: world_order "bench_keep P" for P
proof
  show "bench_keep P w w" for w by (simp add: bench_keep_def)
  show "bench_keep P u w" if "bench_keep P u v" "bench_keep P v w" for u v w
    using that by (simp add: bench_keep_def)
  show "bench_keep P w (w\<lparr>tick := n\<rparr>)" for w n
    by (simp add: bench_keep_def benches_def)
qed

lemma alive_stored: "alive t s k = Some v \<Longrightarrow> \<exists>e. kv_str s k = Some (v, e)"
proof (cases "kv_str s k")
  case (Some p)
  assume "alive t s k = Some v"
  with Some show ?thesis by (cases p; cases "snd p") (simp_all add: alive_def split: if_splits)
qed (simp add: alive_def)

lemma effect_origin:
  assumes "kv_str (redis_effect t c s) k = Some (v, e)" and "\<And>n. v \<noteq> VNum n"
  shows "(\<exists>e'. kv_str s k = Some (v, e')) \<or> (\<exists>px. c = SET k v px)"
proof (cases c)
  case (PEXPIRE k' ms)
  then show ?thesis
    using assms(1) alive_stored [of t s k'] by (cases "alive t s k'") (auto split: if_splits)
next
  case (INCR k')
  then show ?thesis using assms(1,2) by (cases "k = k'") auto
qed (use assms in \<open>simp_all split: if_splits\<close>)

lemma effect_benches:
  assumes "benches P w" and "\<And>cid st px. c = SET (KBench cid) (VBench st) px \<Longrightarrow> P cid st"
  shows "benches P (w\<lparr>kvs := redis_effect t c (kvs w)\<rparr>)"
  unfolding benches_def
proof (intro allI impI)
  fix cid st e
  assume "kv_str (kvs (w\<lparr>kvs := redis_effect t c (kvs w)\<rparr>)) (KBench cid) = Some (VBench st, e)"
  then have "kv_str (redis_effect t c (kvs w)) (KBench cid) = Some (VBench st, e)" by simp
  from effect_origin [OF this] show "P cid st"
    using assms by (auto simp: benches_def)
qed

lemma bench_keep_send:
  assumes R: "redis_documented E" and c: "\<And>cid st px. c = SET (KBench cid) (VBench st) px \<Longrightarrow> P cid st"
  shows "keeps (bench_keep P) (send E c)"
  unfolding keeps_def bench_keep_def
proof (intro allI impI)
  fix w assume b: "benches P w"
  obtain r w' where s: "send E c w = (r, w')" by fastforce
  from send_documented [OF R s] obtain t where
    k: "kvs w' = redis_effect t c (kvs w) \<or> kvs w' = kvs w" by (auto simp: sent_def Let_def)
  have "benches P w' \<longleftrightarrow> benches P (w\<lparr>kvs := kvs w'\<rparr>)" by (simp add: benches_def)
  moreover have "benches P (w\<lparr>kvs := kvs w'\<rparr>)"
    using k b effect_benches [of P w c t, OF b c] by (auto simp: benches_def)
  ultimately show "benches P (snd (send E c w))" by (simp add: s)
qed

lemma bench_keep_ops:
  assumes "redis_documented E"
  shows "keeps (bench_keep P) (available E)" "keeps (bench_keep P) (setTerms E i v px price x)"
    "keeps (bench_keep P) (getTerms E i)" "keeps (bench_keep P) (getTermsBatch E is)"
    "keeps (bench_keep P) (dropOffer E i)" "keeps (bench_keep P) (setBusy E i px)"
    "keeps (bench_keep P) (clearBusy E i)" "keeps (bench_keep P) (isBusy E i)"
    "keeps (bench_keep P) (busyBatch E is)" "keeps (bench_keep P) (getAvailSeq E i)"
    "keeps (bench_keep P) (setAvailSeq E i n)" "keeps (bench_keep P) (liveOffers E x)"
    "keeps (bench_keep P) (getCachedSnapshot E)" "keeps (bench_keep P) (setCachedSnapshot E b px)"
    "keeps (bench_keep P) (getCachedStats E)" "keeps (bench_keep P) (setCachedStats E b px)"
    "keeps (bench_keep P) (getSeq E i)" "keeps (bench_keep P) (setSeq E i n)"
    "keeps (bench_keep P) (touchProvider E i sn)" "keeps (bench_keep P) (lastSeen E i)"
    "keeps (bench_keep P) (lastSeenBatch E is)" "P i bst \<Longrightarrow> keeps (bench_keep P) (setBench E i bst px)"
    "keeps (bench_keep P) (getBench E i)" "keeps (bench_keep P) (dropBench E i)"
    "keeps (bench_keep P) (rateLimit E scope key bound)" "keeps (bench_keep P) (limited E scope key bound)"
  unfolding available_def setTerms_def getTerms_def getTermsBatch_def dropOffer_def setBusy_def
    clearBusy_def isBusy_def busyBatch_def getAvailSeq_def setAvailSeq_def liveOffers_def
    getCachedSnapshot_def setCachedSnapshot_def getCachedStats_def setCachedStats_def getSeq_def
    setSeq_def touchProvider_def lastSeen_def lastSeenBatch_def setBench_def getBench_def dropBench_def
    limited_def rateLimit_def Let_def
  by (auto split: rreply.split intro!: bench.keeps_rules bench_keep_send [OF assms])

text \<open>Statements on the tables leave Redis alone.\<close>

lemma bench_keep_pg: "keeps (bench_keep P) (pg E f)"
  by (rule bench.keeps_pg) (simp add: bench_keep_def benches_def)

subsection \<open>Properties\<close>

lemma in_window_later: "in_window E start win n \<Longrightarrow> n \<le> m \<Longrightarrow> in_window E start win m"
  by (auto simp: in_window_def)

lemma rateLimit_run:
  assumes R: "redis_up E" and win: "0 < win" "start mod win = 0"
  shows "client w \<Longrightarrow> in_window E start win (tick w) \<Longrightarrow>
    counted (start + win) (KRl scope key start) k (kvs w) \<Longrightarrow>
    \<exists>rs w'. mapI (\<lambda>_. rateLimit E scope key (m, win)) [0..<n] w = (Inr rs, w') \<and> length rs = n
      \<and> (\<forall>i < n. (0 < rs ! i \<longleftrightarrow> m \<le> int (k + i)) \<and> rs ! i \<le> win)"
proof (induction n arbitrary: w k)
  case (Suc n)
  obtain r w1 where 1: "rateLimit E scope key (m, win) w = (Inr r, w1)" "0 < r \<longleftrightarrow> m \<le> int k" "r \<le> win"
      "client w1" "tick w \<le> tick w1" "counted (start + win) (KRl scope key start) (Suc k) (kvs w1)"
    using rateLimit_step [OF R Suc.prems(1) win Suc.prems(2,3)] by blast
  obtain rs w2 where 2: "mapI (\<lambda>_. rateLimit E scope key (m, win)) [0..<n] w1 = (Inr rs, w2)" "length rs = n"
      "\<forall>i < n. (0 < rs ! i \<longleftrightarrow> m \<le> int (Suc k + i)) \<and> rs ! i \<le> win"
    using Suc.IH [OF 1(4) in_window_later [OF Suc.prems(2) 1(5)] 1(6)] by blast
  have c: "mapI (\<lambda>_. f) xs = mapI (\<lambda>_. f) ys" if "length xs = length ys" for f :: "int io" and xs ys :: "nat list"
    using that by (induction xs ys rule: list_induct2) auto
  have "mapI (\<lambda>_. rateLimit E scope key (m, win)) [0..<Suc n] =
      mapI (\<lambda>_. rateLimit E scope key (m, win)) (0 # [0..<n])"
    by (rule c) simp
  then have "mapI (\<lambda>_. rateLimit E scope key (m, win)) [0..<Suc n] w = (Inr (r # rs), w2)"
    using 1(1) 2(1) by (simp add: seqI_def ret_def)
  moreover have "\<forall>i < Suc n. (0 < (r # rs) ! i \<longleftrightarrow> m \<le> int (k + i)) \<and> (r # rs) ! i \<le> win"
    unfolding All_less_Suc2 using 1(2,3) 2(3) by simp
  ultimately show ?case using 2(2) by (intro exI [of _ "r # rs"] exI [of _ w2]) simp
qed (simp add: ret_def)

text \<open>
  C6: of any number of requests counted under one key within one window, exactly the first
  \<open>max\<close> are let through; the others are told to wait, at most one window.
\<close>

theorem rateLimit_exact:
  assumes "redis_up E" and "client w" and "0 < win" and "start mod win = 0"
    and "in_window E start win (tick w)" and "kv_str (kvs w) (KRl scope key start) = None"
  shows "\<exists>rs w'. mapI (\<lambda>_. rateLimit E scope key (m, win)) [0..<n] w = (Inr rs, w') \<and> length rs = n
      \<and> (\<forall>i < n. (0 < rs ! i \<longleftrightarrow> m \<le> int i) \<and> rs ! i \<le> win)"
  using rateLimit_run [OF assms(1,3,4,2,5), of scope key 0 m n] assms(6) by (simp add: counted_def)

text \<open>A world to evaluate in: Redis answers, the clock advances by a millisecond per reading.\<close>

definition demo_env :: env where
  "demo_env = \<lparr>noble_fns = toy, cfg = default_config, svc_key = [1],
     now_at = (\<lambda>n. 1800000000000 + int n), random_at = (\<lambda>n k. replicate k 5),
     redis_connect = (\<lambda>_. True),
     redis_exec = (\<lambda>n t c s. (Reply (redis_reply t c s), redis_effect t c s)),
     pg_fate = (\<lambda>_. Works)\<rparr>"

definition empty_kv :: kv where
  "empty_kv = \<lparr>kv_str = Map.empty, kv_live = [], kv_prices = []\<rparr>"

definition empty_world :: world where
  "empty_world = \<lparr>tick = 0, client = True, lastFailure = 0, kvs = empty_kv,
     tables = \<lparr>payload_log = [], providers = [], attestations = [], offers = [], snapshots = [], sim_jobs = []\<rparr>\<rparr>"

lemma demo_up: "redis_up demo_env"
  by (simp add: redis_up_def demo_env_def)

text \<open>The same with a clock that stands still.\<close>

definition still_env :: env where
  "still_env = demo_env\<lparr>now_at := (\<lambda>_. 1800000000000)\<rparr>"

theorem rateLimit_exact_witness:
  "\<exists>rs w'. mapI (\<lambda>_. rateLimit still_env ''live'' (js ''ip'') (2, 60000)) [0..<3] empty_world = (Inr rs, w')
      \<and> length rs = 3 \<and> (\<forall>i < 3. (0 < rs ! i \<longleftrightarrow> 2 \<le> int i) \<and> rs ! i \<le> 60000)"
  by (rule rateLimit_exact [of still_env empty_world 60000 1800000000000])
     (simp_all add: redis_up_def still_env_def demo_env_def empty_world_def empty_kv_def in_window_def)

text \<open>
  C7: while the circuit breaker is open (a failure less than \<open>RETRY_MS\<close> ago) no command
  reaches Redis: rate limits allow everything, reads see nothing live, and the stored
  state is untouched.
\<close>

theorem degraded_mode:
  assumes "\<not> client w" and "\<And>k. now_at E k - lastFailure w < RETRY_MS" and "ids \<noteq> []"
  shows "rateLimit E scope key bound w = (Inr 0, w\<lparr>tick := tick w + 2\<rparr>)
    \<and> available E w = (Inr False, w\<lparr>tick := tick w + 1\<rparr>)
    \<and> getTerms E i w = (Inr None, w\<lparr>tick := tick w + 1\<rparr>)
    \<and> getTermsBatch E ids w = (Inr Map.empty, w\<lparr>tick := tick w + 1\<rparr>)
    \<and> busyBatch E ids w = (Inr [], w\<lparr>tick := tick w + 1\<rparr>)
    \<and> liveOffers E x w = (Inr [], w\<lparr>tick := tick w + 2\<rparr>)
    \<and> getSeq E i w = (Inr None, w\<lparr>tick := tick w + 1\<rparr>)
    \<and> setTerms E i v px price sc w = (Inr False, w\<lparr>tick := tick w + 1\<rparr>)
    \<and> setBench E i b px w = (Inr False, w\<lparr>tick := tick w + 1\<rparr>)
    \<and> getBench E i w = (Inr None, w\<lparr>tick := tick w + 1\<rparr>)
    \<and> setBusy E i px w = (Inr False, w\<lparr>tick := tick w + 1\<rparr>)"
proof -
  have d: "send E c w = (Inr RNil, w\<lparr>tick := tick w + 1\<rparr>)"
    "send E c (w\<lparr>tick := n\<rparr>) = (Inr RNil, w\<lparr>tick := n + 1\<rparr>)" for c n
    using send_down [of w E c] send_down [of "w\<lparr>tick := n\<rparr>" E c] assms(1,2) by simp_all
  show ?thesis
    using assms(3)
    by (simp add: rateLimit_def available_def getTerms_def getTermsBatch_def busyBatch_def liveOffers_def
        getSeq_def setTerms_def setBench_def getBench_def setBusy_def seqI_def d ret_def time_now_def
        Let_def as_terms_def reply_val_def as_num_def)
qed

theorem degraded_mode_witness:
  "rateLimit still_env ''live'' (js ''ip'') (2, 60000)
      (empty_world\<lparr>client := False, lastFailure := 1799999999000\<rparr>)
   = (Inr 0, empty_world\<lparr>client := False, lastFailure := 1799999999000, tick := 2\<rparr>)"
  using degraded_mode [of "empty_world\<lparr>client := False, lastFailure := 1799999999000\<rparr>" still_env
      "[[]]" "''live''" "js ''ip''" "(2, 60000)"]
  by (simp add: still_env_def RETRY_MS_def empty_world_def)

text \<open>
  C8: terms stored for \<open>px\<close> milliseconds are what a read returns until then, and nothing is
  from then on.
\<close>

theorem terms_visible_until_ttl:
  assumes "redis_up E" and "client w" and "setTerms E i v px price sc w = (Inr ok, w1)"
    and "kvs w2 = kvs w1" and "client w2"
  shows "ok \<and> (\<exists>w3. getTerms E i w2 =
      (Inr (if now_at E (tick w2) < now_at E (tick w) + max 1 px then Some v else None), w3) \<and> kvs w3 = kvs w2)"
proof -
  have "ok \<and> alive t (kvs w1) (KTerms i) =
      (if t < now_at E (tick w) + max 1 px then Some (VTerms v) else None)" for t
    using assms(2,3)
    by (simp add: setTerms_def seqI_def send_up [OF assms(1)] ret_def alive_set)
      (auto simp: alive_def)
  then show ?thesis
    using assms(4,5)
    by (simp add: getTerms_def seqI_def send_up [OF assms(1)] ret_def reply_val_def as_terms_def)
qed

definition demo_terms :: TermsRec where
  "demo_terms = \<lparr>tr_payload = JObj [], tr_signature = [], tr_receivedAt = []\<rparr>"

theorem terms_visible_until_ttl_witness:
  "\<exists>w1 w3. setTerms demo_env (js ''o'') demo_terms 500 (js ''1'') 9 empty_world = (Inr True, w1)
     \<and> getTerms demo_env (js ''o'') w1 = (Inr (Some demo_terms), w3)"
proof -
  obtain ok w1 where w1: "setTerms demo_env (js ''o'') demo_terms 500 (js ''1'') 9 empty_world = (Inr ok, w1)"
      "client w1" "tick w1 = 3"
    by (simp add: setTerms_def seqI_def send_up [OF demo_up] ret_def empty_world_def)
  from terms_visible_until_ttl [OF demo_up _ w1(1) refl w1(2)] w1 show ?thesis
    by (auto simp: empty_world_def demo_env_def)
qed

lemma liveOffers_up:
  assumes "redis_up E" and "client w" and "distinct (map fst (kv_live (kvs w)))"
  shows "\<exists>rows w'. liveOffers E now w = (Inr rows, w')
     \<and> (\<forall>i p. (i, p) \<in> set rows \<longleftrightarrow>
           (\<exists>sc. (i, sc) \<in> set (kv_live (kvs w)) \<and> now \<le> sc) \<and> map_of (kv_prices (kvs w)) i = Some p)
     \<and> distinct (map fst rows)
     \<and> kv_live (kvs w') = filter (\<lambda>(_, sc). now \<le> sc) (kv_live (kvs w))
     \<and> client w' \<and> kv_str (kvs w') = kv_str (kvs w) \<and> tables w' = tables w \<and> tick w \<le> tick w'"
proof -
  define z where "z = filter (\<lambda>(_, sc). now \<le> sc) (kv_live (kvs w))"
  define ids where "ids = map snd (sort (map (\<lambda>(m, sc). (sc, m)) z))"
  define rows where "rows = concat (map (\<lambda>(i, p). case p of None \<Rightarrow> [] | Some x \<Rightarrow> [(i, x)])
      (zip ids (map (map_of (kv_prices (kvs w))) ids)))"
  have zz: "filter (\<lambda>(_, sc). now \<le> sc) z = z" by (simp add: z_def)
  have mem: "i \<in> set ids \<longleftrightarrow> (\<exists>sc. (i, sc) \<in> set (kv_live (kvs w)) \<and> now \<le> sc)" for i
    by (force simp: ids_def z_def)
  have "distinct (map fst z)"
    unfolding z_def by (rule distinct_map_filter) (rule assms(3))
  moreover have "mset ids = mset (map fst z)"
    by (simp add: ids_def multiset.map_comp comp_def case_prod_beta)
  ultimately have di: "distinct ids" by (metis mset_eq_imp_distinct_iff)
  have zip: "zip ids (map f ids) = map (\<lambda>i. (i, f i)) ids" for f :: "jstr \<Rightarrow> jstr option"
    by (induction ids) auto
  have rows: "rows = concat (map (\<lambda>i. case map_of (kv_prices (kvs w)) i of None \<Rightarrow> [] | Some x \<Rightarrow> [(i, x)]) ids)"
    by (simp add: rows_def zip comp_def)
  have set_rows: "(i, p) \<in> set rows \<longleftrightarrow> i \<in> set ids \<and> map_of (kv_prices (kvs w)) i = Some p" for i p
    by (auto simp: rows split: option.splits)
  have "map fst rows = filter (\<lambda>i. map_of (kv_prices (kvs w)) i \<noteq> None) ids"
    unfolding rows by (induction ids) (auto split: option.split)
  then have dr: "distinct (map fst rows)" using di by simp
  have "\<exists>w'. liveOffers E now w = (Inr rows, w') \<and> kv_live (kvs w') = z
      \<and> client w' \<and> kv_str (kvs w') = kv_str (kvs w) \<and> tables w' = tables w \<and> tick w \<le> tick w'"
    using assms(2)
    by (auto simp: liveOffers_def seqI_def send_up [OF assms(1)] ret_def z_def [symmetric] zz
        ids_def [symmetric] rows_def)
  then show ?thesis
    using set_rows mem dr by (auto simp: z_def)
qed

text \<open>
  C9: the live set read at \<open>now\<close> lists exactly the offers whose expiry score is not below
  \<open>now\<close> and that have a price, each once, by expiry and then by id; members below
  \<open>now\<close> are pruned.
\<close>

theorem liveOffers_exact:
  assumes "redis_up E" and "client w" and "distinct (map fst (kv_live (kvs w)))"
  shows "\<exists>rows w'. liveOffers E now w = (Inr rows, w')
     \<and> (\<forall>i p. (i, p) \<in> set rows \<longleftrightarrow>
           (\<exists>sc. (i, sc) \<in> set (kv_live (kvs w)) \<and> now \<le> sc) \<and> map_of (kv_prices (kvs w)) i = Some p)
     \<and> distinct (map fst rows)
     \<and> kv_live (kvs w') = filter (\<lambda>(_, sc). now \<le> sc) (kv_live (kvs w))"
  using liveOffers_up [OF assms] by blast

theorem liveOffers_exact_witness:
  "\<exists>rows w'. liveOffers demo_env 5 (empty_world\<lparr>kvs := empty_kv\<lparr>kv_live := [(js ''a'', 4), (js ''b'', 6)],
       kv_prices := [(js ''b'', js ''2'')]\<rparr>\<rparr>) = (Inr rows, w') \<and> kv_live (kvs w') = [(js ''b'', 6)]"
  using liveOffers_exact [OF demo_up, of "empty_world\<lparr>kvs := empty_kv\<lparr>kv_live := [(js ''a'', 4), (js ''b'', 6)],
       kv_prices := [(js ''b'', js ''2'')]\<rparr>\<rparr>" 5]
  by (auto simp: empty_world_def)

end
