(* ===== verification/Db_Store.thy ===== *)
theory Db_Store
  imports Redis_Store
begin

text \<open>
  The database statements of \<open>src/db.ts\<close> and of the handlers, as functions on the tables:
  an insert that violates a primary or foreign key of the schema is \<open>None\<close> (the driver
  raises).  Proved: the tables' keys and references are an invariant; the log and the
  attestations are append-only, and an offer's row only ever changes by being revoked,
  once.
\<close>

subsection \<open>Lookup\<close>

definition find_log :: "bytes \<Rightarrow> db \<Rightarrow> log_row option" where
  "find_log h d = find (\<lambda>r. l_hash r = h) (payload_log d)"

definition find_provider :: "bytes \<Rightarrow> db \<Rightarrow> provider_row option" where
  "find_provider p d = find (\<lambda>r. pr_id r = p) (providers d)"

definition find_att :: "bytes \<Rightarrow> db \<Rightarrow> att_row option" where
  "find_att a d = find (\<lambda>r. at_id r = a) (attestations d)"

definition find_offer_row :: "bytes \<Rightarrow> db \<Rightarrow> offer_row option" where
  "find_offer_row i d = find (\<lambda>r. of_id r = i) (offers d)"

subsection \<open>Writes\<close>

definition insert_log :: "log_row \<Rightarrow> db \<Rightarrow> db" where
  "insert_log r d =
     (if l_hash r \<in> l_hash ` set (payload_log d) then d
      else d\<lparr>payload_log := payload_log d @ [r]\<rparr>)"

definition logPayload :: "env \<Rightarrow> bytes \<Rightarrow> string \<Rightarrow> bytes \<Rightarrow> jsval \<Rightarrow> bytes \<Rightarrow> unit io" where
  "logPayload E h ty prov p sig =
     pg E (\<lambda>t d. Some ((), insert_log \<lparr>l_hash = h, l_type = ty, l_provider = prov, l_payload = p,
                                 l_signature = sig, l_received = t\<rparr> d))"

definition upsert_provider :: "bytes \<Rightarrow> bytes \<Rightarrow> int \<Rightarrow> int \<Rightarrow> int \<Rightarrow> db \<Rightarrow> (unit \<times> db) option" where
  "upsert_provider pid h signedAt hb t d =
     (if h \<notin> l_hash ` set (payload_log d) then None
      else if pid \<in> pr_id ` set (providers d)
      then Some ((), d\<lparr>providers := map (\<lambda>r. if pr_id r = pid
             then r\<lparr>pr_profile := h, pr_signed := signedAt, pr_heartbeat := hb, pr_updated := t\<rparr> else r)
             (providers d)\<rparr>)
      else Some ((), d\<lparr>providers := providers d @
             [\<lparr>pr_id = pid, pr_profile = h, pr_signed = signedAt, pr_heartbeat = hb,
               pr_firstSeen = t, pr_updated = t\<rparr>]\<rparr>))"

definition insert_attestation :: "att_row \<Rightarrow> db \<Rightarrow> (unit \<times> db) option" where
  "insert_attestation r d =
     (if at_id r \<in> at_id ` set (attestations d) then Some ((), d)
      else if at_provider r \<notin> pr_id ` set (providers d) then None
      else Some ((), d\<lparr>attestations := attestations d @ [r]\<rparr>))"

definition insert_offer :: "offer_row \<Rightarrow> db \<Rightarrow> (unit \<times> db) option" where
  "insert_offer r d =
     (if of_id r \<in> of_id ` set (offers d)
         \<or> of_provider r \<notin> pr_id ` set (providers d)
         \<or> of_att r \<notin> at_id ` set (attestations d) then None
      else Some ((), d\<lparr>offers := offers d @ [r]\<rparr>))"

definition revoke_offer :: "bytes \<Rightarrow> int \<Rightarrow> db \<Rightarrow> (unit \<times> db) option" where
  "revoke_offer i t d =
     Some ((), d\<lparr>offers := map (\<lambda>r. if of_id r = i \<and> of_revoked r = None
                                     then r\<lparr>of_revoked := Some t\<rparr> else r) (offers d)\<rparr>)"

subsection \<open>Reads\<close>

definition active_at :: "int \<Rightarrow> offer_row \<Rightarrow> bool" where
  "active_at t r = (of_revoked r = None \<and> of_expires r > t)"

definition count_active :: "bytes \<Rightarrow> int \<Rightarrow> db \<Rightarrow> int" where
  "count_active pid t d =
     int (length (filter (\<lambda>r. of_provider r = pid \<and> active_at t r) (offers d)))"

text \<open>The joined row the offer endpoints work on (\<open>OfferRow\<close>, \<open>OFFER_SELECT\<close>).\<close>

record OfferRow =
  or_offer :: offer_row
  or_tplSig :: bytes
  or_attPayload :: jsval
  or_attSig :: bytes
  or_attReceived :: int
  or_heartbeat :: int

definition join_offer :: "db \<Rightarrow> offer_row \<Rightarrow> OfferRow list" where
  "join_offer d r =
     (case (find_log (of_id r) d, find_log (of_att r) d, find_provider (of_provider r) d) of
        (Some pl, Some al, Some p) \<Rightarrow>
          [\<lparr>or_offer = r, or_tplSig = l_signature pl, or_attPayload = l_payload al,
            or_attSig = l_signature al, or_attReceived = l_received al, or_heartbeat = pr_heartbeat p\<rparr>]
      | _ \<Rightarrow> [])"

definition offer_select :: "(offer_row \<Rightarrow> bool) \<Rightarrow> db \<Rightarrow> OfferRow list" where
  "offer_select cond d = concat (map (join_offer d) (filter cond (offers d)))"

lemma offer_select_sound: "x \<in> set (offer_select c d) \<Longrightarrow> or_offer x \<in> set (offers d) \<and> c (or_offer x)"
  by (auto simp: offer_select_def join_offer_def split: option.splits)

subsection \<open>Keys and references\<close>

definition db_ok :: "db \<Rightarrow> bool" where
  "db_ok d =
     (distinct (map l_hash (payload_log d)) \<and> distinct (map pr_id (providers d))
      \<and> distinct (map at_id (attestations d)) \<and> distinct (map of_id (offers d))
      \<and> pr_profile ` set (providers d) \<subseteq> l_hash ` set (payload_log d)
      \<and> at_provider ` set (attestations d) \<subseteq> pr_id ` set (providers d)
      \<and> of_provider ` set (offers d) \<subseteq> pr_id ` set (providers d)
      \<and> of_att ` set (offers d) \<subseteq> at_id ` set (attestations d))"

lemma db_ok_insert_log: "db_ok d \<Longrightarrow> db_ok (insert_log r d)"
  by (auto simp: db_ok_def insert_log_def)

lemma map_same: "(\<And>x. g (f x) = g x) \<Longrightarrow> map g (map f xs) = map g xs"
  by (induction xs) simp_all

lemma image_same: "(\<And>x. g (f x) = g x) \<Longrightarrow> g ` set (map f xs) = g ` set xs"
  using map_same [of g f xs] by (metis set_map)

lemma db_ok_upsert:
  assumes d: "db_ok d" and u: "upsert_provider pid h s hb t d = Some (u, d')"
  shows "db_ok d'"
proof -
  define f where "f r = (if pr_id r = pid
      then r\<lparr>pr_profile := h, pr_signed := s, pr_heartbeat := hb, pr_updated := t\<rparr> else r)" for r :: provider_row
  have i: "map pr_id (map f ps) = map pr_id ps" "pr_id ` set (map f ps) = pr_id ` set ps" for ps
    by (rule map_same image_same; simp add: f_def)+
  have h: "h \<in> l_hash ` set (payload_log d)" using u by (simp add: upsert_provider_def split: if_splits)
  show ?thesis
  proof (cases "pid \<in> pr_id ` set (providers d)")
    case True
    then have d': "d' = d\<lparr>providers := map f (providers d)\<rparr>"
      using u h by (simp add: upsert_provider_def f_def [abs_def])
    have "pr_profile ` set (map f (providers d)) \<subseteq> insert h (pr_profile ` set (providers d))"
      by (auto simp: f_def)
    then have sub: "pr_profile ` set (map f (providers d)) \<subseteq> l_hash ` set (payload_log d)"
      by (rule order_trans) (use d h in \<open>simp add: db_ok_def\<close>)
    have e: "payload_log d' = payload_log d" "providers d' = map f (providers d)"
      "attestations d' = attestations d" "offers d' = offers d" by (simp_all add: d')
    show ?thesis
      using d [unfolded db_ok_def] sub unfolding db_ok_def e i by (elim conjE) (intro conjI; assumption)
  next
    case False
    then have d': "d' = d\<lparr>providers := providers d @ [\<lparr>pr_id = pid, pr_profile = h, pr_signed = s,
        pr_heartbeat = hb, pr_firstSeen = t, pr_updated = t\<rparr>]\<rparr>"
      using u h by (simp add: upsert_provider_def)
    show ?thesis using d h False unfolding d' db_ok_def by (simp add: subset_insertI2)
  qed
qed

lemma db_ok_attest: "db_ok d \<Longrightarrow> insert_attestation r d = Some (u, d') \<Longrightarrow> db_ok d'"
proof -
  assume d: "db_ok d" and "insert_attestation r d = Some (u, d')"
  then have "d' = d \<or> d' = d\<lparr>attestations := attestations d @ [r]\<rparr> \<and> at_id r \<notin> at_id ` set (attestations d)
      \<and> at_provider r \<in> pr_id ` set (providers d)"
    by (simp add: insert_attestation_def split: if_splits)
  then show "db_ok d'"
    using d unfolding db_ok_def by (elim disjE) (simp_all add: subset_insertI2)
qed

lemma db_ok_offer: "db_ok d \<Longrightarrow> insert_offer r d = Some (u, d') \<Longrightarrow> db_ok d'"
proof -
  assume d: "db_ok d" and "insert_offer r d = Some (u, d')"
  then have "d' = d\<lparr>offers := offers d @ [r]\<rparr> \<and> of_id r \<notin> of_id ` set (offers d)
      \<and> of_provider r \<in> pr_id ` set (providers d) \<and> of_att r \<in> at_id ` set (attestations d)"
    by (simp add: insert_offer_def split: if_splits)
  then show "db_ok d'" using d unfolding db_ok_def by simp
qed

lemma db_ok_revoke: "db_ok d \<Longrightarrow> revoke_offer i t d = Some (u, d') \<Longrightarrow> db_ok d'"
proof -
  define f where "f r = (if of_id r = i \<and> of_revoked r = None then r\<lparr>of_revoked := Some t\<rparr> else r)" for r :: offer_row
  assume d: "db_ok d" and "revoke_offer i t d = Some (u, d')"
  then have d': "d' = d\<lparr>offers := map f (offers d)\<rparr>" by (simp add: revoke_offer_def f_def [abs_def])
  have i: "map of_id (map f os) = map of_id os" "of_provider ` set (map f os) = of_provider ` set os"
    "of_att ` set (map f os) = of_att ` set os" for os
    by (rule map_same image_same; simp add: f_def)+
  have e: "payload_log d' = payload_log d" "providers d' = providers d"
    "attestations d' = attestations d" "offers d' = map f (offers d)" by (simp_all add: d')
  show "db_ok d'" using d unfolding db_ok_def e i .
qed

subsection \<open>How the tables evolve\<close>

definition offer_step :: "offer_row \<Rightarrow> offer_row \<Rightarrow> bool" where
  "offer_step r r' = (r' = r \<or> (of_revoked r = None \<and> (\<exists>t. r' = r\<lparr>of_revoked := Some t\<rparr>)))"

lemma offer_step_trans: "offer_step a b \<Longrightarrow> offer_step b c \<Longrightarrow> offer_step a c"
  by (auto simp: offer_step_def)

definition provider_step :: "provider_row \<Rightarrow> provider_row \<Rightarrow> bool" where
  "provider_step r r' = (pr_id r' = pr_id r \<and> pr_firstSeen r' = pr_firstSeen r)"

definition grows_by :: "('a \<Rightarrow> 'a \<Rightarrow> bool) \<Rightarrow> 'a list \<Rightarrow> 'a list \<Rightarrow> bool" where
  "grows_by P xs ys = (length xs \<le> length ys \<and> (\<forall>i < length xs. P (xs ! i) (ys ! i)))"

lemma grows_by_refl: "(\<And>x. P x x) \<Longrightarrow> grows_by P xs xs"
  by (simp add: grows_by_def)

lemma grows_by_trans:
  assumes "\<And>x y z. P x y \<Longrightarrow> P y z \<Longrightarrow> P x z" and "grows_by P xs ys" and "grows_by P ys zs"
  shows "grows_by P xs zs"
proof -
  have "P (xs ! i) (zs ! i)" if "i < length xs" for i
    using assms(1) [of "xs ! i" "ys ! i" "zs ! i"] assms(2,3) that by (simp add: grows_by_def)
  then show ?thesis using assms(2,3) by (simp add: grows_by_def)
qed

lemma grows_by_append: "(\<And>x. P x x) \<Longrightarrow> grows_by P xs (xs @ ys)"
  by (simp add: grows_by_def nth_append)

lemma grows_by_map: "(\<And>x. P x (f x)) \<Longrightarrow> grows_by P xs (map f xs)"
  by (simp add: grows_by_def)

lemma grows_by_mem: "grows_by P xs ys \<Longrightarrow> x \<in> set xs \<Longrightarrow> \<exists>y \<in> set ys. P x y"
proof -
  assume g: "grows_by P xs ys" and "x \<in> set xs"
  then obtain i where i: "i < length xs" "xs ! i = x" by (auto simp: in_set_conv_nth)
  with g have "P x (ys ! i)" "i < length ys" by (auto simp: grows_by_def)
  then show ?thesis by (meson nth_mem)
qed

text \<open>
  Log and attestations only grow; an offer's row stays as it is but for one revocation; a
  provider's row keeps its identity and first sighting.
\<close>

definition evolves :: "world \<Rightarrow> world \<Rightarrow> bool" where
  "evolves w w' =
     (grows_by (=) (payload_log (tables w)) (payload_log (tables w'))
      \<and> grows_by (=) (attestations (tables w)) (attestations (tables w'))
      \<and> grows_by offer_step (offers (tables w)) (offers (tables w'))
      \<and> grows_by provider_step (providers (tables w)) (providers (tables w')))"

interpretation evo: world_order evolves
proof
  show "evolves w w" for w
    by (simp add: evolves_def grows_by_refl offer_step_def provider_step_def)
  show "evolves u w" if "evolves u v" "evolves v w" for u v w
    using that unfolding evolves_def
    by (auto intro: grows_by_trans [of "(=)"] grows_by_trans [of offer_step, OF offer_step_trans]
        grows_by_trans [of provider_step] simp: provider_step_def)
  show "evolves w (w\<lparr>tick := n\<rparr>)" for w n
    by (simp add: evolves_def grows_by_refl offer_step_def provider_step_def)
qed

definition stays_ok :: "world \<Rightarrow> world \<Rightarrow> bool" where
  "stays_ok w w' = (db_ok (tables w) \<longrightarrow> db_ok (tables w'))"

interpretation inv: world_order stays_ok
  by unfold_locales (auto simp: stays_ok_def)

lemma keeps_mono: "(\<And>w w'. R w w' \<Longrightarrow> S w w') \<Longrightarrow> keeps R m \<Longrightarrow> keeps S m"
  by (simp add: keeps_def)

lemma same_tables_evolves: "keeps same_tables m \<Longrightarrow> keeps evolves m"
  by (erule keeps_mono [rotated])
     (simp add: same_tables_def evolves_def grows_by_refl offer_step_def provider_step_def)

lemma same_tables_ok: "keeps same_tables m \<Longrightarrow> keeps stays_ok m"
  by (erule keeps_mono [rotated]) (simp add: same_tables_def stays_ok_def)

lemma evolves_pg:
  assumes "\<And>t d a d'. f t d = Some (a, d') \<Longrightarrow>
     grows_by (=) (payload_log d) (payload_log d') \<and> grows_by (=) (attestations d) (attestations d')
     \<and> grows_by offer_step (offers d) (offers d') \<and> grows_by provider_step (providers d) (providers d')"
  shows "keeps evolves (pg E f)"
  by (rule evo.keeps_pg) (use assms in \<open>auto simp: evolves_def\<close>)

lemma stays_ok_pg: "(\<And>t d a d'. f t d = Some (a, d') \<Longrightarrow> db_ok d \<Longrightarrow> db_ok d') \<Longrightarrow> keeps stays_ok (pg E f)"
  by (rule inv.keeps_pg) (auto simp: stays_ok_def)

lemmas grows_simps = grows_by_refl offer_step_def provider_step_def grows_by_append grows_by_map

lemma revoke_step: "grows_by offer_step os
    (map (\<lambda>r. if of_id r = i \<and> of_revoked r = None then r\<lparr>of_revoked := Some t\<rparr> else r) os)"
  by (rule grows_by_map) (auto simp: offer_step_def)

lemma writes_evolve [frame_simps]:
  "keeps evolves (logPayload E h ty prov p sig)"
  "keeps evolves (pg E (upsert_provider pid h s hb))"
  "keeps evolves (pg E (\<lambda>_. insert_attestation ar))"
  "keeps evolves (pg E (\<lambda>t. insert_offer (orow t)))"
  "keeps evolves (pg E (revoke_offer i))"
  unfolding logPayload_def
  by (rule evolves_pg; auto simp: insert_log_def upsert_provider_def insert_attestation_def insert_offer_def
      revoke_offer_def revoke_step grows_simps(1,4,5) offer_step_def [of x x for x] provider_step_def
      split: if_splits)+

lemma writes_ok [frame_simps]:
  "keeps stays_ok (logPayload E h ty prov p sig)"
  "keeps stays_ok (pg E (upsert_provider pid h s hb))"
  "keeps stays_ok (pg E (\<lambda>_. insert_attestation ar))"
  "keeps stays_ok (pg E (\<lambda>t. insert_offer (orow t)))"
  "keeps stays_ok (pg E (revoke_offer i))"
  unfolding logPayload_def
  by (rule stays_ok_pg; auto intro: db_ok_insert_log db_ok_upsert db_ok_attest db_ok_offer db_ok_revoke)+

subsection \<open>Tables that are only added to\<close>

text \<open>The contract of \<open>insert ... on conflict do nothing\<close> on a keyed table.\<close>

locale append_only =
  fixes add :: "'r \<Rightarrow> 's \<Rightarrow> 's"
    and look :: "'k \<Rightarrow> 's \<Rightarrow> 'r option"
    and key :: "'r \<Rightarrow> 'k"
  assumes look_add: "look k (add r s) =
    (case look k s of Some x \<Rightarrow> Some x | None \<Rightarrow> if k = key r then Some r else None)"
begin

lemma durable: "look k s = Some x \<Longrightarrow> look k (foldl (\<lambda>s r. add r s) s rs) = Some x"
  by (induction rs arbitrary: s) (simp_all add: look_add)

lemma present: "look (key r) (add r s) \<noteq> None"
  by (simp add: look_add split: option.split)

lemma idempotent: "look k (add r (add r s)) = look k (add r s)"
  by (simp add: look_add split: option.split)

lemma first_write_wins: "look k s = None \<Longrightarrow> look k (add r2 (add r1 s)) = (if k = key r1 then Some r1 else if k = key r2 then Some r2 else None)"
  by (simp add: look_add)

end

lemma find_append: "find P (xs @ ys) = (case find P xs of Some x \<Rightarrow> Some x | None \<Rightarrow> find P ys)"
  by (induction xs) auto

lemma find_key_None: "find (\<lambda>r. f r = k) xs = None \<longleftrightarrow> k \<notin> f ` set xs"
  by (auto simp: find_None_iff)

interpretation plog: append_only insert_log find_log l_hash
proof
  show "find_log k (insert_log r s) =
      (case find_log k s of Some x \<Rightarrow> Some x | None \<Rightarrow> if k = l_hash r then Some r else None)" for k r s
  proof (cases "l_hash r \<in> l_hash ` set (payload_log s)")
    case True
    then have "find_log (l_hash r) s \<noteq> None"
      unfolding find_log_def using find_key_None [of l_hash "l_hash r" "payload_log s"] by simp
    with True show ?thesis by (auto simp: insert_log_def split: option.split)
  next
    case False
    then show ?thesis by (auto simp: insert_log_def find_log_def find_append split: option.split)
  qed
qed

end
