(* ===== verification/Attest.thy ===== *)
theory Attest
  imports Db_Store
begin

text \<open>
  Benchmark challenge, lanes and attestation (\<open>src/handlers/attest.ts\<close>).  A submission
  runs the verifier, whose sampling loop may not end: \<open>postLaneSubmit\<close> is \<open>None\<close> then,
  since the service would hang.  Proved: what each handler accepts and stores, that lanes
  run in order, and that a failed submission ends the challenge.
\<close>

definition laneWorkers :: "int \<Rightarrow> LaneId \<Rightarrow> int" where
  "laneWorkers coreCount l =
     (case l of Single \<Rightarrow> 1 | Quad \<Rightarrow> 4 | Eight \<Rightarrow> 8 | Full \<Rightarrow> coreCount)"

definition jint :: "int \<Rightarrow> jsval" where
  "jint n = num_of_int n"

definition obj :: "(string \<times> jsval) list \<Rightarrow> jsval" where
  "obj members = JObj (map (\<lambda>(k, v). (js k, v)) members)"

text \<open>A call of a package that may throw.\<close>

definition or_throw :: "'a option \<Rightarrow> 'a io" where
  "or_throw x = (case x of None \<Rightarrow> throw Uncaught | Some a \<Rightarrow> ret a)"

lemma or_throw_Inr [guard_simps]: "or_throw x w = (Inr a, w') \<longleftrightarrow> x = Some a \<and> w' = w"
  by (auto simp: or_throw_def split: option.split)

subsection \<open>Challenge\<close>

text \<open>The checks on a challenge request, in order; the declared configuration they admit.\<close>

definition check_request :: "env \<Rightarrow> jsval \<Rightarrow> unit io" where
  "check_request E p =
     seqI (guardI (field p ''model'' \<noteq> JStr (js ''cpu/v1'')) (err_field VALIDATION ''model'')) (\<lambda>_.
     seqI (guardI (field p ''arch'' \<noteq> JStr (js ''x64'')) (err_field ARCH_UNSUPPORTED ''arch'')) (\<lambda>_.
     seqI (guardI (\<not> isPosInt (field p ''coreCount'') \<or> int_of (field p ''coreCount'') > maxWorkers (cfg E))
             (err_field VALIDATION ''coreCount'')) (\<lambda>_.
     seqI (guardI (case field p ''ramGib'' of JNum x \<Rightarrow> \<not> num_lt (Fin 0) x | _ \<Rightarrow> True)
             (err_field VALIDATION ''ramGib'')) (\<lambda>_.
     seqI (guardI (case field p ''cpuModel'' of JUndef \<Rightarrow> False | JStr s \<Rightarrow> length s > 128 | _ \<Rightarrow> True)
             (err_field VALIDATION ''cpuModel'')) (\<lambda>_.
     guardI (parseIso (field p ''signedAt'') = None) (err_field VALIDATION ''signedAt''))))))"

definition challenge_payload ::
    "env \<Rightarrow> jstr \<Rightarrow> jstr \<Rightarrow> jstr \<Rightarrow> int \<Rightarrow> int \<Rightarrow> jstr \<Rightarrow> jsval" where
  "challenge_payload E challengeId who seed coreCount now attester = obj
     [(''type'', JStr (js ''bench-challenge/v1'')),
      (''challengeId'', JStr challengeId),
      (''model'', JStr (js ''cpu/v1'')),
      (''providerId'', JStr who),
      (''seed'', JStr (ox seed)),
      (''chainLen'', jint (chainLen (cfg E))),
      (''lanes'', JArr (map (\<lambda>l. obj [(''laneId'', JStr (js (lane_name l))),
                                     (''workers'', jint (laneWorkers coreCount l))]) LANE_ORDER)),
      (''checkpoints'', jint (checkpoints (cfg E))),
      (''samples'', jint (samples (cfg E))),
      (''issuedAt'', JStr (toIso now)),
      (''deadline'', JStr (toIso (now + challengeTtlMs (cfg E)))),
      (''attesterKey'', JStr attester)]"

definition initial_state :: "env \<Rightarrow> jstr \<Rightarrow> jstr \<Rightarrow> jsval \<Rightarrow> int \<Rightarrow> BenchState" where
  "initial_state E who seed p now =
     \<lparr>bs_providerId = who, bs_seed = seed, bs_chainLen = chainLen (cfg E),
      bs_checkpoints = checkpoints (cfg E), bs_samples = samples (cfg E),
      bs_deadlineMs = now + challengeTtlMs (cfg E),
      bs_arch = js ''x64'', bs_coreCount = int_of (field p ''coreCount''),
      bs_ramGib = (case field p ''ramGib'' of JNum x \<Rightarrow> x | _ \<Rightarrow> NaN),
      bs_cpuModel = (case field p ''cpuModel'' of JStr s \<Rightarrow> Some s | _ \<Rightarrow> None),
      bs_lanes = (\<lambda>l. \<lparr>ls_workers = laneWorkers (int_of (field p ''coreCount'')) l,
                     ls_status = LanePending, ls_issuedAt = None, ls_nonce = None,
                     ls_elapsedMs = None\<rparr>)\<rparr>"

definition postChallenge :: "env \<Rightarrow> jsval option \<Rightarrow> jstr \<Rightarrow> response io" where
  "postChallenge E req ip =
     (let N = noble_fns E in
      seqI (liftI (readEnvelope N req ''attest-request/v1'')) (\<lambda>w.
      let p = payload w in
      seqI (pg_read E (\<lambda>_ d. find_provider (hexToBuf (signer w)) d)) (\<lambda>provider.
      seqI (guardI (provider = None) (err UNKNOWN_PROVIDER)) (\<lambda>_.
      seqI (check_request E p) (\<lambda>_.
      seqI (rateLimit E ''chal-p'' (signer w) rl_challengePerProvider) (\<lambda>r1.
      seqI (rateLimit E ''chal-ip'' ip rl_challengePerIp) (\<lambda>r2.
      let retry = max r1 r2 in
      seqI (guardI (retry > 0) (err_retry retry)) (\<lambda>_.
      seqI (time_now E) (\<lambda>now.
      seqI (randomBytes E 32) (\<lambda>cb.
      seqI (randomBytes E 32) (\<lambda>sb.
      let challengeId = ox (bytesToHex N cb); seed = bytesToHex N sb in
      seqI (or_throw (addressFromPrivateKey N (svc_key E))) (\<lambda>attester.
      let challenge = challenge_payload E challengeId (signer w) seed
                        (int_of (field p ''coreCount'')) now attester in
      seqI (or_throw (signPayload N challenge (svc_key E))) (\<lambda>sig.
      seqI (setBench E challengeId (initial_state E (signer w) seed p now) (challengeTtlMs (cfg E))) (\<lambda>stored.
      seqI (guardI (\<not> stored) (err INTERNAL)) (\<lambda>_.
      ret (json 201 [(''payload'', challenge), (''signature'', JStr sig)]))))))))))))))))"

subsection \<open>Lanes\<close>

definition loadState :: "env \<Rightarrow> jstr \<Rightarrow> BenchState io" where
  "loadState E challengeId =
     seqI (guardI (\<not> HASH_RE challengeId) (err VALIDATION)) (\<lambda>_.
     seqI (getBench E challengeId) (\<lambda>st.
     case st of None \<Rightarrow> throw (err UNKNOWN_CHALLENGE) | Some s \<Rightarrow> ret s))"

definition lane_of :: "jstr \<Rightarrow> LaneId option" where
  "lane_of s = find (\<lambda>l. js (lane_name l) = s) LANE_ORDER"

definition laneOrThrow :: "jstr \<Rightarrow> LaneId io" where
  "laneOrThrow laneId =
     (case lane_of laneId of None \<Rightarrow> throw (err VALIDATION) | Some l \<Rightarrow> ret l)"

definition upd_lane :: "LaneId \<Rightarrow> (LaneState \<Rightarrow> LaneState) \<Rightarrow> BenchState \<Rightarrow> BenchState" where
  "upd_lane l f st = st\<lparr>bs_lanes := (bs_lanes st)(l := f (bs_lanes st l))\<rparr>"

definition postLaneStart :: "env \<Rightarrow> jstr \<Rightarrow> jstr \<Rightarrow> response io" where
  "postLaneStart E challengeId laneId =
     seqI (loadState E challengeId) (\<lambda>st.
     seqI (time_now E) (\<lambda>now.
     seqI (guardI (now > bs_deadlineMs st) (err EXPIRED)) (\<lambda>_.
     seqI (laneOrThrow laneId) (\<lambda>l.
     seqI (guardI (ls_status (bs_lanes st l) \<noteq> LanePending) (err VALIDATION)) (\<lambda>_.
     seqI (guardI (\<exists>p \<in> set (takeWhile (\<lambda>p. p \<noteq> l) LANE_ORDER). ls_status (bs_lanes st p) \<noteq> LaneDone)
             (err VALIDATION)) (\<lambda>_.
     seqI (randomBytes E 16) (\<lambda>b.
     let nonce = bytesToHex (noble_fns E) b;
         st' = upd_lane l (\<lambda>s. s\<lparr>ls_status := LaneStarted, ls_issuedAt := Some now, ls_nonce := Some nonce\<rparr>) st in
     seqI (setBench E challengeId st' (bs_deadlineMs st - now)) (\<lambda>_.
     ret (json 200 [(''ok'', JBool True), (''laneNonce'', JStr (ox nonce))])))))))))"

text \<open>What a submission has established when it calls the verifier.\<close>

record submission =
  sb_state :: BenchState
  sb_lane :: LaneId
  sb_receivedAt :: int
  sb_elapsedMs :: int
  sb_params :: LaneParams
  sb_proofs :: jsval

definition submit_checks :: "env \<Rightarrow> jstr \<Rightarrow> jstr \<Rightarrow> jsval option \<Rightarrow> submission io" where
  "submit_checks E challengeId laneId req =
     (let N = noble_fns E in
      seqI (liftI (readEnvelope N req ''lane-proof/v1'')) (\<lambda>w.
      seqI (time_now E) (\<lambda>receivedAt.
      seqI (loadState E challengeId) (\<lambda>st.
      seqI (guardI (signer w \<noteq> bs_providerId st) (err SIG_MISMATCH)) (\<lambda>_.
      seqI (guardI (field (payload w) ''challengeId'' \<noteq> JStr challengeId
                    \<or> field (payload w) ''laneId'' \<noteq> JStr laneId) (err VALIDATION)) (\<lambda>_.
      seqI (guardI (receivedAt > bs_deadlineMs st) (err EXPIRED)) (\<lambda>_.
      seqI (laneOrThrow laneId) (\<lambda>l.
      let lane = bs_lanes st l in
      seqI (guardI (ls_status lane \<noteq> LaneStarted) (err VALIDATION)) (\<lambda>_.
      \<comment> \<open>a started lane has its issue time and nonce; their absence would throw below\<close>
      seqI (or_throw (ls_issuedAt lane)) (\<lambda>issued.
      let elapsedMs = receivedAt - issued in
      seqI (if elapsedMs > maxLaneMs (cfg E)
            then seqI (dropBench E challengeId) (\<lambda>_. throw (ApiError BENCH_FAILED (Some
                   [(js ''lane'', JStr laneId), (js ''elapsedMs'', jint elapsedMs),
                    (js ''maxLaneMs'', jint (maxLaneMs (cfg E)))])))
            else ret ()) (\<lambda>_.
      seqI (or_throw (hexToBytes N (bs_seed st))) (\<lambda>seed.
      seqI (or_throw (Option.bind (ls_nonce lane) (hexToBytes N))) (\<lambda>nonce.
      ret \<lparr>sb_state = st, sb_lane = l, sb_receivedAt = receivedAt, sb_elapsedMs = elapsedMs,
           sb_params = \<lparr>lp_seed = seed, lp_laneNonce = nonce, lp_providerId = bs_providerId st,
                        lp_laneId = laneId, lp_chainLen = nat (bs_chainLen st),
                        lp_checkpoints = nat (bs_checkpoints st), lp_samples = nat (bs_samples st)\<rparr>,
           sb_proofs = field (payload w) ''workers''\<rparr>)))))))))))))"

definition lane_score :: "BenchState \<Rightarrow> LaneId \<Rightarrow> jsnum" where
  "lane_score st l =
     laneScore (ls_workers (bs_lanes st l)) (bs_chainLen st)
       (Fin (of_int (max 1 (case ls_elapsedMs (bs_lanes st l) of None \<Rightarrow> 0 | Some e \<Rightarrow> e))))"

definition attestation_payload :: "env \<Rightarrow> jstr \<Rightarrow> BenchState \<Rightarrow> int \<Rightarrow> jstr \<Rightarrow> jsval" where
  "attestation_payload E challengeId st receivedAt attester = obj
     ([(''type'', JStr (js ''attest/cpu/v1'')),
       (''model'', JStr (js ''cpu/v1'')),
       (''providerId'', JStr (bs_providerId st)),
       (''challengeId'', JStr challengeId),
       (''arch'', JStr (bs_arch st)),
       (''coreCount'', jint (bs_coreCount st)),
       (''ramGib'', JNum (bs_ramGib st))]
      @ (case bs_cpuModel st of None \<Rightarrow> [] | Some c \<Rightarrow> [(''cpuModel'', JStr c)])
      @ [(''scores'', obj
            [(''singleCore'', JNum (lane_score st Single)), (''quadCore'', JNum (lane_score st Quad)),
             (''eightCore'', JNum (lane_score st Eight)), (''full'', JNum (lane_score st Full)),
             (''ramBandwidth'', JNull), (''dagHash'', JNull)]),
         (''measuredAt'', JStr (toIso receivedAt)),
         (''expiresAt'', JStr (toIso (receivedAt + attestationTtlMs (cfg E)))),
         (''attesterKey'', JStr attester),
         (''specVersion'', JStr (js ''0.2-draft''))])"

definition attestation_row :: "env \<Rightarrow> bytes \<Rightarrow> BenchState \<Rightarrow> int \<Rightarrow> bytes \<Rightarrow> att_row" where
  "attestation_row E aid st receivedAt sig =
     \<lparr>at_id = aid, at_provider = hexToBuf (bs_providerId st), at_model = ''cpu/v1'',
      at_arch = bs_arch st, at_cores = bs_coreCount st, at_ram = bs_ramGib st,
      at_cpuModel = bs_cpuModel st,
      at_scores = \<lparr>sc_single = lane_score st Single, sc_quad = lane_score st Quad,
                   sc_eight = lane_score st Eight, sc_full = lane_score st Full,
                   sc_ramBandwidth = None, sc_dagHash = None\<rparr>,
      at_measured = receivedAt, at_expires = receivedAt + attestationTtlMs (cfg E),
      at_signature = sig\<rparr>"

text \<open>The closing step: build, sign and persist the attestation.\<close>

definition close_bench :: "env \<Rightarrow> jstr \<Rightarrow> BenchState \<Rightarrow> LaneId \<Rightarrow> int \<Rightarrow> int \<Rightarrow> response io" where
  "close_bench E challengeId st l receivedAt elapsedMs =
     (let N = noble_fns E in
      seqI (or_throw (addressFromPrivateKey N (svc_key E))) (\<lambda>attester.
      let attestation = attestation_payload E challengeId st receivedAt attester in
      seqI (or_throw (signPayload N attestation (svc_key E))) (\<lambda>sig.
      seqI (case payloadHash N attestation of Inl _ \<Rightarrow> throw Uncaught | Inr h \<Rightarrow> ret h) (\<lambda>attestationId.
      let providerBytes = hexToBuf (bs_providerId st) in
      seqI (logPayload E (hexToBuf attestationId) ''attest/cpu/v1'' providerBytes attestation (hexToBuf sig)) (\<lambda>_.
      seqI (pg E (\<lambda>_. insert_attestation
             (attestation_row E (hexToBuf attestationId) st receivedAt (hexToBuf sig)))) (\<lambda>_.
      seqI (dropBench E challengeId) (\<lambda>_.
      seqI (liftI (envelopeOut N attestation sig (IsoString (toIso receivedAt)))) (\<lambda>out.
      ret (json 200
        [(''verified'', JBool True), (''elapsedMs'', jint elapsedMs),
         (''workers'', jint (ls_workers (bs_lanes st l))),
         (''attestation'', JObj ((js ''attestationId'', JStr attestationId) #
             (case out of JObj ms \<Rightarrow> ms | _ \<Rightarrow> [])))])))))))))"

definition submit_result :: "env \<Rightarrow> jstr \<Rightarrow> jstr \<Rightarrow> submission \<Rightarrow> VerifyResult \<Rightarrow> response io" where
  "submit_result E challengeId laneId sb res =
     (let st = sb_state sb; l = sb_lane sb in
      case res of
        Rejected _ \<Rightarrow>
          seqI (dropBench E challengeId) (\<lambda>_.
            throw (ApiError BENCH_FAILED (Some [(js ''lane'', JStr laneId)])))
      | LaneOk \<Rightarrow>
          (let st' = upd_lane l (\<lambda>s. s\<lparr>ls_status := LaneDone, ls_elapsedMs := Some (sb_elapsedMs sb)\<rparr>) st
           in if \<forall>k \<in> set LANE_ORDER. ls_status (bs_lanes st' k) = LaneDone
              then close_bench E challengeId st' l (sb_receivedAt sb) (sb_elapsedMs sb)
              else seqI (setBench E challengeId st' (bs_deadlineMs st - sb_receivedAt sb)) (\<lambda>_.
                   ret (json 200 [(''verified'', JBool True), (''elapsedMs'', jint (sb_elapsedMs sb)),
                                  (''workers'', jint (ls_workers (bs_lanes st' l)))]))))"

definition run_verifier :: "env \<Rightarrow> jstr \<Rightarrow> submission \<Rightarrow> (thrown + VerifyResult) option" where
  "run_verifier E challengeId sb =
     verifyLane (noble_fns E) (sb_params sb) (nat (ls_workers (bs_lanes (sb_state sb) (sb_lane sb))))
       challengeId (sb_proofs sb)"

definition postLaneSubmit ::
    "env \<Rightarrow> jstr \<Rightarrow> jstr \<Rightarrow> jsval option \<Rightarrow> world \<Rightarrow> ((thrown + response) \<times> world) option" where
  "postLaneSubmit E challengeId laneId req w =
     (case submit_checks E challengeId laneId req w of
        (Inl e, w') \<Rightarrow> Some (Inl e, w')
      | (Inr sb, w') \<Rightarrow>
          (case run_verifier E challengeId sb of
             None \<Rightarrow> None
           | Some (Inl e) \<Rightarrow> Some (Inl e, w')
           | Some (Inr res) \<Rightarrow> Some (submit_result E challengeId laneId sb res w')))"

definition getAttestation :: "env \<Rightarrow> jstr option \<Rightarrow> response io" where
  "getAttestation E param =
     (let i = (case param of None \<Rightarrow> [] | Some s \<Rightarrow> toLowerCase s) in
      seqI (guardI (\<not> HASH_RE i) (err VALIDATION)) (\<lambda>_.
      seqI (pg_read E (\<lambda>_ d. filter (\<lambda>r. l_hash r = hexToBuf i \<and> l_type r = ''attest/cpu/v1'') (payload_log d))) (\<lambda>rows.
      case rows of
        [] \<Rightarrow> throw (err UNKNOWN_ATTESTATION)
      | r # _ \<Rightarrow>
          seqI (liftI (envelopeOut (noble_fns E) (l_payload r) (bufToHex (l_signature r)) (DateMs (l_received r)))) (\<lambda>out.
          ret \<lparr>status = 200, body = out\<rparr>))))"

subsection \<open>The state machine of a challenge\<close>

text \<open>
  Lanes complete in order: a lane that has left \<open>pending\<close> has all earlier lanes done; a
  started lane has its issue time and nonce, a done lane its elapsed time; the worker
  counts are those of the declared core count.
\<close>

definition bench_wf :: "BenchState \<Rightarrow> bool" where
  "bench_wf st =
     ((\<forall>k l. k < l \<and> ls_status (bs_lanes st l) \<noteq> LanePending \<longrightarrow> ls_status (bs_lanes st k) = LaneDone)
      \<and> (\<forall>l. ls_status (bs_lanes st l) = LaneStarted \<longrightarrow>
             ls_issuedAt (bs_lanes st l) \<noteq> None \<and> ls_nonce (bs_lanes st l) \<noteq> None)
      \<and> (\<forall>l. ls_status (bs_lanes st l) = LaneDone \<longrightarrow> ls_elapsedMs (bs_lanes st l) \<noteq> None)
      \<and> (\<forall>l. ls_workers (bs_lanes st l) = laneWorkers (bs_coreCount st) l))"

lemma bench_wf_before:
  "bench_wf st \<Longrightarrow> ls_status (bs_lanes st l) \<noteq> LanePending \<Longrightarrow> k < l \<Longrightarrow> ls_status (bs_lanes st k) = LaneDone"
  unfolding bench_wf_def by blast

lemma initial_wf: "bench_wf (initial_state E who seed p now)"
  by (simp add: bench_wf_def initial_state_def)

lemma earlier_lanes: "set (takeWhile (\<lambda>p. p \<noteq> l) LANE_ORDER) = {k. k < l}"
proof -
  have "x \<in> set (takeWhile (\<lambda>p. p \<noteq> l) LANE_ORDER) \<longleftrightarrow> x < l" for x
    by (cases l; cases x) (simp_all add: LANE_ORDER_def less_LaneId_def)
  then show ?thesis by blast
qed

lemma start_wf:
  assumes "bench_wf st" and "ls_status (bs_lanes st l) = LanePending"
    and "\<forall>k < l. ls_status (bs_lanes st k) = LaneDone"
  shows "bench_wf (upd_lane l (\<lambda>s. s\<lparr>ls_status := LaneStarted, ls_issuedAt := Some t, ls_nonce := Some n\<rparr>) st)"
proof -
  have "\<not> l < k" if "ls_status (bs_lanes st k) \<noteq> LanePending" for k
    using assms(1,2) that by (auto simp: bench_wf_def)
  then show ?thesis using assms by (auto simp: bench_wf_def upd_lane_def)
qed

lemma done_wf:
  assumes "bench_wf st" and "ls_status (bs_lanes st l) = LaneStarted"
  shows "bench_wf (upd_lane l (\<lambda>s. s\<lparr>ls_status := LaneDone, ls_elapsedMs := Some e\<rparr>) st)"
proof -
  have "ls_status (bs_lanes st k) = LaneDone" if "k < l" for k
    using bench_wf_before [OF assms(1) _ that] assms(2) by simp
  then show ?thesis using assms by (auto simp: bench_wf_def upd_lane_def)
qed

text \<open>
  \<open>V\<close> says which lanes of which challenge the verifier has accepted; the invariant of the
  stored states is that they are well formed and that only such lanes are done.
\<close>

definition bench_inv :: "(jstr \<Rightarrow> LaneId \<Rightarrow> bool) \<Rightarrow> jstr \<Rightarrow> BenchState \<Rightarrow> bool" where
  "bench_inv V cid st = (bench_wf st \<and> (\<forall>l. ls_status (bs_lanes st l) = LaneDone \<longrightarrow> V cid l))"

lemma inv_bench_keeps: "keeps (bench_keep P) m \<Longrightarrow> inv_io (benches P) m (\<lambda>_. True)"
  by (rule inv_keeps) (simp add: bench_keep_def [abs_def])

lemma inv_getBench:
  assumes R: "redis_documented E"
  shows "inv_io (benches P) (getBench E cid) (\<lambda>r. \<forall>st. r = Some st \<longrightarrow> P cid st)"
  unfolding inv_io_def
proof (intro allI impI)
  fix w assume b: "benches P w"
  obtain r w' where s: "send E (GET (KBench cid)) w = (r, w')" by fastforce
  from send_documented [OF R s] obtain x where x: "r = Inr x" "sent E (GET (KBench cid)) w w' x" by blast
  have "keeps (bench_keep P) (send E (GET (KBench cid)))"
    by (rule bench_keep_send [OF R]) simp
  then have b': "benches P w'" using b s by (auto simp: keeps_def bench_keep_def dest: spec [of _ w])
  have "P cid st" if "reply_val x = Some (VBench st)" for st
  proof -
    from that x(2) obtain t where "alive t (kvs w) (KBench cid) = Some (VBench st)"
      by (auto simp: sent_def Let_def reply_val_def split: option.splits rreply.splits)
    from alive_stored [OF this] b show ?thesis by (auto simp: benches_def)
  qed
  then show "case getBench E cid w of (Inl e, w') \<Rightarrow> benches P w'
      | (Inr a, w') \<Rightarrow> benches P w' \<and> (\<forall>st. a = Some st \<longrightarrow> P cid st)"
    using b' by (auto simp: getBench_def seqI_def s x(1) ret_def split: option.splits rval.splits)
qed

lemma inv_loadState:
  assumes R: "redis_documented E"
  shows "inv_io (benches P) (loadState E cid) (\<lambda>st. P cid st \<and> HASH_RE cid)"
  unfolding loadState_def
  by (intro inv_seqI [OF inv_guardI] inv_seqI [OF inv_getBench [OF R]])
     (auto split: option.split intro!: inv_ret inv_throw)

lemma inv_laneOrThrow: "inv_io I (laneOrThrow s) (\<lambda>l. lane_of s = Some l)"
  by (auto simp: laneOrThrow_def split: option.split intro!: inv_ret inv_throw)

lemma inv_tick:
  "inv_io (benches P) (time_now E) (\<lambda>_. True)" "inv_io (benches P) (randomBytes E n) (\<lambda>_. True)"
  by (intro inv_bench_keeps bench.keeps_rules)+

lemma inv_setBench:
  "redis_documented E \<Longrightarrow> P cid st \<Longrightarrow> inv_io (benches P) (setBench E cid st px) (\<lambda>_. True)"
  by (intro inv_bench_keeps bench_keep_ops)

lemma inv_true: "inv_io I (ret a) (\<lambda>_. True)"
  by (simp add: inv_ret)

lemma postLaneStart_inv:
  assumes R: "redis_documented E"
  shows "inv_io (benches (bench_inv V)) (postLaneStart E cid lane) (\<lambda>_. True)"
  unfolding postLaneStart_def Let_def
proof (intro inv_seqI [OF inv_loadState [OF R]] inv_seqI [OF inv_tick(1)] inv_seqI [OF inv_guardI]
    inv_seqI [OF inv_laneOrThrow] inv_seqI [OF inv_tick(2)] inv_seqI [OF inv_setBench [OF R]] inv_true)
  fix st now l
  assume a: "bench_inv V cid st \<and> HASH_RE cid" and p: "\<not> ls_status (bs_lanes st l) \<noteq> LanePending"
    and o: "\<not> (\<exists>p \<in> set (takeWhile (\<lambda>p. p \<noteq> l) LANE_ORDER). ls_status (bs_lanes st p) \<noteq> LaneDone)"
  show "bench_inv V cid (upd_lane l (\<lambda>s. s\<lparr>ls_status := LaneStarted, ls_issuedAt := Some now,
      ls_nonce := Some n\<rparr>) st)" for n
    using start_wf [of st l] a p o unfolding earlier_lanes
    by (auto simp: bench_inv_def upd_lane_def)
qed

lemma keeps_or_throw: "(\<And>a. keeps R (ret a :: 'a io)) \<Longrightarrow> (\<And>e. keeps R (throw e :: 'a io)) \<Longrightarrow> keeps R (or_throw (x :: 'a option))"
  by (auto simp: or_throw_def split: option.split)

lemmas bench_rules = bench.keeps_rules keeps_or_throw

lemma keeps_check_request: "keeps (bench_keep P) (check_request E p)"
  unfolding check_request_def by (intro bench_rules)

lemma postChallenge_inv:
  assumes R: "redis_documented E"
  shows "keeps (bench_keep (bench_inv V)) (postChallenge E req ip)"
proof -
  have "bench_inv V cid (initial_state E who seed p now)" for cid who seed p now
    using initial_wf by (simp add: bench_inv_def initial_state_def)
  then show ?thesis
    unfolding postChallenge_def Let_def
    by (intro bench_rules keeps_check_request bench_keep_ops [OF R])
qed

lemma inv_submit_checks:
  assumes R: "redis_documented E"
  shows "inv_io (benches (bench_inv V)) (submit_checks E cid lane req)
    (\<lambda>sb. bench_inv V cid (sb_state sb) \<and> ls_status (bs_lanes (sb_state sb) (sb_lane sb)) = LaneStarted)"
  unfolding submit_checks_def Let_def
  by (intro inv_seqI [OF inv_bench_keeps [OF bench.keeps_liftI]] inv_seqI [OF inv_tick(1)]
        inv_seqI [OF inv_loadState [OF R]] inv_seqI [OF inv_guardI] inv_seqI [OF inv_laneOrThrow])
     (auto intro!: inv_pure_seqI inv_bench_keeps bench_rules bench_keep_ops [OF R] inv_ret)

lemma inv_submit_result:
  assumes R: "redis_documented E" and b: "bench_inv V cid (sb_state sb)"
    and st: "ls_status (bs_lanes (sb_state sb) (sb_lane sb)) = LaneStarted"
    and v: "res = LaneOk \<Longrightarrow> V cid (sb_lane sb)"
  shows "keeps (bench_keep (bench_inv V)) (submit_result E cid lane sb res)"
proof (cases res)
  case LaneOk
  let ?st = "upd_lane (sb_lane sb) (\<lambda>s. s\<lparr>ls_status := LaneDone, ls_elapsedMs := Some (sb_elapsedMs sb)\<rparr>)
      (sb_state sb)"
  have "bench_inv V cid ?st"
    using done_wf [of "sb_state sb" "sb_lane sb"] b st v [OF LaneOk]
    by (auto simp: bench_inv_def upd_lane_def)
  moreover have "keeps (bench_keep (bench_inv V)) (close_bench E cid ?st l r e)" for l r e
    unfolding close_bench_def Let_def logPayload_def
    by (intro bench_rules bench_keep_ops [OF R] bench_keep_pg) (auto split: sum.split intro!: bench_rules)
  ultimately show ?thesis
    unfolding submit_result_def Let_def LaneOk VerifyResult.case
    by (intro bench_rules bench_keep_ops [OF R])
next
  case (Rejected r)
  then show ?thesis
    unfolding submit_result_def Let_def
    by (simp add: bench.keeps_seqI bench.keeps_throw bench_keep_ops [OF R])
qed

lemma postLaneSubmit_inv:
  assumes R: "redis_documented E" and b: "benches (bench_inv V) w"
    and p: "postLaneSubmit E cid lane req w = Some (r, w')"
    and v: "\<And>sb w1. submit_checks E cid lane req w = (Inr sb, w1) \<Longrightarrow>
        run_verifier E cid sb = Some (Inr LaneOk) \<Longrightarrow> V cid (sb_lane sb)"
  shows "benches (bench_inv V) w'"
proof (cases "submit_checks E cid lane req w")
  case (Pair x w1)
  show ?thesis
  proof (cases x)
    case (Inl e)
    then show ?thesis
      using inv_ioD [OF inv_submit_checks [OF R] b, of cid lane req] p Pair
      by (simp add: postLaneSubmit_def)
  next
    case (Inr sb)
    note i = inv_io_Inr [OF inv_submit_checks [OF R] b Pair [unfolded Inr]]
    show ?thesis
    proof (cases "run_verifier E cid sb")
      case (Some y)
      show ?thesis
      proof (cases y)
        case (Inr res)
        have "V cid (sb_lane sb)" if "res = LaneOk"
          using v [of sb w1] Pair \<open>x = Inr sb\<close> Some Inr that by simp
        then have "keeps (bench_keep (bench_inv V)) (submit_result E cid lane sb res)"
          using inv_submit_result [OF R] i by blast
        then have "benches (bench_inv V) (snd (submit_result E cid lane sb res w1))"
          using i by (simp add: keeps_def bench_keep_def)
        then show ?thesis
          using p Pair \<open>x = Inr sb\<close> Some Inr by (auto simp: postLaneSubmit_def)
      qed (use p Pair Inr Some i in \<open>auto simp: postLaneSubmit_def\<close>)
    qed (use p Pair Inr in \<open>simp add: postLaneSubmit_def\<close>)
  qed
qed

subsection \<open>What an accepted submission and a new attestation say\<close>

lemma getBench_stored:
  assumes R: "redis_documented E" and g: "getBench E cid w = (Inr (Some st), w')"
  shows "\<exists>e. kv_str (kvs w) (KBench cid) = Some (VBench st, e)"
proof -
  obtain r w1 where s: "send E (GET (KBench cid)) w = (r, w1)" by fastforce
  from send_documented [OF R s] obtain x where x: "r = Inr x" "sent E (GET (KBench cid)) w w1 x" by blast
  then obtain t where "alive t (kvs w) (KBench cid) = Some (VBench st)"
    using g by (auto simp: getBench_def seqI_def s sent_def Let_def reply_val_def
        split: option.splits rval.splits rreply.splits)
  then show ?thesis by (rule alive_stored)
qed

lemma frame_submit_checks: "keeps same_tables (submit_checks E cid lane req)"
  unfolding submit_checks_def Let_def loadState_def laneOrThrow_def or_throw_def
  by (intro frame.keeps_rules frame_simps) (auto split: option.split intro!: frame.keeps_rules frame_simps)

lemma submit_checks_ok:
  assumes R: "redis_documented E" and s: "submit_checks E cid lane req w = (Inr sb, w1)"
  shows "\<exists>vw issued e. readEnvelope (noble_fns E) req ''lane-proof/v1'' = Inr vw
     \<and> signer vw = bs_providerId (sb_state sb)
     \<and> field (payload vw) ''challengeId'' = JStr cid \<and> field (payload vw) ''laneId'' = JStr lane
     \<and> sb_proofs sb = field (payload vw) ''workers''
     \<and> kv_str (kvs w) (KBench cid) = Some (VBench (sb_state sb), e) \<and> HASH_RE cid
     \<and> lane_of lane = Some (sb_lane sb)
     \<and> ls_status (bs_lanes (sb_state sb) (sb_lane sb)) = LaneStarted
     \<and> ls_issuedAt (bs_lanes (sb_state sb) (sb_lane sb)) = Some issued
     \<and> sb_receivedAt sb = now_at E (tick w) \<and> sb_receivedAt sb \<le> bs_deadlineMs (sb_state sb)
     \<and> sb_elapsedMs sb = sb_receivedAt sb - issued \<and> sb_elapsedMs sb \<le> maxLaneMs (cfg E)
     \<and> tables w1 = tables w"
proof -
  have t: "tables w1 = tables w"
    using s frame_submit_checks [of E cid lane req] by (metis keeps_def same_tables_def snd_conv)
  obtain vw where vw: "readEnvelope (noble_fns E) req ''lane-proof/v1'' = Inr vw"
    using s by (auto simp: submit_checks_def Let_def guard_simps)
  let ?w = "w\<lparr>tick := tick w + 1\<rparr>"
  obtain st w2 where st: "loadState E cid ?w = (Inr st, w2)"
    using s vw by (auto simp: submit_checks_def Let_def guard_simps)
  obtain w3 where g: "getBench E cid ?w = (Inr (Some st), w3)" and h: "HASH_RE cid"
    using st by (auto simp: loadState_def guard_simps split: option.splits)
  obtain e where e: "kv_str (kvs w) (KBench cid) = Some (VBench st, e)"
    using getBench_stored [OF R g] by auto
  obtain l issued params where c: "signer vw = bs_providerId st"
      "field (payload vw) ''challengeId'' = JStr cid" "field (payload vw) ''laneId'' = JStr lane"
      "now_at E (tick w) \<le> bs_deadlineMs st" "lane_of lane = Some l"
      "ls_status (bs_lanes st l) = LaneStarted" "ls_issuedAt (bs_lanes st l) = Some issued"
      "now_at E (tick w) - issued \<le> maxLaneMs (cfg E)"
    and sb: "sb = \<lparr>sb_state = st, sb_lane = l, sb_receivedAt = now_at E (tick w),
        sb_elapsedMs = now_at E (tick w) - issued, sb_params = params,
        sb_proofs = field (payload vw) ''workers''\<rparr>"
    using s vw st
    by (auto simp: submit_checks_def Let_def guard_simps laneOrThrow_def not_less split: option.splits if_splits)
  show ?thesis
    using vw e h c t by (auto simp: sb)
qed

text \<open>Every attestation row that a run adds satisfies \<open>Q\<close>.\<close>

definition new_atts :: "(att_row \<Rightarrow> bool) \<Rightarrow> world \<Rightarrow> world \<Rightarrow> bool" where
  "new_atts Q w w' =
     (\<forall>r \<in> set (attestations (tables w')). r \<in> set (attestations (tables w)) \<or> Q r)"

interpretation atts: world_order "new_atts Q" for Q
  by unfold_locales (auto simp: new_atts_def)

lemma same_tables_atts: "keeps same_tables m \<Longrightarrow> keeps (new_atts Q) m"
  by (erule keeps_mono [rotated]) (simp add: same_tables_def new_atts_def)

lemma atts_pg:
  "(\<And>t d a d' r. f t d = Some (a, d') \<Longrightarrow> r \<in> set (attestations d') \<Longrightarrow> r \<in> set (attestations d) \<or> Q r) \<Longrightarrow>
   keeps (new_atts Q) (pg E f)"
  by (rule atts.keeps_pg) (auto simp: new_atts_def)

lemma atts_log: "keeps (new_atts Q) (logPayload E h ty prov p sig)"
  unfolding logPayload_def by (rule atts_pg) (auto simp: insert_log_def split: if_splits)

lemma atts_insert: "Q r \<Longrightarrow> keeps (new_atts Q) (pg E (\<lambda>_. insert_attestation r))"
  by (rule atts_pg) (auto simp: insert_attestation_def split: if_splits)

lemma close_bench_rows:
  assumes "\<And>aid sig. Q (attestation_row E aid st received sig)"
  shows "keeps (new_atts Q) (close_bench E cid st l received el)"
  unfolding close_bench_def Let_def
  by (intro atts.keeps_rules keeps_or_throw atts_log atts_insert assms same_tables_atts frame_simps)
     (auto split: sum.split intro!: frame.keeps_rules)

lemma submit_result_rows:
  assumes "\<And>st' aid sig. res = LaneOk \<Longrightarrow> (\<forall>k. ls_status (bs_lanes st' k) = LaneDone) \<Longrightarrow>
      st' = upd_lane (sb_lane sb) (\<lambda>s. s\<lparr>ls_status := LaneDone, ls_elapsedMs := Some (sb_elapsedMs sb)\<rparr>) (sb_state sb) \<Longrightarrow>
      Q (attestation_row E aid st' (sb_receivedAt sb) sig)"
  shows "keeps (new_atts Q) (submit_result E cid lane sb res)"
proof (cases res)
  case LaneOk
  let ?st = "upd_lane (sb_lane sb) (\<lambda>s. s\<lparr>ls_status := LaneDone, ls_elapsedMs := Some (sb_elapsedMs sb)\<rparr>) (sb_state sb)"
  show ?thesis
  proof (cases "\<forall>k. ls_status (bs_lanes ?st k) = LaneDone")
    case True
    then show ?thesis
      using close_bench_rows [of Q E ?st "sb_receivedAt sb" cid "sb_lane sb" "sb_elapsedMs sb"] assms [OF LaneOk True]
      by (simp add: submit_result_def LaneOk Let_def)
  next
    case False
    then show ?thesis
      unfolding submit_result_def LaneOk Let_def VerifyResult.case set_LANE_ORDER
      by (simp only: Ball_def UNIV_I simp_thms if_False)
         (intro atts.keeps_rules same_tables_atts frame_simps)
  qed
next
  case (Rejected x)
  then show ?thesis
    unfolding submit_result_def Let_def
    by (simp add: atts.keeps_seqI atts.keeps_throw same_tables_atts frame_simps)
qed

text \<open>
  A submission adds an attestation only when the verifier accepted it and its lane was the
  last: all four lanes of the stored state are then done.
\<close>

lemma postLaneSubmit_new_attestation:
  assumes R: "redis_documented E" and p: "postLaneSubmit E cid lane req w = Some (r, w')"
    and new: "row \<in> set (attestations (tables w'))" "row \<notin> set (attestations (tables w))"
  obtains sb w1 st' aid sig where "submit_checks E cid lane req w = (Inr sb, w1)"
    "run_verifier E cid sb = Some (Inr LaneOk)"
    "st' = upd_lane (sb_lane sb) (\<lambda>s. s\<lparr>ls_status := LaneDone, ls_elapsedMs := Some (sb_elapsedMs sb)\<rparr>) (sb_state sb)"
    "\<forall>k. ls_status (bs_lanes st' k) = LaneDone" "row = attestation_row E aid st' (sb_receivedAt sb) sig"
proof -
  have t: "tables w1 = tables w" if "submit_checks E cid lane req w = (y, w1)" for y w1
    using frame_submit_checks [of E cid lane req] that by (metis keeps_def same_tables_def snd_conv)
  obtain sb w1 res where s: "submit_checks E cid lane req w = (Inr sb, w1)"
      "run_verifier E cid sb = Some (Inr res)" "submit_result E cid lane sb res w1 = (r, w')"
    using p new t by (fastforce simp: postLaneSubmit_def split: prod.splits sum.splits option.splits)
  define Q where "Q row \<longleftrightarrow> (\<exists>st' aid sig. res = LaneOk \<and> (\<forall>k. ls_status (bs_lanes st' k) = LaneDone) \<and>
      st' = upd_lane (sb_lane sb) (\<lambda>s. s\<lparr>ls_status := LaneDone, ls_elapsedMs := Some (sb_elapsedMs sb)\<rparr>) (sb_state sb) \<and>
      row = attestation_row E aid st' (sb_receivedAt sb) sig)" for row
  have "keeps (new_atts Q) (submit_result E cid lane sb res)"
    by (rule submit_result_rows) (auto simp: Q_def)
  then have "new_atts Q w1 w'" using s(3) by (metis keeps_def snd_conv)
  then have "Q row" using new t [OF s(1)] by (auto simp: new_atts_def)
  then show thesis using that s unfolding Q_def by blast
qed

text \<open>A rejected proof ends the challenge: its state is gone, nothing is written.\<close>

lemma dropBench_up:
  "redis_up E \<Longrightarrow> client w \<Longrightarrow>
   dropBench E cid w = (Inr (), w\<lparr>tick := tick w + 1, kvs := redis_effect (now_at E (tick w)) (DEL [KBench cid]) (kvs w)\<rparr>)"
  by (simp add: dropBench_def seqI_def send_up ret_def)

lemma rejected_ends:
  assumes "redis_up E" and "submit_checks E cid lane req w = (Inr sb, w1)" and "client w1"
    and "run_verifier E cid sb = Some (Inr (Rejected why))"
  shows "\<exists>w'. postLaneSubmit E cid lane req w =
       Some (Inl (ApiError BENCH_FAILED (Some [(js ''lane'', JStr lane)])), w')
     \<and> (\<forall>t. alive t (kvs w') (KBench cid) = None) \<and> tables w' = tables w"
proof -
  have "tables w1 = tables w"
    using frame_submit_checks [of E cid lane req] assms(2) by (metis keeps_def same_tables_def snd_conv)
  then show ?thesis
    using assms(2,4) dropBench_up [OF assms(1,3), of cid]
    by (simp add: postLaneSubmit_def submit_result_def Let_def seqI_def throw_def alive_def)
qed

end
