(* ===== verification/Demo.thy ===== *)
theory Demo
  imports Attest
begin

text \<open>
  A concrete world to evaluate the handlers in: one registered provider with one attested
  offer, while Redis and the database answer and the clock advances.
\<close>

definition demo_address :: jstr where
  "demo_address = pub_address toy toy_pub"

definition demo_pid :: bytes where "demo_pid = replicate 20 0"
definition demo_oid :: bytes where "demo_oid = replicate 32 17"
definition demo_aid :: bytes where "demo_aid = replicate 32 34"

definition demo_scores :: scores where
  "demo_scores = \<lparr>sc_single = Fin 1, sc_quad = Fin 4, sc_eight = Fin 8, sc_full = Fin 16,
     sc_ramBandwidth = None, sc_dagHash = None\<rparr>"

definition demo_att :: att_row where
  "demo_att = \<lparr>at_id = demo_aid, at_provider = demo_pid, at_model = ''cpu/v1'', at_arch = js ''x64'', at_cores = 16,
     at_ram = Fin 64, at_cpuModel = None, at_scores = demo_scores, at_measured = 1799999000000,
     at_expires = 1802000000000, at_signature = []\<rparr>"

definition demo_offer :: offer_row where
  "demo_offer = \<lparr>of_id = demo_oid, of_provider = demo_pid, of_att = demo_aid,
     of_template = obj [(''type'', JStr (js ''offer/v1''))], of_model = ''cpu/v1'', of_expires = 1801000000000,
     of_revoked = None, of_created = 1799999500000, of_arch = js ''x64'', of_cores = 16, of_ram = Fin 64,
     of_scores = demo_scores\<rparr>"

definition demo_db :: db where
  "demo_db = \<lparr>payload_log =
       [\<lparr>l_hash = replicate 32 1, l_type = ''profile/v1'', l_provider = demo_pid, l_payload = obj [], l_signature = [1], l_received = 1\<rparr>,
        \<lparr>l_hash = demo_aid, l_type = ''attest/cpu/v1'', l_provider = demo_pid, l_payload = obj [], l_signature = [2], l_received = 2\<rparr>,
        \<lparr>l_hash = demo_oid, l_type = ''offer/v1'', l_provider = demo_pid, l_payload = obj [], l_signature = [3], l_received = 3\<rparr>],
     providers = [\<lparr>pr_id = demo_pid, pr_profile = replicate 32 1, pr_signed = 1, pr_heartbeat = 60, pr_firstSeen = 1, pr_updated = 1\<rparr>],
     attestations = [demo_att], offers = [demo_offer], snapshots = [], sim_jobs = []\<rparr>"

definition demo_world :: world where
  "demo_world = empty_world\<lparr>tables := demo_db\<rparr>"

lemma demo_signed:
  assumes "wf_js p" "plain_json p" "isPlainObject p" "field p ''type'' = JStr (js t)"
    "field p ''providerId'' = JStr demo_address"
  obtains req sig h where "readEnvelope toy (Some req) t =
      Inr \<lparr>payload = p, signature = sig, hash = h, signer = demo_address\<rparr>" "payloadHash toy p = Inr h"
proof -
  have "is_ok (jcs p)" using serialize_ok_iff [OF assms(1)] assms(2) by (simp add: jcs_def)
  from readEnvelope_signed [OF toy_ok toy_key assms(3) this assms(4), of "[]"] assms(5)
  show thesis using that by (auto simp: demo_address_def)
qed

lemma demo_provider: "bufToHex demo_pid = demo_address"
  by (simp add: demo_pid_def demo_address_def pub_address_def toy_def toy_keccak_def bufToHex_def ox_def
      slice_from_def toy_pub_def eval_nat_numeral)

lemma demo_select: "offer_select (\<lambda>x. of_id x = demo_oid) demo_db =
   [\<lparr>or_offer = demo_offer, or_tplSig = [3], or_attPayload = obj [], or_attSig = [2], or_attReceived = 2, or_heartbeat = 60\<rparr>]"
  by (simp add: offer_select_def join_offer_def demo_db_def find_log_def find_provider_def demo_offer_def
      demo_oid_def demo_aid_def demo_att_def demo_pid_def)


lemma demo_ids [simp]: "toLowerCase (bufToHex demo_oid) = bufToHex demo_oid" "HASH_RE (bufToHex demo_oid)"
  using lower_hex_toLowerCase [OF hex_of_lower, of demo_oid] HASH_RE_hex [of demo_oid]
  by (simp_all add: bufToHex_def ox_def demo_oid_def)

lemma demo_rows [simp]: "pg_fate demo_env n = Works" "noble_fns demo_env = toy" "cfg demo_env = default_config"
    "now_at demo_env n = 1800000000000 + int n"
  by (simp_all add: demo_env_def)

lemma iso_range_demo [simp]: "0 \<le> t \<Longrightarrow> t \<le> 4102444800000 \<Longrightarrow> iso_range t"
  by (simp add: iso_range_def)

lemma demo_world_simps [simp]:
  "tables demo_world = demo_db" "tick demo_world = 0" "client demo_world" "kvs demo_world = empty_kv"
  by (simp_all add: demo_world_def empty_world_def)

lemma demo_config [simp]:
  "termsMaxValidityMs default_config = 3600000" "availMaxValidityMs default_config = 3600000"
  "templateMaxAheadMs default_config = 180 * 86400000" "signedAtMaxFutureMs default_config = 120000"
  "offerCapPerProvider default_config = 50" "heartbeatMin default_config = 15" "heartbeatMax default_config = 900"
  by (simp_all add: load_config_fixed [OF load_default] default_config_def load_config_def int_setting_def num_def)

lemma demo_offer_simps [simp]:
  "of_id demo_offer = demo_oid" "of_provider demo_offer = demo_pid" "of_revoked demo_offer = None"
  "of_expires demo_offer = 1801000000000" "of_att demo_offer = demo_aid"
  by (simp_all add: demo_offer_def)

end
