(* ===== verification/Offers.thy ===== *)
theory Offers
  imports Demo
begin

text \<open>
  Offer templates, terms, revocation and availability (\<open>src/handlers/offers.ts\<close>).  Proved:
  what each handler has checked when it succeeds, the seq guard both heartbeats share, how
  long terms and busy flags live, that a revocation is final, and that an offer's expiry
  never exceeds its attestation's.
\<close>

subsection \<open>Submitting a template\<close>

definition check_template :: "env \<Rightarrow> int \<Rightarrow> jsval \<Rightarrow> unit io" where
  "check_template E now p =
     seqI (guardI (parseIso (field p ''signedAt'') = None) (err_field VALIDATION ''signedAt'')) (\<lambda>_.
     seqI (guardI (the (parseIso (field p ''signedAt'')) > now + signedAtMaxFutureMs (cfg E))
             (err_field VALIDATION ''signedAt'')) (\<lambda>_.
     seqI (guardI (\<not> isPlainObject (field p ''compute'')) (err_field VALIDATION ''compute'')) (\<lambda>_.
     seqI (guardI (field (field p ''compute'') ''model'' \<noteq> JStr (js ''cpu/v1''))
             (err_field VALIDATION ''compute.model'')) (\<lambda>_.
     seqI (guardI (\<not> isHash (field (field p ''compute'') ''attestationId''))
             (err_field VALIDATION ''compute.attestationId'')) (\<lambda>_.
     seqI (guardI (case field p ''constraintsHint'' of JUndef \<Rightarrow> False | JStr s \<Rightarrow> length s > 1024 | _ \<Rightarrow> True)
             (err_field VALIDATION ''constraintsHint'')) (\<lambda>_.
     seqI (guardI (parseIso (field p ''expiresAt'') = None) (err_field VALIDATION ''expiresAt'')) (\<lambda>_.
     seqI (guardI (the (parseIso (field p ''expiresAt'')) \<le> now) (err_field EXPIRED ''expiresAt'')) (\<lambda>_.
     guardI (the (parseIso (field p ''expiresAt'')) > now + templateMaxAheadMs (cfg E))
       (err_field VALIDATION ''expiresAt'')))))))))"

definition jstr_of :: "jsval \<Rightarrow> jstr" where
  "jstr_of v = (case v of JStr s \<Rightarrow> s | _ \<Rightarrow> [])"

definition offer_of :: "bytes \<Rightarrow> bytes \<Rightarrow> att_row \<Rightarrow> jsval \<Rightarrow> int \<Rightarrow> int \<Rightarrow> offer_row" where
  "offer_of oid pid a p effectiveExpiry t =
     \<lparr>of_id = oid, of_provider = pid, of_att = at_id a, of_template = p, of_model = ''cpu/v1'',
      of_expires = effectiveExpiry, of_revoked = None, of_created = t,
      of_arch = at_arch a, of_cores = at_cores a, of_ram = at_ram a, of_scores = at_scores a\<rparr>"

definition postOffer :: "env \<Rightarrow> jsval option \<Rightarrow> response io" where
  "postOffer E req =
     seqI (liftI (readEnvelope (noble_fns E) req ''offer/v1'')) (\<lambda>w.
     let p = payload w in
     seqI (limited E ''tpl'' (signer w) rl_templatePerProvider) (\<lambda>_.
     let providerBytes = hexToBuf (signer w) in
     seqI (pg_read E (\<lambda>_ d. find_provider providerBytes d)) (\<lambda>provider.
     seqI (guardI (provider = None) (err UNKNOWN_PROVIDER)) (\<lambda>_.
     seqI (time_now E) (\<lambda>now.
     seqI (check_template E now p) (\<lambda>_.
     seqI (pg_read E (\<lambda>_ d. find_att (hexToBuf (jstr_of (field (field p ''compute'') ''attestationId''))) d)) (\<lambda>att.
     case att of
       None \<Rightarrow> throw (err UNKNOWN_ATTESTATION)
     | Some a \<Rightarrow>
         seqI (guardI (bufToHex (at_provider a) \<noteq> signer w) (err_field VALIDATION ''compute.attestationId'')) (\<lambda>_.
         seqI (guardI (JStr (js (at_model a)) \<noteq> field (field p ''compute'') ''model'')
                 (err_field VALIDATION ''compute.model'')) (\<lambda>_.
         seqI (guardI (at_expires a \<le> now) (err ATTESTATION_EXPIRED)) (\<lambda>_.
         let offerId = hash w in
         seqI (pg_read E (\<lambda>_ d. find_offer_row (hexToBuf offerId) d)) (\<lambda>existing.
         if existing \<noteq> None then ret (json 200 [(''offerId'', JStr offerId)])
         else
           seqI (pg_read E (count_active providerBytes)) (\<lambda>n.
           seqI (guardI (n \<ge> offerCapPerProvider (cfg E)) (err LIMIT_EXCEEDED)) (\<lambda>_.
           let effectiveExpiry = min (the (parseIso (field p ''expiresAt''))) (at_expires a) in
           seqI (logPayload E (hexToBuf offerId) ''offer/v1'' providerBytes p (hexToBuf (signature w))) (\<lambda>_.
           seqI (pg E (\<lambda>t. insert_offer (offer_of (hexToBuf offerId) providerBytes a p effectiveExpiry t))) (\<lambda>_.
           ret (json 201 [(''offerId'', JStr offerId)]))))))))))))))))"

subsection \<open>Lookup\<close>

definition findOffer :: "env \<Rightarrow> jstr \<Rightarrow> OfferRow option io" where
  "findOffer E idOrKey =
     (let i = toLowerCase idOrKey in
      if HASH_RE i then
        seqI (pg_read E (\<lambda>_. offer_select (\<lambda>x. of_id x = hexToBuf i))) (\<lambda>rows.
          ret (case rows of [] \<Rightarrow> None | r # _ \<Rightarrow> Some r))
      else if OFFER_KEY_RE i then
        seqI (pg_read E (\<lambda>_ d. take 2 (offer_select (\<lambda>x. take 10 (of_id x) = buffer_from_hex i) d))) (\<lambda>rows.
        seqI (guardI (length rows > 1) (err VALIDATION)) (\<lambda>_.
          ret (case rows of [] \<Rightarrow> None | r # _ \<Rightarrow> Some r)))
      else throw (err VALIDATION))"

datatype OfferStatus = Active | Busy | Stale | Expired | Revoked

definition offerStatus :: "offer_row \<Rightarrow> bool \<Rightarrow> bool \<Rightarrow> int \<Rightarrow> OfferStatus" where
  "offerStatus row hasLiveTerms busy nowMs =
     (if of_revoked row \<noteq> None then Revoked
      else if of_expires row \<le> nowMs then Expired
      else if \<not> hasLiveTerms then Stale
      else if busy then Busy else Active)"

fun status_name :: "OfferStatus \<Rightarrow> string" where
  "status_name Active = ''active''"
| "status_name Busy = ''busy''"
| "status_name Stale = ''stale''"
| "status_name Expired = ''expired''"
| "status_name Revoked = ''revoked''"

definition terms_json :: "TermsRec option \<Rightarrow> jsval" where
  "terms_json t = (case t of None \<Rightarrow> JNull | Some x \<Rightarrow> obj
     [(''envelope'', obj [(''payload'', tr_payload x), (''signature'', JStr (tr_signature x))]),
      (''meta'', obj [(''hash'', JNull), (''receivedAt'', JStr (tr_receivedAt x))])])"

definition offer_json :: "env \<Rightarrow> OfferRow \<Rightarrow> TermsRec option \<Rightarrow> OfferStatus \<Rightarrow> jsval io" where
  "offer_json E row terms st =
     (let r = or_offer row in
      seqI (liftI (envelopeOut (noble_fns E) (of_template r) (bufToHex (or_tplSig row)) (DateMs (of_created r)))) (\<lambda>tpl.
      seqI (liftI (envelopeOut (noble_fns E) (or_attPayload row) (bufToHex (or_attSig row)) (DateMs (or_attReceived row)))) (\<lambda>att.
      ret (obj [(''offerId'', JStr (bufToHex (of_id r))), (''template'', tpl), (''attestation'', att),
                (''terms'', terms_json terms), (''status'', JStr (js (status_name st)))]))))"

definition offerResponse :: "env \<Rightarrow> OfferRow \<Rightarrow> int \<Rightarrow> jsval io" where
  "offerResponse E row nowMs =
     (let offerId = bufToHex (of_id (or_offer row)) in
      seqI (getTerms E offerId) (\<lambda>terms.
      seqI (isBusy E offerId) (\<lambda>busy.
      offer_json E row terms
        (offerStatus (or_offer row) (terms \<noteq> None) (terms \<noteq> None \<and> busy) nowMs))))"

definition getOffer :: "env \<Rightarrow> jstr \<Rightarrow> response io" where
  "getOffer E param =
     seqI (findOffer E param) (\<lambda>row.
     case row of None \<Rightarrow> throw (err UNKNOWN_OFFER)
     | Some r \<Rightarrow>
         seqI (time_now E) (\<lambda>now.
         seqI (offerResponse E r now) (\<lambda>b. ret \<lparr>status = 200, body = b\<rparr>)))"

subsection \<open>Heartbeats\<close>

text \<open>\<open>seq\<close> must be an integer in \<open>[0, Number.MAX_SAFE_INTEGER]\<close>.\<close>

definition valid_seq :: "jsval \<Rightarrow> bool" where
  "valid_seq v = (case v of
     JNum x \<Rightarrow> is_integer x \<and> \<not> num_lt x (Fin 0) \<and> \<not> num_lt (Fin 9007199254740991) x | _ \<Rightarrow> False)"

definition valid_capacity :: "jsval \<Rightarrow> bool" where
  "valid_capacity v =
     (v = JUndef \<or>
      (isPlainObject v \<and> (case field v ''coresFree'' of
         JUndef \<Rightarrow> True | JNum x \<Rightarrow> is_integer x \<and> \<not> num_lt x (Fin 0) | _ \<Rightarrow> False)))"

text \<open>
  The guard of both heartbeats: a number not above the stored one is refused, another is
  stored; no stored number (after a loss of Redis) accepts any.
\<close>

definition checkSeq ::
    "(jstr \<Rightarrow> int option io) \<Rightarrow> (jstr \<Rightarrow> int \<Rightarrow> unit io) \<Rightarrow> jstr \<Rightarrow> int \<Rightarrow> unit io" where
  "checkSeq getter setter offerId n =
     seqI (getter offerId) (\<lambda>stored.
     seqI (guardI (case stored of None \<Rightarrow> False | Some m \<Rightarrow> n \<le> m) (err_field SEQ_REGRESSION ''seq'')) (\<lambda>_.
     setter offerId n))"

text \<open>The checks on the offer a heartbeat or a hint names, common to both.\<close>

definition check_target :: "VerifiedWrite \<Rightarrow> offer_row \<Rightarrow> int \<Rightarrow> unit io" where
  "check_target w r now =
     seqI (guardI (of_revoked r \<noteq> None) (err REVOKED)) (\<lambda>_.
     seqI (guardI (of_expires r \<le> now) (err EXPIRED)) (\<lambda>_.
     seqI (guardI (signer w \<noteq> bufToHex (of_provider r)) (err SIG_MISMATCH)) (\<lambda>_.
     guardI (field (payload w) ''offerId'' \<noteq> JStr (bufToHex (of_id r))) (err_field VALIDATION ''offerId''))))"

definition check_times :: "env \<Rightarrow> int \<Rightarrow> jsval \<Rightarrow> unit io" where
  "check_times E now p =
     seqI (guardI (parseIso (field p ''signedAt'') = None) (err_field VALIDATION ''signedAt'')) (\<lambda>_.
     seqI (guardI (parseIso (field p ''validUntil'') = None) (err_field VALIDATION ''validUntil'')) (\<lambda>_.
     guardI (the (parseIso (field p ''signedAt'')) > now + signedAtMaxFutureMs (cfg E))
       (err_field VALIDATION ''signedAt'')))"

definition terms_ttl :: "int \<Rightarrow> int \<Rightarrow> int \<Rightarrow> int" where
  "terms_ttl validUntil now I = min (validUntil - now) ((2 * I + 30) * 1000)"

definition postTerms :: "env \<Rightarrow> jstr \<Rightarrow> jsval option \<Rightarrow> response io" where
  "postTerms E param req =
     seqI (liftI (readEnvelope (noble_fns E) req ''terms/v1'')) (\<lambda>w.
     let p = payload w in
     seqI (time_now E) (\<lambda>now.
     seqI (findOffer E param) (\<lambda>found.
     case found of None \<Rightarrow> throw (err UNKNOWN_OFFER)
     | Some row \<Rightarrow>
       let r = or_offer row; offerId = bufToHex (of_id r); I = or_heartbeat row in
       seqI (limited E ''terms'' offerId (3, 1500 * I)) (\<lambda>_.
       seqI (check_target w r now) (\<lambda>_.
       seqI (guardI (field p ''unit'' \<noteq> JStr (js ''GLM'')) (err_field VALIDATION ''unit'')) (\<lambda>_.
       seqI (guardI (\<not> isValidPrice (field p ''minPricePerHour'')) (err_field VALIDATION ''minPricePerHour'')) (\<lambda>_.
       seqI (guardI (\<not> valid_seq (field p ''seq'')) (err_field VALIDATION ''seq'')) (\<lambda>_.
       seqI (check_times E now p) (\<lambda>_.
       let signedAt = the (parseIso (field p ''signedAt'')); validUntil = the (parseIso (field p ''validUntil'')) in
       seqI (guardI (validUntil - signedAt > termsMaxValidityMs (cfg E)) (err TERMS_TOO_LONG)) (\<lambda>_.
       seqI (guardI (validUntil \<le> now) (err_field VALIDATION ''validUntil'')) (\<lambda>_.
       seqI (guardI (\<not> valid_capacity (field p ''capacity'')) (err_field VALIDATION ''capacity'')) (\<lambda>_.
       seqI (checkSeq (getSeq E) (setSeq E) offerId (int_of (field p ''seq''))) (\<lambda>_.
       let ttlMs = terms_ttl validUntil now I; receivedAt = toIso now in
       seqI (setTerms E offerId
               \<lparr>tr_payload = p, tr_signature = signature w, tr_receivedAt = receivedAt\<rparr>
               ttlMs (jstr_of (field p ''minPricePerHour'')) (now + ttlMs)) (\<lambda>ok.
       seqI (guardI (\<not> ok) (err INTERNAL)) (\<lambda>_.
       seqI (touchProvider E (signer w) receivedAt) (\<lambda>_.
       ret (json 200 [(''ok'', JBool True), (''seq'', field p ''seq''),
                      (''expiresInMs'', jint ttlMs), (''reattest'', JNull)])))))))))))))))))"

subsection \<open>Revocation and availability\<close>

definition postRevoke :: "env \<Rightarrow> jstr \<Rightarrow> jsval option \<Rightarrow> response io" where
  "postRevoke E param req =
     seqI (liftI (readEnvelope (noble_fns E) req ''revoke/v1'')) (\<lambda>w.
     seqI (findOffer E param) (\<lambda>found.
     case found of None \<Rightarrow> throw (err UNKNOWN_OFFER)
     | Some row \<Rightarrow>
       let r = or_offer row; offerId = bufToHex (of_id r) in
       seqI (guardI (signer w \<noteq> bufToHex (of_provider r)) (err SIG_MISMATCH)) (\<lambda>_.
       seqI (guardI (field (payload w) ''offerId'' \<noteq> JStr offerId) (err_field VALIDATION ''offerId'')) (\<lambda>_.
       seqI (guardI (parseIso (field (payload w) ''signedAt'') = None) (err_field VALIDATION ''signedAt'')) (\<lambda>_.
       seqI (logPayload E (hexToBuf (hash w)) ''revoke/v1'' (of_provider r) (payload w) (hexToBuf (signature w))) (\<lambda>_.
       seqI (pg E (revoke_offer (of_id r))) (\<lambda>_.
       seqI (dropOffer E offerId) (\<lambda>_.
       ret (json 200 [(''ok'', JBool True), (''offerId'', JStr offerId), (''status'', JStr (js ''revoked''))])))))))))"

definition postAvailability :: "env \<Rightarrow> jstr \<Rightarrow> jsval option \<Rightarrow> response io" where
  "postAvailability E param req =
     seqI (liftI (readEnvelope (noble_fns E) req ''avail/v1'')) (\<lambda>w.
     let p = payload w in
     seqI (time_now E) (\<lambda>now.
     seqI (findOffer E param) (\<lambda>found.
     case found of None \<Rightarrow> throw (err UNKNOWN_OFFER)
     | Some row \<Rightarrow>
       let r = or_offer row; offerId = bufToHex (of_id r) in
       seqI (limited E ''avail'' offerId rl_availPerOffer) (\<lambda>_.
       seqI (check_target w r now) (\<lambda>_.
       seqI (guardI (case field p ''available'' of JBool _ \<Rightarrow> False | _ \<Rightarrow> True)
               (err_field VALIDATION ''available'')) (\<lambda>_.
       seqI (guardI (\<not> valid_seq (field p ''seq'')) (err_field VALIDATION ''seq'')) (\<lambda>_.
       seqI (check_times E now p) (\<lambda>_.
       let signedAt = the (parseIso (field p ''signedAt'')); validUntil = the (parseIso (field p ''validUntil'')) in
       seqI (guardI (validUntil - signedAt > availMaxValidityMs (cfg E)) (err_field VALIDATION ''validUntil'')) (\<lambda>_.
       seqI (checkSeq (getAvailSeq E) (setAvailSeq E) offerId (int_of (field p ''seq''))) (\<lambda>_.
       if field p ''available'' = JBool False then
         seqI (guardI (validUntil \<le> now) (err_field VALIDATION ''validUntil'')) (\<lambda>_.
         let ttlMs = min (validUntil - now) (availMaxValidityMs (cfg E)) in
         seqI (setBusy E offerId ttlMs) (\<lambda>ok.
         seqI (guardI (\<not> ok) (err INTERNAL)) (\<lambda>_.
         ret (json 200 [(''ok'', JBool True), (''seq'', field p ''seq''),
                        (''available'', JBool False), (''expiresInMs'', jint ttlMs)]))))
       else
         seqI (clearBusy E offerId) (\<lambda>_.
         ret (json 200 [(''ok'', JBool True), (''seq'', field p ''seq''),
                        (''available'', JBool True), (''expiresInMs'', jint 0)]))))))))))))"

subsection \<open>Sequence guards\<close>

text \<open>
  What \<open>checkSeq\<close> needs of its counter: while the store is up, reading gives what is
  stored, and writing replaces it for that offer alone.
\<close>

locale seq_store =
  fixes getter :: "jstr \<Rightarrow> int option io"
    and setter :: "jstr \<Rightarrow> int \<Rightarrow> unit io"
    and stored :: "world \<Rightarrow> jstr \<Rightarrow> int option"
    and up :: "world \<Rightarrow> bool"
  assumes get: "up w \<Longrightarrow> \<exists>w'. getter i w = (Inr (stored w i), w') \<and> up w' \<and> stored w' = stored w"
    and set: "up w \<Longrightarrow> \<exists>w'. setter i n w = (Inr (), w') \<and> up w' \<and> stored w' = (stored w)(i \<mapsto> n)"
begin

lemma decides:
  assumes "up w"
  shows "\<exists>w'. up w' \<and>
    (if \<exists>m. stored w i = Some m \<and> n \<le> m
     then checkSeq getter setter i n w = (Inl (err_field SEQ_REGRESSION ''seq''), w') \<and> stored w' = stored w
     else checkSeq getter setter i n w = (Inr (), w') \<and> stored w' = (stored w)(i \<mapsto> n))"
proof -
  obtain w1 where 1: "getter i w = (Inr (stored w i), w1)" "up w1" "stored w1 = stored w"
    using get [OF assms] by blast
  obtain w2 where 2: "setter i n w1 = (Inr (), w2)" "up w2" "stored w2 = (stored w1)(i \<mapsto> n)"
    using set [OF 1(2)] by blast
  show ?thesis
  proof (cases "\<exists>m. stored w i = Some m \<and> n \<le> m")
    case True
    then have "checkSeq getter setter i n w = (Inl (err_field SEQ_REGRESSION ''seq''), w1)"
      by (auto simp: checkSeq_def seqI_def 1(1) guardI_def throw_def)
    with True 1 show ?thesis by auto
  next
    case False
    then have "checkSeq getter setter i n w = (Inr (), w2)"
      by (auto simp: checkSeq_def seqI_def 1(1) 2(1) guardI_def ret_def split: option.split)
    with False 1 2 show ?thesis by auto
  qed
qed

end

definition seq_of :: "(jstr \<Rightarrow> rkey) \<Rightarrow> world \<Rightarrow> jstr \<Rightarrow> int option" where
  "seq_of key w i = (case kv_str (kvs w) (key i) of Some (VNum n, None) \<Rightarrow> Some n | _ \<Rightarrow> None)"

text \<open>Counters never expire; the store holds nothing else under their keys.\<close>

definition counters_ok :: "(jstr \<Rightarrow> rkey) \<Rightarrow> world \<Rightarrow> bool" where
  "counters_ok key w = (\<forall>i v e. kv_str (kvs w) (key i) = Some (v, e) \<longrightarrow> e = None \<and> (\<exists>n. v = VNum n))"

lemma seq_of_alive:
  assumes "counters_ok key w"
  shows "as_num (case alive t (kvs w) (key i) of None \<Rightarrow> RNil | Some v \<Rightarrow> RVal v) = seq_of key w i"
  using assms [unfolded counters_ok_def, rule_format, of i]
  by (cases "kv_str (kvs w) (key i)") (auto simp: alive_def as_num_def seq_of_def)

lemma seq_store_redis:
  assumes R: "redis_up E" and inj: "\<And>i j. key i = key j \<Longrightarrow> i = j"
    and g: "\<And>i. getter i = seqI (send E (GET (key i))) (\<lambda>r. ret (as_num r))"
    and s: "\<And>i n. setter i n = seqI (send E (SET (key i) (VNum n) None)) (\<lambda>_. ret ())"
  shows "seq_store getter setter (seq_of key) (\<lambda>w. client w \<and> counters_ok key w)"
proof
  show "\<exists>w'. getter i w = (Inr (seq_of key w i), w') \<and> (client w' \<and> counters_ok key w') \<and> seq_of key w' = seq_of key w"
    if "client w \<and> counters_ok key w" for w i
    using that seq_of_alive [of key w "now_at E (tick w)" i]
    by (auto simp: g seqI_def send_up [OF R] ret_def counters_ok_def seq_of_def)
  show "\<exists>w'. setter i n w = (Inr (), w') \<and> (client w' \<and> counters_ok key w') \<and> seq_of key w' = (seq_of key w)(i \<mapsto> n)"
    if "client w \<and> counters_ok key w" for w i n
    using that inj by (auto simp: s seqI_def send_up [OF R] ret_def counters_ok_def seq_of_def fun_eq_iff)
qed

lemma getSeq_io: "getSeq E i = seqI (send E (GET (KSeq i))) (\<lambda>r. ret (as_num r))"
  unfolding getSeq_def by (rule refl)

lemma setSeq_io: "setSeq E i n = seqI (send E (SET (KSeq i) (VNum n) None)) (\<lambda>_. ret ())"
  unfolding setSeq_def by (rule refl)

lemma getAvailSeq_io: "getAvailSeq E i = seqI (send E (GET (KAvailSeq i))) (\<lambda>r. ret (as_num r))"
  unfolding getAvailSeq_def by (rule refl)

lemma setAvailSeq_io: "setAvailSeq E i n = seqI (send E (SET (KAvailSeq i) (VNum n) None)) (\<lambda>_. ret ())"
  unfolding setAvailSeq_def by (rule refl)

lemma seq_store_when: "(P \<Longrightarrow> seq_store g s st up) \<Longrightarrow> seq_store g s st (\<lambda>w. P \<and> up w)"
  by (cases P) (simp_all add: seq_store_def)

lemma terms_store: "seq_store (getSeq E) (setSeq E) (seq_of KSeq)
    (\<lambda>w. redis_up E \<and> client w \<and> counters_ok KSeq w)"
proof (rule seq_store_when [where up = "\<lambda>w. client w \<and> counters_ok KSeq w"])
  show "seq_store (getSeq E) (setSeq E) (seq_of KSeq) (\<lambda>w. client w \<and> counters_ok KSeq w)" if "redis_up E"
    by (rule seq_store_redis [where key = KSeq, OF that _ getSeq_io setSeq_io]) (rule rkey.inject(2) [THEN iffD1])
qed

lemma avail_store: "seq_store (getAvailSeq E) (setAvailSeq E) (seq_of KAvailSeq)
    (\<lambda>w. redis_up E \<and> client w \<and> counters_ok KAvailSeq w)"
proof (rule seq_store_when [where up = "\<lambda>w. client w \<and> counters_ok KAvailSeq w"])
  show "seq_store (getAvailSeq E) (setAvailSeq E) (seq_of KAvailSeq) (\<lambda>w. client w \<and> counters_ok KAvailSeq w)"
    if "redis_up E"
    by (rule seq_store_redis [where key = KAvailSeq, OF that _ getAvailSeq_io setAvailSeq_io])
       (rule rkey.inject(4) [THEN iffD1])
qed

interpretation terms_seq: seq_store "getSeq E" "setSeq E" "seq_of KSeq"
    "\<lambda>w. redis_up E \<and> client w \<and> counters_ok KSeq w" for E
  by (rule terms_store)

interpretation avail_seq: seq_store "getAvailSeq E" "setAvailSeq E" "seq_of KAvailSeq"
    "\<lambda>w. redis_up E \<and> client w \<and> counters_ok KAvailSeq w" for E
  by (rule avail_store)

text \<open>Heartbeats for one offer, one after the other; the numbers that were accepted.\<close>

primrec heartbeats ::
    "(jstr \<Rightarrow> int option io) \<Rightarrow> (jstr \<Rightarrow> int \<Rightarrow> unit io) \<Rightarrow> jstr \<Rightarrow> int list \<Rightarrow> world \<Rightarrow> int list" where
  "heartbeats g s i [] w = []"
| "heartbeats g s i (n # ns) w =
     (case checkSeq g s i n w of
        (Inr _, w') \<Rightarrow> n # heartbeats g s i ns w'
      | (Inl _, w') \<Rightarrow> heartbeats g s i ns w')"

text \<open>The left-to-right strict maxima of a list, above a given number.\<close>

primrec maxima :: "int option \<Rightarrow> int list \<Rightarrow> int list" where
  "maxima m [] = []"
| "maxima m (n # ns) = (if \<exists>x. m = Some x \<and> n \<le> x then maxima m ns else n # maxima (Some n) ns)"

lemma maxima_above: "y \<in> set (maxima (Some x) ns) \<Longrightarrow> x < y"
proof (induction ns arbitrary: x)
  case (Cons a ns)
  show ?case
  proof (cases "a \<le> x")
    case True
    then show ?thesis using Cons by simp
  next
    case False
    then have "y = a \<or> y \<in> set (maxima (Some a) ns)" using Cons.prems by simp
    then show ?thesis using Cons.IH [of a] False by (elim disjE) simp_all
  qed
qed simp

lemma maxima_increase: "sorted_wrt (<) (maxima m ns)"
  by (induction ns arbitrary: m) (auto dest: maxima_above)

context seq_store
begin

lemma heartbeats_maxima: "up w \<Longrightarrow> heartbeats getter setter i ns w = maxima (stored w i) ns"
proof (induction ns arbitrary: w)
  case (Cons n ns)
  obtain w' where "up w'" and
    "if \<exists>m. stored w i = Some m \<and> n \<le> m
     then checkSeq getter setter i n w = (Inl (err_field SEQ_REGRESSION ''seq''), w') \<and> stored w' = stored w
     else checkSeq getter setter i n w = (Inr (), w') \<and> stored w' = (stored w)(i \<mapsto> n)"
    using decides [OF Cons.prems] by blast
  then show ?case using Cons.IH [of w'] by (auto split: if_splits)
qed simp

end



subsection \<open>What an accepted request has passed\<close>

lemma check_template_Inr [guard_simps]:
  "check_template E now p w = (Inr u, w') \<longleftrightarrow> w' = w
     \<and> (\<exists>s e. parseIso (field p ''signedAt'') = Some s \<and> s \<le> now + signedAtMaxFutureMs (cfg E)
          \<and> parseIso (field p ''expiresAt'') = Some e \<and> now < e \<and> e \<le> now + templateMaxAheadMs (cfg E))
     \<and> isPlainObject (field p ''compute'') \<and> field (field p ''compute'') ''model'' = JStr (js ''cpu/v1'')
     \<and> isHash (field (field p ''compute'') ''attestationId'')
     \<and> (case field p ''constraintsHint'' of JUndef \<Rightarrow> True | JStr s \<Rightarrow> length s \<le> 1024 | _ \<Rightarrow> False)"
  by (auto simp: check_template_def guard_simps not_less split: jsval.split)

lemma check_target_Inr [guard_simps]:
  "check_target vw r now w = (Inr u, w') \<longleftrightarrow> w' = w \<and> of_revoked r = None \<and> now < of_expires r
     \<and> signer vw = bufToHex (of_provider r) \<and> field (payload vw) ''offerId'' = JStr (bufToHex (of_id r))"
  by (auto simp: check_target_def guard_simps not_le)

lemma check_times_Inr [guard_simps]:
  "check_times E now p w = (Inr u, w') \<longleftrightarrow> w' = w
     \<and> (\<exists>s v. parseIso (field p ''signedAt'') = Some s \<and> parseIso (field p ''validUntil'') = Some v
          \<and> s \<le> now + signedAtMaxFutureMs (cfg E))"
  by (auto simp: check_times_def guard_simps not_less)

lemma findOffer_Some:
  "findOffer E param w = (Inr (Some row), w') \<Longrightarrow>
     or_offer row \<in> set (offers (tables w)) \<and> w' = w\<lparr>tick := tick w + 1\<rparr>"
proof -
  have in_select: "row \<in> set rows \<Longrightarrow> rows = take n (offer_select c d) \<or> rows = offer_select c d \<Longrightarrow>
      or_offer row \<in> set (offers d)" for rows n c d
    using offer_select_sound [of row c d] by (auto dest: in_set_takeD)
  assume "findOffer E param w = (Inr (Some row), w')"
  then show ?thesis
    by (auto simp: findOffer_def Let_def guard_simps in_select split: if_splits list.splits)
       (metis in_select list.set_intros(1))+
qed

lemma postTerms_Inr:
  assumes "postTerms E param req w = (Inr resp, w')"
  obtains vw row w1 w2 w3 w4 sa vu n ttl where
    "readEnvelope (noble_fns E) req ''terms/v1'' = Inr vw"
    "findOffer E param (w\<lparr>tick := tick w + 1\<rparr>) = (Inr (Some row), w1)"
    "limited E ''terms'' (bufToHex (of_id (or_offer row))) (3, 1500 * or_heartbeat row) w1 = (Inr (), w2)"
    "of_revoked (or_offer row) = None" "now_at E (tick w) < of_expires (or_offer row)"
    "signer vw = bufToHex (of_provider (or_offer row))"
    "field (payload vw) ''offerId'' = JStr (bufToHex (of_id (or_offer row)))"
    "isValidPrice (field (payload vw) ''minPricePerHour'')"
    "valid_seq (field (payload vw) ''seq'')" "n = int_of (field (payload vw) ''seq'')"
    "parseIso (field (payload vw) ''signedAt'') = Some sa" "sa \<le> now_at E (tick w) + signedAtMaxFutureMs (cfg E)"
    "parseIso (field (payload vw) ''validUntil'') = Some vu" "vu - sa \<le> termsMaxValidityMs (cfg E)"
    "now_at E (tick w) < vu"
    "checkSeq (getSeq E) (setSeq E) (bufToHex (of_id (or_offer row))) n w2 = (Inr (), w3)"
    "ttl = terms_ttl vu (now_at E (tick w)) (or_heartbeat row)"
    "setTerms E (bufToHex (of_id (or_offer row)))
        \<lparr>tr_payload = payload vw, tr_signature = signature vw, tr_receivedAt = toIso (now_at E (tick w))\<rparr>
        ttl (jstr_of (field (payload vw) ''minPricePerHour'')) (now_at E (tick w) + ttl) w3 = (Inr True, w4)"
    "touchProvider E (signer vw) (toIso (now_at E (tick w))) w4 = (Inr (), w')"
    "resp = json 200 [(''ok'', JBool True), (''seq'', field (payload vw) ''seq''),
                      (''expiresInMs'', jint ttl), (''reattest'', JNull)]"
  using assms
  by (auto simp: postTerms_def Let_def guard_simps not_less not_le split: option.splits)

subsection \<open>Rate limiting leaves everything but its counters alone\<close>

definition calm :: "world \<Rightarrow> world \<Rightarrow> bool" where
  "calm w w' = (client w \<longrightarrow> client w' \<and> kv_live (kvs w') = kv_live (kvs w) \<and> kv_prices (kvs w') = kv_prices (kvs w) \<and>
     (\<forall>k. (\<forall>a b c. k \<noteq> KRl a b c) \<longrightarrow> kv_str (kvs w') k = kv_str (kvs w) k))"

interpretation calm: world_order calm
  by unfold_locales (simp_all add: calm_def)

lemma calm_send:
  assumes "redis_up E"
  shows "keeps calm (send E (INCR (KRl a b c)))" and "keeps calm (send E (PEXPIRE (KRl a b c) ms))"
  by (auto simp: keeps_def calm_def send_up [OF assms] split: option.split)

lemma calm_limited:
  assumes "redis_up E"
  shows "keeps calm (limited E scope key b)"
  unfolding limited_def rateLimit_def Let_def
  by (auto split: rreply.split intro!: calm.keeps_rules calm_send [OF assms])

lemma calm_seq: "calm w w' \<Longrightarrow> client w \<Longrightarrow>
   client w' \<and> seq_of KSeq w' = seq_of KSeq w \<and> seq_of KAvailSeq w' = seq_of KAvailSeq w
   \<and> (counters_ok KSeq w \<longrightarrow> counters_ok KSeq w') \<and> (counters_ok KAvailSeq w \<longrightarrow> counters_ok KAvailSeq w')"
  by (simp add: calm_def seq_of_def [abs_def] counters_ok_def)

lemma frame_findOffer: "keeps same_tables (findOffer E param)"
  unfolding findOffer_def Let_def by (intro frame.keeps_rules)

lemma frame_checkSeq:
  "(\<And>i. keeps same_tables (g i)) \<Longrightarrow> (\<And>i n. keeps same_tables (s i n)) \<Longrightarrow> keeps same_tables (checkSeq g s i n)"
  unfolding checkSeq_def by (intro frame.keeps_rules)

lemma frame_checks [frame_simps]:
  "keeps same_tables (check_target vw r now)" "keeps same_tables (check_times E now p)"
  "keeps same_tables (check_template E now p)"
  unfolding check_target_def check_times_def check_template_def by (intro frame.keeps_rules)+

lemma frame_postTerms: "keeps same_tables (postTerms E param req)"
  unfolding postTerms_def Let_def
  by (intro frame.keeps_rules frame_simps frame_findOffer)
     (auto split: option.split intro!: frame.keeps_rules frame_simps frame_checkSeq)

lemma frame_postAvailability: "keeps same_tables (postAvailability E param req)"
  unfolding postAvailability_def Let_def
  by (intro frame.keeps_rules frame_simps frame_findOffer)
     (auto split: option.split intro!: frame.keeps_rules frame_simps frame_checkSeq)

lemma setTerms_up:
  assumes "redis_up E" and "client w" and "setTerms E i v px price sc w = (Inr ok, w')"
  shows "client w' \<and> kv_str (kvs w') = (kv_str (kvs w))(KTerms i \<mapsto> (VTerms v, Some (now_at E (tick w) + max 1 px)))
    \<and> (i, sc) \<in> set (kv_live (kvs w')) \<and> map_of (kv_prices (kvs w')) i = Some price"
  using assms(2,3)
  by (auto simp: setTerms_def seqI_def send_up [OF assms(1)] ret_def zset_add_def update_conv')

text \<open>
  C11: an accepted terms heartbeat was signed by the provider of an offer that is neither
  revoked nor expired, carries a valid price, lasts at most an hour and has a number above
  the stored one; that number is stored, the terms are cached for
  \<open>min (validUntil - now) (2 I + 30 s)\<close>, at least a millisecond, and the live set names
  the offer with that expiry.
\<close>

theorem accepted_terms:
  assumes "redis_up E" and "client w" and "counters_ok KSeq w"
    and "postTerms E param req w = (Inr resp, w')"
  shows "\<exists>vw (row :: OfferRow) sa vu k. readEnvelope (noble_fns E) req ''terms/v1'' = Inr vw
     \<and> or_offer row \<in> set (offers (tables w)) \<and> tables w' = tables w
     \<and> (let r = or_offer row; oid = bufToHex (of_id r); p = payload vw; now = now_at E (tick w);
            n = int_of (field p ''seq''); ttl = min (vu - now) ((2 * or_heartbeat row + 30) * 1000)
        in signer vw = bufToHex (of_provider r) \<and> field p ''offerId'' = JStr oid
         \<and> of_revoked r = None \<and> now < of_expires r \<and> isValidPrice (field p ''minPricePerHour'')
         \<and> parseIso (field p ''signedAt'') = Some sa \<and> parseIso (field p ''validUntil'') = Some vu
         \<and> vu - sa \<le> termsMaxValidityMs (cfg E) \<and> now < vu
         \<and> (\<forall>m. seq_of KSeq w oid = Some m \<longrightarrow> m < n) \<and> seq_of KSeq w' oid = Some n
         \<and> kv_str (kvs w') (KTerms oid) =
             Some (VTerms \<lparr>tr_payload = p, tr_signature = signature vw, tr_receivedAt = toIso now\<rparr>,
                   Some (now_at E k + max 1 ttl))
         \<and> (oid, now + ttl) \<in> set (kv_live (kvs w')))"
  using assms(4)
proof (rule postTerms_Inr)
  fix vw :: VerifiedWrite and row :: OfferRow and w1 w2 w3 w4 :: world and sa vu n ttl
  let ?oid = "bufToHex (of_id (or_offer row))"
  let ?now = "now_at E (tick w)"
  assume env: "readEnvelope (noble_fns E) req ''terms/v1'' = Inr vw"
    and f: "findOffer E param (w\<lparr>tick := tick w + 1\<rparr>) = (Inr (Some row), w1)"
    and l: "limited E ''terms'' ?oid (3, 1500 * or_heartbeat row) w1 = (Inr (), w2)"
    and c: "checkSeq (getSeq E) (setSeq E) ?oid n w2 = (Inr (), w3)"
    and ttl: "ttl = terms_ttl vu ?now (or_heartbeat row)"
    and st: "setTerms E ?oid
        \<lparr>tr_payload = payload vw, tr_signature = signature vw, tr_receivedAt = toIso ?now\<rparr>
        ttl (jstr_of (field (payload vw) ''minPricePerHour'')) (?now + ttl) w3 = (Inr True, w4)"
    and t: "touchProvider E (signer vw) (toIso ?now) w4 = (Inr (), w')"
    and n: "n = int_of (field (payload vw) ''seq'')"
    and rest: "of_revoked (or_offer row) = None" "?now < of_expires (or_offer row)"
      "signer vw = bufToHex (of_provider (or_offer row))" "field (payload vw) ''offerId'' = JStr ?oid"
      "isValidPrice (field (payload vw) ''minPricePerHour'')"
      "parseIso (field (payload vw) ''signedAt'') = Some sa"
      "parseIso (field (payload vw) ''validUntil'') = Some vu" "vu - sa \<le> termsMaxValidityMs (cfg E)" "?now < vu"
  have w1: "or_offer row \<in> set (offers (tables w))" "client w1" "seq_of KSeq w1 = seq_of KSeq w" "counters_ok KSeq w1"
    using findOffer_Some [OF f] assms(2,3) by (auto simp: seq_of_def [abs_def] counters_ok_def)
  have "calm w1 w2" using calm_limited [OF assms(1)] l by (metis keeps_def snd_conv)
  from calm_seq [OF this w1(2)] w1 have w2: "client w2" "seq_of KSeq w2 = seq_of KSeq w" "counters_ok KSeq w2"
    by simp_all
  from terms_seq.decides [of E w2 ?oid n] assms(1) w2 c
  have w3: "client w3" "seq_of KSeq w3 ?oid = Some n" "\<forall>m. seq_of KSeq w ?oid = Some m \<longrightarrow> m < n"
    by (auto split: if_splits simp: not_le)
  note w4 = setTerms_up [OF assms(1) w3(1) st]
  have w': "kv_str (kvs w') = (kv_str (kvs w4))(KSeen (signer vw) \<mapsto> (VIso (toIso ?now),
        Some (now_at E (tick w4) + 7 * 86400000)))" "kv_live (kvs w') = kv_live (kvs w4)"
    using t w4 by (auto simp: touchProvider_def seqI_def send_up [OF assms(1)] ret_def)
  have q: "seq_of KSeq w' ?oid = Some n" using w3(2) w4 w' by (simp add: seq_of_def)
  have tw: "tables w' = tables w"
    using frame_postTerms assms(4) by (metis keeps_def same_tables_def snd_conv)
  show ?thesis
    unfolding Let_def
    by (rule exI [of _ vw], rule exI [of _ row], rule exI [of _ sa], rule exI [of _ vu], rule exI [of _ "tick w3"])
       (use env w1(1) tw rest w3(3) q w4 w' ttl n in \<open>simp add: terms_ttl_def\<close>)
qed

definition demo_heartbeat :: "int \<Rightarrow> jsval" where
  "demo_heartbeat n = obj
     [(''type'', JStr (js ''terms/v1'')), (''providerId'', JStr demo_address),
      (''offerId'', JStr (bufToHex demo_oid)), (''unit'', JStr (js ''GLM'')),
      (''minPricePerHour'', JStr (js ''1.5'')), (''seq'', num_of_int n),
      (''signedAt'', JStr (toIso 1800000000000)), (''validUntil'', JStr (toIso 1800000600000))]"

lemma demo_heartbeat_ok: "wf_js (demo_heartbeat n)" "plain_json (demo_heartbeat n)" "isPlainObject (demo_heartbeat n)"
  by (simp_all add: demo_heartbeat_def obj_def isPlainObject_def num_of_int_def is_finite_num_def)


lemma demo_find:
  "tables w = demo_db \<Longrightarrow> findOffer demo_env (bufToHex demo_oid) w =
     (Inr (Some \<lparr>or_offer = demo_offer, or_tplSig = [3], or_attPayload = obj [], or_attSig = [2],
        or_attReceived = 2, or_heartbeat = 60\<rparr>), w\<lparr>tick := tick w + 1\<rparr>)"
  by (simp add: findOffer_def seqI_def pg_read_def pg_def demo_select ret_def)

lemma demo_fields:
  "field (demo_heartbeat n) ''unit'' = JStr (js ''GLM'')" "field (demo_heartbeat n) ''minPricePerHour'' = JStr (js ''1.5'')"
  "field (demo_heartbeat n) ''seq'' = num_of_int n" "field (demo_heartbeat n) ''signedAt'' = JStr (toIso 1800000000000)"
  "field (demo_heartbeat n) ''validUntil'' = JStr (toIso 1800000600000)" "field (demo_heartbeat n) ''capacity'' = JUndef"
  "field (demo_heartbeat n) ''offerId'' = JStr (bufToHex demo_oid)" "field (demo_heartbeat n) ''type'' = JStr (js ''terms/v1'')"
  "field (demo_heartbeat n) ''providerId'' = JStr demo_address"
  by (simp_all add: demo_heartbeat_def obj_def)

lemma demo_checks:
  "isValidPrice (JStr (js ''1.5''))" "valid_seq (num_of_int 7)" "valid_capacity JUndef" "int_of (num_of_int 7) = 7"
  by code_simp+

lemma demo_terms_run:
  assumes "readEnvelope toy (Some req) ''terms/v1'' =
      Inr \<lparr>payload = demo_heartbeat 7, signature = sig, hash = h, signer = demo_address\<rparr>"
  shows "\<exists>resp w'. postTerms demo_env (bufToHex demo_oid) (Some req) demo_world = (Inr resp, w')"
  using assms
  apply (simp add: postTerms_def Let_def seqI_def liftI_def ret_def time_now_def demo_find guardI_def demo_fields demo_checks
    parseIso_toIso limited_def rateLimit_def send_up [OF demo_up] check_target_def check_times_def demo_provider
    checkSeq_def getSeq_def setSeq_def setTerms_def touchProvider_def alive_def empty_kv_def counter_def as_num_def)
  done

theorem accepted_terms_witness:
  "\<exists>req resp w'. postTerms demo_env (bufToHex demo_oid) (Some req) demo_world = (Inr resp, w')
     \<and> seq_of KSeq w' (bufToHex demo_oid) = Some 7"
proof -
  obtain req sig h where r: "readEnvelope toy (Some req) ''terms/v1'' =
      Inr \<lparr>payload = demo_heartbeat 7, signature = sig, hash = h, signer = demo_address\<rparr>"
    by (rule demo_signed [OF demo_heartbeat_ok [of 7], of "''terms/v1''"]) (simp_all add: demo_fields)
  obtain resp w' where p: "postTerms demo_env (bufToHex demo_oid) (Some req) demo_world = (Inr resp, w')"
    using demo_terms_run [OF r] by blast
  have c: "counters_ok KSeq demo_world" by (simp add: counters_ok_def empty_kv_def)
  have "seq_of KSeq w' (bufToHex demo_oid) = Some 7"
    using accepted_terms [OF demo_up demo_world_simps(3) c p] r
    by (auto simp: Let_def demo_fields demo_checks)
  with p show ?thesis by blast
qed

subsection \<open>Revocation\<close>

lemma postRevoke_Inr:
  assumes "postRevoke E param req w = (Inr resp, w')"
  obtains vw row w1 w2 w3 t where
    "readEnvelope (noble_fns E) req ''revoke/v1'' = Inr vw"
    "findOffer E param w = (Inr (Some row), w1)"
    "signer vw = bufToHex (of_provider (or_offer row))"
    "field (payload vw) ''offerId'' = JStr (bufToHex (of_id (or_offer row)))"
    "logPayload E (hexToBuf (hash vw)) ''revoke/v1'' (of_provider (or_offer row)) (payload vw)
       (hexToBuf (signature vw)) w1 = (Inr (), w2)"
    "w3 = w2\<lparr>tick := tick w2 + 1, tables := snd (the (revoke_offer (of_id (or_offer row)) t (tables w2)))\<rparr>"
    "dropOffer E (bufToHex (of_id (or_offer row))) w3 = (Inr (), w')"
  using assms
  by (auto simp: postRevoke_def Let_def guard_simps revoke_offer_def split: option.splits)

lemma dropOffer_up:
  assumes "redis_up E" and "client w" and "dropOffer E i w = (Inr u, w')"
  shows "tables w' = tables w \<and> client w' \<and> kv_str (kvs w') (KTerms i) = None \<and> kv_str (kvs w') (KBusy i) = None
    \<and> i \<notin> fst ` set (kv_live (kvs w'))"
  using assms(2,3) by (auto simp: dropOffer_def seqI_def send_up [OF assms(1)] ret_def)

lemma logPayload_Inr: "logPayload E h ty prov p sig w = (Inr u, w') \<Longrightarrow>
   offers (tables w') = offers (tables w) \<and> providers (tables w') = providers (tables w)
   \<and> attestations (tables w') = attestations (tables w) \<and> client w' = client w \<and> kvs w' = kvs w
   \<and> find_log h (tables w') \<noteq> None"
proof -
  let ?row = "\<lparr>l_hash = h, l_type = ty, l_provider = prov, l_payload = p, l_signature = sig, l_received = now_at E (tick w)\<rparr>"
  assume "logPayload E h ty prov p sig w = (Inr u, w')"
  then have w': "w' = w\<lparr>tick := tick w + 1, tables := insert_log ?row (tables w)\<rparr>"
    by (auto simp: logPayload_def guard_simps)
  show ?thesis
    using plog.present [of ?row "tables w"] by (simp add: w') (simp add: insert_log_def)
qed

lemma bufToHex_inject [simp]: "bufToHex a = bufToHex b \<longleftrightarrow> a = b"
  by (metis hexToBuf_bufToHex)

lemma offer_step_revoked: "offer_step r x \<Longrightarrow> of_revoked r \<noteq> None \<Longrightarrow> x = r"
  by (auto simp: offer_step_def)

text \<open>Every offer handler keeps the tables consistent and lets them evolve.\<close>

lemmas redis_ok = keeps_redis_ops [THEN same_tables_ok] keeps_limited [THEN same_tables_ok]
  keeps_rateLimit [THEN same_tables_ok] frame_checks [THEN same_tables_ok] frame_findOffer [THEN same_tables_ok]

lemmas redis_evolves = keeps_redis_ops [THEN same_tables_evolves] keeps_limited [THEN same_tables_evolves]
  keeps_rateLimit [THEN same_tables_evolves] frame_checks [THEN same_tables_evolves]
  frame_findOffer [THEN same_tables_evolves]

lemma postRevoke_ok: "keeps stays_ok (postRevoke E param req)"
  unfolding postRevoke_def Let_def
  by (intro inv.keeps_rules redis_ok) (auto split: option.split intro!: inv.keeps_rules redis_ok writes_ok)

lemma postRevoke_evolves: "keeps evolves (postRevoke E param req)"
  unfolding postRevoke_def Let_def
  by (intro evo.keeps_rules redis_evolves)
     (auto split: option.split intro!: evo.keeps_rules redis_evolves writes_evolve)

lemma postOffer_ok: "keeps stays_ok (postOffer E req)"
  unfolding postOffer_def Let_def
  by (intro inv.keeps_rules redis_ok) (auto split: option.split intro!: inv.keeps_rules redis_ok writes_ok)

lemma postOffer_evolves: "keeps evolves (postOffer E req)"
  unfolding postOffer_def Let_def
  by (intro evo.keeps_rules redis_evolves)
     (auto split: option.split intro!: evo.keeps_rules redis_evolves writes_evolve)

text \<open>Terms are never accepted for an offer whose row is revoked.\<close>

lemma terms_not_revoked:
  assumes "db_ok (tables v)" and r: "r \<in> set (offers (tables v))" "of_revoked r \<noteq> None"
    and p: "postTerms E param req v = (Inr resp, v')" "readEnvelope (noble_fns E) req ''terms/v1'' = Inr vw"
  shows "field (payload vw) ''offerId'' \<noteq> JStr (bufToHex (of_id r))"
  using p(1)
proof (rule postTerms_Inr)
  fix vw2 :: VerifiedWrite and row :: OfferRow and v1 :: world
  assume a: "readEnvelope (noble_fns E) req ''terms/v1'' = Inr vw2"
    "findOffer E param (v\<lparr>tick := tick v + 1\<rparr>) = (Inr (Some row), v1)" "of_revoked (or_offer row) = None"
    "field (payload vw2) ''offerId'' = JStr (bufToHex (of_id (or_offer row)))"
  have "or_offer row \<in> set (offers (tables v))" using findOffer_Some [OF a(2)] by simp
  moreover have "inj_on of_id (set (offers (tables v)))" using assms(1) by (simp add: db_ok_def distinct_map)
  ultimately have "of_id (or_offer row) \<noteq> of_id r" using a(3) r by (metis inj_onD)
  then show ?thesis using a(1,4) p(2) by simp
qed

text \<open>
  C12: after a provider has revoked its offer, the offer's terms and flags are gone, and in
  every later state of the database, whatever happened in between, its status is
  \<open>revoked\<close> and no terms heartbeat for it is accepted.
\<close>

theorem revocation_final:
  assumes "redis_up E" and "client w" and "postRevoke E param req w = (Inr resp, w')"
    and "evolves w' v" and "db_ok (tables v)"
  shows "\<exists>r \<in> set (offers (tables w)). (\<exists>vw. readEnvelope (noble_fns E) req ''revoke/v1'' = Inr vw
        \<and> signer vw = bufToHex (of_provider r) \<and> field (payload vw) ''offerId'' = JStr (bufToHex (of_id r)))
     \<and> (\<forall>t. alive t (kvs w') (KTerms (bufToHex (of_id r))) = None)
     \<and> bufToHex (of_id r) \<notin> fst ` set (kv_live (kvs w'))
     \<and> (\<forall>x \<in> set (offers (tables v)). of_id x = of_id r \<longrightarrow> (\<forall>l b t. offerStatus x l b t = Revoked))
     \<and> (\<forall>param req vw resp v'. postTerms E param req v = (Inr resp, v') \<longrightarrow>
          readEnvelope (noble_fns E) req ''terms/v1'' = Inr vw \<longrightarrow>
          field (payload vw) ''offerId'' \<noteq> JStr (bufToHex (of_id r)))"
  using assms(3)
proof (rule postRevoke_Inr)
  fix vw :: VerifiedWrite and row :: OfferRow and w1 w2 w3 :: world and t :: int
  let ?r = "or_offer row"
  assume e: "readEnvelope (noble_fns E) req ''revoke/v1'' = Inr vw"
      "signer vw = bufToHex (of_provider ?r)" "field (payload vw) ''offerId'' = JStr (bufToHex (of_id ?r))"
    and f: "findOffer E param w = (Inr (Some row), w1)"
    and l: "logPayload E (hexToBuf (hash vw)) ''revoke/v1'' (of_provider ?r) (payload vw)
       (hexToBuf (signature vw)) w1 = (Inr (), w2)"
    and w3: "w3 = w2\<lparr>tick := tick w2 + 1, tables := snd (the (revoke_offer (of_id ?r) t (tables w2)))\<rparr>"
    and d: "dropOffer E (bufToHex (of_id ?r)) w3 = (Inr (), w')"
  have r: "?r \<in> set (offers (tables w))" "w1 = w\<lparr>tick := tick w + 1\<rparr>" using findOffer_Some [OF f] by auto
  have w2: "offers (tables w2) = offers (tables w)" "client w2" using logPayload_Inr [OF l] r assms(2) by auto
  define g where "g x = (if of_id x = of_id ?r \<and> of_revoked x = None then x\<lparr>of_revoked := Some t\<rparr> else x)" for x :: offer_row
  have g: "offers (tables w3) = map g (offers (tables w))"
    by (simp add: w3 revoke_offer_def w2 g_def [abs_def])
  have c3: "client w3" using w2 by (simp add: w3)
  note d' = dropOffer_up [OF assms(1) c3 d]
  have "g ?r \<in> set (offers (tables w'))" "of_id (g ?r) = of_id ?r" "of_revoked (g ?r) \<noteq> None"
    using d' g r(1) by (auto simp: g_def)
  moreover from this(1) obtain y where y: "y \<in> set (offers (tables v))" "offer_step (g ?r) y"
    using grows_by_mem [of offer_step "offers (tables w')" "offers (tables v)"] assms(4) unfolding evolves_def by blast
  ultimately have y: "g ?r \<in> set (offers (tables v))" "of_id (g ?r) = of_id ?r" "of_revoked (g ?r) \<noteq> None"
    using offer_step_revoked by auto
  have inj: "inj_on of_id (set (offers (tables v)))" using assms(5) by (simp add: db_ok_def distinct_map)
  have all: "x = g ?r" if "x \<in> set (offers (tables v))" "of_id x = of_id ?r" for x
    using inj_onD [OF inj, of x "g ?r"] that y by simp
  have no: "field (payload vw') ''offerId'' \<noteq> JStr (bufToHex (of_id ?r))"
    if "postTerms E param' req' v = (Inr resp', v')" "readEnvelope (noble_fns E) req' ''terms/v1'' = Inr vw'"
    for param' req' vw' resp' v'
    using terms_not_revoked [OF assms(5) y(1,3) that] y(2) by simp
  show ?thesis
    using r(1) e d' all y(3) no
    by (intro bexI [of _ ?r]) (auto simp: alive_def offerStatus_def)
qed

definition demo_revoke :: jsval where
  "demo_revoke = obj
     [(''type'', JStr (js ''revoke/v1'')), (''providerId'', JStr demo_address),
      (''offerId'', JStr (bufToHex demo_oid)), (''signedAt'', JStr (toIso 1800000000000))]"

lemma demo_revoke_ok: "wf_js demo_revoke" "plain_json demo_revoke" "isPlainObject demo_revoke"
    "field demo_revoke ''type'' = JStr (js ''revoke/v1'')" "field demo_revoke ''providerId'' = JStr demo_address"
    "field demo_revoke ''offerId'' = JStr (bufToHex demo_oid)" "field demo_revoke ''signedAt'' = JStr (toIso 1800000000000)"
  by (simp_all add: demo_revoke_def obj_def isPlainObject_def)

lemma demo_db_ok: "db_ok demo_db"
  by code_simp

theorem revocation_final_witness:
  "\<exists>req resp w'. postRevoke demo_env (bufToHex demo_oid) (Some req) demo_world = (Inr resp, w')
     \<and> (\<forall>x \<in> set (offers (tables w')). of_id x = demo_oid \<longrightarrow> offerStatus x True False 0 = Revoked)"
proof -
  obtain req sig h where r: "readEnvelope toy (Some req) ''revoke/v1'' =
      Inr \<lparr>payload = demo_revoke, signature = sig, hash = h, signer = demo_address\<rparr>"
    by (rule demo_signed [OF demo_revoke_ok(1-5)])
  have "\<exists>resp w'. postRevoke demo_env (bufToHex demo_oid) (Some req) demo_world = (Inr resp, w')"
    using r by (simp add: postRevoke_def Let_def seqI_def liftI_def ret_def demo_find guardI_def demo_revoke_ok demo_provider
        parseIso_toIso logPayload_def pg_def revoke_offer_def dropOffer_def send_up [OF demo_up])
  then obtain resp w' where p: "postRevoke demo_env (bufToHex demo_oid) (Some req) demo_world = (Inr resp, w')" by blast
  have "db_ok (tables w')"
    using postRevoke_ok [of demo_env "bufToHex demo_oid" "Some req"] p demo_db_ok
    by (metis keeps_def stays_ok_def snd_conv demo_world_simps(1))
  from revocation_final [OF demo_up demo_world_simps(3) p evo.refl this]
  have "\<forall>x \<in> set (offers (tables w')). of_id x = demo_oid \<longrightarrow> offerStatus x True False 0 = Revoked"
    by (auto simp: demo_db_def)
  with p show ?thesis by blast
qed

subsection \<open>Templates\<close>

text \<open>The log row of a verified write.\<close>

definition log_of :: "VerifiedWrite \<Rightarrow> string \<Rightarrow> int \<Rightarrow> log_row" where
  "log_of vw ty t = \<lparr>l_hash = hexToBuf (hash vw), l_type = ty, l_provider = hexToBuf (signer vw),
     l_payload = payload vw, l_signature = hexToBuf (signature vw), l_received = t\<rparr>"

lemma postOffer_Inr:
  assumes "postOffer E req w = (Inr resp, w')"
  shows "\<exists>vw a ea now. readEnvelope (noble_fns E) req ''offer/v1'' = Inr vw
    \<and> find_provider (hexToBuf (signer vw)) (tables w) \<noteq> None
    \<and> now \<in> range (now_at E) \<and> parseIso (field (payload vw) ''expiresAt'') = Some ea \<and> now < ea
    \<and> ea \<le> now + templateMaxAheadMs (cfg E)
    \<and> find_att (hexToBuf (jstr_of (field (field (payload vw) ''compute'') ''attestationId''))) (tables w) = Some a
    \<and> bufToHex (at_provider a) = signer vw \<and> now < at_expires a
    \<and> (if find_offer_row (hexToBuf (hash vw)) (tables w) \<noteq> None
       then resp = json 200 [(''offerId'', JStr (hash vw))] \<and> tables w' = tables w
       else resp = json 201 [(''offerId'', JStr (hash vw))]
         \<and> (\<exists>t1 t2 t3. count_active (hexToBuf (signer vw)) t1 (tables w) < offerCapPerProvider (cfg E)
           \<and> insert_offer (offer_of (hexToBuf (hash vw)) (hexToBuf (signer vw)) a (payload vw) (min ea (at_expires a)) t2)
                (insert_log (log_of vw ''offer/v1'' t3) (tables w)) = Some ((), tables w')))"
proof -
  obtain vw w1 where vw: "readEnvelope (noble_fns E) req ''offer/v1'' = Inr vw"
      "limited E ''tpl'' (signer vw) rl_templatePerProvider w = (Inr (), w1)"
    using assms by (auto simp: postOffer_def Let_def guard_simps)
  have t1: "tables w1 = tables w"
    using keeps_limited [of E "''tpl''" "signer vw" rl_templatePerProvider] vw(2)
    by (metis keeps_def same_tables_def snd_conv)
  let ?now = "now_at E (tick w1 + 1)"
  obtain a ea where a: "find_provider (hexToBuf (signer vw)) (tables w) \<noteq> None"
      "parseIso (field (payload vw) ''expiresAt'') = Some ea" "?now < ea" "ea \<le> ?now + templateMaxAheadMs (cfg E)"
      "find_att (hexToBuf (jstr_of (field (field (payload vw) ''compute'') ''attestationId''))) (tables w) = Some a"
      "bufToHex (at_provider a) = signer vw" "?now < at_expires a"
    using assms vw t1
    by (auto simp: postOffer_def Let_def guard_simps not_le split: option.splits if_splits)
  have old: "resp = json 200 [(''offerId'', JStr (hash vw))] \<and> tables w' = tables w"
    if "find_offer_row (hexToBuf (hash vw)) (tables w) = Some x" for x
    using assms vw t1 a(2,5) that
    by (auto simp: postOffer_def Let_def guard_simps split: option.splits if_splits)
  have new: "resp = json 201 [(''offerId'', JStr (hash vw))]
      \<and> count_active (hexToBuf (signer vw)) (now_at E (tick w1 + 4)) (tables w) < offerCapPerProvider (cfg E)
      \<and> insert_offer (offer_of (hexToBuf (hash vw)) (hexToBuf (signer vw)) a (payload vw) (min ea (at_expires a))
            (now_at E (tick w1 + 6)))
          (insert_log (log_of vw ''offer/v1'' (now_at E (tick w1 + 5))) (tables w)) = Some ((), tables w')"
    if "find_offer_row (hexToBuf (hash vw)) (tables w) = None"
    using assms vw t1 a(2,5) that
    by (auto simp: postOffer_def Let_def guard_simps logPayload_def not_le log_of_def eval_nat_numeral
        split: option.splits if_splits)
  have r: "if find_offer_row (hexToBuf (hash vw)) (tables w) \<noteq> None
       then resp = json 200 [(''offerId'', JStr (hash vw))] \<and> tables w' = tables w
       else resp = json 201 [(''offerId'', JStr (hash vw))]
         \<and> (\<exists>t1 t2 t3. count_active (hexToBuf (signer vw)) t1 (tables w) < offerCapPerProvider (cfg E)
           \<and> insert_offer (offer_of (hexToBuf (hash vw)) (hexToBuf (signer vw)) a (payload vw) (min ea (at_expires a)) t2)
                (insert_log (log_of vw ''offer/v1'' t3) (tables w)) = Some ((), tables w'))"
    using old new by (cases "find_offer_row (hexToBuf (hash vw)) (tables w)") (simp, blast, simp)
  show ?thesis
    using vw(1) a r by blast
qed

lemma insert_log_tables [simp]:
  "offers (insert_log r d) = offers d" "providers (insert_log r d) = providers d"
  "attestations (insert_log r d) = attestations d"
  by (simp_all add: insert_log_def)

lemma find_att_Some: "find_att i d = Some a \<Longrightarrow> a \<in> set (attestations d) \<and> at_id a = i"
  by (auto simp: find_att_def find_Some_iff)

lemma count_active_append:
  "count_active pid t (d\<lparr>offers := offers d @ [r]\<rparr>) \<le> count_active pid t d + 1"
  by (simp add: count_active_def)

lemma count_active_later: "t1 \<le> t \<Longrightarrow> count_active pid t d \<le> count_active pid t1 d"
proof -
  assume "t1 \<le> t"
  then have "filter (\<lambda>r. of_provider r = pid \<and> active_at t r) (offers d) =
      filter (active_at t) (filter (\<lambda>r. of_provider r = pid \<and> active_at t1 r) (offers d))"
    by (auto simp: active_at_def intro!: filter_cong)
  then show ?thesis
    unfolding count_active_def by (metis (no_types, lifting) length_filter_le of_nat_le_iff)
qed

text \<open>One more row keeps the cap from then on when the count was below it.\<close>

lemma cap_kept:
  assumes "count_active p t1 d < cap" and "t1 \<le> t" and "offers d' = offers d @ [r]"
  shows "count_active p t d' \<le> cap"
  using assms(1) count_active_append [of p t d r] count_active_later [OF assms(2), of p d] assms(3)
  by (simp add: count_active_def)

text \<open>
  C13: an accepted template either was stored before (and nothing changes) or is logged and
  becomes one new offer row of its signer: backed by the signer's own attestation, with the
  attestation's scores, expiring in the future and neither after the attestation nor more
  than the allowed time ahead; the provider then has at most the cap of active offers, at
  that time and at any later one.
\<close>

theorem accepted_offer:
  assumes "postOffer E req w = (Inr resp, w')"
  shows "\<exists>vw a. readEnvelope (noble_fns E) req ''offer/v1'' = Inr vw
     \<and> a \<in> set (attestations (tables w)) \<and> at_provider a = hexToBuf (signer vw)
     \<and> (if find_offer_row (hexToBuf (hash vw)) (tables w) \<noteq> None
        then status resp = 200 \<and> tables w' = tables w
        else status resp = 201 \<and> find_log (hexToBuf (hash vw)) (tables w') \<noteq> None
          \<and> (\<exists>r now t1. offers (tables w') = offers (tables w) @ [r]
              \<and> of_id r = hexToBuf (hash vw) \<and> of_provider r = hexToBuf (signer vw)
              \<and> of_att r = at_id a \<and> of_scores r = at_scores a \<and> of_revoked r = None
              \<and> now \<in> range (now_at E) \<and> now < of_expires r \<and> of_expires r \<le> at_expires a
              \<and> of_expires r \<le> now + templateMaxAheadMs (cfg E)
              \<and> (\<forall>t \<ge> t1. count_active (hexToBuf (signer vw)) t (tables w') \<le> offerCapPerProvider (cfg E))))"
proof -
  from postOffer_Inr [OF assms] obtain vw a ea now where
    e: "readEnvelope (noble_fns E) req ''offer/v1'' = Inr vw"
    and now: "now \<in> range (now_at E)" "now < ea" "ea \<le> now + templateMaxAheadMs (cfg E)" "now < at_expires a"
    and a: "find_att (hexToBuf (jstr_of (field (field (payload vw) ''compute'') ''attestationId''))) (tables w) = Some a"
      "bufToHex (at_provider a) = signer vw"
    and r: "if find_offer_row (hexToBuf (hash vw)) (tables w) \<noteq> None
       then resp = json 200 [(''offerId'', JStr (hash vw))] \<and> tables w' = tables w
       else resp = json 201 [(''offerId'', JStr (hash vw))]
         \<and> (\<exists>t1 t2 t3. count_active (hexToBuf (signer vw)) t1 (tables w) < offerCapPerProvider (cfg E)
           \<and> insert_offer (offer_of (hexToBuf (hash vw)) (hexToBuf (signer vw)) a (payload vw) (min ea (at_expires a)) t2)
                (insert_log (log_of vw ''offer/v1'' t3) (tables w)) = Some ((), tables w'))"
    by blast
  have p: "a \<in> set (attestations (tables w))" "at_provider a = hexToBuf (signer vw)"
    using find_att_Some [OF a(1)] a(2) by (auto simp flip: a(2))
  show ?thesis
  proof (cases "find_offer_row (hexToBuf (hash vw)) (tables w)")
    case None
    then obtain t1 t2 t3 where c: "count_active (hexToBuf (signer vw)) t1 (tables w) < offerCapPerProvider (cfg E)"
      and i: "insert_offer (offer_of (hexToBuf (hash vw)) (hexToBuf (signer vw)) a (payload vw) (min ea (at_expires a)) t2)
                (insert_log (log_of vw ''offer/v1'' t3) (tables w)) = Some ((), tables w')"
      and st: "status resp = 201"
      using r by (auto simp: json_def)
    let ?r = "offer_of (hexToBuf (hash vw)) (hexToBuf (signer vw)) a (payload vw) (min ea (at_expires a)) t2"
    let ?d = "insert_log (log_of vw ''offer/v1'' t3) (tables w)"
    have w': "tables w' = ?d\<lparr>offers := offers ?d @ [?r]\<rparr>"
      using i by (simp add: insert_offer_def split: if_splits)
    have cap: "count_active (hexToBuf (signer vw)) t (tables w') \<le> offerCapPerProvider (cfg E)" if "t1 \<le> t" for t
      by (rule cap_kept [OF c that, of _ ?r]) (simp add: w')
    have "find_log (hexToBuf (hash vw)) (tables w') \<noteq> None"
      using plog.present [of "log_of vw ''offer/v1'' t3" "tables w"] by (simp add: w' find_log_def log_of_def)
    then show ?thesis
      using e p None st cap now
      by (intro exI [of _ vw] exI [of _ a]) (auto simp: w' offer_of_def intro!: exI [of _ now] exI [of _ t1])
  next
    case (Some x)
    then show ?thesis using e p r by (auto simp: json_def)
  qed
qed

definition demo_template :: jsval where
  "demo_template = obj
     [(''type'', JStr (js ''offer/v1'')), (''providerId'', JStr demo_address),
      (''compute'', obj [(''model'', JStr (js ''cpu/v1'')), (''attestationId'', JStr (bufToHex demo_aid))]),
      (''signedAt'', JStr (toIso 1800000000000)), (''expiresAt'', JStr (toIso 1803000000000))]"

lemma demo_template_ok: "wf_js demo_template" "plain_json demo_template" "isPlainObject demo_template"
    "field demo_template ''type'' = JStr (js ''offer/v1'')" "field demo_template ''providerId'' = JStr demo_address"
    "field demo_template ''compute'' =
       obj [(''model'', JStr (js ''cpu/v1'')), (''attestationId'', JStr (bufToHex demo_aid))]"
    "field demo_template ''signedAt'' = JStr (toIso 1800000000000)" "field demo_template ''expiresAt'' = JStr (toIso 1803000000000)"
    "field demo_template ''constraintsHint'' = JUndef"
  by (simp_all add: demo_template_def obj_def isPlainObject_def)

lemma demo_hash: "isHash (JStr (bufToHex demo_aid))"
  by (code_simp)

theorem accepted_offer_witness:
  "\<exists>req resp w'. postOffer demo_env (Some req) (demo_world\<lparr>tables := demo_db\<lparr>offers := []\<rparr>\<rparr>) = (Inr resp, w')
     \<and> (\<exists>r. offers (tables w') = [r] \<and> of_expires r \<le> 1802000000000)"
proof -
  let ?w = "demo_world\<lparr>tables := demo_db\<lparr>offers := []\<rparr>\<rparr>"
  obtain req sig h where r: "readEnvelope toy (Some req) ''offer/v1'' =
      Inr \<lparr>payload = demo_template, signature = sig, hash = h, signer = demo_address\<rparr>"
    by (rule demo_signed [OF demo_template_ok(1-5)])
  have pid: "hexToBuf demo_address = demo_pid"
    unfolding demo_provider [symmetric] by simp
  have "\<exists>resp w'. postOffer demo_env (Some req) ?w = (Inr resp, w')"
    using r by (simp add: postOffer_def Let_def seqI_def liftI_def ret_def time_now_def guardI_def demo_template_ok
        limited_def rateLimit_def rl_templatePerProvider_def send_up [OF demo_up] alive_def empty_kv_def counter_def
        pg_read_def pg_def pid check_template_def parseIso_toIso demo_hash jstr_of_def obj_def isPlainObject_def
        find_provider_def find_att_def find_offer_row_def count_active_def logPayload_def insert_offer_def
        offer_of_def demo_db_def demo_att_def demo_provider)
  then obtain resp w' where p: "postOffer demo_env (Some req) ?w = (Inr resp, w')" by blast
  from accepted_offer [OF p] have "\<exists>r. offers (tables w') = [r] \<and> of_expires r \<le> 1802000000000"
    by (auto simp: find_offer_row_def demo_db_def demo_att_def)
  with p show ?thesis by blast
qed

subsection \<open>Availability hints\<close>

lemma postAvailability_Inr:
  assumes "postAvailability E param req w = (Inr resp, w')"
  obtains vw row w1 w2 w3 sa vu n b where
    "readEnvelope (noble_fns E) req ''avail/v1'' = Inr vw"
    "findOffer E param (w\<lparr>tick := tick w + 1\<rparr>) = (Inr (Some row), w1)"
    "limited E ''avail'' (bufToHex (of_id (or_offer row))) rl_availPerOffer w1 = (Inr (), w2)"
    "of_revoked (or_offer row) = None" "now_at E (tick w) < of_expires (or_offer row)"
    "signer vw = bufToHex (of_provider (or_offer row))"
    "field (payload vw) ''available'' = JBool b" "n = int_of (field (payload vw) ''seq'')"
    "parseIso (field (payload vw) ''signedAt'') = Some sa" "parseIso (field (payload vw) ''validUntil'') = Some vu"
    "vu - sa \<le> availMaxValidityMs (cfg E)"
    "checkSeq (getAvailSeq E) (setAvailSeq E) (bufToHex (of_id (or_offer row))) n w2 = (Inr (), w3)"
    "if b then clearBusy E (bufToHex (of_id (or_offer row))) w3 = (Inr (), w')
     else now_at E (tick w) < vu \<and> setBusy E (bufToHex (of_id (or_offer row)))
            (min (vu - now_at E (tick w)) (availMaxValidityMs (cfg E))) w3 = (Inr True, w')"
  using assms
  by (auto simp: postAvailability_def Let_def guard_simps not_less not_le split: option.splits jsval.splits if_splits)

text \<open>
  C14: an accepted availability hint was signed by the provider of an offer neither revoked
  nor expired, under a number above the stored one; \<open>available: false\<close> raises the busy
  flag for a positive time of at most the allowed validity, \<open>available: true\<close> clears it.
\<close>

theorem accepted_hint:
  assumes "redis_up E" and "client w" and "counters_ok KAvailSeq w"
    and "postAvailability E param req w = (Inr resp, w')"
  shows "\<exists>vw r b k. readEnvelope (noble_fns E) req ''avail/v1'' = Inr vw
     \<and> r \<in> set (offers (tables w)) \<and> tables w' = tables w
     \<and> signer vw = bufToHex (of_provider r) \<and> of_revoked r = None \<and> now_at E (tick w) < of_expires r
     \<and> field (payload vw) ''available'' = JBool b
     \<and> (\<forall>m. seq_of KAvailSeq w (bufToHex (of_id r)) = Some m \<longrightarrow> m < int_of (field (payload vw) ''seq''))
     \<and> seq_of KAvailSeq w' (bufToHex (of_id r)) = Some (int_of (field (payload vw) ''seq''))
     \<and> (if b then kv_str (kvs w') (KBusy (bufToHex (of_id r))) = None
        else \<exists>ttl > 0. ttl \<le> max 1 (availMaxValidityMs (cfg E))
          \<and> kv_str (kvs w') (KBusy (bufToHex (of_id r))) = Some (VFlag, Some (now_at E k + ttl)))"
  using assms(4)
proof (rule postAvailability_Inr)
  fix vw :: VerifiedWrite and row :: OfferRow and w1 w2 w3 :: world and sa vu n b
  let ?r = "or_offer row" and ?oid = "bufToHex (of_id (or_offer row))"
  assume e: "readEnvelope (noble_fns E) req ''avail/v1'' = Inr vw"
    and f: "findOffer E param (w\<lparr>tick := tick w + 1\<rparr>) = (Inr (Some row), w1)"
    and l: "limited E ''avail'' ?oid rl_availPerOffer w1 = (Inr (), w2)"
    and rest: "of_revoked ?r = None" "now_at E (tick w) < of_expires ?r" "signer vw = bufToHex (of_provider ?r)"
      "field (payload vw) ''available'' = JBool b" "n = int_of (field (payload vw) ''seq'')"
    and c: "checkSeq (getAvailSeq E) (setAvailSeq E) ?oid n w2 = (Inr (), w3)"
    and d: "if b then clearBusy E ?oid w3 = (Inr (), w')
     else now_at E (tick w) < vu \<and> setBusy E ?oid (min (vu - now_at E (tick w)) (availMaxValidityMs (cfg E))) w3 = (Inr True, w')"
  have w1: "?r \<in> set (offers (tables w))" "client w1" "seq_of KAvailSeq w1 = seq_of KAvailSeq w" "counters_ok KAvailSeq w1"
    using findOffer_Some [OF f] assms(2,3) by (auto simp: seq_of_def [abs_def] counters_ok_def)
  have "calm w1 w2" using calm_limited [OF assms(1)] l by (metis keeps_def snd_conv)
  from calm_seq [OF this w1(2)] w1 have w2: "client w2" "seq_of KAvailSeq w2 = seq_of KAvailSeq w" "counters_ok KAvailSeq w2"
    by simp_all
  from avail_seq.decides [of E w2 ?oid n] assms(1) w2 c
  have w3: "client w3" "seq_of KAvailSeq w3 ?oid = Some n" "\<forall>m. seq_of KAvailSeq w ?oid = Some m \<longrightarrow> m < n"
    by (auto split: if_splits simp: not_le)
  have w': "seq_of KAvailSeq w' ?oid = Some n" "if b then kv_str (kvs w') (KBusy ?oid) = None
        else \<exists>ttl > 0. ttl \<le> max 1 (availMaxValidityMs (cfg E))
          \<and> kv_str (kvs w') (KBusy ?oid) = Some (VFlag, Some (now_at E (tick w3) + ttl))"
    using d w3(1,2)
    by (auto simp: clearBusy_def setBusy_def seqI_def send_up [OF assms(1)] ret_def seq_of_def
        intro!: exI [of _ "max 1 (min (vu - now_at E (tick w)) (availMaxValidityMs (cfg E)))"] split: if_splits)
  have tw: "tables w' = tables w"
    using frame_postAvailability assms(4) by (metis keeps_def same_tables_def snd_conv)
  show ?thesis
    by (rule exI [of _ vw], rule exI [of _ ?r], rule exI [of _ b], rule exI [of _ "tick w3"])
       (use e w1(1) tw rest w3(3) w' in simp)
qed

definition demo_hint :: "bool \<Rightarrow> int \<Rightarrow> jsval" where
  "demo_hint b vu = obj
     [(''type'', JStr (js ''avail/v1'')), (''providerId'', JStr demo_address),
      (''offerId'', JStr (bufToHex demo_oid)), (''available'', JBool b), (''seq'', num_of_int 7),
      (''signedAt'', JStr (toIso 1799999990000)), (''validUntil'', JStr (toIso vu))]"

lemma demo_hint_ok: "wf_js (demo_hint b vu)" "plain_json (demo_hint b vu)" "isPlainObject (demo_hint b vu)"
    "field (demo_hint b vu) ''type'' = JStr (js ''avail/v1'')" "field (demo_hint b vu) ''providerId'' = JStr demo_address"
    "field (demo_hint b vu) ''offerId'' = JStr (bufToHex demo_oid)" "field (demo_hint b vu) ''available'' = JBool b"
    "field (demo_hint b vu) ''seq'' = num_of_int 7" "field (demo_hint b vu) ''signedAt'' = JStr (toIso 1799999990000)"
    "field (demo_hint b vu) ''validUntil'' = JStr (toIso vu)"
  by (simp_all add: demo_hint_def obj_def isPlainObject_def num_of_int_def is_finite_num_def)

theorem accepted_hint_witness:
  "\<exists>req resp w'. postAvailability demo_env (bufToHex demo_oid) (Some req) demo_world = (Inr resp, w')
     \<and> (\<exists>e. kv_str (kvs w') (KBusy (bufToHex demo_oid)) = Some (VFlag, Some e))"
proof -
  obtain req sig h where r: "readEnvelope toy (Some req) ''avail/v1'' =
      Inr \<lparr>payload = demo_hint False 1800000600000, signature = sig, hash = h, signer = demo_address\<rparr>"
    by (rule demo_signed [OF demo_hint_ok(1-5)])
  have "\<exists>resp w'. postAvailability demo_env (bufToHex demo_oid) (Some req) demo_world = (Inr resp, w')"
    using r by (simp add: postAvailability_def Let_def seqI_def liftI_def ret_def time_now_def demo_find guardI_def
        demo_hint_ok demo_checks parseIso_toIso limited_def rateLimit_def rl_availPerOffer_def send_up [OF demo_up]
        check_target_def check_times_def demo_provider checkSeq_def getAvailSeq_def setAvailSeq_def setBusy_def
        alive_def empty_kv_def counter_def as_num_def)
  then obtain resp w' where p: "postAvailability demo_env (bufToHex demo_oid) (Some req) demo_world = (Inr resp, w')" by blast
  have c: "counters_ok KAvailSeq demo_world" by (simp add: counters_ok_def empty_kv_def)
  from accepted_hint [OF demo_up demo_world_simps(3) c p] r
  have "\<exists>e. kv_str (kvs w') (KBusy (bufToHex demo_oid)) = Some (VFlag, Some e)"
    by (auto simp: demo_hint_ok demo_db_def)
  with p show ?thesis by blast
qed

text \<open>
  A busy hint whose \<open>validUntil\<close> has passed is refused, but only after its sequence
  number has been stored: the same number can then no longer be used.
\<close>

theorem late_hint_uses_number:
  assumes "redis_up E" and "client w" and "counters_ok KAvailSeq w"
    and "readEnvelope (noble_fns E) req ''avail/v1'' = Inr vw"
    and "findOffer E param (w\<lparr>tick := tick w + 1\<rparr>) = (Inr (Some row), w1)"
    and "limited E ''avail'' (bufToHex (of_id (or_offer row))) rl_availPerOffer w1 = (Inr (), w2)"
    and "of_revoked (or_offer row) = None" and "now_at E (tick w) < of_expires (or_offer row)"
    and "signer vw = bufToHex (of_provider (or_offer row))"
    and "field (payload vw) ''offerId'' = JStr (bufToHex (of_id (or_offer row)))"
    and "field (payload vw) ''available'' = JBool False" and "valid_seq (field (payload vw) ''seq'')"
    and "parseIso (field (payload vw) ''signedAt'') = Some sa" and "parseIso (field (payload vw) ''validUntil'') = Some vu"
    and "sa \<le> now_at E (tick w) + signedAtMaxFutureMs (cfg E)" and "vu - sa \<le> availMaxValidityMs (cfg E)"
    and "vu \<le> now_at E (tick w)" and "seq_of KAvailSeq w (bufToHex (of_id (or_offer row))) = None"
  shows "\<exists>w'. postAvailability E param req w = (Inl (err_field VALIDATION ''validUntil''), w')
     \<and> seq_of KAvailSeq w' (bufToHex (of_id (or_offer row))) = Some (int_of (field (payload vw) ''seq''))"
proof -
  let ?oid = "bufToHex (of_id (or_offer row))" and ?n = "int_of (field (payload vw) ''seq'')"
  have w1: "client w1" "seq_of KAvailSeq w1 = seq_of KAvailSeq w" "counters_ok KAvailSeq w1"
    using findOffer_Some [OF assms(5)] assms(2,3) by (auto simp: seq_of_def [abs_def] counters_ok_def)
  have "calm w1 w2" using calm_limited [OF assms(1)] assms(6) by (metis keeps_def snd_conv)
  from calm_seq [OF this w1(1)] w1 have w2: "client w2" "seq_of KAvailSeq w2 = seq_of KAvailSeq w" "counters_ok KAvailSeq w2"
    by simp_all
  from avail_seq.decides [of E w2 ?oid ?n] assms(1,18) w2 obtain w3 where
    c: "checkSeq (getAvailSeq E) (setAvailSeq E) ?oid ?n w2 = (Inr (), w3)" "seq_of KAvailSeq w3 ?oid = Some ?n"
    by auto
  have "postAvailability E param req w = (Inl (err_field VALIDATION ''validUntil''), w3)"
    using assms(4,7-17) unfolding postAvailability_def Let_def
    by (simp add: seqI_def liftI_def ret_def time_now_def assms(5) [simplified] assms(6) c(1) check_target_def check_times_def
        guardI_def throw_def)
  with c(2) show ?thesis by blast
qed

theorem late_hint_uses_number_witness:
  "\<exists>req w'. postAvailability demo_env (bufToHex demo_oid) (Some req) demo_world =
       (Inl (err_field VALIDATION ''validUntil''), w') \<and> seq_of KAvailSeq w' (bufToHex demo_oid) = Some 7"
proof -
  obtain req sig h where r: "readEnvelope toy (Some req) ''avail/v1'' =
      Inr \<lparr>payload = demo_hint False 1799999999000, signature = sig, hash = h, signer = demo_address\<rparr>"
    by (rule demo_signed [OF demo_hint_ok(1-5)])
  let ?w1 = "demo_world\<lparr>tick := 2\<rparr>"
  have l: "\<exists>w2. limited demo_env ''avail'' (bufToHex demo_oid) rl_availPerOffer ?w1 = (Inr (), w2)"
    by (simp add: limited_def rateLimit_def rl_availPerOffer_def send_up [OF demo_up] seqI_def ret_def time_now_def
        guardI_def alive_def empty_kv_def counter_def Let_def)
  then obtain w2 where l: "limited demo_env ''avail'' (bufToHex demo_oid) rl_availPerOffer ?w1 = (Inr (), w2)" by blast
  have c: "counters_ok KAvailSeq demo_world" "seq_of KAvailSeq demo_world i = None" for i
    by (simp_all add: counters_ok_def empty_kv_def seq_of_def)
  have f: "findOffer demo_env (bufToHex demo_oid) (demo_world\<lparr>tick := tick demo_world + 1\<rparr>) =
     (Inr (Some \<lparr>or_offer = demo_offer, or_tplSig = [3], or_attPayload = obj [], or_attSig = [2],
        or_attReceived = 2, or_heartbeat = 60\<rparr>), ?w1)"
    by (simp add: demo_find numeral_2_eq_2)
  have "\<exists>w'. postAvailability demo_env (bufToHex demo_oid) (Some req) demo_world =
       (Inl (err_field VALIDATION ''validUntil''), w') \<and> seq_of KAvailSeq w' (bufToHex demo_oid) = Some 7"
    using late_hint_uses_number [OF demo_up demo_world_simps(3) c(1) _ f, of "Some req" _ w2 1799999990000 1799999999000] r l
    by (simp add: demo_hint_ok demo_checks demo_provider parseIso_toIso c(2))
  then show ?thesis by blast
qed

end
