(* ===== verification/Providers.thy ===== *)
theory Providers
  imports Offers
begin

text \<open>
  Provider registration and lookup (\<open>src/handlers/providers.ts\<close>).  Proved: which profiles
  are accepted; that a stored profile is only ever replaced by one signed later, and keeps
  its first sighting; that the pages of the directory partition it, in the documented
  order.  Where a query leaves the order of equal rows open, the model takes the order of
  insertion.
\<close>

subsection \<open>Registration\<close>

definition short_string :: "nat \<Rightarrow> nat \<Rightarrow> jsval \<Rightarrow> bool" where
  "short_string lo hi v = (case v of JStr s \<Rightarrow> lo \<le> length s \<and> length s \<le> hi | _ \<Rightarrow> False)"

definition validateProfile :: "env \<Rightarrow> jsval \<Rightarrow> unit io" where
  "validateProfile E p =
     seqI (guardI (parseIso (field p ''signedAt'') = None) (err_field VALIDATION ''signedAt'')) (\<lambda>_.
     seqI (time_now E) (\<lambda>now.
     seqI (guardI (the (parseIso (field p ''signedAt'')) > now + signedAtMaxFutureMs (cfg E))
             (err_field VALIDATION ''signedAt'')) (\<lambda>_.
     seqI (guardI (\<not> short_string 1 128 (field p ''displayName'')) (err_field VALIDATION ''displayName'')) (\<lambda>_.
     seqI (guardI (case field p ''netEndpoints'' of
                     JArr vs \<Rightarrow> length vs > 16 \<or> \<not> list_all (short_string 1 256) vs | _ \<Rightarrow> True)
             (err_field VALIDATION ''netEndpoints'')) (\<lambda>_.
     seqI (guardI (case field p ''heartbeatIntervalSec'' of
                     JNum x \<Rightarrow> \<not> is_integer x \<or> num_lt x (Fin (of_int (heartbeatMin (cfg E))))
                       \<or> num_lt (Fin (of_int (heartbeatMax (cfg E)))) x
                   | _ \<Rightarrow> True)
             (err_field VALIDATION ''heartbeatIntervalSec'')) (\<lambda>_.
     guardI (field p ''contact'' \<noteq> JUndef \<and> \<not> short_string 0 256 (field p ''contact''))
       (err_field VALIDATION ''contact'')))))))"

definition postProvider :: "env \<Rightarrow> jstr \<Rightarrow> jsval option \<Rightarrow> response io" where
  "postProvider E ip req =
     seqI (limited E ''reg'' ip rl_registrationPerIp) (\<lambda>_.
     seqI (liftI (readEnvelope (noble_fns E) req ''profile/v1'')) (\<lambda>w.
     seqI (validateProfile E (payload w)) (\<lambda>_.
     seqI (limited E ''profile'' (signer w) rl_profilePerProvider) (\<lambda>_.
     let providerId = hexToBuf (signer w); signedAt = the (parseIso (field (payload w) ''signedAt'')) in
     seqI (pg_read E (\<lambda>_. find_provider providerId)) (\<lambda>existing.
     seqI (guardI (case existing of None \<Rightarrow> False | Some r \<Rightarrow> signedAt \<le> pr_signed r) (err STALE_PAYLOAD)) (\<lambda>_.
     seqI (logPayload E (hexToBuf (hash w)) ''profile/v1'' providerId (payload w) (hexToBuf (signature w))) (\<lambda>_.
     seqI (pg E (upsert_provider providerId (hexToBuf (hash w)) signedAt
                   (int_of (field (payload w) ''heartbeatIntervalSec'')))) (\<lambda>_.
     ret (json (if existing \<noteq> None then 200 else 201) [(''providerId'', JStr (signer w))])))))))))"

subsection \<open>The directory\<close>

definition intParam :: "(string \<Rightarrow> jstr option) \<Rightarrow> string \<Rightarrow> int \<Rightarrow> thrown + int" where
  "intParam url name def =
     (case url name of
        None \<Rightarrow> Inr def
      | Some v \<Rightarrow> (let n = js_number v in
          if \<not> is_integer n \<or> num_lt n (Fin 0) then Inl (err_field VALIDATION name)
          else Inr (int_of (JNum n))))"

text \<open>The provider's latest unexpired attestation.\<close>

definition latest_att :: "bytes \<Rightarrow> int \<Rightarrow> db \<Rightarrow> att_row option" where
  "latest_att pid t d =
     (let rows = filter (\<lambda>a. at_provider a = pid \<and> at_expires a > t) (attestations d)
      in find (\<lambda>a. list_all (\<lambda>b. at_measured b \<le> at_measured a) rows) rows)"

record directory_row =
  dr_provider :: provider_row
  dr_name :: jsval
  dr_att :: "att_row option"
  dr_active :: int

text \<open>\<open>payload->>'displayName'\<close> of a stored profile is a string.\<close>

definition directory :: "int \<Rightarrow> db \<Rightarrow> directory_row list" where
  "directory t d =
     concat (map (\<lambda>p. case find_log (pr_profile p) d of
         None \<Rightarrow> []
       | Some pl \<Rightarrow> [\<lparr>dr_provider = p, dr_name = field (l_payload pl) ''displayName'',
                      dr_att = latest_att (pr_id p) t d, dr_active = count_active (pr_id p) t d\<rparr>])
       (sort_key (\<lambda>p. (- pr_firstSeen p, pr_id p)) (providers d)))"

text \<open>\<open>limit\<close> and \<open>offset\<close>; an offset beyond \<open>bigint\<close> is refused by the server.\<close>

definition directory_page :: "int \<Rightarrow> int \<Rightarrow> int \<Rightarrow> db \<Rightarrow> (directory_row list \<times> db) option" where
  "directory_page limit offset t d =
     (if offset \<ge> 2 ^ 63 then None
      else Some (take (nat limit) (drop (nat offset) (directory t d)), d))"

text \<open>
  Offers among the live ids, per provider: how many, and how many flagged busy.  The ids
  are decoded in the query, which fails on anything but hexadecimal.
\<close>

definition live_counts :: "jstr list \<Rightarrow> jstr list \<Rightarrow> db \<Rightarrow> ((bytes \<Rightarrow> int \<times> int) \<times> db) option" where
  "live_counts liveIds busyIds d =
     (case mapO (\<lambda>i. unhex (slice_from 2 i)) liveIds of
        None \<Rightarrow> None
      | Some bs \<Rightarrow> Some (\<lambda>pid.
          (let rows = filter (\<lambda>r. of_provider r = pid \<and> of_id r \<in> set bs) (offers d)
           in (int (length rows),
               int (length (filter (\<lambda>r. hex_of (of_id r) \<in> set (map (slice_from 2) busyIds)) rows)))), d))"

definition scores_json :: "scores \<Rightarrow> jsval" where
  "scores_json s = obj
     [(''singleCore'', JNum (sc_single s)), (''quadCore'', JNum (sc_quad s)),
      (''eightCore'', JNum (sc_eight s)), (''full'', JNum (sc_full s)),
      (''ramBandwidth'', case sc_ramBandwidth s of None \<Rightarrow> JNull | Some x \<Rightarrow> JNum x),
      (''dagHash'', case sc_dagHash s of None \<Rightarrow> JNull | Some x \<Rightarrow> JNum x)]"

definition att_json :: "att_row option \<Rightarrow> jsval" where
  "att_json a = (case a of None \<Rightarrow> JNull | Some a \<Rightarrow> obj
     [(''coreCount'', jint (at_cores a)), (''ramGib'', JNum (at_ram a)),
      (''cpuModel'', case at_cpuModel a of None \<Rightarrow> JNull | Some c \<Rightarrow> JStr c),
      (''scores'', scores_json (at_scores a)), (''expiresAt'', JStr (toIso (at_expires a)))])"

definition directory_item ::
    "(jstr \<Rightarrow> jstr option) \<Rightarrow> (bytes \<Rightarrow> int \<times> int) \<Rightarrow> directory_row \<Rightarrow> jsval" where
  "directory_item seen counts r =
     (let p = dr_provider r; pid = bufToHex (pr_id p) in obj
       [(''providerId'', JStr pid), (''displayName'', dr_name r),
        (''heartbeatIntervalSec'', jint (pr_heartbeat p)), (''activeOffers'', jint (dr_active r)),
        (''liveOffers'', jint (fst (counts (pr_id p)))), (''busyOffers'', jint (snd (counts (pr_id p)))),
        (''attestation'', att_json (dr_att r)), (''firstSeenAt'', JStr (toIso (pr_firstSeen p))),
        (''lastSeenAt'', case seen pid of None \<Rightarrow> JNull | Some s \<Rightarrow> JStr s)])"

definition listProviders :: "env \<Rightarrow> jstr \<Rightarrow> (string \<Rightarrow> jstr option) \<Rightarrow> response io" where
  "listProviders E ip url =
     seqI (limited E ''query'' ip rl_queryPerIp) (\<lambda>_.
     seqI (liftI (intParam url ''limit'' (providersDefaultLimit (cfg E)))) (\<lambda>l.
     let limit = min (max 1 l) (providersMaxLimit (cfg E)) in
     seqI (liftI (intParam url ''offset'' 0)) (\<lambda>offset.
     seqI (pg_read E (\<lambda>_ d. int (length (providers d)))) (\<lambda>total.
     seqI (pg E (directory_page limit offset)) (\<lambda>rows.
     seqI (lastSeenBatch E (map (\<lambda>r. bufToHex (pr_id (dr_provider r))) rows)) (\<lambda>seen.
     seqI (time_now E) (\<lambda>now.
     seqI (liveOffers E now) (\<lambda>live.
     seqI (if live = [] then ret (\<lambda>_. (0, 0))
           else seqI (busyBatch E (map fst live)) (\<lambda>busy.
                pg E (\<lambda>_. live_counts (map fst live) busy))) (\<lambda>counts.
     ret (json 200 [(''items'', JArr (map (directory_item seen counts) rows)), (''total'', jint total),
                    (''limit'', jint limit), (''offset'', jint offset)]))))))))))"

subsection \<open>One provider\<close>

definition or_null :: "jsval \<Rightarrow> jsval" where
  "or_null v = (if v = JUndef then JNull else v)"

definition profile_row :: "bytes \<Rightarrow> db \<Rightarrow> (provider_row \<times> log_row) option" where
  "profile_row pid d =
     Option.bind (find_provider pid d) (\<lambda>p. map_option (Pair p) (find_log (pr_profile p) d))"

definition provider_offers :: "bytes \<Rightarrow> int \<Rightarrow> db \<Rightarrow> offer_row list" where
  "provider_offers pid t d =
     sort_key (\<lambda>r. - of_created r) (filter (\<lambda>r. of_provider r = pid \<and> active_at t r) (offers d))"

definition summary_status :: "TermsRec option \<Rightarrow> bool \<Rightarrow> OfferStatus" where
  "summary_status terms busy = (case terms of None \<Rightarrow> Stale | Some _ \<Rightarrow> if busy then Busy else Active)"

definition offer_summary :: "(jstr \<Rightarrow> TermsRec option) \<Rightarrow> jstr list \<Rightarrow> offer_row \<Rightarrow> jsval" where
  "offer_summary termsMap busySet r =
     (let oid = bufToHex (of_id r); terms = termsMap oid;
          tp = (case terms of None \<Rightarrow> JUndef | Some x \<Rightarrow> tr_payload x) in obj
       [(''offerId'', JStr oid),
        (''status'', JStr (js (status_name (summary_status terms (oid \<in> set busySet))))),
        (''minPricePerHour'', or_null (field tp ''minPricePerHour'')),
        (''coresFree'', or_null (field (field tp ''capacity'') ''coresFree'')),
        (''expiresAt'', JStr (toIso (of_expires r)))])"

definition att_detail :: "att_row option \<Rightarrow> jsval" where
  "att_detail a = (case a of None \<Rightarrow> JNull | Some a \<Rightarrow> obj
     [(''id'', JStr (bufToHex (at_id a))), (''model'', JStr (js (at_model a))),
      (''coreCount'', jint (at_cores a)), (''ramGib'', JNum (at_ram a)),
      (''cpuModel'', case at_cpuModel a of None \<Rightarrow> JNull | Some c \<Rightarrow> JStr c),
      (''scores'', scores_json (at_scores a)), (''expiresAt'', JStr (toIso (at_expires a)))])"

definition count_status :: "(jstr \<Rightarrow> TermsRec option) \<Rightarrow> jstr list \<Rightarrow> (OfferStatus \<Rightarrow> bool) \<Rightarrow> offer_row list \<Rightarrow> int" where
  "count_status termsMap busySet P rs =
     int (length (filter (\<lambda>r. P (summary_status (termsMap (bufToHex (of_id r))) (bufToHex (of_id r) \<in> set busySet))) rs))"

definition members :: "jsval \<Rightarrow> (jstr \<times> jsval) list" where
  "members v = (case v of JObj ms \<Rightarrow> ms | _ \<Rightarrow> [])"

definition getProvider :: "env \<Rightarrow> jstr option \<Rightarrow> response io" where
  "getProvider E param =
     (let pid = (case param of None \<Rightarrow> [] | Some s \<Rightarrow> toLowerCase s) in
      seqI (guardI (\<not> ADDRESS_RE pid) (err VALIDATION)) (\<lambda>_.
      let providerId = hexToBuf pid in
      seqI (pg_read E (\<lambda>_. profile_row providerId)) (\<lambda>row.
      case row of
        None \<Rightarrow> throw (err UNKNOWN_PROVIDER)
      | Some (p, pl) \<Rightarrow>
          seqI (pg_read E (latest_att providerId)) (\<lambda>att.
          seqI (pg_read E (provider_offers providerId)) (\<lambda>rs.
          let offerIds = map (\<lambda>r. bufToHex (of_id r)) rs in
          seqI (getTermsBatch E offerIds) (\<lambda>termsMap.
          seqI (busyBatch E offerIds) (\<lambda>busySet.
          seqI (liftI (envelopeOut (noble_fns E) (l_payload pl) (bufToHex (l_signature pl)) (DateMs (l_received pl)))) (\<lambda>out.
          seqI (lastSeen E pid) (\<lambda>seen.
          ret \<lparr>status = 200, body = JObj (members out @ members (obj
            [(''attestation'', att_detail att),
             (''offers'', JArr (map (offer_summary termsMap busySet) rs)),
             (''stats'', obj
               [(''activeOffers'', jint (int (length rs))),
                (''liveOffers'', jint (count_status termsMap busySet (\<lambda>s. s \<noteq> Stale) rs)),
                (''busyOffers'', jint (count_status termsMap busySet (\<lambda>s. s = Busy) rs)),
                (''lastSeenAt'', case seen of None \<Rightarrow> JNull | Some s \<Rightarrow> JStr s),
                (''firstSeenAt'', JStr (toIso (pr_firstSeen p)))])]))\<rparr>)))))))))"

subsection \<open>Frames\<close>

lemma frame_validateProfile: "keeps same_tables (validateProfile E p)"
  unfolding validateProfile_def by (intro frame.keeps_rules)

lemma postProvider_ok: "keeps stays_ok (postProvider E ip req)"
  unfolding postProvider_def Let_def
  by (intro inv.keeps_rules redis_ok same_tables_ok [OF frame_validateProfile] writes_ok)

lemma postProvider_evolves: "keeps evolves (postProvider E ip req)"
  unfolding postProvider_def Let_def
  by (intro evo.keeps_rules redis_evolves same_tables_evolves [OF frame_validateProfile] writes_evolve)

lemma frame_listProviders: "keeps same_tables (listProviders E ip url)"
proof -
  have "keeps same_tables (pg E (directory_page l off))" "keeps same_tables (pg E (\<lambda>_. live_counts a b))" for l off a b
    by (rule frame.keeps_pg; auto simp: directory_page_def live_counts_def same_tables_def split: if_splits option.splits)+
  then show ?thesis
    unfolding listProviders_def Let_def by (intro frame.keeps_rules frame_simps)
qed

lemma frame_getProvider: "keeps same_tables (getProvider E param)"
  unfolding getProvider_def Let_def
  by (intro frame.keeps_rules) (auto split: option.split intro!: frame.keeps_rules frame_simps)

subsection \<open>Accepted profiles\<close>

lemma validateProfile_Inr [guard_simps]:
  "validateProfile E p w = (Inr u, w') \<longleftrightarrow> w' = w\<lparr>tick := tick w + 1\<rparr>
     \<and> (\<exists>s. parseIso (field p ''signedAt'') = Some s \<and> s \<le> now_at E (tick w) + signedAtMaxFutureMs (cfg E))
     \<and> short_string 1 128 (field p ''displayName'')
     \<and> (\<exists>vs. field p ''netEndpoints'' = JArr vs \<and> length vs \<le> 16 \<and> list_all (short_string 1 256) vs)
     \<and> (\<exists>n. field p ''heartbeatIntervalSec'' = num_of_int n \<and> heartbeatMin (cfg E) \<le> n \<and> n \<le> heartbeatMax (cfg E))
     \<and> (field p ''contact'' = JUndef \<or> short_string 0 256 (field p ''contact''))"
proof -
  have hb: "(case v of JNum x \<Rightarrow> \<not> is_integer x \<or> num_lt x (Fin (of_int a)) \<or> num_lt (Fin (of_int b)) x | _ \<Rightarrow> True)
      \<longleftrightarrow> \<not> (\<exists>n. v = num_of_int n \<and> a \<le> n \<and> n \<le> b)" for v a b
  proof (cases "\<exists>r. v = JNum (Fin r)")
    case True
    then obtain r where v: "v = JNum (Fin r)" by blast
    show ?thesis
    proof (cases "of_int \<lfloor>r\<rfloor> = r")
      case True
      then obtain n where "r = of_int n" by metis
      then show ?thesis by (auto simp: v num_of_int_def is_integer_def num_lt_def)
    next
      case False
      then show ?thesis by (auto simp: v num_of_int_def is_integer_def)
    qed
  next
    case False
    then show ?thesis
      by (cases v) (auto simp: num_of_int_def is_integer_def split: jsnum.split)
  qed
  show ?thesis
    unfolding validateProfile_def guard_simps hb
    by (auto simp: not_less split: jsval.splits)
qed

lemma find_provider_Some: "find_provider p d = Some r \<Longrightarrow> r \<in> set (providers d) \<and> pr_id r = p"
  by (auto simp: find_provider_def find_Some_iff)

lemma find_provider_None: "find_provider p d = None \<longleftrightarrow> p \<notin> pr_id ` set (providers d)"
  by (simp add: find_provider_def find_key_None)

lemma find_provider_upsert:
  assumes "upsert_provider pid h s hb t d = Some (u, d')"
  shows "find_provider q d' =
    (if q = pid then Some (case find_provider pid d of
         None \<Rightarrow> \<lparr>pr_id = pid, pr_profile = h, pr_signed = s, pr_heartbeat = hb, pr_firstSeen = t, pr_updated = t\<rparr>
       | Some r \<Rightarrow> r\<lparr>pr_profile := h, pr_signed := s, pr_heartbeat := hb, pr_updated := t\<rparr>)
     else find_provider q d)"
proof -
  define f where "f r = (if pr_id r = pid
      then r\<lparr>pr_profile := h, pr_signed := s, pr_heartbeat := hb, pr_updated := t\<rparr> else r)" for r :: provider_row
  have m: "find (\<lambda>r. pr_id r = q) (map f ps) = map_option f (find (\<lambda>r. pr_id r = q) ps)" for ps
    by (induction ps) (auto simp: f_def)
  show ?thesis
  proof (cases "pid \<in> pr_id ` set (providers d)")
    case True
    then have d': "d' = d\<lparr>providers := map f (providers d)\<rparr>"
      using assms by (simp add: upsert_provider_def f_def [abs_def] split: if_splits)
    obtain r where r: "find_provider pid d = Some r"
      using True find_provider_None [of pid d] by auto
    have "map_option f (find_provider q d) = find_provider q d" if "q \<noteq> pid"
      using that find_provider_Some [of q d] by (cases "find_provider q d") (auto simp: f_def)
    then show ?thesis
      using m [of "providers d"] r find_provider_Some [OF r]
      by (auto simp: d' find_provider_def f_def)
  next
    case False
    then have "find_provider pid d = None" by (simp add: find_provider_None)
    then show ?thesis
      using assms False by (auto simp: upsert_provider_def find_provider_def find_append split: if_splits option.split)
  qed
qed

lemma limited_tables: "limited E scope key b w = (r, w') \<Longrightarrow> tables w' = tables w"
  using keeps_limited [of E scope key b] by (simp add: keeps_def same_tables_def) (metis snd_conv)

lemma upsert_log: "upsert_provider pid h s hb t d = Some (u, d') \<Longrightarrow> payload_log d' = payload_log d"
  by (auto simp: upsert_provider_def split: if_splits)

lemma postProvider_Inr:
  assumes "postProvider E ip req w = (Inr resp, w')"
  obtains vw sa hb t lr where
    "readEnvelope (noble_fns E) req ''profile/v1'' = Inr vw"
    "parseIso (field (payload vw) ''signedAt'') = Some sa"
    "field (payload vw) ''heartbeatIntervalSec'' = num_of_int hb" "heartbeatMin (cfg E) \<le> hb" "hb \<le> heartbeatMax (cfg E)"
    "case find_provider (hexToBuf (signer vw)) (tables w) of None \<Rightarrow> True | Some r \<Rightarrow> pr_signed r < sa"
    "l_hash lr = hexToBuf (hash vw)"
    "upsert_provider (hexToBuf (signer vw)) (hexToBuf (hash vw)) sa hb t (insert_log lr (tables w)) = Some ((), tables w')"
    "status resp = (if find_provider (hexToBuf (signer vw)) (tables w) \<noteq> None then 200 else 201)"
proof -
  obtain vw w1 w2 where vw: "limited E ''reg'' ip rl_registrationPerIp w = (Inr (), w1)"
      "readEnvelope (noble_fns E) req ''profile/v1'' = Inr vw"
      "limited E ''profile'' (signer vw) rl_profilePerProvider (w1\<lparr>tick := tick w1 + 1\<rparr>) = (Inr (), w2)"
    using assms by (auto simp: postProvider_def Let_def guard_simps)
  have t: "tables w1 = tables w" "tables w2 = tables w"
    using limited_tables [OF vw(1)] limited_tables [OF vw(3)] by simp_all
  obtain sa hb where p: "parseIso (field (payload vw) ''signedAt'') = Some sa"
      "field (payload vw) ''heartbeatIntervalSec'' = num_of_int hb" "heartbeatMin (cfg E) \<le> hb" "hb \<le> heartbeatMax (cfg E)"
    using assms vw by (auto simp: postProvider_def Let_def guard_simps)
  have hb: "int_of (num_of_int hb) = hb" by (simp add: int_of_def num_of_int_def)
  have s: "case find_provider (hexToBuf (signer vw)) (tables w) of None \<Rightarrow> True | Some r \<Rightarrow> pr_signed r < sa"
    using assms vw t p by (auto simp: postProvider_def Let_def guard_simps not_le split: option.splits)
  have u: "upsert_provider (hexToBuf (signer vw)) (hexToBuf (hash vw)) sa hb (now_at E (tick w2 + 2))
        (insert_log (log_of vw ''profile/v1'' (now_at E (tick w2 + 1))) (tables w)) = Some ((), tables w')"
      "status resp = (if find_provider (hexToBuf (signer vw)) (tables w) \<noteq> None then 200 else 201)"
    using assms vw t p hb
    by (auto simp: postProvider_def Let_def guard_simps logPayload_def log_of_def json_def)
  show thesis
    by (rule that [of vw sa hb "log_of vw ''profile/v1'' (now_at E (tick w2 + 1))" "now_at E (tick w2 + 2)"])
       (use vw p s u in \<open>simp_all add: log_of_def\<close>)
qed

text \<open>
  C15: an accepted profile was signed later than the one it replaces; it becomes the
  signer's row, with the logged payload, its heartbeat interval within bounds and its first
  sighting kept, and no other provider's row changes.
\<close>

theorem accepted_profile:
  assumes "postProvider E ip req w = (Inr resp, w')"
  shows "\<exists>vw sa r'. readEnvelope (noble_fns E) req ''profile/v1'' = Inr vw
     \<and> parseIso (field (payload vw) ''signedAt'') = Some sa
     \<and> find_provider (hexToBuf (signer vw)) (tables w') = Some r' \<and> pr_signed r' = sa
     \<and> pr_profile r' = hexToBuf (hash vw) \<and> find_log (hexToBuf (hash vw)) (tables w') \<noteq> None
     \<and> heartbeatMin (cfg E) \<le> pr_heartbeat r' \<and> pr_heartbeat r' \<le> heartbeatMax (cfg E)
     \<and> (case find_provider (hexToBuf (signer vw)) (tables w) of
          None \<Rightarrow> status resp = 201
        | Some r \<Rightarrow> status resp = 200 \<and> pr_signed r < sa \<and> pr_firstSeen r' = pr_firstSeen r)
     \<and> (\<forall>q. q \<noteq> hexToBuf (signer vw) \<longrightarrow> find_provider q (tables w') = find_provider q (tables w))"
  using assms
proof (rule postProvider_Inr)
  fix vw :: VerifiedWrite and sa hb t and lr :: log_row
  let ?pid = "hexToBuf (signer vw)" and ?h = "hexToBuf (hash vw)"
  let ?d = "insert_log lr (tables w)"
  assume a: "readEnvelope (noble_fns E) req ''profile/v1'' = Inr vw"
      "parseIso (field (payload vw) ''signedAt'') = Some sa" "heartbeatMin (cfg E) \<le> hb" "hb \<le> heartbeatMax (cfg E)"
      "case find_provider ?pid (tables w) of None \<Rightarrow> True | Some r \<Rightarrow> pr_signed r < sa"
      "status resp = (if find_provider ?pid (tables w) \<noteq> None then 200 else 201)"
    and lr: "l_hash lr = ?h" and u: "upsert_provider ?pid ?h sa hb t ?d = Some ((), tables w')"
  have d: "find_provider q ?d = find_provider q (tables w)" for q by (simp add: find_provider_def)
  note f = find_provider_upsert [OF u, unfolded d]
  have "payload_log (tables w') = payload_log ?d" by (rule upsert_log [OF u])
  then have l: "find_log ?h (tables w') \<noteq> None"
    using plog.present [of lr "tables w"] lr by (simp add: find_log_def)
  show ?thesis
    using a f l
    by (intro exI [of _ vw] exI [of _ sa]) (cases "find_provider ?pid (tables w)"; simp)
qed

definition demo_profile :: jsval where
  "demo_profile = obj
     [(''type'', JStr (js ''profile/v1'')), (''providerId'', JStr demo_address),
      (''displayName'', JStr (js ''a'')), (''netEndpoints'', JArr [JStr (js ''ep'')]),
      (''heartbeatIntervalSec'', num_of_int 60), (''signedAt'', JStr (toIso 1800000000000))]"

lemma demo_profile_ok: "wf_js demo_profile" "plain_json demo_profile" "isPlainObject demo_profile"
    "field demo_profile ''type'' = JStr (js ''profile/v1'')" "field demo_profile ''providerId'' = JStr demo_address"
    "field demo_profile ''displayName'' = JStr (js ''a'')" "field demo_profile ''netEndpoints'' = JArr [JStr (js ''ep'')]"
    "field demo_profile ''heartbeatIntervalSec'' = num_of_int 60" "field demo_profile ''contact'' = JUndef"
    "field demo_profile ''signedAt'' = JStr (toIso 1800000000000)"
  by (simp_all add: demo_profile_def obj_def isPlainObject_def num_of_int_def is_finite_num_def)

theorem accepted_profile_witness:
  "\<exists>req resp w' r. postProvider demo_env (js ''ip'') (Some req) demo_world = (Inr resp, w')
     \<and> find_provider demo_pid (tables w') = Some r \<and> pr_signed r = 1800000000000 \<and> pr_firstSeen r = 1"
proof -
  obtain req sig h where r: "readEnvelope toy (Some req) ''profile/v1'' =
      Inr \<lparr>payload = demo_profile, signature = sig, hash = h, signer = demo_address\<rparr>"
    by (rule demo_signed [OF demo_profile_ok(1-5)])
  have pid: "hexToBuf demo_address = demo_pid" unfolding demo_provider [symmetric] by simp
  have c: "is_integer (Fin 60)" "num_lt (Fin 15) (Fin 60)" "\<not> num_lt (Fin 60) (Fin 15)" "\<not> num_lt (Fin 900) (Fin 60)"
    by (simp_all add: is_integer_def num_lt_def)
  have "\<exists>resp w'. postProvider demo_env (js ''ip'') (Some req) demo_world = (Inr resp, w')"
    using r by (simp add: postProvider_def Let_def seqI_def liftI_def ret_def time_now_def guardI_def demo_profile_ok
        limited_def rateLimit_def rl_registrationPerIp_def rl_profilePerProvider_def send_up [OF demo_up] alive_def
        empty_kv_def counter_def validateProfile_def parseIso_toIso short_string_def num_of_int_def c
        pg_read_def pg_def pid find_provider_def demo_db_def logPayload_def upsert_provider_def insert_log_def)
  then obtain resp w' where p: "postProvider demo_env (js ''ip'') (Some req) demo_world = (Inr resp, w')" by blast
  from accepted_profile [OF p] r obtain r' where "find_provider demo_pid (tables w') = Some r'"
      "pr_signed r' = 1800000000000" "pr_firstSeen r' = 1"
    by (auto simp: demo_profile_ok parseIso_toIso pid) (auto simp: find_provider_def demo_db_def)
  with p show ?thesis by blast
qed

subsection \<open>Pages\<close>

lemma take_chunks: "concat (map (\<lambda>k. take n (drop (k * n) xs)) [0..<m]) = take (m * n) xs"
proof (induction m)
  case (Suc m)
  have "take (Suc m * n) xs = take (m * n) xs @ take n (drop (m * n) xs)"
    by (simp add: take_add add.commute [of n])
  then show ?case using Suc by simp
qed simp

lemma distinct_keys: "distinct (map f xs) \<Longrightarrow> (\<And>x y. g x = g y \<Longrightarrow> f x = f y) \<Longrightarrow> distinct (map g xs)"
proof -
  assume d: "distinct (map f xs)" and k: "\<And>x y. g x = g y \<Longrightarrow> f x = f y"
  have "inj_on f (set xs)" using d by (simp add: distinct_map)
  then have "inj_on g (set xs)" by (meson inj_onD inj_onI k)
  with d show ?thesis by (simp add: distinct_map)
qed

lemma directory_ids:
  assumes "db_ok d"
  shows "map dr_provider (directory t d) = sort_key (\<lambda>p. (- pr_firstSeen p, pr_id p)) (providers d)"
proof -
  define f where "f p = (case find_log (pr_profile p) d of
         None \<Rightarrow> []
       | Some pl \<Rightarrow> [\<lparr>dr_provider = p, dr_name = field (l_payload pl) ''displayName'',
                      dr_att = latest_att (pr_id p) t d, dr_active = count_active (pr_id p) t d\<rparr>])" for p
  have one: "map dr_provider (f p) = [p]" if "p \<in> set (providers d)" for p
  proof -
    have "pr_profile p \<in> l_hash ` set (payload_log d)" using assms that by (auto simp: db_ok_def)
    then have "find_log (pr_profile p) d \<noteq> None"
      unfolding find_log_def using find_key_None [of l_hash "pr_profile p" "payload_log d"] by simp
    then show ?thesis by (auto simp: f_def)
  qed
  have "map dr_provider (concat (map f ps)) = ps" if "set ps \<subseteq> set (providers d)" for ps
    using that one by (induction ps) auto
  then show ?thesis by (simp add: directory_def f_def [abs_def])
qed

text \<open>
  C16: the directory lists every registered provider exactly once, the latest first sighting
  first and then by id, and consecutive pages of \<open>n\<close> rows are consecutive pieces of it,
  without gap or overlap.
\<close>

theorem directory_pages:
  assumes "db_ok d" and "0 \<le> n" and "int m * n \<le> 2 ^ 63"
  shows "concat (map (\<lambda>k. fst (the (directory_page n (int k * n) t d))) [0..<m]) = take (m * nat n) (directory t d)
    \<and> set (map dr_provider (directory t d)) = set (providers d)
    \<and> distinct (map (pr_id \<circ> dr_provider) (directory t d))
    \<and> sorted_wrt (\<lambda>p q. pr_firstSeen q < pr_firstSeen p \<or> pr_firstSeen p = pr_firstSeen q \<and> pr_id p < pr_id q)
        (map dr_provider (directory t d))"
proof -
  have "directory_page n (int k * n) t d = Some (take (nat n) (drop (k * nat n) (directory t d)), d)" if "k < m" for k
  proof -
    have "int k * n < 2 ^ 63"
    proof (cases "n = 0")
      case False
      then have "int k * n < int m * n" using that assms(2) by simp
      then show ?thesis using assms(3) by simp
    qed simp
    then show ?thesis using assms(2) by (simp add: directory_page_def nat_mult_distrib)
  qed
  then have "map (\<lambda>k. fst (the (directory_page n (int k * n) t d))) [0..<m] =
      map (\<lambda>k. take (nat n) (drop (k * nat n) (directory t d))) [0..<m]"
    by (intro map_cong) auto
  then have pages: "concat (map (\<lambda>k. fst (the (directory_page n (int k * n) t d))) [0..<m]) =
      take (m * nat n) (directory t d)"
    by (metis take_chunks)
  let ?ps = "sort_key (\<lambda>p. (- pr_firstSeen p, pr_id p)) (providers d)"
  note ids = directory_ids [OF assms(1), of t]
  have di: "distinct (map pr_id ?ps)"
    using assms(1) mset_eq_imp_distinct_iff [of "map pr_id ?ps" "map pr_id (providers d)"] by (simp add: db_ok_def)
  have "sorted (map (\<lambda>p. (- pr_firstSeen p, pr_id p)) ?ps)" by simp
  moreover have "distinct (map (\<lambda>p. (- pr_firstSeen p, pr_id p)) ?ps)"
    using di by (rule distinct_keys) simp
  ultimately have "sorted_wrt (<) (map (\<lambda>p. (- pr_firstSeen p, pr_id p)) ?ps)"
    by (simp add: strict_sorted_iff)
  then have "sorted_wrt (\<lambda>p q. pr_firstSeen q < pr_firstSeen p \<or> pr_firstSeen p = pr_firstSeen q \<and> pr_id p < pr_id q) ?ps"
    by (auto simp: sorted_wrt_map elim!: sorted_wrt_mono_rel [rotated])
  with pages di show ?thesis
    by (simp add: ids) (simp add: ids flip: map_map)
qed

theorem directory_pages_witness:
  "concat (map (\<lambda>k. fst (the (directory_page 50 (int k * 50) 1800000000000 demo_db))) [0..<3]) =
    take 150 (directory 1800000000000 demo_db)"
  using directory_pages [OF demo_db_ok, of 50 3 1800000000000] by simp

end
