(* ===== verification/Js_Json.thy ===== *)
theory Js_Json
  imports Validate "HOL-Library.AList"
begin

text \<open>
  The runtime's text codecs a pagination cursor goes through: base64url, UTF-8 decoding,
  \<open>JSON.parse\<close>.  Proved: base64url decodes what it encodes, ASCII text survives UTF-8, and
  an integer prints as its decimal digits.
\<close>

subsection \<open>Integers print as their digits\<close>

lemma dec_str_ten: "1 \<le> q \<Longrightarrow> dec_str (q * 10) = dec_str q @ [digit_unit 0]"
  by (simp add: dec_str.simps [of "q * 10"])

lemma dec_str_shift: "1 \<le> c \<Longrightarrow> dec_str (c * 10 ^ j) = dec_str c @ zeros (int j)"
proof (induction j)
  case (Suc j)
  have "1 * 1 \<le> c * 10 ^ j" by (rule mult_mono) (use Suc.prems in simp_all)
  then have "1 \<le> c * 10 ^ j" by simp
  then have "dec_str (c * 10 ^ j * 10) = dec_str (c * 10 ^ j) @ [digit_unit 0]" by (rule dec_str_ten)
  then show ?case
    using Suc by (simp add: zeros_def nat_add_distrib replicate_append_same mult.commute mult.left_commute
        del: replicate_Suc flip: replicate_Suc)
qed (simp add: zeros_def)

lemma length_dec_str: "10 ^ k \<le> c \<Longrightarrow> c < 10 ^ Suc k \<Longrightarrow> length (dec_str c) = Suc k"
proof (induction k arbitrary: c)
  case 0
  then show ?case by (simp add: dec_str.simps [of c])
next
  case (Suc k)
  have "(10 :: int) ^ 1 \<le> 10 ^ Suc k" by (rule power_increasing) simp_all
  with Suc.prems(1) have "10 ^ 1 \<le> c" by (rule order_trans [rotated])
  then have "10 \<le> c" by simp
  moreover have "10 ^ k \<le> c div 10" "c div 10 < 10 ^ Suc k"
  proof -
    show "10 ^ k \<le> c div 10" using zdiv_mono1 [OF Suc.prems(1), of 10] by simp
    show "c div 10 < 10 ^ Suc k" using Suc.prems(2) by (simp add: div_less_iff_less_mult mult.commute)
  qed
  ultimately show ?case using Suc.IH [of "c div 10"] by (simp add: dec_str.simps [of c])
qed

lemma dec_search_first:
  "sorted ks \<Longrightarrow> k0 \<in> set ks \<Longrightarrow> dec_candidate x k0 \<noteq> None \<Longrightarrow>
   \<exists>k \<in> set ks. k \<le> k0 \<and> dec_candidate x k = Some (dec_search x ks)"
proof (induction ks)
  case (Cons k ks)
  show ?case
  proof (cases "dec_candidate x k")
    case None
    then have "k0 \<in> set ks" using Cons.prems by auto
    then show ?thesis using Cons None by auto
  next
    case (Some p)
    then show ?thesis using Cons.prems by auto
  qed
qed simp

lemma ten_powi: "k \<le> m \<Longrightarrow> (10 :: rat) powi (int m - int k) = of_int (10 ^ (m - k))"
  by (simp add: power_int_of_nat flip: of_nat_diff)

text \<open>The candidate of \<open>k\<close> digits for an integer, when there is one, is its first \<open>k\<close> digits.\<close>

lemma int_candidate:
  assumes n: "1 \<le> n" "n \<le> 10 ^ 15" and k: "1 \<le> k" "k \<le> Suc (int_log 10 n)"
    and c: "dec_candidate (of_int n) k = Some (s, e)"
  shows "e = int (Suc (int_log 10 n)) \<and> s * 10 ^ (Suc (int_log 10 n) - k) = n"
proof -
  define m where "m = int_log 10 n"
  have m: "10 ^ m \<le> n" "n < 10 ^ Suc m" using int_log_bounds [of 10 n] n(1) by (simp_all add: m_def)
  have l: "ilog 10 (of_int n) + 1 = int (Suc m)" using n(1) by (simp add: ilog_def m_def)
  define p :: int where "p = 10 ^ (Suc m - k)"
  have p: "(10 :: rat) powi (int (Suc m) - int k) = of_int p"
    unfolding p_def by (rule ten_powi) (use k(2) in \<open>simp add: m_def\<close>)
  have f: "\<lfloor>(of_int n / of_int p :: rat)\<rfloor> = n div p" by (rule floor_divide_of_int_eq)
  have "(10 :: int) ^ m \<le> 10 ^ 15" using m(1) n(2) by (rule order_trans)
  then have m15: "m \<le> 15" by (simp only: power_increasing_iff)
  have pb: "1 \<le> p" "p \<le> 10 ^ 15"
  proof -
    show "1 \<le> p" by (simp add: p_def)
    show "p \<le> 10 ^ 15" unfolding p_def using k(1) m15 by (intro power_increasing) simp_all
  qed
  have lo: "n div p * p \<le> n" "(n div p + 1) * p \<le> n + p" "0 \<le> n div p * p" "0 \<le> (n div p + 1) * p"
  proof -
    have d: "0 \<le> n div p" using pb(1) n(1) by (simp add: pos_imp_zdiv_nonneg_iff)
    have "n div p * p + n mod p = n" by (rule div_mult_mod_eq)
    moreover have "0 \<le> n mod p" using pb(1) by simp
    ultimately show l: "n div p * p \<le> n" by linarith
    then show "(n div p + 1) * p \<le> n + p" by (simp add: algebra_simps)
    show "0 \<le> n div p * p" "0 \<le> (n div p + 1) * p" using d pb(1) by simp_all
  qed
  have ok: "t * p = n" if "fl (of_int t * of_int p) = Fin (of_int n)" "0 \<le> t * p" "t * p \<le> n + p" for t
  proof -
    have "\<bar>t * p\<bar> \<le> 2 ^ 53" using that n(2) pb by simp
    from fl_of_int [OF this] that(1) have "(of_int n :: rat) = of_int (t * p)" by simp
    then show ?thesis by (simp only: of_int_eq_iff)
  qed
  have max: "t \<noteq> 10 ^ k" if "t * p = n" for t
  proof
    assume "t = 10 ^ k"
    then have "n = 10 ^ (k + (Suc m - k))" using that by (simp add: p_def power_add)
    then show False using m(2) k(2) by (simp add: m_def)
  qed
  have "\<exists>t. t * p = n \<and> (s, e) = (if t = 10 ^ k then (10 ^ (k - 1), int (Suc m) + 1) else (t, int (Suc m)))"
    using c ok [of "n div p"] ok [of "n div p + 1"] lo pb(1)
    unfolding dec_candidate_def Let_def l p f
    by (auto split: if_splits)
  then obtain t where "t * p = n" "(s, e) = (if t = 10 ^ k then (10 ^ (k - 1), int (Suc m) + 1) else (t, int (Suc m)))"
    by blast
  then show ?thesis using max by (simp add: p_def m_def)
qed

lemma int_candidate_exists:
  assumes n: "1 \<le> n" "n \<le> 10 ^ 15"
  shows "dec_candidate (of_int n) (Suc (int_log 10 n)) \<noteq> None"
proof -
  have l: "ilog 10 (of_int n) + 1 = int (Suc (int_log 10 n))" using n(1) by (simp add: ilog_def)
  have "fl (of_int n) = Fin (of_int n)" using n by (intro fl_of_int) simp
  then show ?thesis unfolding dec_candidate_def Let_def l by simp
qed

lemma num_str_int:
  assumes "0 \<le> n" "n \<le> 10 ^ 15"
  shows "num_str (Fin (of_int n)) = dec_str n"
proof (cases "n = 0")
  case True
  then show ?thesis by (simp add: num_str_def dec_str.simps [of 0] digit_unit_def js_def of_char_def)
next
  case False
  then have n: "1 \<le> n" "n \<le> 10 ^ 15" using assms by simp_all
  define m where "m = int_log 10 n"
  have m: "10 ^ m \<le> n" "n < 10 ^ Suc m" using int_log_bounds [of 10 n] n(1) by (simp_all add: m_def)
  have "(10 :: int) ^ m \<le> 10 ^ 15" using m(1) n(2) by (rule order_trans)
  then have m15: "m \<le> 15" by (simp only: power_increasing_iff)
  obtain s e where se: "dec_search (of_int n) [1..<18] = (s, e)" by fastforce
  from dec_search_first [of "[1..<18]" "Suc m" "of_int n"] int_candidate_exists [OF n] m15 se
  obtain k where k: "1 \<le> k" "k \<le> Suc m" "dec_candidate (of_int n) k = Some (s, e)"
    by (auto simp: m_def)
  from int_candidate [OF n k(1) k(2) [unfolded m_def] k(3)]
  have c: "e = int (Suc m)" "s * 10 ^ (Suc m - k) = n" by (simp_all add: m_def)
  obtain j where j: "Suc m = k + j" using k(2) le_Suc_ex by blast
  then have sn: "s * 10 ^ j = n" using c(2) by simp
  have s1: "1 \<le> s"
  proof (rule ccontr)
    assume "\<not> 1 \<le> s"
    then have "s * 10 ^ j \<le> 0" by (intro mult_nonpos_nonneg) simp_all
    then show False using sn n(1) by simp
  qed
  obtain i where i: "k = Suc i" using k(1) by (cases k) auto
  have "10 ^ i * 10 ^ j \<le> s * 10 ^ j" using m(1) j sn i by (simp add: power_add [symmetric])
  then have l1: "10 ^ i \<le> s" by simp
  have "s * 10 ^ j < 10 ^ k * 10 ^ j" using m(2) j sn by (simp add: power_add [symmetric])
  then have l2: "s < 10 ^ Suc i" using i by simp
  have len: "length (dec_str s) = k" using length_dec_str [OF l1 l2] i by simp
  have "pos_num_str (of_int n) = dec_str s @ zeros (int j)"
    using se c(1) len j m15 k(2) by (simp add: pos_num_str_def)
  also have "\<dots> = dec_str n" using dec_str_shift [OF s1, of j] sn by simp
  finally show ?thesis using n(1) by (simp add: num_str_def)
qed

subsection \<open>Base64url\<close>

definition b64_char :: "int \<Rightarrow> 16 word" where
  "b64_char d =
     (if d < 26 then of_int (65 + d) else if d < 52 then of_int (71 + d)
      else if d < 62 then of_int (d - 4) else if d = 62 then 45 else 95)"

definition b64_val :: "16 word \<Rightarrow> int option" where
  "b64_val u =
     (if 65 \<le> u \<and> u \<le> 90 then Some (uint u - 65)
      else if 97 \<le> u \<and> u \<le> 122 then Some (uint u - 71)
      else if 48 \<le> u \<and> u \<le> 57 then Some (uint u + 4)
      else if u = 45 \<or> u = 43 then Some 62 else if u = 95 \<or> u = 47 then Some 63 else None)"

fun sextets :: "bytes \<Rightarrow> int list" where
  "sextets [] = []"
| "sextets [a] = [uint a div 4, uint a mod 4 * 16]"
| "sextets [a, b] = [uint a div 4, uint a mod 4 * 16 + uint b div 16, uint b mod 16 * 4]"
| "sextets (a # b # c # r) =
     [uint a div 4, uint a mod 4 * 16 + uint b div 16, uint b mod 16 * 4 + uint c div 64, uint c mod 64] @ sextets r"

fun octets :: "int list \<Rightarrow> bytes" where
  "octets (p # q # r # s # t) =
     [of_int (p * 4 + q div 16), of_int (q mod 16 * 16 + r div 4), of_int (r mod 4 * 64 + s)] @ octets t"
| "octets [p, q, r] = [of_int (p * 4 + q div 16), of_int (q mod 16 * 16 + r div 4)]"
| "octets [p, q] = [of_int (p * 4 + q div 16)]"
| "octets _ = []"

definition base64url :: "bytes \<Rightarrow> jstr" where
  "base64url bs = map b64_char (sextets bs)"

text \<open>
  \<open>Buffer.from(s, 'base64url')\<close>: both alphabets, characters outside them are skipped, padding
  ends the text.
\<close>

definition from_base64url :: "jstr \<Rightarrow> bytes" where
  "from_base64url s = octets (List.map_filter b64_val (takeWhile (\<lambda>u. u \<noteq> 61) s))"

lemma hi_lo: "0 \<le> y \<Longrightarrow> y < k \<Longrightarrow> (x * k + y) div k = x" "0 \<le> y \<Longrightarrow> y < k \<Longrightarrow> (x * k + y) mod k = (y :: int)"
  by (simp_all add: add.commute [of "x * k"])

lemma sextet_range:
  "0 \<le> x \<Longrightarrow> x < 4 \<Longrightarrow> 0 \<le> y \<Longrightarrow> y < 16 \<Longrightarrow> 0 \<le> x * 16 + y \<and> x * 16 + y < (64 :: int)"
  "0 \<le> x \<Longrightarrow> x < 16 \<Longrightarrow> 0 \<le> y \<Longrightarrow> y < 4 \<Longrightarrow> 0 \<le> x * 4 + y \<and> x * 4 + y < (64 :: int)"
  by simp_all

lemma byte_parts:
  "0 \<le> uint (b :: 8 word) div 4 \<and> uint b div 4 < 64" "0 \<le> uint b div 16" "uint b div 16 < 16"
  "0 \<le> uint b div 64" "uint b div 64 < 4"
  using uint_lt2p [of b] by (simp_all add: pos_imp_zdiv_nonneg_iff div_less_iff_less_mult)

lemma low_bits:
  "0 \<le> x mod 4" "x mod 4 < (4 :: int)" "0 \<le> x mod 16" "x mod 16 < (16 :: int)" "0 \<le> x mod 64 \<and> x mod 64 < (64 :: int)"
  by simp_all

lemmas sextet_parts =
  byte_parts(1) low_bits(5)
  sextet_range(1) [OF low_bits(1,2) byte_parts(2,3)] sextet_range(2) [OF low_bits(3,4) byte_parts(4,5)]

lemma sextet_last:
  "0 \<le> uint (a :: 8 word) mod 4 * 16 \<and> uint a mod 4 * 16 < 64" "0 \<le> uint a mod 16 * 4 \<and> uint a mod 16 * 4 < 64"
  using sextet_range(1) [OF low_bits(1,2) order_refl, of "uint a"] sextet_range(2) [OF low_bits(3,4) order_refl, of "uint a"]
  by simp_all

lemma sextets_range: "list_all (\<lambda>d. 0 \<le> d \<and> d < 64) (sextets bs)"
proof (induction bs rule: sextets.induct)
  case (4 a b c r)
  then show ?case
    by (simp only: sextets.simps list.pred_inject append_Cons append_Nil sextet_parts simp_thms)
qed (simp_all only: sextets.simps list.pred_inject sextet_parts sextet_last simp_thms)

lemma octet:
  "uint a div 4 * 4 + (uint a mod 4 * 16 + uint (b :: 8 word) div 16) div 16 = uint a"
  "uint a div 4 * 4 + uint a mod 4 * 16 div 16 = uint a"
  "(uint a mod 4 * 16 + uint b div 16) mod 16 * 16 + (uint b mod 16 * 4 + uint (c :: 8 word) div 64) div 4 = uint b"
  "(uint a mod 4 * 16 + uint b div 16) mod 16 * 16 + uint b mod 16 * 4 div 4 = uint b"
  "(uint b mod 16 * 4 + uint c div 64) mod 4 * 64 + uint c mod 64 = uint c"
  by (simp_all only: hi_lo [OF byte_parts(2,3)] hi_lo [OF byte_parts(4,5)]) simp_all

lemma octets_sextets: "octets (sextets bs) = bs"
proof (induction bs rule: sextets.induct)
  case (4 a b c r)
  then show ?case
    by (simp only: sextets.simps octets.simps append_Cons append_Nil octet word_of_int_uint)
qed (simp_all only: sextets.simps octets.simps octet word_of_int_uint)

lemma b64_char_val: "0 \<le> d \<Longrightarrow> d < 64 \<Longrightarrow> b64_val (b64_char d) = Some d \<and> b64_char d \<noteq> 61"
proof -
  assume "0 \<le> d" "d < 64"
  then have "d \<in> set [0..63]" by simp
  moreover have "list_all (\<lambda>d. b64_val (b64_char d) = Some d \<and> b64_char d \<noteq> 61) [0..63]"
    by code_simp
  ultimately show ?thesis by (simp add: list_all_iff)
qed

lemma from_base64url_base64url [simp]: "from_base64url (base64url bs) = bs"
proof -
  have "List.map_filter b64_val (takeWhile (\<lambda>u. u \<noteq> 61) (map b64_char ds)) = ds"
    if "list_all (\<lambda>d. 0 \<le> d \<and> d < 64) ds" for ds
    using that by (induction ds) (auto simp: b64_char_val List.map_filter_simps)
  then show ?thesis
    by (simp add: from_base64url_def base64url_def sextets_range octets_sextets)
qed

subsection \<open>UTF-8 decoding\<close>

text \<open>How many continuation bytes a lead byte announces, and the range of the first.\<close>

definition utf8_need :: "8 word \<Rightarrow> nat" where
  "utf8_need b =
     (if 0xC2 \<le> b \<and> b \<le> 0xDF then 1 else if 0xE0 \<le> b \<and> b \<le> 0xEF then 2
      else if 0xF0 \<le> b \<and> b \<le> 0xF4 then 3 else 0)"

definition utf8_first :: "8 word \<Rightarrow> 8 word \<Rightarrow> bool" where
  "utf8_first b c =
     ((if b = 0xE0 then 0xA0 else if b = 0xF0 then 0x90 else 0x80) \<le> c
      \<and> c \<le> (if b = 0xED then 0x9F else if b = 0xF4 then 0x8F else 0xBF))"

definition utf8_conts :: "8 word \<Rightarrow> bytes \<Rightarrow> bytes" where
  "utf8_conts b bs = take (utf8_need b) (case bs of [] \<Rightarrow> [] | c # cs \<Rightarrow>
     if utf8_first b c then c # takeWhile (\<lambda>x. 0x80 \<le> x \<and> x \<le> 0xBF) cs else [])"

definition utf16 :: "int \<Rightarrow> jstr" where
  "utf16 c = (if c < 0x10000 then [of_int c]
     else [of_int (0xD800 + (c - 0x10000) div 0x400), of_int (0xDC00 + (c - 0x10000) mod 0x400)])"

text \<open>A malformed sequence gives one replacement character for its longest valid prefix.\<close>

definition utf8_step :: "8 word \<Rightarrow> bytes \<Rightarrow> jstr \<times> nat" where
  "utf8_step b bs =
     (if b < 0x80 then ([of_int (uint b)], 0)
      else let k = utf8_need b; cs = utf8_conts b bs
           in if k = 0 \<or> length cs < k then ([0xFFFD], length cs)
              else (utf16 (foldl (\<lambda>a c. a * 64 + uint c mod 64)
                     (if k = 1 then uint b mod 32 else if k = 2 then uint b mod 16 else uint b mod 8) cs), k))"

function utf8_decode :: "bytes \<Rightarrow> jstr" where
  "utf8_decode [] = []"
| "utf8_decode (b # bs) = (case utf8_step b bs of (us, n) \<Rightarrow> us @ utf8_decode (drop n bs))"
  by pat_completeness auto
termination by (relation "measure length") auto

lemma utf8_decode_ascii: "list_all (\<lambda>u. u < 0x80) s \<Longrightarrow> utf8_decode (map (\<lambda>u. of_int (uint u)) s) = s"
proof (induction s)
  case (Cons u s)
  then have u: "uint u < 128" by (simp add: word_less_def)
  then have "uint (of_int (uint u) :: 8 word) = uint u"
    unfolding uint_word_of_int by (intro mod_pos_pos_trivial) auto
  with u have "utf8_step (of_int (uint u)) bs = ([u], 0)" for bs
    by (simp add: utf8_step_def word_less_def)
  with Cons show ?case by simp
qed simp

subsection \<open>JSON.parse\<close>

definition json_ws :: "16 word \<Rightarrow> bool" where
  "json_ws u = (u = 32 \<or> u = 9 \<or> u = 10 \<or> u = 13)"

definition skip_ws :: "jstr \<Rightarrow> jstr" where
  "skip_ws s = dropWhile json_ws s"

definition hex4 :: "16 word \<Rightarrow> 16 word \<Rightarrow> 16 word \<Rightarrow> 16 word \<Rightarrow> 16 word option" where
  "hex4 a b c d =
     (case radix_val 16 0 [a, b, c, d] of None \<Rightarrow> None | Some n \<Rightarrow> Some (of_int n))"

definition simple_escape :: "16 word \<Rightarrow> 16 word option" where
  "simple_escape e =
     (if e = 34 \<or> e = 92 \<or> e = 47 then Some e else if e = 98 then Some 8 else if e = 102 then Some 12
      else if e = 110 then Some 10 else if e = 114 then Some 13 else if e = 116 then Some 9 else None)"

text \<open>The rest of a string literal after its opening quote.\<close>

fun parse_chars :: "jstr \<Rightarrow> (jstr \<times> jstr) option" where
  "parse_chars [] = None"
| "parse_chars (u # r) =
     (if u = 34 then Some ([], r)
      else if u = 92 then
        (case r of
           [] \<Rightarrow> None
         | e # r2 \<Rightarrow>
             if e = 117 then
               (case r2 of
                  a # b # c # d # r3 \<Rightarrow>
                    (case hex4 a b c d of None \<Rightarrow> None
                     | Some x \<Rightarrow> map_option (\<lambda>(s, t). (x # s, t)) (parse_chars r3))
                | _ \<Rightarrow> None)
             else
               (case simple_escape e of None \<Rightarrow> None
                | Some x \<Rightarrow> map_option (\<lambda>(s, t). (x # s, t)) (parse_chars r2)))
      else if u < 32 then None
      else map_option (\<lambda>(s, t). (u # s, t)) (parse_chars r))"

definition num_unit :: "16 word \<Rightarrow> bool" where
  "num_unit u = (is_digit u \<or> u = 43 \<or> u = 45 \<or> u = 46 \<or> u = 69 \<or> u = 101)"

definition json_number :: "jstr \<Rightarrow> jsnum option" where
  "json_number t =
     (let r0 = (if take 1 t = js ''-'' then drop 1 t else t);
          ip = takeWhile is_digit r0; r1 = dropWhile is_digit r0;
          fp = takeWhile is_digit (drop 1 r1)
      in if ip = [] \<or> (take 1 ip = js ''0'' \<and> ip \<noteq> js ''0'') then None
         else if take 1 r1 = js ''.'' then
           (if fp = [] \<or> exp_part (dropWhile is_digit (drop 1 r1)) = None then None else Some (js_number t))
         else if exp_part r1 = None then None else Some (js_number t))"

text \<open>
  Recursive descent; \<open>None\<close> is the \<open>SyntaxError\<close>.  Every nested call starts at least one
  character further on, so a fuel of twice the length plus one is never used up.
\<close>

fun parse_value :: "nat \<Rightarrow> jstr \<Rightarrow> (jsval \<times> jstr) option"
  and parse_elems :: "nat \<Rightarrow> jstr \<Rightarrow> (jsval list \<times> jstr) option"
  and parse_members :: "nat \<Rightarrow> (jstr \<times> jsval) list \<Rightarrow> jstr \<Rightarrow> ((jstr \<times> jsval) list \<times> jstr) option"
where
  "parse_value 0 s = None"
| "parse_value (Suc n) s0 =
     (let s = skip_ws s0 in
      case s of
        [] \<Rightarrow> None
      | u # r \<Rightarrow>
          if u = 34 then map_option (\<lambda>(x, t). (JStr x, t)) (parse_chars r)
          else if u = 91 then
            (if take 1 (skip_ws r) = js '']'' then Some (JArr [], drop 1 (skip_ws r))
             else map_option (\<lambda>(x, t). (JArr x, t)) (parse_elems n r))
          else if u = 123 then
            (if take 1 (skip_ws r) = [125] then Some (JObj [], drop 1 (skip_ws r))
             else map_option (\<lambda>(x, t). (JObj x, t)) (parse_members n [] r))
          else if take 4 s = js ''true'' then Some (JBool True, drop 4 s)
          else if take 5 s = js ''false'' then Some (JBool False, drop 5 s)
          else if take 4 s = js ''null'' then Some (JNull, drop 4 s)
          else map_option (\<lambda>x. (JNum x, dropWhile num_unit s)) (json_number (takeWhile num_unit s)))"
| "parse_elems 0 s = None"
| "parse_elems (Suc n) s =
     (case parse_value n s of
        None \<Rightarrow> None
      | Some (v, t) \<Rightarrow>
          (case skip_ws t of
             [] \<Rightarrow> None
           | u # r \<Rightarrow>
               if u = 44 then map_option (\<lambda>(vs, t). (v # vs, t)) (parse_elems n r)
               else if u = 93 then Some ([v], r) else None))"
| "parse_members 0 ms s = None"
| "parse_members (Suc n) ms s =
     (case skip_ws s of
        [] \<Rightarrow> None
      | q # r \<Rightarrow>
          if q \<noteq> 34 then None
          else (case parse_chars r of
             None \<Rightarrow> None
           | Some (k, t) \<Rightarrow>
               (case skip_ws t of
                  [] \<Rightarrow> None
                | c # t2 \<Rightarrow>
                    if c \<noteq> 58 then None
                    else (case parse_value n t2 of
                       None \<Rightarrow> None
                     | Some (v, t3) \<Rightarrow>
                         (case skip_ws t3 of
                            [] \<Rightarrow> None
                          | u # t4 \<Rightarrow>
                              if u = 44 then parse_members n (AList.update k v ms) t4
                              else if u = 125 then Some (AList.update k v ms, t4) else None)))))"

definition json_parse :: "jstr \<Rightarrow> jsval option" where
  "json_parse s =
     (case parse_value (2 * length s + 1) s of
        None \<Rightarrow> None
      | Some (v, t) \<Rightarrow> if skip_ws t = [] then Some v else None)"

end
