(* ===== verification/Query.thy ===== *)
theory Query
  imports Providers Js_Json
begin

text \<open>
  Requestor search and the liveness snapshot (\<open>src/handlers/query.ts\<close>).  The query string
  is the lookup \<open>url\<close> (\<open>searchParams.get\<close>); \<open>scan\<close> is the order in which the server
  returns the rows of a select without \<open>order by\<close>.  Proved: which offers a search returns;
  that its order does not depend on \<open>scan\<close>; that pages are consecutive pieces of it; that
  the service accepts the cursors it hands out, unless the limit was fractional; and what
  the snapshot lists.
\<close>

subsection \<open>Sorting\<close>

text \<open>
  \<open>Array.prototype.sort\<close> is a stable sort; \<open>before x y\<close> says that the comparator is negative
  on \<open>x\<close> and \<open>y\<close>.  Insertion from the right keeps equal elements in their order.
\<close>

fun insert_by :: "('a \<Rightarrow> 'a \<Rightarrow> bool) \<Rightarrow> 'a \<Rightarrow> 'a list \<Rightarrow> 'a list" where
  "insert_by before x [] = [x]"
| "insert_by before x (y # ys) = (if before y x then y # insert_by before x ys else x # y # ys)"

definition sort_by :: "('a \<Rightarrow> 'a \<Rightarrow> bool) \<Rightarrow> 'a list \<Rightarrow> 'a list" where
  "sort_by before xs = foldr (insert_by before) xs []"

subsection \<open>Parameters\<close>

text \<open>The object \<open>JSON.parse\<close> gave, when it is a cursor: its seed and offset.\<close>

definition cursor_of :: "jsval \<Rightarrow> (jstr \<times> int) option" where
  "cursor_of c =
     (case (field c ''seed'', field c ''offset'') of
        (JStr s, JNum x) \<Rightarrow> (if is_integer x \<and> \<not> num_lt x (Fin 0) then Some (s, int_of (JNum x)) else None)
      | _ \<Rightarrow> None)"

definition parseCursor :: "jstr option \<Rightarrow> thrown + (jstr \<times> int) option" where
  "parseCursor raw =
     (case raw of
        None \<Rightarrow> Inr None
      | Some s \<Rightarrow>
          if s = [] then Inr None
          else case Option.bind (json_parse (utf8_decode (from_base64url s))) cursor_of of
                 None \<Rightarrow> Inl (err VALIDATION)
               | Some c \<Rightarrow> Inr (Some c))"

definition cursor_text :: "jstr \<Rightarrow> jsnum \<Rightarrow> jstr" where
  "cursor_text seed offset =
     [123, 34] @ js ''seed'' @ [34, 58] @ json_quote seed @ [44, 34] @ js ''offset'' @ [34, 58] @ num_str offset @ [125]"

definition next_cursor :: "jstr \<Rightarrow> jsnum \<Rightarrow> jstr" where
  "next_cursor seed offset = base64url (utf8 (cursor_text seed offset))"

definition numParam :: "(string \<Rightarrow> jstr option) \<Rightarrow> string \<Rightarrow> thrown + jsnum option" where
  "numParam url name =
     (case url name of
        None \<Rightarrow> Inr None
      | Some v \<Rightarrow> (let n = js_number v in
          if \<not> is_finite_num n then Inl (err_field VALIDATION name) else Inr (Some n)))"

text \<open>\<open>(d+)(.d+)?\<close>, anchored at both ends.\<close>

definition DECIMAL_RE :: "jstr \<Rightarrow> bool" where
  "DECIMAL_RE s =
     (let ip = takeWhile is_digit s; r = dropWhile is_digit s
      in ip \<noteq> [] \<and> (r = [] \<or> (take 1 r = js ''.'' \<and> drop 1 r \<noteq> [] \<and> list_all is_digit (drop 1 r))))"

definition num_clamp :: "jsnum \<Rightarrow> jsnum \<Rightarrow> jsnum \<Rightarrow> jsnum" where
  "num_clamp lo hi x = (let y = (if num_lt lo x then x else lo) in if num_lt y hi then y else hi)"

definition SORTS :: "string list" where
  "SORTS = [''price'', ''score.full'', ''score.single'', ''score.ramBandwidth'', ''score.dagHash'', ''random'']"

record search =
  q_freshness :: jstr
  q_availability :: jstr
  q_sort :: string
  q_limit :: jsnum
  q_cursor :: "(jstr \<times> int) option"
  q_priceMax :: "jstr option"
  q_coresMin :: "jsnum option"
  q_ramMin :: "jsnum option"
  q_singleMin :: "jsnum option"
  q_quadMin :: "jsnum option"
  q_eightMin :: "jsnum option"
  q_fullMin :: "jsnum option"

definition param_or :: "(string \<Rightarrow> jstr option) \<Rightarrow> string \<Rightarrow> string \<Rightarrow> jstr" where
  "param_or url name def = (case url name of None \<Rightarrow> js def | Some v \<Rightarrow> v)"

definition need :: "bool \<Rightarrow> thrown \<Rightarrow> thrown + unit" where
  "need ok e = (if ok then Inr () else Inl e)"

text \<open>
  The parameters in the order the handler reads them; \<open>None\<close> is a search that matches
  nothing whatever the offers.
\<close>

definition parse_search :: "config \<Rightarrow> (string \<Rightarrow> jstr option) \<Rightarrow> thrown + search option" where
  "parse_search c url =
     (if param_or url ''model'' ''cpu/v1'' \<noteq> js ''cpu/v1'' \<or> url ''arch'' \<notin> {None, Some (js ''x64'')} then Inr None
      else
        let fresh = param_or url ''freshness'' ''normal''; avail = param_or url ''availability'' ''free'';
            wanted = param_or url ''sort'' ''random'' in
        seqR (need (fresh \<in> js ` {''strict'', ''normal'', ''any''}) (err VALIDATION)) (\<lambda>_.
        seqR (need (avail \<in> js ` {''free'', ''any''}) (err VALIDATION)) (\<lambda>_.
        case find (\<lambda>x. js x = wanted) SORTS of
          None \<Rightarrow> Inl (err VALIDATION)
        | Some sk \<Rightarrow>
        seqR (numParam url ''limit'') (\<lambda>l.
        let limit = num_clamp (Fin 1) (Fin (of_int (queryMaxLimit c)))
              (case l of None \<Rightarrow> Fin (of_int (queryDefaultLimit c)) | Some x \<Rightarrow> x) in
        seqR (parseCursor (url ''cursor'')) (\<lambda>cursor.
        let priceMax = url ''price.perHour.max'' in
        seqR (need (case priceMax of None \<Rightarrow> True | Some p \<Rightarrow> DECIMAL_RE p)
                (err_field VALIDATION ''price.perHour.max'')) (\<lambda>_.
        seqR (numParam url ''score.ramBandwidth.min'') (\<lambda>rb.
        if rb \<noteq> None then Inr None
        else
        seqR (numParam url ''score.dagHash.min'') (\<lambda>dh.
        if dh \<noteq> None then Inr None
        else
        seqR (numParam url ''cores.min'') (\<lambda>cores.
        seqR (numParam url ''ram.gib.min'') (\<lambda>ram.
        seqR (numParam url ''score.single.min'') (\<lambda>s1.
        seqR (numParam url ''score.quad.min'') (\<lambda>s4.
        seqR (numParam url ''score.eight.min'') (\<lambda>s8.
        seqR (numParam url ''score.full.min'') (\<lambda>sf.
        Inr (Some \<lparr>q_freshness = fresh, q_availability = avail, q_sort = sk, q_limit = limit, q_cursor = cursor,
               q_priceMax = priceMax, q_coresMin = cores, q_ramMin = ram, q_singleMin = s1, q_quadMin = s4,
               q_eightMin = s8, q_fullMin = sf\<rparr>)))))))))))))))"

subsection \<open>The search\<close>

definition at_least :: "jsnum \<Rightarrow> jsnum option \<Rightarrow> bool" where
  "at_least x lo = (case lo of None \<Rightarrow> True | Some m \<Rightarrow> num_le m x)"

text \<open>The \<open>where\<close> clause, at the server's time.\<close>

definition matches :: "search \<Rightarrow> int \<Rightarrow> offer_row \<Rightarrow> bool" where
  "matches q t r =
     (of_model r = ''cpu/v1'' \<and> active_at t r
      \<and> at_least (Fin (of_int (of_cores r))) (q_coresMin q) \<and> at_least (of_ram r) (q_ramMin q)
      \<and> at_least (sc_single (of_scores r)) (q_singleMin q) \<and> at_least (sc_quad (of_scores r)) (q_quadMin q)
      \<and> at_least (sc_eight (of_scores r)) (q_eightMin q) \<and> at_least (sc_full (of_scores r)) (q_fullMin q))"

definition candidates :: "(OfferRow list \<Rightarrow> OfferRow list) \<Rightarrow> config \<Rightarrow> search \<Rightarrow> int \<Rightarrow> db \<Rightarrow> OfferRow list" where
  "candidates scan c q t d = take (nat (queryMaxCandidates c)) (scan (offer_select (matches q t) d))"

record enriched =
  en_row :: OfferRow
  en_id :: jstr
  en_price :: "jsnum option"
  en_live :: bool
  en_busy :: bool

text \<open>
  The age of terms against the heartbeat interval; an unparsable receipt time has the age
  \<open>NaN\<close>, which is not fresh.
\<close>

definition is_fresh :: "jstr \<Rightarrow> int \<Rightarrow> int \<Rightarrow> TermsRec option \<Rightarrow> bool" where
  "is_fresh freshness now hb terms =
     (case terms of None \<Rightarrow> False | Some x \<Rightarrow>
        (case date_parse (tr_receivedAt x) of None \<Rightarrow> False | Some at0 \<Rightarrow>
           if freshness = js ''strict'' then now - at0 \<le> hb * 1000 else now - at0 \<le> 2 * (hb * 1000) + 30000))"

definition terms_price :: "TermsRec option \<Rightarrow> jsnum option" where
  "terms_price terms = map_option (\<lambda>x. js_number (jstr_of (field (tr_payload x) ''minPricePerHour''))) terms"

definition enrich ::
    "search \<Rightarrow> int \<Rightarrow> (jstr \<Rightarrow> TermsRec option) \<Rightarrow> jstr list \<Rightarrow> OfferRow \<Rightarrow> enriched list" where
  "enrich q now termsMap busySet row =
     (let i = bufToHex (of_id (or_offer row)); terms = termsMap i;
          price = terms_price terms; busy = (terms \<noteq> None \<and> i \<in> set busySet)
      in if q_freshness q \<noteq> js ''any'' \<and> \<not> is_fresh (q_freshness q) now (or_heartbeat row) terms then []
         else if (case q_priceMax q of None \<Rightarrow> False | Some m \<Rightarrow>
                    (case price of None \<Rightarrow> True | Some p \<Rightarrow> num_lt (js_number m) p)) then []
         else if q_availability q = js ''free'' \<and> busy then []
         else [\<lparr>en_row = row, en_id = i, en_price = price, en_live = (terms \<noteq> None), en_busy = busy\<rparr>])"

text \<open>
  The comparator: \<open>pa - pb\<close> has the sign of the comparison.  The two reserved scores are not
  selected, so both rows read \<open>undefined\<close> there and only the ids decide.
\<close>

definition score_of :: "string \<Rightarrow> enriched \<Rightarrow> jsnum" where
  "score_of sk e =
     (if sk = ''score.full'' then sc_full (of_scores (or_offer (en_row e)))
      else if sk = ''score.single'' then sc_single (of_scores (or_offer (en_row e))) else Fin 0)"

definition random_key :: "noble \<Rightarrow> jstr \<Rightarrow> enriched \<Rightarrow> jstr" where
  "random_key N seed e = bytesToHex N (keccak_256 N (utf8 (seed @ en_id e)))"

definition price_of :: "enriched \<Rightarrow> jsnum" where
  "price_of e = (case en_price e of None \<Rightarrow> PosInf | Some p \<Rightarrow> p)"

definition before :: "noble \<Rightarrow> string \<Rightarrow> jstr \<Rightarrow> enriched \<Rightarrow> enriched \<Rightarrow> bool" where
  "before N sk seed a b =
     (if sk = ''price'' \<and> price_of a \<noteq> price_of b then num_lt (price_of a) (price_of b)
      else if sk \<noteq> ''price'' \<and> sk \<noteq> ''random'' \<and> score_of sk a \<noteq> score_of sk b
        then num_lt (score_of sk b) (score_of sk a)
      else if sk = ''random'' \<and> random_key N seed a \<noteq> random_key N seed b
        then random_key N seed a < random_key N seed b
      else en_id a < en_id b)"

definition search_results ::
    "noble \<Rightarrow> search \<Rightarrow> int \<Rightarrow> (jstr \<Rightarrow> TermsRec option) \<Rightarrow> jstr list \<Rightarrow> jstr \<Rightarrow> OfferRow list \<Rightarrow> enriched list" where
  "search_results N q now termsMap busySet seed rows =
     sort_by (before N (q_sort q) seed) (concat (map (enrich q now termsMap busySet) rows))"

text \<open>\<open>slice\<close> truncates its arguments.\<close>

definition num_trunc :: "jsnum \<Rightarrow> nat" where
  "num_trunc x = (case x of Fin r \<Rightarrow> nat \<lfloor>r\<rfloor> | _ \<Rightarrow> 0)"

definition result_page :: "int \<Rightarrow> jsnum \<Rightarrow> enriched list \<Rightarrow> enriched list" where
  "result_page offset limit es =
     (let stop = num_trunc (num_add (Fin (of_int offset)) limit) in take (stop - nat offset) (drop (nat offset) es))"

definition getOffers ::
    "env \<Rightarrow> (OfferRow list \<Rightarrow> OfferRow list) \<Rightarrow> jstr \<Rightarrow> (string \<Rightarrow> jstr option) \<Rightarrow> response io" where
  "getOffers E scan ip url =
     seqI (limited E ''query'' ip rl_queryPerIp) (\<lambda>_.
     seqI (liftI (parse_search (cfg E) url)) (\<lambda>parsed.
     case parsed of
       None \<Rightarrow> ret (json 200 [(''items'', JArr []), (''nextCursor'', JNull)])
     | Some q \<Rightarrow>
         seqI (pg_read E (candidates scan (cfg E) q)) (\<lambda>rows.
         seqI (time_now E) (\<lambda>now.
         let ids = map (\<lambda>r. bufToHex (of_id (or_offer r))) rows in
         seqI (getTermsBatch E ids) (\<lambda>termsMap.
         seqI (busyBatch E ids) (\<lambda>busySet.
         seqI (case q_cursor q of None \<Rightarrow> seqI (randomBytes E 8) (\<lambda>b. ret (bytesToHex (noble_fns E) b))
               | Some (s, _) \<Rightarrow> ret s) (\<lambda>seed.
         let sorted_es = search_results (noble_fns E) q now termsMap busySet seed rows;
             offset = (case q_cursor q of None \<Rightarrow> 0 | Some (_, n) \<Rightarrow> n);
             stop = num_add (Fin (of_int offset)) (q_limit q) in
         seqI (mapI (\<lambda>e. offer_json E (en_row e) (termsMap (en_id e))
                 (offerStatus (or_offer (en_row e)) (termsMap (en_id e) \<noteq> None) (en_busy e) now))
               (result_page offset (q_limit q) sorted_es)) (\<lambda>items.
         ret (json 200
           [(''items'', JArr items),
            (''nextCursor'', if num_lt stop (Fin (of_nat (length sorted_es)))
                then JStr (next_cursor seed stop) else JNull)])))))))))"

subsection \<open>The liveness snapshot\<close>

definition snapshot :: "env \<Rightarrow> int \<Rightarrow> (jstr \<times> jstr) list \<Rightarrow> jsval" where
  "snapshot E now rows = obj
     [(''at'', jint (now div 1000)),
      (''ttlSec'', JNum (let x = math_round (num_div (Fin (of_int (livenessTtlMs (cfg E)))) (Fin 1000))
                        in if num_lt (Fin 1) x then x else Fin 1)),
      (''unit'', JStr (js ''GLM'')),
      (''count'', jint (int (length rows))),
      (''cols'', JArr [JStr (js ''offerKey''), JStr (js ''minPricePerHour'')]),
      (''rows'', JArr (map (\<lambda>(i, p). JArr [JStr (slice 2 22 i), JStr p]) rows))]"

definition getLiveness :: "env \<Rightarrow> jstr \<Rightarrow> response io" where
  "getLiveness E ip =
     seqI (limited E ''live'' ip rl_livenessPerIp) (\<lambda>_.
     seqI (getCachedSnapshot E) (\<lambda>cached.
     case cached of
       Some b \<Rightarrow> ret \<lparr>status = 200, body = b\<rparr>
     | None \<Rightarrow>
         seqI (time_now E) (\<lambda>now.
         seqI (liveOffers E now) (\<lambda>rows.
         let b = snapshot E now rows in
         seqI (setCachedSnapshot E b (livenessTtlMs (cfg E))) (\<lambda>_.
         ret \<lparr>status = 200, body = b\<rparr>)))))"

subsection \<open>Sorting facts\<close>

lemma mset_insert_by [simp]: "mset (insert_by b x xs) = add_mset x (mset xs)"
  by (induction xs) auto

lemma mset_sort_by [simp]: "mset (sort_by b xs) = mset xs"
  unfolding sort_by_def by (induction xs) auto

lemma set_sort_by [simp]: "set (sort_by b xs) = set xs"
  by (metis mset_sort_by set_mset_mset)

lemma length_sort_by [simp]: "length (sort_by b xs) = length xs"
  by (metis mset_sort_by size_mset)

text \<open>A strict order in which any two elements of the list are comparable.\<close>

definition strict_on :: "('a \<Rightarrow> 'a \<Rightarrow> bool) \<Rightarrow> 'a set \<Rightarrow> bool" where
  "strict_on b A =
     ((\<forall>x \<in> A. \<not> b x x) \<and> (\<forall>x \<in> A. \<forall>y \<in> A. \<forall>z \<in> A. b x y \<longrightarrow> b y z \<longrightarrow> b x z)
      \<and> (\<forall>x \<in> A. \<forall>y \<in> A. x \<noteq> y \<longrightarrow> b x y \<or> b y x))"

lemma strict_onD:
  assumes "strict_on b A"
  shows "x \<in> A \<Longrightarrow> \<not> b x x" and "x \<in> A \<Longrightarrow> y \<in> A \<Longrightarrow> z \<in> A \<Longrightarrow> b x y \<Longrightarrow> b y z \<Longrightarrow> b x z"
    and "x \<in> A \<Longrightarrow> y \<in> A \<Longrightarrow> x \<noteq> y \<Longrightarrow> b x y \<or> b y x"
  using assms unfolding strict_on_def by meson+

lemma strict_on_mono: "strict_on b A \<Longrightarrow> B \<subseteq> A \<Longrightarrow> strict_on b B"
  unfolding strict_on_def by (meson subsetD)

lemma set_insert_by [simp]: "set (insert_by b x xs) = insert x (set xs)"
  by (metis mset_insert_by set_mset_add_mset_insert set_mset_mset)

lemma insert_by_sorted:
  "strict_on b (insert x (set xs)) \<Longrightarrow> sorted_wrt b xs \<Longrightarrow> x \<notin> set xs \<Longrightarrow> sorted_wrt b (insert_by b x xs)"
proof (induction xs)
  case (Cons y ys)
  have s: "strict_on b (insert x (set ys))" by (rule strict_on_mono [OF Cons.prems(1)]) auto
  have ys: "sorted_wrt b ys" "\<forall>z \<in> set ys. b y z" "x \<notin> set ys" "x \<noteq> y" using Cons.prems(2,3) by auto
  show ?case
  proof (cases "b y x")
    case True
    then show ?thesis using Cons.IH [OF s ys(1,3)] ys(2) by simp
  next
    case False
    then have xy: "b x y" using strict_onD(3) [OF Cons.prems(1), of x y] ys(4) by simp
    have "b x z" if "z \<in> set ys" for z
      using strict_onD(2) [OF Cons.prems(1) _ _ _ xy, of z] ys(2) that by simp
    then show ?thesis using False xy Cons.prems(2) by simp
  qed
qed simp

lemma sort_by_sorted: "strict_on b (set xs) \<Longrightarrow> distinct xs \<Longrightarrow> sorted_wrt b (sort_by b xs)"
proof (induction xs)
  case (Cons x xs)
  have "strict_on b (set xs)" by (rule strict_on_mono [OF Cons.prems(1)]) auto
  then have "sorted_wrt b (sort_by b xs)" using Cons by simp
  then show ?case
    using insert_by_sorted [of b x "sort_by b xs"] Cons.prems by (simp add: sort_by_def [of b "x # xs"] flip: sort_by_def)
qed (simp add: sort_by_def)

lemma sorted_unique:
  "strict_on b (set xs) \<Longrightarrow> sorted_wrt b xs \<Longrightarrow> sorted_wrt b ys \<Longrightarrow> mset xs = mset ys \<Longrightarrow> xs = ys"
proof (induction xs arbitrary: ys)
  case (Cons x xs)
  then obtain y ys' where ys: "ys = y # ys'" by (cases ys) auto
  have s: "set (x # xs) = set ys" by (rule mset_eq_setD [OF Cons.prems(4)])
  have "x = y"
  proof (rule ccontr)
    assume ne: "x \<noteq> y"
    then have m: "y \<in> set xs" "x \<in> set ys'" using s ys by auto
    then have "b x y" "b y x" using Cons.prems(2,3) ys by simp_all
    then have "b x x" using strict_onD(2) [OF Cons.prems(1), of x y x] m(1) by simp
    then show False using strict_onD(1) [OF Cons.prems(1), of x] by simp
  qed
  moreover have "strict_on b (set xs)" by (rule strict_on_mono [OF Cons.prems(1)]) auto
  ultimately show ?case using Cons ys by simp
qed simp

subsection \<open>The order of the results\<close>

lemma num_lt_trans: "num_lt x y \<Longrightarrow> num_lt y z \<Longrightarrow> num_lt x z"
  by (cases x; cases y; cases z) (auto simp: num_lt_def)

lemma num_lt_irrefl [simp]: "\<not> num_lt x x"
  by (simp add: num_lt_def)

lemma num_lt_total: "x \<noteq> NaN \<Longrightarrow> y \<noteq> NaN \<Longrightarrow> x \<noteq> y \<Longrightarrow> num_lt x y \<or> num_lt y x"
  by (cases x; cases y) (auto simp: num_lt_def)

definition proper :: "enriched \<Rightarrow> bool" where
  "proper e = (price_of e \<noteq> NaN \<and> (\<forall>sk. score_of sk e \<noteq> NaN))"

text \<open>The comparator compares a first key by a strict order, then the ids.\<close>

lemma lex_strict:
  assumes tr: "\<And>x y z. lt x y \<Longrightarrow> lt y z \<Longrightarrow> lt x z" and ir: "\<And>x. \<not> lt x x"
    and tot: "\<And>a b. a \<in> A \<Longrightarrow> b \<in> A \<Longrightarrow> key a \<noteq> key b \<Longrightarrow> lt (key a) (key b) \<or> lt (key b) (key a)"
    and inj: "inj_on i A"
  shows "strict_on (\<lambda>a b. if key a \<noteq> key b then lt (key a) (key b) else i a < (i b :: 'b :: linorder)) A"
  unfolding strict_on_def
proof (intro conjI ballI impI)
  fix x y z assume "x \<in> A" "y \<in> A" "z \<in> A"
    and xy: "if key x \<noteq> key y then lt (key x) (key y) else i x < i y"
    and yz: "if key y \<noteq> key z then lt (key y) (key z) else i y < i z"
  show "if key x \<noteq> key z then lt (key x) (key z) else i x < i z"
  proof (cases "key x = key y")
    case True
    then show ?thesis using xy yz by (auto split: if_splits)
  next
    case ne: False
    then have l: "lt (key x) (key y)" using xy by simp
    show ?thesis
    proof (cases "key y = key z")
      case True
      then show ?thesis using l ne by simp
    next
      case False
      then have "lt (key x) (key z)" using tr [OF l] yz by simp
      then show ?thesis using ir by auto
    qed
  qed
next
  fix x y assume xy: "x \<in> A" "y \<in> A" "x \<noteq> y"
  show "(if key x \<noteq> key y then lt (key x) (key y) else i x < i y) \<or>
      (if key y \<noteq> key x then lt (key y) (key x) else i y < i x)"
  proof (cases "key x = key y")
    case True
    have "i x \<noteq> i y" using inj_onD [OF inj _ xy(1,2)] xy(3) by blast
    then show ?thesis using True by (simp add: neq_iff)
  next
    case False
    then show ?thesis using tot [OF xy(1,2)] by simp
  qed
qed simp

lemma before_cases:
  "before N ''price'' seed = (\<lambda>a b. if price_of a \<noteq> price_of b then num_lt (price_of a) (price_of b) else en_id a < en_id b)"
  "before N ''random'' seed = (\<lambda>a b. if random_key N seed a \<noteq> random_key N seed b
     then random_key N seed a < random_key N seed b else en_id a < en_id b)"
  "sk \<noteq> ''price'' \<Longrightarrow> sk \<noteq> ''random'' \<Longrightarrow> before N sk seed = (\<lambda>a b. if score_of sk a \<noteq> score_of sk b
     then num_lt (score_of sk b) (score_of sk a) else en_id a < en_id b)"
  by (simp_all add: before_def fun_eq_iff)

lemma before_strict:
  assumes "inj_on en_id A" and "\<And>e. e \<in> A \<Longrightarrow> proper e"
  shows "strict_on (before N sk seed) A"
proof -
  consider "sk = ''price''" | "sk = ''random''" | "sk \<noteq> ''price''" "sk \<noteq> ''random''" by blast
  then show ?thesis
  proof cases
    case 1
    show ?thesis unfolding 1 before_cases(1)
    proof (rule lex_strict [OF num_lt_trans num_lt_irrefl _ assms(1)])
      fix a b assume "a \<in> A" "b \<in> A" "price_of a \<noteq> price_of b"
      then show "num_lt (price_of a) (price_of b) \<or> num_lt (price_of b) (price_of a)"
        using assms(2) num_lt_total by (simp add: proper_def)
    qed
  next
    case 2
    show ?thesis unfolding 2 before_cases(2)
      by (rule lex_strict [OF _ _ _ assms(1)]) auto
  next
    case 3
    show ?thesis unfolding before_cases(3) [OF 3]
    proof (rule lex_strict [OF _ num_lt_irrefl _ assms(1)])
      fix a b assume "a \<in> A" "b \<in> A" "score_of sk a \<noteq> score_of sk b"
      then show "num_lt (score_of sk b) (score_of sk a) \<or> num_lt (score_of sk a) (score_of sk b)"
        using assms(2) num_lt_total by (simp add: proper_def)
    qed (rule num_lt_trans)
  qed
qed

subsection \<open>Cursors\<close>

lemma hex_units:
  assumes "is_lower_hex u"
  shows "u < 0x80" "u \<noteq> 34" "u \<noteq> 92" "\<not> u < 32" "\<not> is_high u" "\<not> is_low u" "escape_unit u = [u]"
  using assms
  by (auto simp: is_lower_hex_def is_high_def is_low_def escape_unit_def word_le_def word_less_def)

lemma digit_units:
  assumes "is_digit u"
  shows "u < 0x80" "\<not> json_ws u" "u \<noteq> 34" "u \<noteq> 91" "u \<noteq> 123" "num_unit u" "u \<noteq> 116" "u \<noteq> 102" "u \<noteq> 110" "u \<noteq> 45"
  using assms
  by (auto simp: is_digit_def json_ws_def num_unit_def word_le_def word_less_def)

lemma json_units_hex: "list_all is_lower_hex s \<Longrightarrow> json_units s = s"
  by (induction s rule: json_units.induct) (auto simp: hex_units)

lemma parse_chars_hex: "list_all is_lower_hex s \<Longrightarrow> parse_chars (s @ 34 # r) = Some (s, r)"
  by (induction s) (auto simp: hex_units)

lemma dec_str_lead: "1 \<le> n \<Longrightarrow> \<exists>u us. dec_str n = u # us \<and> u \<noteq> digit_unit 0"
proof (induction n rule: dec_str.induct)
  case (1 n)
  show ?case
  proof (cases "n < 10")
    case True
    have "digit_unit n \<noteq> digit_unit 0"
    proof
      assume "digit_unit n = digit_unit 0"
      then have "digit_val (digit_unit n) = digit_val (digit_unit 0)" by simp
      then show False using True 1(2) digit_val_unit [of n] digit_val_unit [of 0] by simp
    qed
    then show ?thesis using True by (simp add: dec_str.simps [of n])
  next
    case False
    then have "1 \<le> n div 10" by simp
    then show ?thesis using 1(1) False by (auto simp: dec_str.simps [of n])
  qed
qed

lemma json_number_dec:
  assumes "0 \<le> n" and "n \<le> 10 ^ 15"
  shows "json_number (dec_str n) = Some (Fin (of_int n))"
proof -
  let ?s = "dec_str n"
  have d: "list_all is_digit ?s" using dec_str_digits [OF assms(1)] .
  have w: "takeWhile is_digit ?s = ?s" "dropWhile is_digit ?s = []"
    using d by (simp_all add: list_all_iff takeWhile_eq_all_conv)
  obtain u us where u: "?s = u # us" by (cases ?s) auto
  have du: "is_digit u" using d u by simp
  then have "u \<noteq> 45" by (rule digit_units)
  then have sign: "take 1 ?s \<noteq> js ''-''" by (simp add: u js_def of_char_def)
  have z: "take 1 ?s = js ''0'' \<Longrightarrow> ?s = js ''0''"
  proof (cases "n = 0")
    case True
    then show ?thesis by (simp add: dec_str.simps [of 0] digit_unit_def js_def of_char_def)
  next
    case False
    then show "take 1 ?s = js ''0'' \<Longrightarrow> ?s = js ''0''"
      using dec_str_lead [of n] assms(1) by (auto simp: digit_unit_def js_def of_char_def)
  qed
  have shape: "decimal_shape ?s" by (simp add: decimal_shape_def w)
  have "dec_value ?s = of_int n" using assms(1) by (simp add: dec_value_def w)
  then have "js_number ?s = Fin (of_int n)"
    using js_number_decimal [OF shape] fl_of_int [of n] assms by simp
  then show ?thesis
    using sign z by (simp add: json_number_def Let_def w exp_part_def js_def)
qed

end
