(* ===== verification/Search.thy ===== *)
theory Search
  imports Query
begin

text \<open>
  Properties of \<open>src/handlers/query.ts\<close>: which offers a search returns, that its order does
  not depend on the database's, that pages are consecutive pieces of it, that the service
  accepts the cursors it hands out unless the limit was fractional, and that polls share
  one liveness snapshot.
\<close>

subsection \<open>What a search returns\<close>

lemma enrich_set:
  "e \<in> set (enrich q now tm busy row) \<longleftrightarrow>
     (let i = bufToHex (of_id (or_offer row)) in
       e = \<lparr>en_row = row, en_id = i, en_price = terms_price (tm i), en_live = (tm i \<noteq> None),
             en_busy = (tm i \<noteq> None \<and> i \<in> set busy)\<rparr>
       \<and> (q_freshness q = js ''any'' \<or> is_fresh (q_freshness q) now (or_heartbeat row) (tm i))
       \<and> (\<forall>m. q_priceMax q = Some m \<longrightarrow> (\<exists>p. terms_price (tm i) = Some p \<and> \<not> num_lt (js_number m) p))
       \<and> \<not> (q_availability q = js ''free'' \<and> tm i \<noteq> None \<and> i \<in> set busy))"
  by (auto simp: enrich_def Let_def split: option.splits)

lemma enrich_id: "e \<in> set (enrich q now tm busy row) \<Longrightarrow>
    en_id e = bufToHex (of_id (or_offer row)) \<and> en_row e = row \<and> en_price e = terms_price (tm (en_id e))"
  by (auto simp: enrich_set Let_def)

lemma mset_concat_map: "mset (concat (map f xs)) = \<Sum>\<^sub># (image_mset (\<lambda>x. mset (f x)) (mset xs))"
  by (induction xs) simp_all

lemma enrich_ids: "map en_id (concat (map (enrich q now tm busy) rows)) =
    map (bufToHex \<circ> of_id \<circ> or_offer) (filter (\<lambda>r. enrich q now tm busy r \<noteq> []) rows)"
  by (induction rows) (auto simp: enrich_def Let_def)

lemma results_proper:
  assumes "distinct (map (of_id \<circ> or_offer) rows)"
    and "\<And>r sk. r \<in> set rows \<Longrightarrow> sc_single (of_scores (or_offer r)) \<noteq> NaN \<and> sc_full (of_scores (or_offer r)) \<noteq> NaN"
    and "\<And>i. terms_price (tm i) \<noteq> Some NaN"
  shows "distinct (map en_id (concat (map (enrich q now tm busy) rows)))"
    "e \<in> set (concat (map (enrich q now tm busy) rows)) \<Longrightarrow> proper e"
proof -
  have "distinct (map bufToHex (map (of_id \<circ> or_offer) (filter P rows)))" for P
  proof -
    have "distinct (map (of_id \<circ> or_offer) (filter P rows))"
      using assms(1) by (rule distinct_map_filter)
    then show ?thesis unfolding distinct_map [of bufToHex] by (simp add: inj_on_def)
  qed
  then show "distinct (map en_id (concat (map (enrich q now tm busy) rows)))"
    by (simp only: enrich_ids map_map comp_assoc)
  assume "e \<in> set (concat (map (enrich q now tm busy) rows))"
  then obtain r where r: "r \<in> set rows" "e \<in> set (enrich q now tm busy r)" by auto
  from enrich_id [OF r(2)] assms(2) [OF r(1)] assms(3) show "proper e"
    by (auto simp: proper_def price_of_def score_of_def split: option.splits)
qed

text \<open>
  C17: the order of a search's results is the one the sort parameter asks for with ties
  broken by offer id, and does not depend on the order in which the database returned the
  rows.
\<close>

theorem search_order:
  assumes "mset rows = mset rows'" and "distinct (map (of_id \<circ> or_offer) rows)"
    and "\<And>r. r \<in> set rows \<Longrightarrow> sc_single (of_scores (or_offer r)) \<noteq> NaN \<and> sc_full (of_scores (or_offer r)) \<noteq> NaN"
    and "\<And>i. terms_price (tm i) \<noteq> Some NaN"
  shows "search_results N q now tm busy seed rows = search_results N q now tm busy seed rows'
    \<and> sorted_wrt (\<lambda>a b.
        (q_sort q = ''price'' \<longrightarrow> num_lt (price_of a) (price_of b) \<or> price_of a = price_of b \<and> en_id a < en_id b)
        \<and> (q_sort q \<in> {''score.full'', ''score.single''} \<longrightarrow> num_lt (score_of (q_sort q) b) (score_of (q_sort q) a)
             \<or> score_of (q_sort q) a = score_of (q_sort q) b \<and> en_id a < en_id b)
        \<and> (q_sort q = ''random'' \<longrightarrow> random_key N seed a < random_key N seed b
             \<or> random_key N seed a = random_key N seed b \<and> en_id a < en_id b))
      (search_results N q now tm busy seed rows)"
proof -
  let ?b = "before N (q_sort q) seed"
  define es where "es = concat (map (enrich q now tm busy) rows)"
  define es' where "es' = concat (map (enrich q now tm busy) rows')"
  have di: "distinct (map en_id es)" and pr: "\<And>e. e \<in> set es \<Longrightarrow> proper e"
    unfolding es_def by (rule results_proper [OF assms(2,3,4)]; simp)+
  have st: "strict_on ?b (set es)"
    using di pr by (intro before_strict) (simp_all add: distinct_map)
  have ds: "distinct es" using di by (simp add: distinct_map)
  have m: "mset es = mset es'"
    unfolding es_def es'_def by (simp only: mset_concat_map assms(1))
  have st': "strict_on ?b (set es')" "distinct es'"
    using st ds m mset_eq_setD [OF m] mset_eq_imp_distinct_iff [OF m] by simp_all
  have s1: "sorted_wrt ?b (sort_by ?b es)" by (rule sort_by_sorted [OF st ds])
  have s2: "sorted_wrt ?b (sort_by ?b es')" by (rule sort_by_sorted [OF st'])
  have "sort_by ?b es = sort_by ?b es'"
    by (rule sorted_unique [of ?b]) (simp_all add: st s1 s2 m)
  moreover have "sorted_wrt R (sort_by ?b es)" if "\<And>a b. ?b a b \<Longrightarrow> R a b" for R
    by (rule sorted_wrt_mono_rel [OF _ s1]) (rule that)
  ultimately show ?thesis
    unfolding search_results_def es_def [symmetric] es'_def [symmetric]
  proof (intro conjI)
    assume mono: "\<And>R. (\<And>a b. ?b a b \<Longrightarrow> R a b) \<Longrightarrow> sorted_wrt R (sort_by ?b es)"
    show "sorted_wrt (\<lambda>a b.
        (q_sort q = ''price'' \<longrightarrow> num_lt (price_of a) (price_of b) \<or> price_of a = price_of b \<and> en_id a < en_id b)
        \<and> (q_sort q \<in> {''score.full'', ''score.single''} \<longrightarrow> num_lt (score_of (q_sort q) b) (score_of (q_sort q) a)
             \<or> score_of (q_sort q) a = score_of (q_sort q) b \<and> en_id a < en_id b)
        \<and> (q_sort q = ''random'' \<longrightarrow> random_key N seed a < random_key N seed b
             \<or> random_key N seed a = random_key N seed b \<and> en_id a < en_id b)) (sort_by ?b es)"
      by (rule mono) (auto simp: before_def split: if_splits)
  qed
qed

text \<open>Two offers that differ in their id and their full score.\<close>

definition demo_search :: "string \<Rightarrow> search" where
  "demo_search sk = \<lparr>q_freshness = js ''any'', q_availability = js ''any'', q_sort = sk, q_limit = Fin 1, q_cursor = None,
     q_priceMax = None, q_coresMin = None, q_ramMin = None, q_singleMin = None, q_quadMin = None,
     q_eightMin = None, q_fullMin = None\<rparr>"

definition demo_row :: OfferRow where
  "demo_row = \<lparr>or_offer = demo_offer, or_tplSig = [3], or_attPayload = obj [], or_attSig = [2], or_attReceived = 2, or_heartbeat = 60\<rparr>"

definition demo_row2 :: OfferRow where
  "demo_row2 = demo_row\<lparr>or_offer := demo_offer\<lparr>of_id := replicate 32 18, of_scores := demo_scores\<lparr>sc_full := Fin 20\<rparr>\<rparr>\<rparr>"

theorem search_order_witness:
  "search_results toy (demo_search ''score.full'') 0 Map.empty [] [] [demo_row, demo_row2]
   = search_results toy (demo_search ''score.full'') 0 Map.empty [] [] [demo_row2, demo_row]
   \<and> map (of_id \<circ> or_offer \<circ> en_row) (search_results toy (demo_search ''score.full'') 0 Map.empty [] [] [demo_row, demo_row2])
     = [replicate 32 18, demo_oid]"
proof
  have "replicate 32 (18 :: 8 word) \<noteq> demo_oid" by (simp add: demo_oid_def)
  then show "search_results toy (demo_search ''score.full'') 0 Map.empty [] [] [demo_row, demo_row2]
    = search_results toy (demo_search ''score.full'') 0 Map.empty [] [] [demo_row2, demo_row]"
    by (intro conjunct1 [OF search_order])
      (auto simp: demo_row_def demo_row2_def demo_scores_def demo_offer_def terms_price_def)
  show "map (of_id \<circ> or_offer \<circ> en_row) (search_results toy (demo_search ''score.full'') 0 Map.empty [] [] [demo_row, demo_row2])
     = [replicate 32 18, demo_oid]"
    by (simp add: search_results_def demo_search_def enrich_def sort_by_def before_def score_of_def demo_row_def
        demo_row2_def demo_scores_def demo_offer_def terms_price_def num_lt_def)
qed

lemma offer_select_iff: "x \<in> set (offer_select c d) \<longleftrightarrow> (\<exists>r \<in> set (offers d). join_offer d r = [x] \<and> c r)"
proof -
  have "x \<in> set (join_offer d r) \<longleftrightarrow> join_offer d r = [x]" for r
    by (auto simp: join_offer_def split: option.splits)
  then show ?thesis by (auto simp: offer_select_def)
qed

lemma join_offer_row: "join_offer d r = [x] \<Longrightarrow> or_offer x = r"
  by (auto simp: join_offer_def split: option.splits)

lemma enrich_some:
  "enrich q now tm busy x \<noteq> [] \<longleftrightarrow> (let i = bufToHex (of_id (or_offer x)) in
     (q_freshness q \<noteq> js ''any'' \<longrightarrow> is_fresh (q_freshness q) now (or_heartbeat x) (tm i))
     \<and> (\<forall>m. q_priceMax q = Some m \<longrightarrow> (\<exists>p. terms_price (tm i) = Some p \<and> \<not> num_lt (js_number m) p))
     \<and> (q_availability q = js ''free'' \<longrightarrow> tm i = None \<or> i \<notin> set busy))"
  by (auto simp: enrich_def Let_def split: option.splits)

lemma is_fresh_iff:
  "is_fresh f now hb terms \<longleftrightarrow> (\<exists>y since. terms = Some y \<and> date_parse (tr_receivedAt y) = Some since
     \<and> now - since \<le> (if f = js ''strict'' then 1 else 2) * (hb * 1000) + (if f = js ''strict'' then 0 else 30000))"
  by (auto simp: is_fresh_def split: option.splits)

lemma enrich_row: "(\<exists>e \<in> set (concat (map (enrich q now tm busy) rows)). en_row e = x) \<longleftrightarrow>
    x \<in> set rows \<and> enrich q now tm busy x \<noteq> []"
proof -
  have "\<exists>e. e \<in> set (enrich q now tm busy x)" if "enrich q now tm busy x \<noteq> []"
    using that by (meson list.set_sel(1))
  then show ?thesis using enrich_id [of _ q now tm busy] by fastforce
qed

text \<open>
  C18: when the database has no more matching offers than the candidate limit, a search
  lists an offer exactly if it is an unrevoked, unexpired \<open>cpu/v1\<close> offer with at least the
  requested cores, memory and scores, whose terms are recent enough (unless any freshness
  will do) and not dearer than asked, and which is not flagged busy (unless any
  availability will do).
\<close>

theorem search_exact:
  assumes "\<And>xs. mset (scan xs) = mset xs"
    and "length (offer_select (matches q t) d) \<le> nat (queryMaxCandidates c)"
  shows "(\<exists>e \<in> set (search_results N q now tm busy seed (candidates scan c q t d)). en_row e = x) \<longleftrightarrow>
     (\<exists>r \<in> set (offers d). join_offer d r = [x]
       \<and> of_model r = ''cpu/v1'' \<and> of_revoked r = None \<and> t < of_expires r
       \<and> at_least (Fin (of_int (of_cores r))) (q_coresMin q) \<and> at_least (of_ram r) (q_ramMin q)
       \<and> at_least (sc_single (of_scores r)) (q_singleMin q) \<and> at_least (sc_quad (of_scores r)) (q_quadMin q)
       \<and> at_least (sc_eight (of_scores r)) (q_eightMin q) \<and> at_least (sc_full (of_scores r)) (q_fullMin q)
       \<and> (let terms = tm (bufToHex (of_id r)) in
            (q_freshness q \<noteq> js ''any'' \<longrightarrow> (\<exists>y since. terms = Some y \<and> date_parse (tr_receivedAt y) = Some since
               \<and> now - since \<le> (if q_freshness q = js ''strict'' then 1 else 2) * (or_heartbeat x * 1000)
                            + (if q_freshness q = js ''strict'' then 0 else 30000)))
          \<and> (\<forall>m. q_priceMax q = Some m \<longrightarrow> (\<exists>p. terms_price terms = Some p \<and> \<not> num_lt (js_number m) p))
          \<and> (q_availability q = js ''free'' \<longrightarrow> terms = None \<or> bufToHex (of_id r) \<notin> set busy)))"
    (is "?L \<longleftrightarrow> ?R")
proof -
  have "length (scan xs) = length xs" for xs using assms(1) [of xs] by (metis size_mset)
  then have "candidates scan c q t d = scan (offer_select (matches q t) d)"
    using assms(2) by (simp add: candidates_def)
  moreover have "set (scan xs) = set xs" for xs using assms(1) [of xs] by (metis set_mset_mset)
  ultimately have "?L \<longleftrightarrow> (\<exists>r \<in> set (offers d). join_offer d r = [x] \<and> matches q t r) \<and> enrich q now tm busy x \<noteq> []"
    by (simp add: search_results_def enrich_row [simplified] offer_select_iff)
  also have "\<dots> \<longleftrightarrow> (\<exists>r \<in> set (offers d). join_offer d r = [x] \<and> matches q t r \<and> enrich q now tm busy x \<noteq> [])"
    by blast
  also have "\<dots> \<longleftrightarrow> ?R"
    by (rule bex_cong [OF refl])
      (simp only: matches_def active_at_def enrich_some is_fresh_iff Let_def conj_assoc join_offer_row cong: conj_cong)
  finally show ?thesis .
qed

theorem search_exact_witness:
  "\<exists>e \<in> set (search_results toy (demo_search ''price'') 0 Map.empty [] []
       (candidates rev default_config (demo_search ''price'') 1800000000000 demo_db)). en_row e = demo_row"
proof -
  have s: "filter P (offers demo_db) = (if P demo_offer then [demo_offer] else [])" for P
    by (simp add: demo_db_def)
  have j: "join_offer demo_db demo_offer = [demo_row]"
    using demo_select by (simp add: offer_select_def demo_db_def demo_row_def)
  have "length (offer_select (matches (demo_search ''price'') 1800000000000) demo_db) \<le> nat (queryMaxCandidates default_config)"
    by (simp add: offer_select_def s j default_config_def load_config_def int_setting_def num_def)
  from search_exact [of rev, OF mset_rev this] show ?thesis
    by (simp add: j demo_search_def at_least_def) (simp add: demo_db_def demo_offer_def j [unfolded demo_db_def demo_offer_def])
qed

subsection \<open>Cursors and pages\<close>

lemma js_cons: "js (c # cs) = of_char c # js cs" "js [] = []"
  by (simp_all add: js_def)

lemma skip_ws_cons: "\<not> json_ws u \<Longrightarrow> skip_ws (u # r) = u # r"
  by (simp add: skip_ws_def)

lemma parse_number_end:
  assumes "0 \<le> n" and "n \<le> 10 ^ 15"
  shows "parse_value (Suc k) (dec_str n @ [125]) = Some (JNum (Fin (of_int n)), [125])"
proof -
  let ?s = "dec_str n"
  have d: "list_all is_digit ?s" using dec_str_digits [OF assms(1)] .
  obtain u us where u: "?s = u # us" by (cases ?s) auto
  have du: "is_digit u" using d u by simp
  have nu: "takeWhile num_unit (?s @ [125]) = ?s" "dropWhile num_unit (?s @ [125]) = [125]"
    using d by (auto simp: list_all_iff num_unit_def takeWhile_append dropWhile_append is_digit_def)
  have "parse_value (Suc k) (?s @ [125]) =
      map_option (\<lambda>x. (JNum x, dropWhile num_unit (?s @ [125]))) (json_number (takeWhile num_unit (?s @ [125])))"
    unfolding parse_value.simps Let_def u append_Cons skip_ws_cons [OF digit_units(2) [OF du]] list.case
    using digit_units [OF du] by (simp add: js_cons of_char_def)
  then show ?thesis by (simp only: nu json_number_dec [OF assms] option.map)
qed


lemma parse_chars_plain:
  "list_all (\<lambda>u. u \<noteq> 34 \<and> u \<noteq> 92 \<and> \<not> u < 32) s \<Longrightarrow> parse_chars (s @ 34 # r) = Some (s, r)"
  by (induction s) auto

lemma plain_names:
  "list_all (\<lambda>u. u \<noteq> 34 \<and> u \<noteq> 92 \<and> \<not> u < 32) (js ''seed'')"
  "list_all (\<lambda>u. u \<noteq> 34 \<and> u \<noteq> 92 \<and> \<not> u < 32) (js ''offset'')"
  by (simp_all add: js_cons of_char_def)

text \<open>The text of a cursor parses to its two members, whatever number literal it holds.\<close>

lemma parse_members_cursor:
  assumes h: "list_all is_lower_hex seed" and t: "\<And>k. parse_value (Suc k) (t @ [125]) = Some (v, [125])"
  shows "parse_members (Suc (Suc (Suc k))) []
      (34 # js ''seed'' @ 34 # 58 # 34 # seed @ 34 # 44 # 34 # js ''offset'' @ 34 # 58 # t @ [125]) =
    Some ([(js ''seed'', JStr seed), (js ''offset'', v)], [])"
proof -
  have 1: "parse_members (Suc (Suc k)) ms (34 # js ''offset'' @ 34 # 58 # t @ [125]) =
      Some (AList.update (js ''offset'') v ms, [])" for ms
    unfolding parse_members.simps skip_ws_cons [of 34, unfolded json_ws_def, simplified] list.case
      parse_chars_plain [OF plain_names(2)] option.case prod.case
      skip_ws_cons [of 58, unfolded json_ws_def, simplified] t
    by (simp add: skip_ws_def json_ws_def)
  have 2: "parse_value (Suc (Suc k)) (34 # seed @ 34 # r) = Some (JStr seed, r)" for r
    by (simp add: skip_ws_cons json_ws_def parse_chars_hex [OF h])
  show ?thesis
    unfolding parse_members.simps(2) [of "Suc (Suc k)"] skip_ws_cons [of 34, unfolded json_ws_def, simplified] list.case
      parse_chars_plain [OF plain_names(1)] option.case prod.case
      skip_ws_cons [of 58, unfolded json_ws_def, simplified] 2 skip_ws_cons [of 44, unfolded json_ws_def, simplified]
    by (simp add: 1 del: parse_members.simps) (simp add: js_cons of_char_def)?
qed


lemma list_all_cursor:
  assumes "list_all is_lower_hex seed" "list_all (\<lambda>u. u < 0x80) t"
  shows "list_all (\<lambda>u. u < 0x80) ([123, 34] @ js ''seed'' @ [34, 58] @ json_quote seed @ [44, 34] @ js ''offset'' @ [34, 58] @ t @ [125])"
proof -
  have "list_all (\<lambda>u. u < 0x80) seed"
    using assms(1) hex_units(1) by (auto simp: list_all_iff)
  then show ?thesis using assms(2) by (simp add: json_quote_def json_units_hex [OF assms(1)] js_cons of_char_def)
qed

lemma parse_cursor_text:
  assumes h: "list_all is_lower_hex seed" and t: "\<And>k. parse_value (Suc k) (t @ [125]) = Some (v, [125])"
    and a: "list_all (\<lambda>u. u < 0x80) t"
  shows "json_parse (utf8_decode (from_base64url (base64url (utf8
      ([123, 34] @ js ''seed'' @ [34, 58] @ json_quote seed @ [44, 34] @ js ''offset'' @ [34, 58] @ t @ [125])))))
    = Some (JObj [(js ''seed'', JStr seed), (js ''offset'', v)])"
proof -
  let ?s = "[123, 34] @ js ''seed'' @ [34, 58] @ json_quote seed @ [44, 34] @ js ''offset'' @ [34, 58] @ t @ [125]"
  let ?r = "34 # js ''seed'' @ 34 # 58 # 34 # seed @ 34 # 44 # 34 # js ''offset'' @ 34 # 58 # t @ [125]"
  have u: "utf8 s = map (\<lambda>u. of_int (uint u)) s" if "list_all (\<lambda>u. u < 0x80) s" for s
    using that by (rule utf8_ascii)
  have s: "?s = 123 # ?r" by (simp add: json_quote_def json_units_hex [OF h])
  have f: "2 * length ?s + 1 = Suc (Suc (Suc (Suc (2 * length ?s - 3))))" by simp
  have "parse_value (2 * length ?s + 1) ?s = Some (JObj [(js ''seed'', JStr seed), (js ''offset'', v)], [])"
    unfolding f unfolding s parse_value.simps Let_def skip_ws_cons [of 123, unfolded json_ws_def, simplified] list.case
      skip_ws_cons [of 34, unfolded json_ws_def, simplified] parse_members_cursor [OF h t]
    by simp
  then show ?thesis
    unfolding from_base64url_base64url u [OF list_all_cursor [OF h a]] utf8_decode_ascii [OF list_all_cursor [OF h a]] json_parse_def
    by (simp add: skip_ws_def)
qed

lemma cursor_of_pair:
  "cursor_of (JObj [(js ''seed'', JStr seed), (js ''offset'', JNum x)]) =
     (if is_integer x \<and> \<not> num_lt x (Fin 0) then Some (seed, int_of (JNum x)) else None)"
  by (simp add: cursor_of_def)

lemma digits_ascii: "list_all is_digit t \<Longrightarrow> list_all (\<lambda>u. u < 0x80) t"
  using digit_units(1) by (auto simp: list_all_iff)

lemma parseCursor_json:
  assumes "json_parse (utf8_decode (from_base64url s)) = Some c"
  shows "parseCursor (Some s) = (case cursor_of c of None \<Rightarrow> Inl (err VALIDATION) | Some p \<Rightarrow> Inr (Some p))"
proof -
  have "s \<noteq> []"
    using assms by (auto simp: from_base64url_def List.map_filter_simps json_parse_def skip_ws_def)
  then show ?thesis by (simp add: parseCursor_def assms)
qed

lemma parse_next_cursor:
  assumes h: "list_all is_lower_hex seed" and "0 \<le> n" "n \<le> 10 ^ 15"
  shows "parseCursor (Some (next_cursor seed (Fin (of_int n)))) = Inr (Some (seed, n))"
proof -
  have "json_parse (utf8_decode (from_base64url (next_cursor seed (Fin (of_int n))))) =
      Some (JObj [(js ''seed'', JStr seed), (js ''offset'', JNum (Fin (of_int n)))])"
    unfolding next_cursor_def cursor_text_def num_str_int [OF assms(2,3)]
    by (rule parse_cursor_text [OF h parse_number_end [OF assms(2,3)] digits_ascii [OF dec_str_digits [OF assms(2)]]])
  from parseCursor_json [OF this] show ?thesis
    using assms(2) by (simp add: cursor_of_pair is_integer_def num_lt_def int_of_def)
qed

lemma fl_half: "fl (3 / 2) = Fin (3 / 2)"
  by code_simp

lemma half_candidates: "dec_candidate (3 / 2) 1 = None" "dec_candidate (3 / 2) 2 = Some (15, 1)"
proof -
  have l: "ilog 10 (3 / 2) = 0" by code_simp
  have f: "fl 1 = Fin 1" "fl 2 = Fin 2" using fl_of_int [of 1] fl_of_int [of 2] by simp_all
  have "ulp_exp (25 / 16) = -52" by code_simp
  then have "fl_val (25 / 16) = 25 / 16"
    by (intro fl_val_exact [of _ "25 * 2 ^ 48"]) (simp add: power_int_def power_divide)
  then have f4: "fl (25 / 16) = Fin (25 / 16)" by (simp add: fl_def Let_def)
  have "num_le (fl (25 / 16)) (fl (8 / 5))" by (rule fl_mono) simp
  then have g: "fl (8 / 5) \<noteq> Fin (3 / 2)" by (auto simp: f4 num_lt_def)
  have p: "\<lfloor>(3 / 2 :: rat)\<rfloor> = 1" "(10 :: rat) powi (1 - int 2) = 1 / 10" by (simp_all add: floor_eq_iff power_int_def)
  show "dec_candidate (3 / 2) 1 = None"
    unfolding dec_candidate_def Let_def l by (simp add: p f)
  show "dec_candidate (3 / 2) 2 = Some (15, 1)"
    unfolding dec_candidate_def Let_def l using p(2) by (simp add: f fl_half g)
qed
lemma num_str_half: "num_str (Fin (3 / 2)) = js ''1.5''"
proof -
  have u: "[1..<18] = 1 # 2 # [3..<18]" by (simp add: upt_rec)
  have "dec_search (3/2) [1..<18] = (15, 1)" unfolding u using half_candidates by simp
  moreover have "(let ds = dec_str 15 in take (nat 1) ds @ js ''.'' @ drop (nat 1) ds) = js ''1.5''" by code_simp
  moreover have "length (dec_str 15) = 2" by code_simp
  ultimately show ?thesis by (simp add: num_str_def pos_num_str_def Let_def)
qed

lemma js_number_half: "js_number (js ''1.5'') = Fin (3 / 2)" "json_number (js ''1.5'') = Some (Fin (3 / 2))"
proof -
  have "decimal_shape (js ''1.5'')" "dec_value (js ''1.5'') = 3 / 2" by code_simp+
  then show n: "js_number (js ''1.5'') = Fin (3 / 2)" by (simp only: js_number_decimal fl_half)
  have "takeWhile is_digit (js ''1.5'') = js ''1''" "dropWhile is_digit (js ''1.5'') = js ''.5''"
    "takeWhile is_digit (drop 1 (js ''.5'')) = js ''5''" "dropWhile is_digit (drop 1 (js ''.5'')) = []"
    by code_simp+
  then show "json_number (js ''1.5'') = Some (Fin (3 / 2))"
    unfolding json_number_def Let_def by (simp add: n) (simp add: js_cons of_char_def exp_part_def)
qed

lemma fractional_cursor:
  assumes h: "list_all is_lower_hex seed"
  shows "parseCursor (Some (next_cursor seed (Fin (3 / 2)))) = Inl (err VALIDATION)"
proof -
  have t: "parse_value (Suc k) (js ''1.5'' @ [125]) = Some (JNum (Fin (3 / 2)), [125])" for k
  proof -
    have "takeWhile num_unit (js ''1.5'' @ [125]) = js ''1.5''" "dropWhile num_unit (js ''1.5'' @ [125]) = [125]"
      by code_simp+
    then show ?thesis
      using js_number_half(2) by (simp add: skip_ws_cons js_cons json_ws_def of_char_def)
  qed
  have "list_all (\<lambda>u. u < 0x80) (js ''1.5'')" by code_simp
  from parse_cursor_text [OF h t this]
  have "json_parse (utf8_decode (from_base64url (next_cursor seed (Fin (3 / 2))))) =
      Some (JObj [(js ''seed'', JStr seed), (js ''offset'', JNum (Fin (3 / 2)))])"
    unfolding next_cursor_def cursor_text_def num_str_half .
  moreover have "\<lfloor>3 / 2 :: rat\<rfloor> = 1" by (simp add: floor_eq_iff)
  ultimately show ?thesis
    using parseCursor_json by (simp add: cursor_of_pair is_integer_def)
qed


lemma num_add_int: "\<bar>a + b\<bar> \<le> 2 ^ 53 \<Longrightarrow> num_add (Fin (of_int a)) (Fin (of_int b)) = Fin (of_int (a + b))"
  using fl_of_int [of "a + b"] by simp

lemma result_page_int:
  assumes "0 \<le> a" "0 \<le> l" "a + l \<le> 2 ^ 53"
  shows "result_page a (Fin (of_int l)) es = take (nat l) (drop (nat a) es)"
  using assms num_add_int [of a l] by (simp add: result_page_def num_trunc_def Let_def nat_add_distrib)

lemma pages_cover:
  assumes "0 \<le> l" "int m * l \<le> 2 ^ 53"
  shows "concat (map (\<lambda>k. result_page (int k * l) (Fin (of_int l)) es) [0..<m]) = take (m * nat l) es"
  using assms(2)
proof (induction m)
  case (Suc m)
  have b: "int m * l \<le> 2 ^ 53" "int m * l + l \<le> 2 ^ 53"
    using Suc.prems assms(1) by (simp_all add: algebra_simps)
  have n: "nat (int m * l) = m * nat l" using assms(1) by (simp add: nat_mult_distrib)
  have "take (Suc m * nat l) es = take (m * nat l) es @ take (nat l) (drop (m * nat l) es)"
    by (simp add: take_add [symmetric] add.commute)
  then show ?case using Suc.IH [OF b(1)] result_page_int [of "int m * l" l es] b(2) assms(1) n by simp
qed simp



lemma half_limit:
  "\<exists>q. parse_search default_config (\<lambda>p. if p = ''limit'' then Some (js ''1.5'') else None) = Inr (Some q)
     \<and> q_limit q = Fin (3 / 2)"
  by (simp add: parse_search_def numParam_def param_or_def need_def seqR_def js_number_half parseCursor_def num_clamp_def
      SORTS_def is_finite_num_def num_lt_def default_config_def load_config_def int_setting_def num_def)

text \<open>
  The limit may be fractional (\<open>limit=1.5\<close> passes the checks); the page is then cut at
  the truncated end, but the cursor handed out for the next page holds a fractional offset,
  which the service itself refuses.
\<close>

theorem fractional_limit_dead_end:
  assumes "list_all is_lower_hex seed" and "2 \<le> length es"
  shows "(\<exists>q. parse_search default_config (\<lambda>p. if p = ''limit'' then Some (js ''1.5'') else None) = Inr (Some q)
      \<and> q_limit q = Fin (3 / 2))
    \<and> result_page 0 (Fin (3 / 2)) es = take 1 es
    \<and> num_lt (num_add (Fin 0) (Fin (3 / 2))) (Fin (of_nat (length es)))
    \<and> parseCursor (Some (next_cursor seed (num_add (Fin 0) (Fin (3 / 2))))) = Inl (err VALIDATION)"
proof -
  have a: "num_add (Fin 0) (Fin (3 / 2)) = Fin (3 / 2)" by (simp add: fl_half)
  have f: "\<lfloor>3 / 2 :: rat\<rfloor> = 1" by (simp add: floor_eq_iff)
  have "(3 / 2 :: rat) < of_nat (length es)" using assms(2) by linarith
  then show ?thesis
    using half_limit fractional_cursor [OF assms(1)]
    by (simp add: a result_page_def num_trunc_def f Let_def num_lt_def del: num_add.simps)
qed


theorem fractional_limit_dead_end_witness:
  "parseCursor (Some (next_cursor (js ''0f'') (num_add (Fin 0) (Fin (3 / 2))))) = Inl (err VALIDATION)"
  using fractional_limit_dead_end [of "js ''0f''" "replicate 2 undefined"] by (simp add: js_cons is_lower_hex_def of_char_def)

subsection \<open>The liveness snapshot\<close>

lemma calm_run: "keeps calm m \<Longrightarrow> m w = (r, w') \<Longrightarrow> calm w w'"
  by (metis keeps_def snd_conv)

text \<open>A poll that finds nothing cached, and one that finds a snapshot.\<close>

lemma fresh_poll:
  assumes R: "redis_up E" and c: "client w" and g: "getLiveness E ip w = (Inr r, w')"
    and none: "kv_str (kvs w) KSnapshot = None" and di: "distinct (map fst (kv_live (kvs w)))"
  shows "\<exists>n m rows. r = \<lparr>status = 200, body = snapshot E (now_at E n) rows\<rparr>
     \<and> (\<forall>i p. (i, p) \<in> set rows \<longleftrightarrow> (\<exists>sc. (i, sc) \<in> set (kv_live (kvs w)) \<and> now_at E n \<le> sc)
           \<and> map_of (kv_prices (kvs w)) i = Some p)
     \<and> distinct (map fst rows) \<and> client w'
     \<and> kv_str (kvs w') KSnapshot = Some (VBlob (body r), Some (now_at E m + livenessTtlMs (cfg E)))"
proof -
  obtain w1 where w1: "limited E ''live'' ip rl_livenessPerIp w = (Inr (), w1)"
    using g by (auto simp: getLiveness_def seqI_Inr)
  have cw: "calm w w1" by (rule calm_run [OF calm_limited [OF R] w1])
  have k1: "client w1" "kv_str (kvs w1) KSnapshot = None" "kv_live (kvs w1) = kv_live (kvs w)"
      "kv_prices (kvs w1) = kv_prices (kvs w)"
    using cw c none by (simp_all add: calm_def)
  have miss: "alive t (kvs w1) KSnapshot = None" for t using k1(2) by (simp add: alive_def)
  define w2 where "w2 = w1\<lparr>tick := Suc (tick w1)\<rparr>"
  define w3 where "w3 = w2\<lparr>tick := Suc (tick w2)\<rparr>"
  have c3: "client w3" "kv_live (kvs w3) = kv_live (kvs w)" "kv_prices (kvs w3) = kv_prices (kvs w)"
    using k1 by (simp_all add: w2_def w3_def)
  have get: "getCachedSnapshot E w1 = (Inr None, w2)"
    using k1(1) miss by (simp add: getCachedSnapshot_def seqI_def send_up [OF R] ret_def reply_val_def w2_def)
  have now: "time_now E w2 = (Inr (now_at E (tick w2)), w3)" by (simp add: time_now_def w3_def)
  obtain rows w4 where l: "liveOffers E (now_at E (tick w2)) w3 = (Inr rows, w4)" "client w4" "distinct (map fst rows)"
    and rows: "\<forall>i p. (i, p) \<in> set rows \<longleftrightarrow> (\<exists>sc. (i, sc) \<in> set (kv_live (kvs w)) \<and> now_at E (tick w2) \<le> sc)
           \<and> map_of (kv_prices (kvs w)) i = Some p"
    using liveOffers_up [OF R c3(1), of "now_at E (tick w2)"] di unfolding c3(2,3) by blast
  have "r = \<lparr>status = 200, body = snapshot E (now_at E (tick w2)) rows\<rparr> \<and> client w'
     \<and> kv_str (kvs w') KSnapshot = Some (VBlob (body r), Some (now_at E (tick w4) + livenessTtlMs (cfg E)))"
    using g unfolding getLiveness_def Let_def seqI_step [where m = "limited E ''live'' ip rl_livenessPerIp", OF w1]
      seqI_step [where m = "getCachedSnapshot E", OF get] option.case seqI_step [where m = "time_now E", OF now]
      seqI_step [where m = "liveOffers E (now_at E (tick w2))", OF l(1)]
    using l(2) by (auto simp: setCachedSnapshot_def seqI_def send_up [OF R] ret_def)
  then show ?thesis using rows l(3) by blast
qed

lemma cached_poll:
  assumes R: "redis_up E" and c: "client w" and g: "getLiveness E ip w = (Inr r, w')"
    and b: "kv_str (kvs w) KSnapshot = Some (VBlob b, Some x)" and t: "\<And>i. now_at E i < x"
  shows "r = \<lparr>status = 200, body = b\<rparr> \<and> client w' \<and> kv_str (kvs w') KSnapshot = kv_str (kvs w) KSnapshot"
proof -
  obtain w1 where w1: "limited E ''live'' ip rl_livenessPerIp w = (Inr (), w1)"
    using g by (auto simp: getLiveness_def seqI_Inr)
  have cw: "calm w w1" by (rule calm_run [OF calm_limited [OF R] w1])
  have k1: "client w1" "kv_str (kvs w1) KSnapshot = Some (VBlob b, Some x)"
    using cw c b by (simp_all add: calm_def)
  then have "getCachedSnapshot E w1 = (Inr (Some b), w1\<lparr>tick := Suc (tick w1)\<rparr>)"
    using t by (simp add: getCachedSnapshot_def seqI_def send_up [OF R] ret_def reply_val_def alive_def)
  then show ?thesis
    using g k1 b unfolding getLiveness_def seqI_step [where m = "limited E ''live'' ip rl_livenessPerIp", OF w1] by (auto simp: seqI_def ret_def)
qed

text \<open>
  C20: a poll that finds no cached snapshot lists every live offer with its price, under
  its short key, and caches that; while the snapshot lives, a later poll gets the same body,
  whoever asks.
\<close>

theorem liveness_shared:
  assumes "redis_up E" and "client w" and "getLiveness E ip w = (Inr r, w1)" and "getLiveness E ip' w1 = (Inr r', w2)"
    and "kv_str (kvs w) KSnapshot = None" and "distinct (map fst (kv_live (kvs w)))"
    and "\<And>i j. now_at E i < now_at E j + livenessTtlMs (cfg E)"
  shows "r' = r \<and> (\<exists>now rows. body r = snapshot E now rows \<and> distinct (map fst rows)
     \<and> (\<forall>i p. (i, p) \<in> set rows \<longleftrightarrow>
          (\<exists>sc. (i, sc) \<in> set (kv_live (kvs w)) \<and> now \<le> sc) \<and> map_of (kv_prices (kvs w)) i = Some p))"
proof -
  from fresh_poll [OF assms(1,2,3,5,6)] obtain n m rows where
    r: "r = \<lparr>status = 200, body = snapshot E (now_at E n) rows\<rparr>" "distinct (map fst rows)" "client w1"
      "kv_str (kvs w1) KSnapshot = Some (VBlob (body r), Some (now_at E m + livenessTtlMs (cfg E)))"
    and rows: "\<forall>i p. (i, p) \<in> set rows \<longleftrightarrow> (\<exists>sc. (i, sc) \<in> set (kv_live (kvs w)) \<and> now_at E n \<le> sc)
           \<and> map_of (kv_prices (kvs w)) i = Some p"
    by blast
  from cached_poll [OF assms(1) r(3) assms(4) r(4)] assms(7)
  have "r' = \<lparr>status = 200, body = body r\<rparr>" by blast
  with r rows show ?thesis by auto
qed

lemma still_up: "redis_up still_env"
  by (simp add: redis_up_def still_env_def demo_env_def)

lemma still_simps [simp]: "now_at still_env n = 1800000000000" "cfg still_env = default_config"
  by (simp_all add: still_env_def demo_env_def)

lemma still_polls: "\<exists>r w1 r' w2. getLiveness still_env (js ''a'') empty_world = (Inr r, w1)
    \<and> getLiveness still_env (js ''b'') w1 = (Inr r', w2)"
  by (simp add: getLiveness_def limited_def rateLimit_def seqI_def time_now_def ret_def guardI_def send_up [OF still_up]
      empty_world_def empty_kv_def rl_livenessPerIp_def counter_def alive_def getCachedSnapshot_def reply_val_def
      liveOffers_def setCachedSnapshot_def Let_def)

theorem liveness_shared_witness:
  "\<exists>r w1 w2. getLiveness still_env (js ''a'') empty_world = (Inr r, w1) \<and> getLiveness still_env (js ''b'') w1 = (Inr r, w2)"
proof -
  obtain r w1 r' w2 where g: "getLiveness still_env (js ''a'') empty_world = (Inr r, w1)"
      "getLiveness still_env (js ''b'') w1 = (Inr r', w2)"
    using still_polls by blast
  have "r' = r \<and> (\<exists>now rows. body r = snapshot still_env now rows \<and> distinct (map fst rows)
     \<and> (\<forall>i p. (i, p) \<in> set rows \<longleftrightarrow>
          (\<exists>sc. (i, sc) \<in> set (kv_live (kvs empty_world)) \<and> now \<le> sc) \<and> map_of (kv_prices (kvs empty_world)) i = Some p))"
    by (rule liveness_shared [OF still_up _ g])
      (simp_all add: empty_world_def empty_kv_def default_config_def load_config_def int_setting_def num_def)
  then show ?thesis using g by blast
qed

end
