(* ===== verification/Js_Double.thy ===== *)
theory Js_Double
  imports Js_Number
begin

text \<open>
  The values of \<open>Js_Number.fl\<close>: a number \<open>n * 2 powi e\<close> with at most 53 significant bits and an
  exponent of at least \<open>-1074\<close> is its own rounding, so rounding is idempotent, doubling is
  exact, and the computed mean of two doubles lies between them.
\<close>

lemma fl_val_narrow:
  assumes "\<bar>n\<bar> < 2 ^ 53" and "-1074 \<le> e"
  shows "fl_val (of_int n * 2 powi e) = of_int n * 2 powi e"
proof (cases "n = 0")
  case False
  define x where "x = of_int n * (2 :: rat) powi e"
  define L where "L = ilog 2 \<bar>x\<bar>"
  have "\<bar>of_int n :: rat\<bar> < 2 ^ 53" using assms(1) by (metis of_int_abs of_int_less_iff of_int_numeral of_int_power)
  then have "\<bar>x\<bar> < 2 ^ 53 * 2 powi e" by (simp add: x_def abs_mult)
  also have "\<dots> = 2 powi (53 + e)" by (simp add: power_int_add)
  finally have b: "\<bar>x\<bar> < 2 powi (53 + e)" .
  have "0 < \<bar>x\<bar>" using False by (simp add: x_def)
  from ilog2_bounds(1) [OF this] b have "(2 :: rat) powi L < 2 powi (53 + e)" by (simp add: L_def)
  then have "ulp_exp x \<le> e"
    using pow2_less_exp [of L "53 + e"] assms(2) by (simp add: ulp_exp_def L_def)
  then obtain k where k: "e = ulp_exp x + int k" by (metis nonneg_int_cases diff_ge_0_iff_ge add.commute diff_add_cancel)
  then have "(2 :: rat) powi e = 2 powi ulp_exp x * 2 ^ k" by (metis power_int_add power_int_of_nat zero_neq_numeral)
  then have "x = of_int n * (2 powi ulp_exp x * 2 ^ k)" by (simp only: x_def)
  then have "fl_val x = x"
    by (intro fl_val_exact [of _ "n * 2 ^ k"]) (simp add: mult_ac)
  then show ?thesis by (simp add: x_def)
qed (simp add: fl_val_def)

lemma fl_val_dyadic:
  assumes "\<bar>n\<bar> \<le> 2 ^ 53" and "-1074 \<le> e"
  shows "fl_val (of_int n * 2 powi e) = of_int n * 2 powi e"
proof (cases "\<bar>n\<bar> = 2 ^ 53")
  case True
  then obtain m where m: "n = m * 2" "\<bar>m\<bar> < 2 ^ 53"
    by (cases "0 \<le> n") (auto simp: abs_if intro: that [of "2 ^ 52"] that [of "- (2 ^ 52)"])
  have "of_int n * (2 :: rat) powi e = of_int m * 2 powi (e + 1)"
    by (simp add: m(1) power_int_add)
  then show ?thesis using fl_val_narrow [OF m(2), of "e + 1"] assms(2) by simp
qed (use assms fl_val_narrow in simp)

lemma fl_val_form: "\<exists>n e. fl_val x = of_int n * 2 powi e \<and> \<bar>n\<bar> \<le> 2 ^ 53 \<and> -1074 \<le> e"
proof (cases "x = 0")
  case False
  define u where "u = ulp_exp x"
  define y where "y = x / 2 powi u"
  have "\<bar>x\<bar> < 2 powi (ilog 2 \<bar>x\<bar> + 1)" using ilog2_bounds(2) [of "\<bar>x\<bar>"] False by simp
  also have "\<dots> \<le> (2 :: rat) powi (u + 53)" by (rule power_int_increasing) (simp_all add: u_def ulp_exp_def)
  also have "\<dots> = 2 ^ 53 * 2 powi u" by (simp add: power_int_add)
  finally have "\<bar>y\<bar> \<le> 2 ^ 53" by (simp add: y_def abs_divide divide_le_eq)
  then have "of_int (- (2 ^ 53)) \<le> y" "y \<le> of_int (2 ^ 53)" by (simp_all add: abs_le_iff)
  from this [THEN round_half_even_mono] have "\<bar>round_half_even y\<bar> \<le> 2 ^ 53"
    unfolding round_half_even_of_int by linarith
  moreover have "fl_val x = of_int (round_half_even y) * 2 powi u" using False by (simp add: fl_val_def y_def u_def)
  moreover have "-1074 \<le> u" by (simp add: u_def ulp_exp_def)
  ultimately show ?thesis by blast
qed (auto simp: fl_val_def intro: exI [of _ 0])

lemma fl_val_idem [simp]: "fl_val (fl_val x) = fl_val x"
  using fl_val_form [of x] fl_val_dyadic by metis

definition double :: "rat \<Rightarrow> bool" where
  "double r = (fl_val r = r \<and> \<bar>r\<bar> < 2 ^ 1024)"

lemma fl_double: "double r \<Longrightarrow> fl r = Fin r"
  by (auto simp: double_def fl_def Let_def abs_less_iff)

lemma double_fl: "fl x = Fin r \<Longrightarrow> double r"
  by (auto simp: double_def fl_def Let_def abs_less_iff split: if_splits)

lemma fl_val_twice: "fl_val r = r \<Longrightarrow> fl_val (2 * r) = 2 * r"
proof -
  assume r: "fl_val r = r"
  obtain n e where "fl_val r = of_int n * 2 powi e" "\<bar>n\<bar> \<le> 2 ^ 53" "-1074 \<le> e" using fl_val_form by blast
  then show ?thesis using fl_val_dyadic [of n "e + 1"] r by (simp add: power_int_add mult_ac)
qed

text \<open>\<open>(a + b) / 2\<close>, each operation rounded.\<close>

lemma mean_between:
  assumes a: "double a" and b: "double b" and ab: "a \<le> b" "0 \<le> a" "b < 2 ^ 1023"
  shows "\<exists>m. num_div (num_add (Fin a) (Fin b)) (Fin 2) = Fin m \<and> a \<le> m \<and> m \<le> b"
proof -
  define s where "s = fl_val (a + b)"
  have "fl_val (2 * a) \<le> s" "s \<le> fl_val (2 * b)"
    unfolding s_def using ab(1) by (auto intro!: fl_val_mono)
  then have s: "2 * a \<le> s" "s \<le> 2 * b" using a b by (simp_all add: double_def fl_val_twice)
  have "fl (a + b) = Fin s"
    using s ab by (simp add: fl_def Let_def flip: s_def)
  moreover have "fl_val a \<le> fl_val (s / 2)" "fl_val (s / 2) \<le> fl_val b"
    using s by (auto intro!: fl_val_mono)
  then have m: "a \<le> fl_val (s / 2)" "fl_val (s / 2) \<le> b" using a b by (simp_all add: double_def)
  moreover have "fl (s / 2) = Fin (fl_val (s / 2))"
    using m ab by (simp add: fl_def Let_def)
  ultimately show ?thesis by simp
qed

end
