(* ===== verification/Ops.thy ===== *)
theory Ops
  imports Search Js_Double
begin

text \<open>
  The operational endpoints (\<open>src/handlers/ops.ts\<close>): health, the market aggregates and the
  stats blob made of them, and the service's description.  A \<open>numeric\<close> column holds the
  decimal the number was written as; \<open>sim\<close> is what \<open>src/dev-requestors.ts\<close> reports while the
  demand simulator runs.  Proved: how the aggregates relate to each other and to the live
  set, and that health never fails.
\<close>

subsection \<open>Health\<close>

text \<open>\<open>try\<close> and \<open>catch\<close>.\<close>

definition tryI :: "'a io \<Rightarrow> (thrown \<Rightarrow> 'a io) \<Rightarrow> 'a io" where
  "tryI m h w = (case m w of (Inl e, w') \<Rightarrow> h e w' | (Inr a, w') \<Rightarrow> (Inr a, w'))"

text \<open>The version of \<open>package.json\<close>.\<close>

definition package_version :: string where "package_version = ''0.2.1''"

definition getHealth :: "env \<Rightarrow> response io" where
  "getHealth E =
     seqI (tryI (seqI (pg_read E (\<lambda>_ _. ())) (\<lambda>_. ret ''ok'')) (\<lambda>_. ret ''down'')) (\<lambda>pg.
     seqI (available E) (\<lambda>up.
     ret (json (if pg = ''ok'' then 200 else 500)
       [(''version'', JStr (js package_version)), (''postgres'', JStr (js pg)),
        (''redis'', JStr (js (if up then ''ok'' else ''absent'')))])))"

subsection \<open>Market aggregates\<close>

record MarketAggregates =
  ag_total :: int
  ag_active :: int
  ag_busy :: int
  ag_free :: int
  ag_offActive :: int
  ag_offLive :: int
  ag_offBusy :: int
  ag_attestations :: int
  ag_cores :: int
  ag_ram :: jsnum
  ag_price :: "(jsnum \<times> jsnum \<times> jsnum) option"

text \<open>The value of the decimal text of a number.\<close>

definition numeric_of :: "jsnum \<Rightarrow> rat" where
  "numeric_of x =
     (let s = num_str x; neg = (take 1 s = js ''-''); q = dec_unsigned (if neg then drop 1 s else s)
      in case q of None \<Rightarrow> 0 | Some r \<Rightarrow> if neg then - r else r)"

text \<open>
  The offers with one of the listed ids, which travel as hex text and are decoded by the
  server; a text that is not hex, and a sum that is no 32-bit integer, are errors.
\<close>

definition listed_offers :: "jstr list \<Rightarrow> db \<Rightarrow> offer_row list option" where
  "listed_offers ids d =
     map_option (\<lambda>bs. filter (\<lambda>r. of_id r \<in> set bs) (offers d)) (mapO (\<lambda>i. unhex (slice_from 2 i)) ids)"

definition count_providers :: "offer_row list \<Rightarrow> int" where
  "count_providers rows = int (card (set (map of_provider rows)))"

definition live_totals :: "jstr list \<Rightarrow> db \<Rightarrow> ((int \<times> int \<times> rat) \<times> db) option" where
  "live_totals ids d =
     (case listed_offers ids d of None \<Rightarrow> None
      | Some rows \<Rightarrow> (let cores = sum_list (map of_cores rows) in
          if \<bar>cores\<bar> \<ge> 2 ^ 31 then None
          else Some ((count_providers rows, cores, sum_list (map (numeric_of \<circ> of_ram) rows)), d)))"

definition busy_providers :: "jstr list \<Rightarrow> db \<Rightarrow> (int \<times> db) option" where
  "busy_providers ids d = map_option (\<lambda>rows. (count_providers rows, d)) (listed_offers ids d)"

definition market_totals :: "int \<Rightarrow> db \<Rightarrow> int \<times> int \<times> int" where
  "market_totals t d =
     (int (length (providers d)), int (length (filter (active_at t) (offers d))),
      int (length (filter (\<lambda>a. t < at_expires a) (attestations d))))"

definition median_of :: "jsnum list \<Rightarrow> jsnum" where
  "median_of ps =
     (let n = length ps in
      if n mod 2 \<noteq> 0 then ps ! ((n - 1) div 2)
      else num_div (num_add (ps ! (n div 2 - 1)) (ps ! (n div 2))) (Fin 2))"

definition price_range :: "(jstr \<times> jstr) list \<Rightarrow> (jsnum \<times> jsnum \<times> jsnum) option" where
  "price_range live =
     (let ps = sort_by num_lt (map (\<lambda>(_, p). js_number p) live)
      in if ps = [] then None else Some (hd ps, median_of ps, last ps))"

definition computeMarketAggregates :: "env \<Rightarrow> int \<Rightarrow> MarketAggregates io" where
  "computeMarketAggregates E now =
     seqI (liveOffers E now) (\<lambda>live.
     let ids = map fst live in
     seqI (if live = [] then ret (0, 0, 0) else pg E (\<lambda>_. live_totals ids)) (\<lambda>(liveProviders, liveCores, ram).
     seqI (pg_read E market_totals) (\<lambda>(total, active, atts).
     seqI (if live = [] then ret [] else busyBatch E ids) (\<lambda>busySet.
     seqI (if busySet = [] then ret 0 else pg E (\<lambda>_. busy_providers busySet)) (\<lambda>busyProviders.
     ret \<lparr>ag_total = total, ag_active = liveProviders, ag_busy = busyProviders,
          ag_free = max 0 (liveProviders - busyProviders),
          ag_offActive = active, ag_offLive = int (length live), ag_offBusy = int (length busySet),
          ag_attestations = atts, ag_cores = liveCores, ag_ram = fl ram, ag_price = price_range live\<rparr>)))))"

definition aggregates_json :: "MarketAggregates \<Rightarrow> (string \<times> jsval) list" where
  "aggregates_json a =
     [(''providers'', obj [(''total'', jint (ag_total a)), (''active'', jint (ag_active a)),
         (''busy'', jint (ag_busy a)), (''free'', jint (ag_free a))]),
      (''offers'', obj [(''active'', jint (ag_offActive a)), (''live'', jint (ag_offLive a)),
         (''busy'', jint (ag_offBusy a))]),
      (''attestations'', obj [(''valid'', jint (ag_attestations a))]),
      (''capacity'', obj [(''liveCores'', jint (ag_cores a)), (''liveRamGib'', JNum (ag_ram a))]),
      (''price'', case ag_price a of None \<Rightarrow> JNull
         | Some (lo, mid, hi) \<Rightarrow> obj [(''min'', JNum lo), (''median'', JNum mid), (''max'', JNum hi)])]"

definition getStats :: "env \<Rightarrow> jsval option \<Rightarrow> jstr \<Rightarrow> response io" where
  "getStats E sim ip =
     seqI (limited E ''query'' ip rl_queryPerIp) (\<lambda>_.
     seqI (getCachedStats E) (\<lambda>cached.
     case cached of
       Some b \<Rightarrow> ret \<lparr>status = 200, body = b\<rparr>
     | None \<Rightarrow>
         seqI (time_now E) (\<lambda>now.
         seqI (computeMarketAggregates E now) (\<lambda>agg.
         let b = obj ([(''at'', jint (now div 1000)), (''unit'', JStr (js ''GLM''))] @ aggregates_json agg
                   @ (case sim of None \<Rightarrow> [] | Some s \<Rightarrow> [(''demandSim'', s)])) in
         seqI (setCachedStats E b (statsTtlMs (cfg E))) (\<lambda>_.
         ret \<lparr>status = 200, body = b\<rparr>)))))"

subsection \<open>The service's description\<close>

definition getSpec :: "env \<Rightarrow> response io" where
  "getSpec E =
     seqI (or_throw (addressFromPrivateKey (noble_fns E) (svc_key E))) (\<lambda>key.
     ret (json 200
       [(''version'', JStr (js ''0.2-draft'')),
        (''models'', JArr [JStr (js ''cpu/v1'')]),
        (''unit'', JStr (js ''GLM'')),
        (''serviceKey'', JStr key),
        (''bench'', obj [(''chainLen'', jint (chainLen (cfg E))), (''checkpoints'', jint (checkpoints (cfg E))),
           (''samples'', jint (samples (cfg E))), (''maxLaneMs'', jint (maxLaneMs (cfg E)))])]))"

subsection \<open>Facts\<close>

lemma tables_of: "keeps same_tables m \<Longrightarrow> m w = (r, w') \<Longrightarrow> tables w' = tables w"
  by (metis keeps_def same_tables_def snd_conv)

lemma busyBatch_subset:
  assumes "busyBatch E ids w = (Inr b, w')"
  shows "set b \<subseteq> set ids \<and> distinct b"
proof -
  define f where "f = (\<lambda>out (i :: jstr, v :: rval option). if v = None \<or> i \<in> set out then out else out @ [i])"
  have "set (foldl f a xs) \<subseteq> set a \<union> fst ` set xs \<and> (distinct a \<longrightarrow> distinct (foldl f a xs))" for a :: "jstr list" and xs
  proof (induction xs arbitrary: a)
    case (Cons x xs)
    obtain i v where x: "x = (i, v)" by fastforce
    show ?case using Cons.IH [of "f a x"] by (auto simp: x f_def)
  qed simp
  from this [of "[]"] have *: "set (foldl f [] (zip ids vs)) \<subseteq> set ids \<and> distinct (foldl f [] (zip ids vs))" for vs
    by (fastforce dest: set_zip_leftD)
  show ?thesis
  proof (cases "ids = []")
    case False
    with assms obtain r w1 where "send E (MGET (map KBusy ids)) w = (Inr r, w1)"
      "(case r of RVals vs \<Rightarrow> ret (foldl f [] (zip ids vs)) | _ \<Rightarrow> ret []) w1 = (Inr b, w')"
      by (auto simp: busyBatch_def f_def [symmetric] seqI_Inr)
    then show ?thesis using * by (cases r) auto
  qed (use assms in \<open>simp add: busyBatch_def\<close>)
qed

lemma listed_mono:
  assumes "set xs \<subseteq> set ys" and "listed_offers xs d = Some r1" and "listed_offers ys d = Some r2"
  shows "set r1 \<subseteq> set r2"
proof -
  let ?f = "\<lambda>i. unhex (slice_from 2 i)"
  obtain bx yb where b: "mapO ?f xs = Some bx" "mapO ?f ys = Some yb"
    "r1 = filter (\<lambda>r. of_id r \<in> set bx) (offers d)" "r2 = filter (\<lambda>r. of_id r \<in> set yb) (offers d)"
    using assms(2,3) by (auto simp: listed_offers_def)
  have mem: "mapO ?f zs = Some bz \<Longrightarrow> b \<in> set bz \<longleftrightarrow> (\<exists>i \<in> set zs. ?f i = Some b)" for zs bz b
    unfolding mapO_Some_iff by (induction zs bz rule: list_all2_induct) auto
  show ?thesis using assms(1) mem [OF b(1)] mem [OF b(2)] by (auto simp: b(3,4))
qed

lemma count_mono: "set r1 \<subseteq> set r2 \<Longrightarrow> count_providers r1 \<le> count_providers r2"
  unfolding count_providers_def by (simp, rule card_mono) auto

lemma count_registered:
  assumes "db_ok d" and "listed_offers ids d = Some rows"
  shows "count_providers rows \<le> int (length (providers d))"
proof -
  have "set (map of_provider rows) \<subseteq> pr_id ` set (providers d)"
    using assms by (auto simp: db_ok_def listed_offers_def)
  then have "card (set (map of_provider rows)) \<le> card (pr_id ` set (providers d))"
    by (intro card_mono) simp_all
  also have "\<dots> \<le> length (providers d)" by (metis card_image_le card_length finite_set le_trans)
  finally show ?thesis by (simp add: count_providers_def)
qed

subsection \<open>Prices\<close>

lemma insert_by_Fin: "insert_by num_lt (Fin x) (map Fin rs) = map Fin (insort x rs)"
  by (induction rs) (auto simp: num_lt_def)

lemma sort_by_Fin: "sort_by num_lt (map Fin rs) = map Fin (sort rs)"
proof (induction rs)
  case (Cons x xs)
  have "sort_by num_lt (map Fin (x # xs)) = insert_by num_lt (Fin x) (sort_by num_lt (map Fin xs))"
    by (simp add: sort_by_def)
  then show ?case using Cons by (simp add: insert_by_Fin)
qed (simp add: sort_by_def)

lemma sorted_nth_le: "sorted xs \<Longrightarrow> i \<le> j \<Longrightarrow> j < length xs \<Longrightarrow> xs ! i \<le> xs ! j"
  by (rule sorted_nth_mono)

lemma median_between:
  assumes s: "sorted rs" and ne: "rs \<noteq> []" and d: "\<And>r. r \<in> set rs \<Longrightarrow> double r \<and> 0 \<le> r \<and> r < 2 ^ 1023"
  shows "\<exists>m. median_of (map Fin rs) = Fin m \<and> hd rs \<le> m \<and> m \<le> last rs"
proof -
  let ?n = "length rs"
  have ends: "hd rs = rs ! 0" "last rs = rs ! (?n - 1)" using ne by (simp_all add: hd_conv_nth last_conv_nth)
  have pos: "0 < ?n" using ne by simp
  show ?thesis
  proof (cases "?n mod 2 = 0")
    case False
    have i: "(?n - 1) div 2 < ?n" using pos by linarith
    then have "hd rs \<le> rs ! ((?n - 1) div 2)" "rs ! ((?n - 1) div 2) \<le> last rs"
      unfolding ends using s by (auto intro!: sorted_nth_le)
    then show ?thesis using False i by (simp add: median_of_def Let_def)
  next
    case True
    define i where "i = ?n div 2"
    have i2: "?n = 2 * i" using True mult_div_mod_eq [of 2 ?n] by (simp only: i_def add_0_right)
    then have i: "1 \<le> i" "i < ?n" using pos by simp_all
    have le: "rs ! (i - 1) \<le> rs ! i" "hd rs \<le> rs ! (i - 1)" "rs ! i \<le> last rs"
      unfolding ends using s i by (auto intro!: sorted_nth_le)
    have "rs ! (i - 1) \<in> set rs" "rs ! i \<in> set rs" using i by simp_all
    from mean_between [of "rs ! (i - 1)" "rs ! i"] d [OF this(1)] d [OF this(2)] le(1)
    obtain m where "num_div (num_add (Fin (rs ! (i - 1))) (Fin (rs ! i))) (Fin 2) = Fin m" "rs ! (i - 1) \<le> m" "m \<le> rs ! i"
      by auto
    then show ?thesis using True i le by (auto simp: median_of_def Let_def i_def [symmetric] intro: order_trans)
  qed
qed


lemma valid_price:
  assumes "isValidPrice (JStr p)"
  shows "\<exists>r. js_number p = Fin r \<and> double r \<and> 0 \<le> r \<and> r < 2 ^ 1023"
proof -
  obtain r where r: "js_number p = Fin r" "0 \<le> r" "r \<le> 99999999" using isValidPrice_value [OF assms] by auto
  have "PRICE_RE p" using assms by (simp add: isValidPrice_def)
  from js_number_decimal [OF PRICE_RE_decimal [OF this]] r(1) have "fl (dec_value p) = Fin r" by simp
  then have "double r" by (rule double_fl)
  moreover have "r < 2 ^ 1023"
  proof -
    have "r < 2 ^ 27" using r(3) by simp
    also have "\<dots> \<le> (2 :: rat) ^ 1023" by (rule power_increasing) simp_all
    finally show ?thesis .
  qed
  ultimately show ?thesis using r by blast
qed

lemma price_range_ok:
  assumes v: "\<And>i p. (i, p) \<in> set live \<Longrightarrow> isValidPrice (JStr p)"
  shows "price_range live = None \<longleftrightarrow> live = []"
    and "price_range live = Some (lo, mid, hi) \<Longrightarrow> num_le lo mid \<and> num_le mid hi
      \<and> lo \<in> js_number ` snd ` set live \<and> hi \<in> js_number ` snd ` set live
      \<and> (\<forall>(i, p) \<in> set live. num_le lo (js_number p) \<and> num_le (js_number p) hi)"
proof -
  define val where "val p = (THE r. js_number p = Fin r)" for p
  have val: "js_number p = Fin (val p)" "double (val p)" "0 \<le> val p" "val p < 2 ^ 1023" if "(i, p) \<in> set live" for i p
    using valid_price [OF v [OF that]] by (auto simp: val_def)
  define rs where "rs = sort (map (\<lambda>(i, p). val p) live)"
  have "map (\<lambda>(_, p). js_number p) live = map Fin (map (\<lambda>(i, p). val p) live)"
    using val(1) by auto
  then have ps: "sort_by num_lt (map (\<lambda>(_, p). js_number p) live) = map Fin rs"
    by (simp only: sort_by_Fin rs_def)
  have set_rs: "set rs = (\<lambda>(i, p). val p) ` set live" by (simp add: rs_def)
  have ne: "rs = [] \<longleftrightarrow> live = []" by (metis set_rs image_is_empty set_empty)
  show "price_range live = None \<longleftrightarrow> live = []"
    by (simp add: price_range_def ps ne Let_def)
  assume "price_range live = Some (lo, mid, hi)"
  then have r: "rs \<noteq> []" "lo = Fin (hd rs)" "mid = median_of (map Fin rs)" "hi = Fin (last rs)"
    by (auto simp: price_range_def ps Let_def hd_map last_map split: if_splits)
  have s: "sorted rs" by (simp add: rs_def)
  obtain m where m: "median_of (map Fin rs) = Fin m" "hd rs \<le> m" "m \<le> last rs"
    using median_between [OF s r(1)] val(2-4) set_rs by fastforce
  have e: "hd rs \<le> x" "x \<le> last rs" if "x \<in> set rs" for x
  proof -
    obtain k where k: "k < length rs" "x = rs ! k" using \<open>x \<in> set rs\<close> by (metis in_set_conv_nth)
    show "hd rs \<le> x" "x \<le> last rs"
      using k r(1) s by (auto simp: hd_conv_nth last_conv_nth intro!: sorted_nth_le)
  qed
  have mem: "Fin x \<in> js_number ` snd ` set live" if x: "x \<in> set rs" for x
  proof -
    obtain i p where ip: "(i, p) \<in> set live" "x = val p" using x unfolding set_rs by (elim imageE) (simp split: prod.splits)
    have "js_number p \<in> js_number ` snd ` set live" using ip(1) by (metis image_eqI snd_conv)
    then show ?thesis using val(1) [OF ip(1)] ip(2) by simp
  qed
  have "lo \<in> js_number ` snd ` set live" "hi \<in> js_number ` snd ` set live"
    unfolding r(2,4) using r(1) by (auto intro!: mem)
  moreover have "num_le lo (js_number p) \<and> num_le (js_number p) hi" if "(i, p) \<in> set live" for i p
  proof -
    have "val p \<in> set rs" unfolding set_rs using that by (metis (mono_tags) case_prod_conv image_eqI)
    then show ?thesis using e val(1) [OF that] r(2,4) by simp
  qed
  ultimately show "num_le lo mid \<and> num_le mid hi
      \<and> lo \<in> js_number ` snd ` set live \<and> hi \<in> js_number ` snd ` set live
      \<and> (\<forall>(i, p) \<in> set live. num_le lo (js_number p) \<and> num_le (js_number p) hi)"
    using m r(2,3,4) by (simp add: case_prod_beta) auto
qed


subsection \<open>Properties\<close>

lemma live_part_tables:
  "tables w1 = tables w \<Longrightarrow> pg E (\<lambda>_. live_totals ids) w1 = (Inr x, w2) \<Longrightarrow>
     live_totals ids (tables w) = Some (x, tables w) \<and> tables w2 = tables w"
  by (auto simp: guard_simps live_totals_def Let_def split: option.splits if_splits)

lemma busy_part_tables:
  "tables w1 = tables w \<Longrightarrow> pg E (\<lambda>_. busy_providers ids) w1 = (Inr x, w2) \<Longrightarrow>
     busy_providers ids (tables w) = Some (x, tables w) \<and> tables w2 = tables w"
  by (auto simp: guard_simps busy_providers_def)

lemma compute_Inr:
  assumes "computeMarketAggregates E now w = (Inr a, w')"
  obtains live w1 w2 w3 w4 n c r b m where "liveOffers E now w = (Inr live, w1)"
    "(if live = [] then ret (0, 0, 0) else pg E (\<lambda>_. live_totals (map fst live))) w1 = (Inr (n, c, r), w2)"
    "pg_read E market_totals w2 = (Inr m, w3)"
    "(if live = [] then ret [] else busyBatch E (map fst live)) w3 = (Inr b, w4)"
    "(if b = [] then ret 0 else pg E (\<lambda>_. busy_providers b)) w4 = (Inr (ag_busy a), w')"
    "ag_total a = fst m" "ag_active a = n" "ag_free a = max 0 (n - ag_busy a)" "ag_offLive a = int (length live)"
    "ag_offBusy a = int (length b)" "ag_price a = price_range live"
  using assms unfolding computeMarketAggregates_def Let_def
  by (auto simp: seqI_Inr split: prod.splits)

text \<open>Busy providers are among the live ones, and live ones are registered.\<close>

lemma busy_counts:
  assumes "db_ok d" and "set b \<subseteq> set ids"
    and n: "ids = [] \<Longrightarrow> n = 0" "ids \<noteq> [] \<Longrightarrow> live_totals ids d = Some ((n, c, r), d)"
    and k: "b = [] \<Longrightarrow> k = 0" "b \<noteq> [] \<Longrightarrow> busy_providers b d = Some (k, d)"
  shows "0 \<le> k \<and> k \<le> n \<and> n \<le> int (length (providers d))"
proof (cases "ids = []")
  case True
  then show ?thesis using n(1) k(1) assms(2) by auto
next
  case False
  then obtain rows where rows: "listed_offers ids d = Some rows" "n = count_providers rows"
    using n(2) by (auto simp: live_totals_def Let_def split: option.splits if_splits)
  have le: "n \<le> int (length (providers d))" using count_registered [OF assms(1) rows(1)] rows(2) by simp
  show ?thesis
  proof (cases "b = []")
    case True
    then show ?thesis using k(1) le rows(2) by (simp add: count_providers_def)
  next
    case False
    then obtain br where br: "listed_offers b d = Some br" "k = count_providers br"
      using k(2) by (auto simp: busy_providers_def)
    have "set br \<subseteq> set rows" by (rule listed_mono [OF assms(2) br(1) rows(1)])
    then show ?thesis using count_mono [of br rows] br(2) rows(2) le by (simp add: count_providers_def)
  qed
qed

text \<open>The prices of the live offers lie in the range, and the median between its ends.\<close>

lemma price_range_live:
  assumes mem: "\<And>i p. (i, p) \<in> set live \<longleftrightarrow> i \<in> L \<and> P i = Some p" and L: "L \<subseteq> dom P"
    and v: "\<And>i p. P i = Some p \<Longrightarrow> isValidPrice (JStr p)"
  shows "price_range live = None \<longleftrightarrow> L = {}"
    and "price_range live = Some (lo, mid, hi) \<Longrightarrow> num_le lo mid \<and> num_le mid hi
      \<and> (\<forall>i \<in> L. num_le lo (js_number (the (P i))) \<and> num_le (js_number (the (P i))) hi)"
proof -
  have v': "isValidPrice (JStr q)" if "(i, q) \<in> set live" for i q using that mem v by blast
  have at: "(i, the (P i)) \<in> set live" if i: "i \<in> L" for i
  proof -
    obtain p where "P i = Some p" using i L by blast
    then show ?thesis using mem [of i p] i by simp
  qed
  have "i \<in> L" if "(i, p) \<in> set live" for i p using mem that by blast
  with at have ne: "live = [] \<longleftrightarrow> L = {}" by (cases live) fastforce+
  show "price_range live = None \<longleftrightarrow> L = {}" using price_range_ok(1) [OF v'] ne by simp
  show "price_range live = Some (lo, mid, hi) \<Longrightarrow> num_le lo mid \<and> num_le mid hi
      \<and> (\<forall>i \<in> L. num_le lo (js_number (the (P i))) \<and> num_le (js_number (the (P i))) hi)"
  proof -
    assume "price_range live = Some (lo, mid, hi)"
    from price_range_ok(2) [OF v' this] have o: "num_le lo mid" "num_le mid hi"
      "\<forall>(i, p) \<in> set live. num_le lo (js_number p) \<and> num_le (js_number p) hi" by simp_all
    then show ?thesis using at by fastforce
  qed
qed

text \<open>
  C21: in a computed market the busy providers are among the live ones, who are registered;
  the free ones are the rest; no more offers are busy than live; and there are prices
  exactly when there are live offers: the lowest and the highest among the stored ones, the
  median between them.
\<close>

theorem market_consistent:
  assumes "redis_up E" and "client w" and "db_ok (tables w)" and "distinct (map fst (kv_live (kvs w)))"
    and "\<And>i p. map_of (kv_prices (kvs w)) i = Some p \<Longrightarrow> isValidPrice (JStr p)"
    and "computeMarketAggregates E now w = (Inr a, w')"
  shows "0 \<le> ag_busy a \<and> ag_busy a \<le> ag_active a \<and> ag_active a \<le> ag_total a
     \<and> ag_free a = ag_active a - ag_busy a \<and> ag_total a = int (length (providers (tables w)))
     \<and> 0 \<le> ag_offBusy a \<and> ag_offBusy a \<le> ag_offLive a \<and> tables w' = tables w
     \<and> (\<exists>live. ag_offLive a = int (card live)
          \<and> live = {i. (\<exists>sc. (i, sc) \<in> set (kv_live (kvs w)) \<and> now \<le> sc) \<and> i \<in> dom (map_of (kv_prices (kvs w)))}
          \<and> (ag_price a = None \<longleftrightarrow> live = {})
          \<and> (\<forall>lo mid hi. ag_price a = Some (lo, mid, hi) \<longrightarrow> num_le lo mid \<and> num_le mid hi
               \<and> (\<forall>i \<in> live. num_le lo (js_number (the (map_of (kv_prices (kvs w)) i)))
                            \<and> num_le (js_number (the (map_of (kv_prices (kvs w)) i))) hi)))"
proof -
  let ?d = "tables w" and ?P = "map_of (kv_prices (kvs w))"
  obtain live w1 w2 w3 w4 n c r b m where
    l: "liveOffers E now w = (Inr live, w1)" and
    t: "(if live = [] then ret (0, 0, 0) else pg E (\<lambda>_. live_totals (map fst live))) w1 = (Inr (n, c, r), w2)" and
    m: "pg_read E market_totals w2 = (Inr m, w3)" and
    b: "(if live = [] then ret [] else busyBatch E (map fst live)) w3 = (Inr b, w4)" and
    p: "(if b = [] then ret 0 else pg E (\<lambda>_. busy_providers b)) w4 = (Inr (ag_busy a), w')" and
    a: "ag_total a = fst m" "ag_active a = n" "ag_free a = max 0 (n - ag_busy a)" "ag_offLive a = int (length live)"
    "ag_offBusy a = int (length b)" "ag_price a = price_range live"
    using assms(6) by (rule compute_Inr)
  from liveOffers_up [OF assms(1,2,4), of now] l have live:
    "\<And>i p. (i, p) \<in> set live \<longleftrightarrow> (\<exists>sc. (i, sc) \<in> set (kv_live (kvs w)) \<and> now \<le> sc) \<and> ?P i = Some p"
    "distinct (map fst live)" "tables w1 = ?d"
    by auto
  have n: "tables w2 = ?d" "live = [] \<Longrightarrow> n = 0"
    "live \<noteq> [] \<Longrightarrow> live_totals (map fst live) ?d = Some ((n, c, r), ?d)"
    using t live_part_tables [OF live(3)] live(3) by (auto split: if_splits)
  have m': "m = market_totals (now_at E (tick w2)) ?d" "tables w3 = ?d"
    using m n(1) by (auto simp: guard_simps)
  have b': "tables w4 = ?d" "set b \<subseteq> fst ` set live" "distinct b"
    using b m'(2) tables_of [OF keeps_redis_ops(9)] busyBatch_subset by (fastforce split: if_splits)+
  have p': "tables w' = ?d" "b = [] \<Longrightarrow> ag_busy a = 0" "b \<noteq> [] \<Longrightarrow> busy_providers b ?d = Some (ag_busy a, ?d)"
    using p busy_part_tables [OF b'(1)] b'(1) by (auto split: if_splits)
  have ids: "set b \<subseteq> set (map fst live)" using b'(2) by simp
  have busy: "0 \<le> ag_busy a \<and> ag_busy a \<le> n \<and> n \<le> int (length (providers ?d))"
    by (rule busy_counts [OF assms(3) ids _ _ p'(2,3), of n c r]) (use n(2,3) in auto)
  have "length b \<le> length live"
    using ids b'(3) by (metis card_length card_mono distinct_card finite_set le_trans length_map)
  moreover define L where "L = {i. (\<exists>sc. (i, sc) \<in> set (kv_live (kvs w)) \<and> now \<le> sc) \<and> i \<in> dom ?P}"
  have mem: "(i, p) \<in> set live \<longleftrightarrow> i \<in> L \<and> ?P i = Some p" for i p using live(1) by (auto simp: L_def)
  have L: "L = set (map fst live)" using mem by (force simp: L_def)
  have "card L = length live" unfolding L using live(2) by (metis distinct_card length_map)
  moreover have "L \<subseteq> dom ?P" by (auto simp: L_def)
  note pr = price_range_live [OF mem this assms(5)]
  ultimately show ?thesis
    unfolding L_def [symmetric] using busy p'(1) m'(1) pr by (simp add: a market_totals_def)
qed


definition demo_market :: world where
  "demo_market = demo_world\<lparr>kvs := empty_kv\<lparr>kv_live := [(bufToHex demo_oid, 5)],
     kv_prices := [(bufToHex demo_oid, js ''2'')]\<rparr>\<rparr>"

lemma demo_market_runs: "\<exists>a w'. computeMarketAggregates demo_env 3 demo_market = (Inr a, w') \<and> ag_offLive a = 1"
proof -
  have o: "offers demo_db = [demo_offer]" by (simp add: demo_db_def)
  have s: "slice_from 2 (bufToHex demo_oid) = hex_of demo_oid" by (simp add: bufToHex_def)
  have c: "of_cores demo_offer = 16" by (simp add: demo_offer_def)
  have "listed_offers [bufToHex demo_oid] demo_db = Some [demo_offer]"
    by (simp add: listed_offers_def s o)
  then have "live_totals [bufToHex demo_oid] demo_db = Some ((1, 16, numeric_of (of_ram demo_offer)), demo_db)"
    by (simp add: live_totals_def Let_def c count_providers_def)
  then show ?thesis
    by (simp add: computeMarketAggregates_def seqI_def liveOffers_def send_up [OF demo_up] demo_market_def ret_def
        pg_def pg_read_def busyBatch_def alive_def empty_kv_def market_totals_def Let_def)
qed

theorem market_consistent_witness:
  "\<exists>a w'. computeMarketAggregates demo_env 3 demo_market = (Inr a, w') \<and> ag_offLive a = 1
     \<and> ag_busy a \<le> ag_active a \<and> ag_active a \<le> 1"
proof -
  obtain a w' where a: "computeMarketAggregates demo_env 3 demo_market = (Inr a, w')" "ag_offLive a = 1"
    using demo_market_runs by blast
  have "isValidPrice (JStr (js ''2''))" by code_simp
  then have v: "map_of (kv_prices (kvs demo_market)) i = Some p \<Longrightarrow> isValidPrice (JStr p)" for i p
    by (auto simp: demo_market_def split: if_splits)
  have w: "client demo_market" "db_ok (tables demo_market)" "distinct (map fst (kv_live (kvs demo_market)))"
    "int (length (providers (tables demo_market))) = 1"
    by (simp_all add: demo_market_def demo_db_ok) (simp add: demo_db_def)
  have "ag_busy a \<le> ag_active a \<and> ag_active a \<le> ag_total a \<and> ag_total a = int (length (providers (tables demo_market)))"
    using market_consistent [OF demo_up w(1-3) _ a(1)] v by blast
  with a w(4) show ?thesis by auto
qed

text \<open>
  The health endpoint always answers: with status 200 exactly when the database
  executed the probe, whatever happened to Redis, which is reported as present exactly when
  it answered the ping.
\<close>

theorem health_answers:
  assumes "redis_documented E" and "getHealth E w = (r, w')"
  shows "\<exists>up. r = Inr (json (if pg_fate E (tick w) = Works then 200 else 500)
       [(''version'', JStr (js ''0.2.1'')),
        (''postgres'', JStr (js (if pg_fate E (tick w) = Works then ''ok'' else ''down''))),
        (''redis'', JStr (js (if up then ''ok'' else ''absent'')))])
     \<and> available E (w\<lparr>tick := tick w + 1\<rparr>) = (Inr up, w') \<and> tables w' = tables w"
proof -
  let ?w1 = "w\<lparr>tick := tick w + 1\<rparr>"
  obtain x w2 where s: "send E PING ?w1 = (Inr x, w2)" "tables w2 = tables ?w1"
  proof -
    obtain y w2 where y: "send E PING ?w1 = (y, w2)" by fastforce
    from send_documented [OF assms(1) y] obtain x where "y = Inr x" "sent E PING ?w1 w2 x" by blast
    then show thesis using that y by (simp add: sent_def)
  qed
  have av: "available E ?w1 = (Inr (x = RPong), w2)" by (simp add: available_def seqI_def s(1) [simplified] ret_def)
  have pg: "tryI (seqI (pg_read E (\<lambda>_ _. ())) (\<lambda>_. ret ''ok'')) (\<lambda>_. ret ''down'') w =
      (Inr (if pg_fate E (tick w) = Works then ''ok'' else ''down''), ?w1)"
    by (auto simp: tryI_def seqI_def pg_read_def pg_def ret_def Let_def split: fate.split)
  show ?thesis
    using assms(2) s(2) av
    unfolding getHealth_def
      seqI_step [where m = "tryI (seqI (pg_read E (\<lambda>_ _. ())) (\<lambda>_. ret ''ok'')) (\<lambda>_. ret ''down'')", OF pg]
      seqI_step [where m = "available E", OF av] ret_def
    by (intro exI [of _ "x = RPong"]) (auto simp: package_version_def)
qed

theorem health_answers_witness:
  "\<exists>w'. getHealth (demo_env\<lparr>pg_fate := (\<lambda>_. Fails)\<rparr>) demo_world = (Inr (json 500 [(''version'', JStr (js ''0.2.1'')),
      (''postgres'', JStr (js ''down'')), (''redis'', JStr (js ''ok''))]), w')"
proof -
  let ?E = "demo_env\<lparr>pg_fate := (\<lambda>_. Fails)\<rparr>"
  obtain r w' where g: "getHealth ?E demo_world = (r, w')" by fastforce
  have u: "redis_up ?E" using demo_up by (simp add: redis_up_def)
  have "available ?E (demo_world\<lparr>tick := 1\<rparr>) = (Inr True, demo_world\<lparr>tick := 2\<rparr>)"
    by (simp add: available_def seqI_def send_up [OF u] ret_def)
  with health_answers [OF redis_up_documented [OF u] g] g show ?thesis by auto
qed

end
