(* ===== verification/Stats_History.thy ===== *)
theory Stats_History
  imports Ops
begin

text \<open>
  The market's history (\<open>src/stats-history.ts\<close>): the sampler writes the aggregates of a moment
  as a row and prunes old ones; the endpoint averages the rows of a range by bucket.  \<open>avg\<close> is
  the database's \<open>avg\<close> on \<open>numeric\<close>, of which the properties use that a mean lies between the
  least and the greatest of its arguments; \<open>sim\<close> are the ledger totals while the simulator
  runs.
\<close>

subsection \<open>Sampling\<close>

definition snapshot_row :: "int \<Rightarrow> MarketAggregates \<Rightarrow> (jsnum \<times> int) option \<Rightarrow> snap_row" where
  "snapshot_row now a sim =
     \<lparr>sn_at = now, sn_provTotal = ag_total a, sn_provActive = ag_active a, sn_provBusy = ag_busy a,
      sn_offActive = ag_offActive a, sn_offLive = ag_offLive a, sn_offBusy = ag_offBusy a,
      sn_atts = ag_attestations a, sn_cores = ag_cores a, sn_ram = numeric_of (ag_ram a),
      sn_price = map_option (\<lambda>(lo, mid, hi). (numeric_of lo, numeric_of mid, numeric_of hi)) (ag_price a),
      sn_sim = map_option (\<lambda>(spent, jobs). (numeric_of spent, jobs)) sim\<rparr>"

definition insert_snapshot :: "snap_row \<Rightarrow> db \<Rightarrow> db" where
  "insert_snapshot r d =
     (if sn_at r \<in> sn_at ` set (snapshots d) then d else d\<lparr>snapshots := snapshots d @ [r]\<rparr>)"

definition prune_snapshots :: "int \<Rightarrow> int \<Rightarrow> db \<Rightarrow> db" where
  "prune_snapshots days t d = d\<lparr>snapshots := filter (\<lambda>r. \<not> sn_at r < t - days * 86400000) (snapshots d)\<rparr>"

definition takeMarketSnapshot :: "env \<Rightarrow> (jsnum \<times> int) option \<Rightarrow> unit io" where
  "takeMarketSnapshot E sim =
     seqI (time_now E) (\<lambda>now.
     seqI (computeMarketAggregates E now) (\<lambda>a.
     seqI (pg E (\<lambda>_ d. Some ((), insert_snapshot (snapshot_row now a sim) d))) (\<lambda>_.
     pg E (\<lambda>t d. Some ((), prune_snapshots (statsRetentionDays (cfg E)) t d)))))"

text \<open>One tick of the sampler: a failed snapshot is logged and forgotten.\<close>

definition sampler_tick :: "env \<Rightarrow> (jsnum \<times> int) option \<Rightarrow> unit io" where
  "sampler_tick E sim = tryI (takeMarketSnapshot E sim) (\<lambda>_. ret ())"

subsection \<open>Ranges\<close>

definition RANGES :: "(string \<times> int \<times> int) list" where
  "RANGES = [(''1h'', 3600, 60), (''6h'', 21600, 300), (''24h'', 86400, 600), (''7d'', 604800, 3600),
             (''30d'', 2592000, 14400)]"

text \<open>
  \<open>RANGES[range]\<close> also finds the properties every object inherits; they are truthy, and not
  iterable.
\<close>

datatype range_spec = Spec int int | Inherited

definition inherited_names :: "string list" where
  "inherited_names = [''constructor'', ''__proto__'', ''hasOwnProperty'', ''isPrototypeOf'', ''propertyIsEnumerable'',
     ''toLocaleString'', ''toString'', ''valueOf'', ''__defineGetter__'', ''__defineSetter__'', ''__lookupGetter__'',
     ''__lookupSetter__'']"

definition lookup_range :: "jstr \<Rightarrow> range_spec option" where
  "lookup_range s =
     (case find (\<lambda>(n, _). js n = s) RANGES of
        Some (_, w, k) \<Rightarrow> Some (Spec w k)
      | None \<Rightarrow> if s \<in> js ` set inherited_names then Some Inherited else None)"

subsection \<open>Serving\<close>

text \<open>\<open>round\<close> on \<open>numeric\<close>: halves away from zero.\<close>

definition round_away :: "rat \<Rightarrow> int" where
  "round_away x = (if 0 \<le> x then \<lfloor>x + 1 / 2\<rfloor> else \<lceil>x - 1 / 2\<rceil>)"

definition avg_int :: "(rat list \<Rightarrow> rat) \<Rightarrow> (snap_row \<Rightarrow> int) \<Rightarrow> snap_row list \<Rightarrow> int" where
  "avg_int avg f rows = round_away (avg (map (\<lambda>r. of_int (f r)) rows))"

definition some_values :: "('a \<Rightarrow> 'b option) \<Rightarrow> 'a list \<Rightarrow> 'b list" where
  "some_values f xs = List.map_filter f xs"

record hist_point =
  hp_at :: int
  hp_provTotal :: int
  hp_provActive :: int
  hp_provBusy :: int
  hp_offActive :: int
  hp_offLive :: int
  hp_offBusy :: int
  hp_atts :: int
  hp_cores :: int
  hp_ram :: rat
  hp_price :: "(rat \<times> rat \<times> rat) option"
  hp_sim :: "(rat \<times> int) option"

text \<open>A group of rows; null columns do not enter an aggregate, which is null without any.\<close>

definition hist_row :: "(rat list \<Rightarrow> rat) \<Rightarrow> int \<Rightarrow> snap_row list \<Rightarrow> hist_point" where
  "hist_row avg b rows =
     (let prices = some_values sn_price rows; sims = some_values sn_sim rows in
      \<lparr>hp_at = b, hp_provTotal = avg_int avg sn_provTotal rows, hp_provActive = avg_int avg sn_provActive rows,
       hp_provBusy = avg_int avg sn_provBusy rows, hp_offActive = avg_int avg sn_offActive rows,
       hp_offLive = avg_int avg sn_offLive rows, hp_offBusy = avg_int avg sn_offBusy rows,
       hp_atts = avg_int avg sn_atts rows, hp_cores = avg_int avg sn_cores rows, hp_ram = avg (map sn_ram rows),
       hp_price = (if prices = [] then None
         else Some (avg (map fst prices), avg (map (fst \<circ> snd) prices), avg (map (snd \<circ> snd) prices))),
       hp_sim = (if sims = [] then None else Some (Max (set (map fst sims)), Max (set (map snd sims))))\<rparr>)"

definition bucket_of :: "int \<Rightarrow> snap_row \<Rightarrow> int" where
  "bucket_of step r = sn_at r div (1000 * step) * step"

definition history :: "(rat list \<Rightarrow> rat) \<Rightarrow> int \<Rightarrow> int \<Rightarrow> int \<Rightarrow> db \<Rightarrow> hist_point list" where
  "history avg windowSec step t d =
     (let rows = filter (\<lambda>r. sn_at r > t - windowSec * 1000) (snapshots d)
      in map (\<lambda>b. hist_row avg b (filter (\<lambda>r. bucket_of step r = b) rows))
           (sort (remdups (map (bucket_of step) rows))))"

definition hist_json :: "hist_point \<Rightarrow> jsval" where
  "hist_json p = obj
     [(''at'', jint (hp_at p)),
      (''providers'', obj [(''total'', jint (hp_provTotal p)), (''active'', jint (hp_provActive p)), (''busy'', jint (hp_provBusy p))]),
      (''offers'', obj [(''active'', jint (hp_offActive p)), (''live'', jint (hp_offLive p)), (''busy'', jint (hp_offBusy p))]),
      (''attestations'', obj [(''valid'', jint (hp_atts p))]),
      (''capacity'', obj [(''liveCores'', jint (hp_cores p)), (''liveRamGib'', JNum (fl (hp_ram p)))]),
      (''price'', case hp_price p of None \<Rightarrow> JNull | Some (lo, mid, hi) \<Rightarrow>
         obj [(''min'', JNum (fl lo)), (''median'', JNum (fl mid)), (''max'', JNum (fl hi))]),
      (''sim'', case hp_sim p of None \<Rightarrow> JNull | Some (spent, jobs) \<Rightarrow>
         obj [(''spent'', JNum (fl spent)), (''jobs'', jint jobs)])]"

definition getStatsHistory ::
    "env \<Rightarrow> (rat list \<Rightarrow> rat) \<Rightarrow> jstr \<Rightarrow> (string \<Rightarrow> jstr option) \<Rightarrow> response io" where
  "getStatsHistory E avg ip url =
     seqI (limited E ''query'' ip rl_queryPerIp) (\<lambda>_.
     let range = param_or url ''range'' ''24h'' in
     case lookup_range range of
       None \<Rightarrow> throw (err_field VALIDATION ''range'')
     | Some Inherited \<Rightarrow> throw Uncaught
     | Some (Spec windowSec stepSec) \<Rightarrow>
         seqI (pg_read E (history avg windowSec stepSec)) (\<lambda>points.
         ret (json 200 [(''range'', JStr range), (''stepSec'', jint stepSec), (''unit'', JStr (js ''GLM'')),
                        (''points'', JArr (map hist_json points))])))"

subsection \<open>Means and rounding\<close>

definition avg_ok :: "(rat list \<Rightarrow> rat) \<Rightarrow> bool" where
  "avg_ok avg = (\<forall>xs. xs \<noteq> [] \<longrightarrow> Min (set xs) \<le> avg xs \<and> avg xs \<le> Max (set xs))"

lemma round_away_mono: "x \<le> y \<Longrightarrow> round_away x \<le> round_away y"
proof -
  assume xy: "x \<le> y"
  consider "0 \<le> x" | "y < 0" | "x < 0" "0 \<le> y" by linarith
  then show ?thesis
  proof cases
    case 3
    have "\<lceil>x - 1 / 2\<rceil> \<le> 0" "0 \<le> \<lfloor>y + 1 / 2\<rfloor>" using 3 by (simp_all add: ceiling_le_iff le_floor_iff)
    then have "\<lceil>x - 1 / 2\<rceil> \<le> \<lfloor>y + 1 / 2\<rfloor>" by (rule order_trans)
    then show ?thesis using 3 by (simp add: round_away_def)
  qed (use xy in \<open>auto simp: round_away_def intro!: floor_mono ceiling_mono\<close>)
qed

lemma round_away_of_int [simp]: "round_away (of_int n) = n"
proof -
  have "\<lfloor>of_int n + 1 / 2 :: rat\<rfloor> = n" "\<lceil>of_int n - 1 / 2 :: rat\<rceil> = n"
    by (simp_all add: floor_eq_iff ceiling_eq_iff)
  then show ?thesis by (simp add: round_away_def)
qed

lemma avg_int_between:
  assumes "avg_ok avg" and "rows \<noteq> []"
  shows "\<exists>lo \<in> set rows. \<exists>hi \<in> set rows. f lo \<le> avg_int avg f rows \<and> avg_int avg f rows \<le> f hi"
proof -
  define xs where "xs = map (\<lambda>r. of_int (f r) :: rat) rows"
  have ne: "xs \<noteq> []" using assms(2) by (simp add: xs_def)
  then have "Min (set xs) \<in> set xs" "Max (set xs) \<in> set xs" by simp_all
  then obtain lo hi where r: "lo \<in> set rows" "Min (set xs) = of_int (f lo)" "hi \<in> set rows" "Max (set xs) = of_int (f hi)"
    unfolding xs_def by auto
  have "round_away (Min (set xs)) \<le> round_away (avg xs)" "round_away (avg xs) \<le> round_away (Max (set xs))"
    using assms(1) ne by (auto simp: avg_ok_def intro!: round_away_mono)
  then show ?thesis using r by (auto simp: avg_int_def xs_def)
qed

subsection \<open>Buckets\<close>

lemma range_shape: "lookup_range s = Some (Spec w k) \<Longrightarrow> 0 < k \<and> (\<exists>m. w = int m * k \<and> m \<le> 180)"
proof -
  assume "lookup_range s = Some (Spec w k)"
  then have "(w, k) \<in> set (map snd RANGES)"
    by (auto simp: lookup_range_def find_Some_iff split: option.splits if_splits) (metis nth_mem snd_conv image_eqI)
  then have "(w, k) = (60 * 60, 60) \<or> (w, k) = (72 * 300, 300) \<or> (w, k) = (144 * 600, 600)
      \<or> (w, k) = (168 * 3600, 3600) \<or> (w, k) = (180 * 14400, 14400)"
    by (simp add: RANGES_def)
  then show ?thesis by (elim disjE) (force intro: exI [of _ 60] exI [of _ 72] exI [of _ 144] exI [of _ 168] exI [of _ 180])+
qed

lemma bucket_bounds: "0 < k \<Longrightarrow> bucket_of k r * 1000 \<le> sn_at r \<and> sn_at r < (bucket_of k r + k) * 1000"
proof -
  assume k: "0 < k"
  let ?K = "1000 * k"
  define q z where "q = sn_at r div ?K" and "z = sn_at r mod ?K"
  have "sn_at r = q * ?K + z" unfolding q_def z_def by (rule div_mult_mod_eq [symmetric])
  moreover have "0 \<le> z" "z < ?K" using k by (simp_all add: z_def)
  moreover have "bucket_of k r = q * k" by (simp add: bucket_of_def q_def)
  ultimately show ?thesis by (simp add: algebra_simps)
qed

lemma bucket_count:
  assumes k: "0 < k" and rows: "\<And>r. r \<in> set rows \<Longrightarrow> t - int m * k * 1000 < sn_at r \<and> sn_at r \<le> t"
  shows "card (bucket_of k ` set rows) \<le> m + 1"
proof -
  let ?K = "1000 * k"
  have K: "0 < ?K" using k by simp
  have "bucket_of k r \<in> (\<lambda>q. q * k) ` {t div ?K - int m .. t div ?K}" if "r \<in> set rows" for r
  proof -
    have "t - int m * ?K < sn_at r" "sn_at r \<le> t" using rows [OF that] by (simp_all add: mult_ac)
    then have "(t - int m * ?K) div ?K \<le> sn_at r div ?K" "sn_at r div ?K \<le> t div ?K"
      using K by (auto intro!: zdiv_mono1)
    moreover have "(t - int m * ?K) div ?K = t div ?K - int m"
      using K by (metis add.commute diff_conv_add_uminus div_mult_self1 less_irrefl mult_minus_left)
    ultimately show ?thesis unfolding bucket_of_def by (intro imageI) simp
  qed
  then have "card (bucket_of k ` set rows) \<le> card ((\<lambda>q. q * k) ` {t div ?K - int m .. t div ?K})"
    by (intro card_mono) auto
  also have "\<dots> \<le> card {t div ?K - int m .. t div ?K}" by (rule card_image_le) simp
  finally show ?thesis by simp
qed


definition counts_of :: "((snap_row \<Rightarrow> int) \<times> (hist_point \<Rightarrow> int)) list" where
  "counts_of = [(sn_provTotal, hp_provTotal), (sn_provActive, hp_provActive), (sn_provBusy, hp_provBusy),
     (sn_offActive, hp_offActive), (sn_offLive, hp_offLive), (sn_offBusy, hp_offBusy), (sn_atts, hp_atts), (sn_cores, hp_cores)]"

lemma counts_avg: "(f, g) \<in> set counts_of \<Longrightarrow> g (hist_row avg b rows) = avg_int avg f rows"
  by (auto simp: counts_of_def hist_row_def Let_def)

lemma hp_at_row [simp]: "hp_at (hist_row avg b rows) = b"
  by (simp add: hist_row_def Let_def)

text \<open>
  C22: the history of any range has at most 181 points, in ascending order, at multiples of the
  bucket size; every sample of the window falls into the bucket of a point, and each count of
  a point lies between the least and the greatest of its bucket's samples.
\<close>

theorem history_points:
  assumes "lookup_range s = Some (Spec w k)" and "avg_ok avg" and "\<And>r. r \<in> set (snapshots d) \<Longrightarrow> sn_at r \<le> t"
  shows "length (history avg w k t d) \<le> 181 \<and> sorted_wrt (<) (map hp_at (history avg w k t d))
    \<and> (\<forall>r \<in> set (snapshots d). t - w * 1000 < sn_at r \<longrightarrow>
          (\<exists>p \<in> set (history avg w k t d). hp_at p * 1000 \<le> sn_at r \<and> sn_at r < (hp_at p + k) * 1000))
    \<and> (\<forall>p \<in> set (history avg w k t d). k dvd hp_at p \<and> (\<forall>(f, g) \<in> set counts_of.
          \<exists>lo \<in> set (snapshots d). \<exists>hi \<in> set (snapshots d). f lo \<le> g p \<and> g p \<le> f hi
            \<and> (\<forall>r \<in> {lo, hi}. t - w * 1000 < sn_at r \<and> hp_at p * 1000 \<le> sn_at r \<and> sn_at r < (hp_at p + k) * 1000)))"
proof -
  obtain m where k: "0 < k" and m: "w = int m * k" "m \<le> 180" using range_shape [OF assms(1)] by blast
  define rows where "rows = filter (\<lambda>r. sn_at r > t - w * 1000) (snapshots d)"
  define bs where "bs = sort (remdups (map (bucket_of k) rows))"
  define pt where "pt b = hist_row avg b (filter (\<lambda>r. bucket_of k r = b) rows)" for b
  have h: "history avg w k t d = map pt bs" by (simp add: history_def rows_def bs_def pt_def Let_def)
  have at: "map hp_at (map pt bs) = bs" by (simp add: pt_def comp_def)
  have set_bs: "set bs = bucket_of k ` set rows" by (simp add: bs_def)
  have in_rows: "r \<in> set rows \<longleftrightarrow> r \<in> set (snapshots d) \<and> t - w * 1000 < sn_at r" for r by (auto simp: rows_def)
  have "distinct bs" by (simp add: bs_def)
  then have "length bs = card (bucket_of k ` set rows)" using set_bs by (metis distinct_card)
  also have "\<dots> \<le> m + 1" using assms(3) in_rows m(1) by (intro bucket_count [OF k, of _ t]) auto
  finally have 1: "length (history avg w k t d) \<le> 181" using m(2) by (simp add: h)
  have 2: "sorted_wrt (<) (map hp_at (history avg w k t d))"
    unfolding h at using \<open>distinct bs\<close> by (simp add: bs_def strict_sorted_iff)
  have 3: "\<exists>p \<in> set (history avg w k t d). hp_at p * 1000 \<le> sn_at r \<and> sn_at r < (hp_at p + k) * 1000"
    if "r \<in> set (snapshots d)" "t - w * 1000 < sn_at r" for r
  proof -
    have "bucket_of k r \<in> set bs" using that in_rows set_bs by blast
    then show ?thesis unfolding h using bucket_bounds [OF k, of r] by (intro bexI [of _ "pt (bucket_of k r)"]) (simp_all add: pt_def)
  qed
  have 4: "k dvd hp_at p \<and> (\<exists>lo \<in> set (snapshots d). \<exists>hi \<in> set (snapshots d). f lo \<le> g p \<and> g p \<le> f hi
            \<and> (\<forall>r \<in> {lo, hi}. t - w * 1000 < sn_at r \<and> hp_at p * 1000 \<le> sn_at r \<and> sn_at r < (hp_at p + k) * 1000))"
    if p: "p \<in> set (history avg w k t d)" and fg: "(f, g) \<in> set counts_of" for p f g
  proof -
    obtain b where b: "b \<in> set bs" "p = pt b" using p unfolding h by auto
    let ?G = "filter (\<lambda>r. bucket_of k r = b) rows"
    have ne: "?G \<noteq> []" using b(1) unfolding set_bs by (auto simp: filter_empty_conv)
    obtain lo hi where lh: "lo \<in> set ?G" "hi \<in> set ?G" "f lo \<le> avg_int avg f ?G" "avg_int avg f ?G \<le> f hi"
      using avg_int_between [OF assms(2) ne] by blast
    have e: "g p = avg_int avg f ?G" "hp_at p = b" using counts_avg [OF fg] b(2) by (simp_all add: pt_def)
    have "r \<in> set (snapshots d) \<and> t - w * 1000 < sn_at r \<and> b * 1000 \<le> sn_at r \<and> sn_at r < (b + k) * 1000"
      if "r \<in> set ?G" for r
      using that bucket_bounds [OF k, of r] by (auto simp: in_rows)
    moreover have "k dvd b" using b(1) unfolding set_bs by (auto simp: bucket_of_def)
    ultimately show ?thesis using lh e by auto
  qed
  have 5: "k dvd hp_at p" if "p \<in> set (history avg w k t d)" for p
    using 4 [OF that, of sn_cores hp_cores] by (simp add: counts_of_def)
  from 1 2 3 4 5 show ?thesis by (intro conjI ballI impI) auto
qed


definition demo_snap :: "int \<Rightarrow> snap_row" where
  "demo_snap at0 = \<lparr>sn_at = at0, sn_provTotal = 3, sn_provActive = 2, sn_provBusy = 1, sn_offActive = 4, sn_offLive = 2,
     sn_offBusy = 1, sn_atts = 3, sn_cores = 16, sn_ram = 64, sn_price = None, sn_sim = None\<rparr>"

lemma range_1h: "lookup_range (js ''1h'') = Some (Spec 3600 60)"
  by (simp add: lookup_range_def RANGES_def)

theorem history_points_witness:
  "length (history hd 3600 60 90000 (demo_db\<lparr>snapshots := [demo_snap 1000, demo_snap 61000]\<rparr>)) \<le> 181
   \<and> (\<exists>p \<in> set (history hd 3600 60 90000 (demo_db\<lparr>snapshots := [demo_snap 1000, demo_snap 61000]\<rparr>)). hp_at p * 1000 \<le> 61000)"
proof -
  have a: "avg_ok hd" by (simp add: avg_ok_def)
  let ?d = "demo_db\<lparr>snapshots := [demo_snap 1000, demo_snap 61000]\<rparr>"
  have s: "snapshots ?d = [demo_snap 1000, demo_snap 61000]" "sn_at (demo_snap n) = n" for n
    by (simp_all add: demo_snap_def)
  have "length (history hd 3600 60 90000 ?d) \<le> 181 \<and> (\<forall>r \<in> set (snapshots ?d). 90000 - 3600 * 1000 < sn_at r \<longrightarrow>
          (\<exists>p \<in> set (history hd 3600 60 90000 ?d). hp_at p * 1000 \<le> sn_at r \<and> sn_at r < (hp_at p + 60) * 1000))"
    using history_points [OF range_1h a, of ?d 90000] s by fastforce
  then show ?thesis by (simp add: s) blast
qed

subsection \<open>The sampler\<close>

definition only_snapshots :: "world \<Rightarrow> world \<Rightarrow> bool" where
  "only_snapshots w w' =
     ((tables w')\<lparr>snapshots := []\<rparr> = (tables w)\<lparr>snapshots := []\<rparr>
      \<and> (distinct (map sn_at (snapshots (tables w))) \<longrightarrow> distinct (map sn_at (snapshots (tables w')))))"

interpretation snaps: world_order only_snapshots
  by unfold_locales (simp_all add: only_snapshots_def)

lemma keeps_unchanged: "(\<And>t d a d'. f t d = Some (a, d') \<Longrightarrow> d' = d) \<Longrightarrow> keeps same_tables (pg E f)"
  by (rule frame.keeps_pg) (auto simp: same_tables_def)

lemma frame_compute: "keeps same_tables (computeMarketAggregates E now)"
proof -
  have "keeps same_tables (pg E (\<lambda>_. live_totals ids))" "keeps same_tables (pg E (\<lambda>_. busy_providers ids))" for ids
    by (rule keeps_unchanged, auto simp: live_totals_def busy_providers_def Let_def split: option.splits if_splits)+
  then show ?thesis
    unfolding computeMarketAggregates_def Let_def
    by (auto intro!: frame.keeps_rules frame_simps split: prod.splits)
qed

lemma frame_snaps: "keeps same_tables m \<Longrightarrow> keeps only_snapshots m"
  by (erule keeps_mono [rotated]) (simp add: same_tables_def only_snapshots_def)

lemma snaps_take: "keeps only_snapshots (takeMarketSnapshot E sim)"
proof -
  have "keeps only_snapshots (pg E (\<lambda>t d. Some ((), insert_snapshot r d)))" for r
    by (rule snaps.keeps_pg) (auto simp: only_snapshots_def insert_snapshot_def)
  moreover have "keeps only_snapshots (pg E (\<lambda>t d. Some ((), prune_snapshots n t d)))" for n
    by (rule snaps.keeps_pg) (auto simp: only_snapshots_def prune_snapshots_def distinct_map_filter)
  ultimately show ?thesis
    unfolding takeMarketSnapshot_def by (intro snaps.keeps_rules frame_snaps [OF frame_compute])
qed

text \<open>
  C23: a tick of the sampler never fails, whatever Redis and the database do; it changes no
  table but the samples, of which there is at most one per moment, and after a completed
  snapshot none is older than the retention time.
\<close>

theorem sampler_safe:
  assumes "distinct (map sn_at (snapshots (tables w)))"
  shows "\<exists>w'. sampler_tick E sim w = (Inr (), w') \<and> distinct (map sn_at (snapshots (tables w')))
     \<and> (tables w')\<lparr>snapshots := []\<rparr> = (tables w)\<lparr>snapshots := []\<rparr>
     \<and> (takeMarketSnapshot E sim w = (Inr (), w') \<longrightarrow> (\<exists>n now a. snapshots (tables w') =
          filter (\<lambda>r. now_at E n - statsRetentionDays (cfg E) * 86400000 \<le> sn_at r)
            (if now \<in> sn_at ` set (snapshots (tables w)) then snapshots (tables w)
             else snapshots (tables w) @ [snapshot_row now a sim])))"
proof -
  obtain x w' where x: "takeMarketSnapshot E sim w = (x, w')" by fastforce
  have o: "only_snapshots w w'" using snaps_take [of E sim] x by (metis keeps_def snd_conv)
  have t: "sampler_tick E sim w = (Inr (), w')"
    using x by (cases x) (auto simp: sampler_tick_def tryI_def ret_def)
  have "\<exists>n now a. snapshots (tables w') = filter (\<lambda>r. now_at E n - statsRetentionDays (cfg E) * 86400000 \<le> sn_at r)
            (if now \<in> sn_at ` set (snapshots (tables w)) then snapshots (tables w)
             else snapshots (tables w) @ [snapshot_row now a sim])" if c: "x = Inr ()"
  proof -
    obtain now w1 a w2 w3 where s: "time_now E w = (Inr now, w1)" "computeMarketAggregates E now w1 = (Inr a, w2)"
      "pg E (\<lambda>_ d. Some ((), insert_snapshot (snapshot_row now a sim) d)) w2 = (Inr (), w3)"
      "pg E (\<lambda>t d. Some ((), prune_snapshots (statsRetentionDays (cfg E)) t d)) w3 = (Inr (), w')"
      using x c by (auto simp: takeMarketSnapshot_def seqI_Inr)
    have "tables w2 = tables w" using tables_of [OF frame_compute s(2)] s(1) by (simp add: time_now_Inr)
    with s(3,4) have "tables w' = prune_snapshots (statsRetentionDays (cfg E)) (now_at E (tick w3))
        (insert_snapshot (snapshot_row now a sim) (tables w))"
      by (auto simp: pg_Inr)
    then show ?thesis
      by (intro exI [of _ "tick w3"] exI [of _ now] exI [of _ a])
        (simp add: prune_snapshots_def insert_snapshot_def snapshot_row_def not_less)
  qed
  with t o assms x show ?thesis by (auto simp: only_snapshots_def)
qed

theorem sampler_safe_witness:
  "\<exists>w'. sampler_tick demo_env None (demo_market\<lparr>tables := demo_db\<lparr>snapshots := [demo_snap 5]\<rparr>\<rparr>) = (Inr (), w')
     \<and> distinct (map sn_at (snapshots (tables w')))"
  using sampler_safe [of "demo_market\<lparr>tables := demo_db\<lparr>snapshots := [demo_snap 5]\<rparr>\<rparr>" demo_env None] by auto

text \<open>
  A range that is no range is refused as invalid, except that the name of a property
  every JavaScript object inherits (\<open>range=constructor\<close>) is an internal error.
\<close>

theorem inherited_range_internal:
  assumes "limited E ''query'' ip rl_queryPerIp w = (Inr (), w1)" and "url ''range'' = Some s"
    and "\<And>a b. lookup_range s \<noteq> Some (Spec a b)"
  shows "status (wrap (fst (getStatsHistory E avg ip url w))) =
     (if \<exists>n \<in> set inherited_names. s = js n then 500 else 400)"
proof -
  have l: "lookup_range s = (if \<exists>n \<in> set inherited_names. s = js n then Some Inherited else None)"
  proof (cases "find (\<lambda>(n, _). js n = s) RANGES")
    case (Some x)
    then have "lookup_range s = Some (Spec (fst (snd x)) (snd (snd x)))" by (simp add: lookup_range_def split: prod.split)
    then show ?thesis using assms(3) by blast
  qed (auto simp: lookup_range_def)
  show ?thesis
    unfolding getStatsHistory_def seqI_step [where m = "limited E ''query'' ip rl_queryPerIp", OF assms(1)] Let_def
    by (auto simp: param_or_def assms(2) l throw_def wrap_def toResponse_def err_field_def)
qed

theorem inherited_range_internal_witness:
  "\<exists>w1. limited still_env ''query'' (js ''a'') rl_queryPerIp empty_world = (Inr (), w1)
     \<and> status (wrap (fst (getStatsHistory still_env hd (js ''a'') (\<lambda>_. Some (js ''constructor'')) empty_world))) = 500"
proof -
  have "\<exists>w1. limited still_env ''query'' (js ''a'') rl_queryPerIp empty_world = (Inr (), w1)"
    by (simp add: limited_def rateLimit_def seqI_def time_now_def ret_def guardI_def send_up [OF still_up]
        empty_world_def empty_kv_def rl_queryPerIp_def counter_def alive_def Let_def)
  then obtain w1 where w1: "limited still_env ''query'' (js ''a'') rl_queryPerIp empty_world = (Inr (), w1)" ..
  have "lookup_range (js ''constructor'') = Some Inherited"
    by (simp add: lookup_range_def RANGES_def inherited_names_def)
  then show ?thesis
    using w1 inherited_range_internal [OF w1, of "\<lambda>_. Some (js ''constructor'')" "js ''constructor''" hd]
    by (auto simp: inherited_names_def)
qed

end
