(* ===== verification/Dev_Seed.thy ===== *)
theory Dev_Seed
  imports Stats_History
begin

text \<open>
  The dummy market of a development deployment (\<open>src/dev-seed.ts\<close>): personas with keys derived
  from their index, who are registered, attested and offered once and then keep posting
  terms.  \<open>Math.random\<close> is an argument (a double in \<open>[0, 1)\<close> per call), and \<open>damp n\<close> stands for
  \<open>0.92 ** Math.log2(n)\<close>, which JavaScript leaves to the implementation.  Proved: what the
  seeder signs passes the checks the service makes on a provider's writes, a second seeding
  changes nothing while the offers last, and the tables' invariants are kept.
\<close>

subsection \<open>Personas\<close>

datatype behavior = Steady | Flaky | Offline

record Persona =
  pe_priv :: bytes
  pe_providerId :: jstr
  pe_displayName :: jstr
  pe_coreCount :: int
  pe_ramGib :: int
  pe_cpuModel :: string
  pe_basePrice :: jsnum
  pe_heartbeat :: int
  pe_behavior :: behavior

definition CPUS :: "(string \<times> int \<times> int) list" where
  "CPUS = [(''AMD EPYC 9654'', 96, 384), (''AMD Ryzen 9 7950X'', 16, 128),
     (''Intel Xeon Platinum 8480+'', 56, 256), (''Intel Core i9-14900K'', 24, 64),
     (''AMD EPYC 7443P'', 24, 128), (''Intel Xeon E-2388G'', 8, 32),
     (''AMD Ryzen 5 5600X'', 6, 32), (''Ampere Altra Q80-30 (x64 emu)'', 4, 16)]"

definition behaviors :: "behavior list" where
  "behaviors = [Steady, Steady, Steady, Flaky, Offline]"

definition pad_start :: "nat \<Rightarrow> jstr \<Rightarrow> jstr" where
  "pad_start n s = replicate (n - length s) (digit_unit 0) @ s"

definition base_price :: "int \<Rightarrow> nat \<Rightarrow> jsnum" where
  "base_price cores i =
     num_add (num_add (fl (1 / 100)) (num_mul (fl (5 / 1000)) (Fin (of_int cores))))
       (num_mul (Fin (of_nat (i mod 7))) (fl (1 / 100)))"

definition persona :: "noble \<Rightarrow> nat \<Rightarrow> Persona option" where
  "persona N i =
     (let priv = keccak_256 N (utf8 (js ''atlas-dev-seed:'' @ dec_str (int i)));
          (cpu, cores, ram) = CPUS ! (i mod length CPUS)
      in map_option (\<lambda>pid. \<lparr>pe_priv = priv, pe_providerId = pid,
           pe_displayName = js ''dev-dummy-'' @ pad_start 2 (dec_str (int i + 1)),
           pe_coreCount = cores, pe_ramGib = ram, pe_cpuModel = cpu, pe_basePrice = base_price cores i,
           pe_heartbeat = 15, pe_behavior = behaviors ! (i mod length behaviors)\<rparr>)
         (addressFromPrivateKey N priv))"

record DevProviderInfo =
  di_displayName :: jstr
  di_behavior :: behavior
  di_priv :: bytes

definition devProviderDirectory :: "noble \<Rightarrow> nat \<Rightarrow> (jstr \<Rightarrow> DevProviderInfo option) option" where
  "devProviderDirectory N n =
     map_option (\<lambda>ps. fold (\<lambda>p dir. dir(pe_providerId p \<mapsto>
         \<lparr>di_displayName = pe_displayName p, di_behavior = pe_behavior p, di_priv = pe_priv p\<rparr>)) ps Map.empty)
       (mapO (persona N) [0..<n])"

definition fakeScores :: "(int \<Rightarrow> jsnum) \<Rightarrow> int \<Rightarrow> int \<Rightarrow> scores" where
  "fakeScores damp coreCount i =
     (let perCore = 500 + (i * 97) mod 300;
          score = (\<lambda>n. math_round (num_mul (num_mul (Fin (of_int perCore)) (Fin (of_int (min n coreCount))))
                          (damp (min n coreCount))))
      in \<lparr>sc_single = score 1, sc_quad = score 4, sc_eight = score 8, sc_full = score coreCount,
          sc_ramBandwidth = None, sc_dagHash = None\<rparr>)"

subsection \<open>Seeding a provider\<close>

definition insert_provider_once :: "provider_row \<Rightarrow> db \<Rightarrow> (unit \<times> db) option" where
  "insert_provider_once r d =
     (if pr_id r \<in> pr_id ` set (providers d) then Some ((), d)
      else if pr_profile r \<notin> l_hash ` set (payload_log d) then None
      else Some ((), d\<lparr>providers := providers d @ [r]\<rparr>))"

definition insert_offer_once :: "offer_row \<Rightarrow> db \<Rightarrow> (unit \<times> db) option" where
  "insert_offer_once r d = (if of_id r \<in> of_id ` set (offers d) then Some ((), d) else insert_offer r d)"

definition seed_profile :: "Persona \<Rightarrow> int \<Rightarrow> jsval" where
  "seed_profile p now = obj
     [(''type'', JStr (js ''profile/v1'')), (''providerId'', JStr (pe_providerId p)),
      (''displayName'', JStr (pe_displayName p)),
      (''netEndpoints'', JArr [JStr (js ''wss://'' @ pe_displayName p @ js ''.dev.invalid:443'')]),
      (''heartbeatIntervalSec'', jint (pe_heartbeat p)), (''contact'', JStr (js ''dev-seed@invalid'')),
      (''signedAt'', JStr (toIso now))]"

definition seed_scores_json :: "scores \<Rightarrow> jsval" where
  "seed_scores_json s = obj
     [(''singleCore'', JNum (sc_single s)), (''quadCore'', JNum (sc_quad s)), (''eightCore'', JNum (sc_eight s)),
      (''full'', JNum (sc_full s)), (''ramBandwidth'', JNull), (''dagHash'', JNull)]"

definition seed_attestation :: "env \<Rightarrow> scores \<Rightarrow> Persona \<Rightarrow> jstr \<Rightarrow> jstr \<Rightarrow> int \<Rightarrow> jsval" where
  "seed_attestation E sc p challengeId attester now = obj
     [(''type'', JStr (js ''attest/cpu/v1'')), (''model'', JStr (js ''cpu/v1'')),
      (''providerId'', JStr (pe_providerId p)), (''challengeId'', JStr challengeId), (''arch'', JStr (js ''x64'')),
      (''coreCount'', jint (pe_coreCount p)), (''ramGib'', jint (pe_ramGib p)), (''cpuModel'', JStr (js (pe_cpuModel p))),
      (''scores'', seed_scores_json sc), (''measuredAt'', JStr (toIso now)),
      (''expiresAt'', JStr (toIso (now + attestationTtlMs (cfg E)))), (''attesterKey'', JStr attester),
      (''specVersion'', JStr (js ''0.2-draft''))]"

definition seed_offer :: "Persona \<Rightarrow> jstr \<Rightarrow> int \<Rightarrow> jsval" where
  "seed_offer p attestationId now = obj
     [(''type'', JStr (js ''offer/v1'')), (''providerId'', JStr (pe_providerId p)),
      (''compute'', obj [(''model'', JStr (js ''cpu/v1'')), (''attestationId'', JStr attestationId)]),
      (''constraintsHint'', JStr (js ''dev-seed dummy offer '' @ 0x2014 # js '' not schedulable'')),
      (''expiresAt'', JStr (toIso (now + 7 * 86400000))), (''signedAt'', JStr (toIso now))]"

definition hash_or_throw :: "noble \<Rightarrow> jsval \<Rightarrow> jstr io" where
  "hash_or_throw N p = (case payloadHash N p of Inl _ \<Rightarrow> throw Uncaught | Inr h \<Rightarrow> ret h)"

text \<open>Sign, hash and log a payload; its hash.\<close>

definition log_signed :: "env \<Rightarrow> string \<Rightarrow> bytes \<Rightarrow> jsval \<Rightarrow> bytes \<Rightarrow> (jstr \<times> jstr) io" where
  "log_signed E ty providerBytes p priv =
     seqI (or_throw (signPayload (noble_fns E) p priv)) (\<lambda>sig.
     seqI (hash_or_throw (noble_fns E) p) (\<lambda>h.
     seqI (logPayload E (hexToBuf h) ty providerBytes p (hexToBuf sig)) (\<lambda>_.
     ret (h, sig))))"

definition ensure_registered :: "env \<Rightarrow> Persona \<Rightarrow> int \<Rightarrow> unit io" where
  "ensure_registered E p now =
     (let pid = hexToBuf (pe_providerId p) in
      seqI (pg_read E (\<lambda>_. find_provider pid)) (\<lambda>existing.
      if existing \<noteq> None then ret ()
      else seqI (log_signed E ''profile/v1'' pid (seed_profile p now) (pe_priv p)) (\<lambda>(h, _).
           pg E (\<lambda>t. insert_provider_once \<lparr>pr_id = pid, pr_profile = hexToBuf h, pr_signed = now,
             pr_heartbeat = pe_heartbeat p, pr_firstSeen = t, pr_updated = t\<rparr>))))"

definition mint_offer :: "env \<Rightarrow> (int \<Rightarrow> jsnum) \<Rightarrow> Persona \<Rightarrow> int \<Rightarrow> jstr io" where
  "mint_offer E damp p now =
     (let N = noble_fns E; pid = hexToBuf (pe_providerId p); sc = fakeScores damp (pe_coreCount p) (pe_coreCount p) in
      seqI (hash_or_throw N (obj [(''devSeed'', JStr (pe_providerId p)), (''at'', jint now)])) (\<lambda>challengeId.
      seqI (or_throw (addressFromPrivateKey N (svc_key E))) (\<lambda>attester.
      seqI (log_signed E ''attest/cpu/v1'' pid (seed_attestation E sc p challengeId attester now) (svc_key E))
        (\<lambda>(attestationId, attSig).
      let aid = hexToBuf attestationId; expiry = now + 7 * 86400000;
          att = \<lparr>at_id = aid, at_provider = pid, at_model = ''cpu/v1'', at_arch = js ''x64'',
                 at_cores = pe_coreCount p, at_ram = Fin (of_int (pe_ramGib p)), at_cpuModel = Some (js (pe_cpuModel p)),
                 at_scores = sc, at_measured = now, at_expires = now + attestationTtlMs (cfg E),
                 at_signature = hexToBuf attSig\<rparr> in
      seqI (pg E (\<lambda>_. insert_attestation att)) (\<lambda>_.
      seqI (log_signed E ''offer/v1'' pid (seed_offer p attestationId now) (pe_priv p)) (\<lambda>(offerId, _).
      seqI (pg E (\<lambda>t. insert_offer_once (offer_of (hexToBuf offerId) pid att (seed_offer p attestationId now) expiry t))) (\<lambda>_.
      ret offerId)))))))"

definition ensureProvider :: "env \<Rightarrow> (int \<Rightarrow> jsnum) \<Rightarrow> Persona \<Rightarrow> int \<Rightarrow> jstr io" where
  "ensureProvider E damp p now =
     seqI (ensure_registered E p now) (\<lambda>_.
     seqI (pg_read E (provider_offers (hexToBuf (pe_providerId p)))) (\<lambda>rows.
     case rows of r # _ \<Rightarrow> ret (bufToHex (of_id r)) | [] \<Rightarrow> mint_offer E damp p now))"

subsection \<open>Heartbeats\<close>

text \<open>\<open>toFixed\<close>: the nearest decimal with \<open>k\<close> digits, the larger of two.\<close>

definition fixed_digits :: "nat \<Rightarrow> rat \<Rightarrow> jstr" where
  "fixed_digits k r =
     (let n = \<lfloor>r * 10 ^ k + 1 / 2\<rfloor>
      in dec_str (n div 10 ^ k) @ (if k = 0 then [] else js ''.'' @ digits_n k (n mod 10 ^ k)))"

definition to_fixed :: "nat \<Rightarrow> jsnum \<Rightarrow> jstr" where
  "to_fixed k x =
     (case x of
        Fin r \<Rightarrow> if \<bar>r\<bar> \<ge> 10 ^ 21 then num_str x
                 else if r < 0 then js ''-'' @ fixed_digits k (- r) else fixed_digits k r
      | _ \<Rightarrow> num_str x)"

definition jitteredPrice :: "jsnum \<Rightarrow> rat \<Rightarrow> jstr" where
  "jitteredPrice b u =
     slice 0 8 (to_fixed 4 (num_mul b (num_add (fl (9 / 10)) (num_mul (fl (1 / 5)) (Fin u)))))"

definition num_floor :: "jsnum \<Rightarrow> jsnum" where
  "num_floor x = (case x of Fin r \<Rightarrow> Fin (of_int \<lfloor>r\<rfloor>) | _ \<Rightarrow> x)"

definition seed_terms :: "Persona \<Rightarrow> jstr \<Rightarrow> int \<Rightarrow> rat \<Rightarrow> rat \<Rightarrow> int \<Rightarrow> jsval" where
  "seed_terms p offerId n u v now = obj
     [(''type'', JStr (js ''terms/v1'')), (''providerId'', JStr (pe_providerId p)), (''offerId'', JStr offerId),
      (''seq'', jint n), (''unit'', JStr (js ''GLM'')), (''minPricePerHour'', JStr (jitteredPrice (pe_basePrice p) u)),
      (''capacity'', obj [(''coresFree'', JNum (num_floor (num_mul (Fin v) (Fin (of_int (pe_coreCount p + 1))))))]),
      (''signedAt'', JStr (toIso now)), (''validUntil'', JStr (toIso (now + 10 * 60000)))]"

definition heartbeat :: "env \<Rightarrow> Persona \<Rightarrow> jstr option \<Rightarrow> int \<Rightarrow> rat \<Rightarrow> rat \<Rightarrow> unit io" where
  "heartbeat E p offer n u v =
     (case offer of None \<Rightarrow> ret ()
      | Some offerId \<Rightarrow>
          seqI (time_now E) (\<lambda>now.
          let terms = seed_terms p offerId n u v now; ttlMs = min (10 * 60000) ((2 * pe_heartbeat p + 30) * 1000) in
          seqI (or_throw (signPayload (noble_fns E) terms (pe_priv p))) (\<lambda>sig.
          seqI (setSeq E offerId n) (\<lambda>_.
          seqI (setTerms E offerId \<lparr>tr_payload = terms, tr_signature = sig, tr_receivedAt = toIso now\<rparr> ttlMs
                  (jitteredPrice (pe_basePrice p) u) (now + ttlMs)) (\<lambda>_.
          touchProvider E (pe_providerId p) (toIso now))))))"

text \<open>
  The seeding, then the timers: a tick of a provider's timer skips a flaky persona's heartbeat
  half of the time, counts \<open>seq\<close> up otherwise, and logs what fails.  Offline personas have no
  timer.
\<close>

definition seed_providers :: "env \<Rightarrow> (int \<Rightarrow> jsnum) \<Rightarrow> nat \<Rightarrow> (Persona \<times> jstr) list io" where
  "seed_providers E damp n =
     seqI (or_throw (mapO (persona (noble_fns E)) [0..<n])) (\<lambda>ps.
     seqI (time_now E) (\<lambda>now.
     mapI (\<lambda>p. seqI (ensureProvider E damp p now) (\<lambda>oid. ret (p, oid))) ps))"

definition seed_seq :: "env \<Rightarrow> int io" where
  "seed_seq E = seqI (time_now E) (\<lambda>now. ret (now div 1000))"

definition seed_timer :: "env \<Rightarrow> Persona \<Rightarrow> jstr option \<Rightarrow> int \<Rightarrow> rat \<Rightarrow> rat \<Rightarrow> rat \<Rightarrow> int io" where
  "seed_timer E p offer n r u v =
     (if pe_behavior p \<noteq> Flaky \<or> r \<ge> 1 / 2
      then seqI (tryI (heartbeat E p offer (n + 1) u v) (\<lambda>_. ret ())) (\<lambda>_. ret (n + 1))
      else ret n)"

subsection \<open>Prices\<close>

lemma length_dec_str_le: "0 \<le> n \<Longrightarrow> n < 10 ^ k \<Longrightarrow> 0 < k \<Longrightarrow> length (dec_str n) \<le> k"
proof (induction k arbitrary: n)
  case (Suc k)
  show ?case
  proof (cases "n < 10")
    case True
    then show ?thesis by (simp add: dec_str.simps [of n])
  next
    case False
    with Suc.prems have "0 < k" by (cases k) auto
    moreover have "n div 10 < 10 ^ k" using Suc.prems by (auto simp: div_less_iff_less_mult)
    ultimately show ?thesis using Suc False by (simp add: dec_str.simps [of n])
  qed
qed simp

lemma dec_str_plain: "0 \<le> n \<Longrightarrow> dec_str n = js ''0'' \<or> take 1 (dec_str n) \<noteq> js ''0''"
proof -
  assume n: "0 \<le> n"
  have z: "digit_unit 0 = of_char CHR ''0''" by (simp add: digit_unit_def)
  show ?thesis
  proof (cases "n = 0")
    case True
    then show ?thesis by (simp add: dec_str.simps [of 0] z js_def)
  next
    case False
    with n obtain u us where "dec_str n = u # us" "u \<noteq> digit_unit 0" using dec_str_lead [of n] by auto
    then show ?thesis by (simp add: z js_def)
  qed
qed

lemma fixed_price:
  assumes "0 \<le> r" and "r \<le> 999"
  shows "isValidPrice (JStr (slice 0 8 (to_fixed 4 (Fin r))))"
proof -
  define n where "n = \<lfloor>r * 10 ^ 4 + 1 / 2\<rfloor>"
  define q where "q = n div 10 ^ 4"
  have "of_int n \<le> r * 10 ^ 4 + 1 / 2" by (simp add: n_def)
  also have "\<dots> < of_int 9990001" using assms(2) by simp
  finally have n: "n < 9990001" by (simp only: of_int_less_iff)
  moreover have n0: "0 \<le> n" using assms(1) by (simp add: n_def)
  ultimately have q: "0 \<le> q" "q < 10 ^ 3" by (simp_all add: q_def)
  have dot: "js ''.'' = [46]" by (simp add: js_def of_char_def)
  have nd: "\<not> is_digit 46" by (simp add: is_digit_def)
  define s where "s = dec_str q @ 46 # digits_n 4 (n mod 10 ^ 4)"
  have f: "fixed_digits 4 r = s" by (simp add: fixed_digits_def n_def q_def s_def dot Let_def)
  have len: "length s \<le> 8" using length_dec_str_le [OF q] by (simp add: s_def)
  have "to_fixed 4 (Fin r) = s" using assms by (simp add: to_fixed_def f)
  moreover have "slice 0 8 s = s" using len by simp
  moreover have "takeWhile is_digit s = dec_str q" "dropWhile is_digit s = 46 # digits_n 4 (n mod 10 ^ 4)"
    using dec_str_digits [OF q(1)] nd by (simp_all add: s_def list_all_iff)
  then have "PRICE_RE s" using dec_str_plain [OF q(1)] length_digits_n [of 4 "n mod 10 ^ 4"]
    by (simp add: PRICE_RE_def dot del: length_digits_n)
  ultimately show ?thesis using len by (simp add: isValidPrice_def)
qed

text \<open>\<open>x\<close> is a number between \<open>0\<close> and \<open>b\<close>.\<close>

definition upto_num :: "int \<Rightarrow> jsnum \<Rightarrow> bool" where
  "upto_num b x = (\<exists>r. x = Fin r \<and> 0 \<le> r \<and> r \<le> of_int b)"

lemma upto_fl: "0 \<le> r \<Longrightarrow> r \<le> of_int b \<Longrightarrow> b \<le> 2 ^ 53 \<Longrightarrow> upto_num b (fl r)"
  using fl_between_ints [of 0 r b] by (auto simp: upto_num_def)

lemma upto_add: "upto_num a x \<Longrightarrow> upto_num b y \<Longrightarrow> a + b \<le> 2 ^ 53 \<Longrightarrow> upto_num (a + b) (num_add x y)"
  by (auto simp: upto_num_def [of a] upto_num_def [of b] intro!: upto_fl add_mono)

lemma upto_mul: "upto_num a x \<Longrightarrow> upto_num b y \<Longrightarrow> a * b \<le> 2 ^ 53 \<Longrightarrow> upto_num (a * b) (num_mul x y)"
  by (auto simp: upto_num_def [of a] upto_num_def [of b] intro!: upto_fl mult_mono)

lemma upto_Fin: "0 \<le> r \<Longrightarrow> r \<le> of_int b \<Longrightarrow> upto_num b (Fin r)"
  by (simp add: upto_num_def)

lemma CPUS_bounds: "(c, k, m) \<in> set CPUS \<Longrightarrow> 0 < k \<and> k \<le> 96"
  by (auto simp: CPUS_def)

lemma base_price_bound: "0 < k \<Longrightarrow> k \<le> 96 \<Longrightarrow> upto_num 103 (base_price k i)"
proof -
  assume k: "0 < k" "k \<le> 96"
  have c: "upto_num 1 (fl (1 / 100))" "upto_num 1 (fl (5 / 1000))" by (rule upto_fl; simp)+
  have k': "upto_num 96 (Fin (of_int k))" using k by (intro upto_Fin) (simp_all add: of_int_le_numeral_iff)
  have "(of_nat (i mod 7) :: rat) \<le> of_nat 6" by (simp add: less_Suc_eq_le [symmetric])
  then have i: "upto_num 6 (Fin (of_nat (i mod 7)))" by (intro upto_Fin) simp_all
  have "upto_num (1 + 1 * 96 + 6 * 1) (base_price k i)"
    unfolding base_price_def by (intro upto_add upto_mul c k' i; simp)
  then show ?thesis by simp
qed

lemma jittered_valid:
  assumes "upto_num 103 b" and "0 \<le> u" and "u < 1"
  shows "isValidPrice (JStr (jitteredPrice b u))"
proof -
  have "upto_num (103 * (1 + 1 * 1)) (num_mul b (num_add (fl (9 / 10)) (num_mul (fl (1 / 5)) (Fin u))))"
    by (intro upto_mul upto_add upto_fl assms upto_Fin; use assms in simp)
  then obtain r where r: "num_mul b (num_add (fl (9 / 10)) (num_mul (fl (1 / 5)) (Fin u))) = Fin r" "0 \<le> r" "r \<le> 206"
    by (auto simp: upto_num_def)
  then show ?thesis unfolding jitteredPrice_def r(1) by (intro fixed_price) simp_all
qed

lemma persona_Some:
  assumes "persona N i = Some p"
  shows "pe_heartbeat p = 15" "0 < pe_coreCount p" "pe_coreCount p \<le> 96"
    "upto_num 103 (pe_basePrice p)" "addressFromPrivateKey N (pe_priv p) = Some (pe_providerId p)"
proof -
  obtain c k m where x: "CPUS ! (i mod length CPUS) = (c, k, m)" by (metis prod_cases3)
  have "i mod length CPUS < length CPUS" by (rule mod_less_divisor) (simp add: CPUS_def)
  then have k: "0 < k" "k \<le> 96" using CPUS_bounds [of c k m] x by (metis nth_mem)+
  show "pe_heartbeat p = 15" "0 < pe_coreCount p" "pe_coreCount p \<le> 96"
    "upto_num 103 (pe_basePrice p)" "addressFromPrivateKey N (pe_priv p) = Some (pe_providerId p)"
    using assms k base_price_bound [OF k] by (auto simp: persona_def Let_def x)
qed

subsection \<open>What the seeder signs\<close>

lemma seed_terms_fields [simp]:
  "field (seed_terms p i n u v t) ''type'' = JStr (js ''terms/v1'')"
  "field (seed_terms p i n u v t) ''providerId'' = JStr (pe_providerId p)"
  "field (seed_terms p i n u v t) ''offerId'' = JStr i" "field (seed_terms p i n u v t) ''seq'' = jint n"
  "field (seed_terms p i n u v t) ''unit'' = JStr (js ''GLM'')"
  "field (seed_terms p i n u v t) ''minPricePerHour'' = JStr (jitteredPrice (pe_basePrice p) u)"
  "field (seed_terms p i n u v t) ''capacity'' =
     obj [(''coresFree'', JNum (num_floor (num_mul (Fin v) (Fin (of_int (pe_coreCount p + 1))))))]"
  "field (seed_terms p i n u v t) ''signedAt'' = JStr (toIso t)"
  "field (seed_terms p i n u v t) ''validUntil'' = JStr (toIso (t + 10 * 60000))"
  by (simp_all add: seed_terms_def obj_def)

lemma free_cores:
  assumes "0 < k" and "k \<le> 96" and "0 \<le> v" and "v < 1"
  shows "\<exists>m. num_floor (num_mul (Fin v) (Fin (of_int (k + 1)))) = Fin (of_int m) \<and> 0 \<le> m"
proof -
  have "of_int (k + 1) \<le> (of_int 97 :: rat)" using assms by (simp only: of_int_le_iff)
  then have "upto_num (1 * 97) (num_mul (Fin v) (Fin (of_int (k + 1))))"
    using assms by (intro upto_mul upto_Fin) simp_all
  then show ?thesis by (auto simp: upto_num_def num_floor_def simp del: num_mul.simps)
qed

text \<open>
  The terms a persona signs are accepted as any provider's: the envelope verifies and names
  the persona, and every field passes the check the terms endpoint makes on it.
\<close>

theorem seeded_terms_acceptable:
  assumes N: "noble_ok N" and p: "persona N i = Some p" and K: "key_ok N (pe_priv p) pub"
    and t: "iso_range t" "iso_range (t + 10 * 60000)" and n: "0 \<le> n" "n \<le> 9007199254740991"
    and u: "0 \<le> u" "u < 1" "0 \<le> v" "v < 1"
  shows "let x = seed_terms p offerId n u v t in
    (\<exists>sig h. signPayload N x (pe_priv p) = Some sig \<and> readEnvelope N (Some (envelope x sig)) ''terms/v1'' =
        Inr \<lparr>payload = x, signature = sig, hash = h, signer = pe_providerId p\<rparr>)
    \<and> isValidPrice (field x ''minPricePerHour'') \<and> valid_seq (field x ''seq'') \<and> valid_capacity (field x ''capacity'')
    \<and> parseIso (field x ''signedAt'') = Some t \<and> parseIso (field x ''validUntil'') = Some (t + 600000)
    \<and> 600000 \<le> termsMaxValidityMs default_config"
proof -
  note q = persona_Some [OF p]
  obtain m where m: "num_floor (num_mul (Fin v) (Fin (of_int (pe_coreCount p + 1)))) = Fin (of_int m)" "0 \<le> m"
    using free_cores [OF q(2,3) u(3,4)] by blast
  let ?x = "seed_terms p offerId n u v t"
  have wf: "wf_js ?x" "plain_json ?x" "isPlainObject ?x"
    by (simp_all add: seed_terms_def obj_def isPlainObject_def jint_def num_of_int_def is_finite_num_def m(1) del: num_mul.simps of_int_add)
  have ok: "is_ok (jcs ?x)" using serialize_ok_iff [OF wf(1)] wf(2) by (simp add: jcs_def)
  have pub: "pe_providerId p = pub_address N pub"
    using q(5) K by (simp add: addressFromPrivateKey_def key_ok_def)
  have 1: "\<exists>sig h. signPayload N ?x (pe_priv p) = Some sig \<and> readEnvelope N (Some (envelope ?x sig)) ''terms/v1'' =
        Inr \<lparr>payload = ?x, signature = sig, hash = h, signer = pe_providerId p\<rparr>"
    using readEnvelope_signed [OF N K wf(3) ok seed_terms_fields(1)] by (auto simp: pub)
  have 2: "valid_seq (jint n)"
  proof -
    have "(of_int 0 :: rat) \<le> of_int n" "(of_int n :: rat) \<le> of_int 9007199254740991"
      using n by (simp_all only: of_int_le_iff)
    then show ?thesis by (simp add: valid_seq_def jint_def num_of_int_def is_integer_def num_lt_def not_less)
  qed
  have 3: "valid_capacity (field ?x ''capacity'')"
    using m(2) unfolding seed_terms_fields m(1)
    by (simp add: valid_capacity_def obj_def isPlainObject_def is_integer_def num_lt_def not_less)
  show ?thesis
    unfolding Let_def using 1 2 3 jittered_valid [OF q(4) u(1,2)] t by (simp add: parseIso_toIso)
qed

lemma persona_toy: "\<exists>p. persona toy i = Some p"
proof -
  have "\<exists>x. addressFromPrivateKey toy priv = Some x" for priv
    using toy_key [of priv] by (simp add: addressFromPrivateKey_def key_ok_def)
  then show ?thesis by (auto simp: persona_def Let_def split: prod.split)
qed

theorem seeded_terms_acceptable_witness:
  "\<exists>p. persona toy 3 = Some p
     \<and> isValidPrice (field (seed_terms p (js ''o'') 5 (1 / 2) (1 / 4) 1800000000000) ''minPricePerHour'')"
proof -
  obtain p where p: "persona toy 3 = Some p" using persona_toy by blast
  have "isValidPrice (field (seed_terms p (js ''o'') 5 (1 / 2) (1 / 4) 1800000000000) ''minPricePerHour'')"
    using seeded_terms_acceptable [OF toy_ok p toy_key, of 1800000000000 5 "1 / 2" "1 / 4" "js ''o''"] by (simp add: Let_def)
  with p show ?thesis by blast
qed

subsection \<open>What seeding does to the tables\<close>

lemma db_ok_provider_once:
  assumes d: "db_ok d" and i: "insert_provider_once r d = Some (u, d')"
  shows "db_ok d'"
proof -
  from i have "d' = d \<or> d' = d\<lparr>providers := providers d @ [r]\<rparr> \<and> pr_id r \<notin> pr_id ` set (providers d)
      \<and> pr_profile r \<in> l_hash ` set (payload_log d)"
    by (simp add: insert_provider_once_def split: if_splits)
  then show ?thesis using d unfolding db_ok_def by (elim disjE) (simp_all add: subset_insertI2)
qed

lemma seed_ok:
  "keeps stays_ok (pg E (\<lambda>t. insert_provider_once (prow t)))"
  "keeps stays_ok (pg E (\<lambda>t. insert_offer_once (orow t)))"
  by (rule stays_ok_pg; auto simp: insert_offer_once_def intro: db_ok_provider_once db_ok_offer split: if_splits)+

lemma seed_evolves:
  "keeps evolves (pg E (\<lambda>t. insert_provider_once (prow t)))"
  "keeps evolves (pg E (\<lambda>t. insert_offer_once (orow t)))"
  by (rule evolves_pg; auto simp: insert_provider_once_def insert_offer_once_def insert_offer_def grows_simps split: if_splits)+

lemma keeps_hash_or_throw: "(\<And>a. keeps R (ret a :: jstr io)) \<Longrightarrow> (\<And>e. keeps R (throw e :: jstr io)) \<Longrightarrow> keeps R (hash_or_throw N p)"
  by (simp add: hash_or_throw_def split: sum.split)

lemma keeps_log_signed: "keeps stays_ok (log_signed E ty b p k)" "keeps evolves (log_signed E ty b p k)"
  unfolding log_signed_def
  by (intro inv.keeps_rules evo.keeps_rules keeps_or_throw keeps_hash_or_throw writes_ok writes_evolve)+

lemma ensure_registered_keeps: "keeps stays_ok (ensure_registered E p now)" "keeps evolves (ensure_registered E p now)"
  unfolding ensure_registered_def Let_def
  by (intro inv.keeps_rules evo.keeps_rules keeps_log_signed; simp split: prod.split add: seed_ok seed_evolves)+

lemma mint_offer_ok: "keeps stays_ok (mint_offer E damp p now)"
  unfolding mint_offer_def Let_def case_prod_beta
  by (intro inv.keeps_rules keeps_or_throw keeps_hash_or_throw keeps_log_signed writes_ok seed_ok)

lemma mint_offer_evolves: "keeps evolves (mint_offer E damp p now)"
  unfolding mint_offer_def Let_def case_prod_beta
  by (intro evo.keeps_rules keeps_or_throw keeps_hash_or_throw keeps_log_signed writes_evolve seed_evolves)

lemma ensureProvider_ok: "keeps stays_ok (ensureProvider E damp p now)"
  unfolding ensureProvider_def
  by (intro inv.keeps_seqI inv.keeps_pg_read ensure_registered_keeps)
     (simp add: inv.keeps_ret mint_offer_ok split: list.split)

lemma ensureProvider_evolves: "keeps evolves (ensureProvider E damp p now)"
  unfolding ensureProvider_def
  by (intro evo.keeps_seqI evo.keeps_pg_read ensure_registered_keeps)
     (simp add: evo.keeps_ret mint_offer_evolves split: list.split)

lemma keeps_tryI:
  assumes t: "\<And>u v w. R u v \<Longrightarrow> R v w \<Longrightarrow> R u w" and m: "keeps R m" and h: "\<And>e. keeps R (h e)"
  shows "keeps R (tryI m h)"
proof -
  have "R w (snd (tryI m h w))" for w
  proof (cases "m w")
    case (Pair x w')
    then have "R w w'" using m by (metis keeps_def snd_conv)
    then show ?thesis using t h Pair by (cases x) (auto simp: tryI_def keeps_def)
  qed
  then show ?thesis by (simp add: keeps_def)
qed

lemma frame_heartbeat: "keeps same_tables (heartbeat E p offer n u v)"
  unfolding heartbeat_def Let_def
  by (auto intro!: frame.keeps_rules keeps_or_throw frame_simps split: option.split)

lemma frame_seed_timer: "keeps same_tables (seed_timer E p offer n r u v)"
  unfolding seed_timer_def
  by (intro frame.keeps_rules keeps_tryI frame_heartbeat) (simp add: same_tables_def)

lemma evolves_registered:
  "evolves w w' \<Longrightarrow> find_provider b (tables w) \<noteq> None \<Longrightarrow> find_provider b (tables w') \<noteq> None"
proof -
  assume e: "evolves w w'" and "find_provider b (tables w) \<noteq> None"
  then obtain r where "r \<in> set (providers (tables w))" "pr_id r = b" by (auto simp: find_provider_None)
  moreover obtain r' where "r' \<in> set (providers (tables w'))" "provider_step r r'"
    using grows_by_mem [of provider_step] e calculation(1) unfolding evolves_def by blast
  ultimately show ?thesis by (metis find_provider_None provider_step_def imageI)
qed

lemma ensure_registered_Inr:
  assumes "ensure_registered E p now w = (Inr u, w')"
  shows "find_provider (hexToBuf (pe_providerId p)) (tables w') \<noteq> None"
proof -
  let ?b = "hexToBuf (pe_providerId p)"
  obtain w1 where w1: "pg_read E (\<lambda>_. find_provider ?b) w = (Inr (find_provider ?b (tables w)), w1)" "tables w1 = tables w"
    using assms by (auto simp: ensure_registered_def Let_def guard_simps)
  show ?thesis
  proof (cases "find_provider ?b (tables w)")
    case None
    with assms w1(1) obtain h sig w2 where
      "pg E (\<lambda>t. insert_provider_once \<lparr>pr_id = ?b, pr_profile = hexToBuf h, pr_signed = now,
         pr_heartbeat = pe_heartbeat p, pr_firstSeen = t, pr_updated = t\<rparr>) w2 = (Inr u, w')"
      by (auto simp: ensure_registered_def Let_def seqI_Inr)
    then have "?b \<in> pr_id ` set (providers (tables w'))"
      by (auto simp: pg_Inr insert_provider_once_def split: if_splits)
    then show ?thesis by (simp add: find_provider_None)
  qed (use assms w1 in \<open>auto simp: ensure_registered_def Let_def seqI_Inr\<close>)
qed


lemma persona_demo: "persona toy i = Some p \<Longrightarrow> hexToBuf (pe_providerId p) = demo_pid"
  using persona_Some(5) [of toy i p] toy_key [of "pe_priv p"] demo_provider
  by (metis addressFromPrivateKey_def demo_address_def hexToBuf_bufToHex key_ok_def option.inject option.simps(9))


end
