(* ===== verification/Sim_Ledger.thy ===== *)
theory Sim_Ledger
  imports Dev_Seed
begin

text \<open>
  The books of the demand simulator: its job shapes and personas, the live state, the
  aggregates it keeps in memory and the ledger of settled jobs (\<open>src/dev-requestors.ts\<close>), and
  the endpoint that lists the ledger (\<open>src/handlers/sim.ts\<close>).  Proved: memory and ledger agree
  on every job count while the ledger is written, so a restart continues where the service
  stopped; the two sides of the books agree on jobs; what the endpoint answers.  That the
  sums of money agree as well is refuted.
\<close>

subsection \<open>Shapes and personas\<close>

record JobShape =
  sh_name :: string
  sh_cores :: "int option"
  sh_ram :: "int option"
  sh_full :: "int option"
  sh_maxPrice :: string
  sh_sort :: string
  sh_run :: "int \<times> int"
  sh_idle :: "int \<times> int"
  sh_retry :: "int \<times> int"

definition SHAPES :: "JobShape list" where
  "SHAPES =
     [\<lparr>sh_name = ''ci-runner'', sh_cores = Some 8, sh_ram = Some 16, sh_full = None, sh_maxPrice = ''0.25'',
       sh_sort = ''price'', sh_run = (45000, 120000), sh_idle = (10000, 30000), sh_retry = (15000, 30000)\<rparr>,
      \<lparr>sh_name = ''render-batch'', sh_cores = Some 32, sh_ram = None, sh_full = Some 8000, sh_maxPrice = ''1.5'',
       sh_sort = ''score.full'', sh_run = (120000, 300000), sh_idle = (30000, 90000), sh_retry = (20000, 40000)\<rparr>,
      \<lparr>sh_name = ''tiny-cron'', sh_cores = Some 2, sh_ram = None, sh_full = None, sh_maxPrice = ''0.03'',
       sh_sort = ''price'', sh_run = (10000, 30000), sh_idle = (20000, 60000), sh_retry = (30000, 60000)\<rparr>,
      \<lparr>sh_name = ''mem-heavy'', sh_cores = None, sh_ram = Some 128, sh_full = None, sh_maxPrice = ''0.25'',
       sh_sort = ''price'', sh_run = (60000, 180000), sh_idle = (20000, 60000), sh_retry = (20000, 40000)\<rparr>,
      \<lparr>sh_name = ''bulk-sweep'', sh_cores = None, sh_ram = None, sh_full = None, sh_maxPrice = ''0.10'',
       sh_sort = ''price'', sh_run = (30000, 90000), sh_idle = (10000, 30000), sh_retry = (15000, 30000)\<rparr>]"

record RequestorPersona =
  rp_id :: jstr
  rp_name :: jstr
  rp_shape :: JobShape

definition requestorPersona :: "noble \<Rightarrow> nat \<Rightarrow> RequestorPersona option" where
  "requestorPersona N i =
     map_option (\<lambda>a. \<lparr>rp_id = a, rp_name = js ''dev-requestor-'' @ pad_start 2 (dec_str (int i + 1)),
                      rp_shape = SHAPES ! (i mod length SHAPES)\<rparr>)
       (addressFromPrivateKey N (keccak_256 N (utf8 (js ''atlas-dev-requestor:'' @ dec_str (int i)))))"

subsection \<open>Live state\<close>

datatype sim_status = Searching | Probing | Running | Idle

record sim_match =
  ma_provider :: jstr
  ma_providerName :: jstr
  ma_offer :: jstr
  ma_price :: jstr
  ma_since :: jstr
  ma_until :: jstr

record DevRequestorState =
  rs_id :: jstr
  rs_name :: jstr
  rs_shape :: string
  rs_wants :: "int option \<times> int option \<times> int option"
  rs_maxPrice :: string
  rs_status :: sim_status
  rs_match :: "sim_match option"
  rs_queries :: nat
  rs_matches :: nat
  rs_noMatch :: nat
  rs_probeRejected :: nat
  rs_bugs :: nat
  rs_spent :: jsnum
  rs_jobs :: nat
  rs_updated :: jstr

record DevProviderEarnings =
  ea_provider :: jstr
  ea_name :: jstr
  ea_earned :: jsnum
  ea_jobs :: nat
  ea_lastJob :: jstr

text \<open>
  The module's variables: the two maps in insertion order (the personas' ids differ, unless
  two addresses collide), and the totals.
\<close>

record sim_state =
  ss_states :: "DevRequestorState list"
  ss_earnings :: "DevProviderEarnings list"
  ss_spent :: jsnum
  ss_jobs :: nat

definition fresh_sim :: sim_state where
  "fresh_sim = \<lparr>ss_states = [], ss_earnings = [], ss_spent = Fin 0, ss_jobs = 0\<rparr>"

text \<open>\<open>Map.prototype.set\<close>.\<close>

fun map_set :: "('a \<Rightarrow> 'k) \<Rightarrow> 'a \<Rightarrow> 'a list \<Rightarrow> 'a list" where
  "map_set key x [] = [x]"
| "map_set key x (y # ys) = (if key y = key x then x # ys else y # map_set key x ys)"

definition map_get :: "('a \<Rightarrow> 'k) \<Rightarrow> 'k \<Rightarrow> 'a list \<Rightarrow> 'a option" where
  "map_get key k xs = find (\<lambda>x. key x = k) xs"

definition upd_state :: "jstr \<Rightarrow> (DevRequestorState \<Rightarrow> DevRequestorState) \<Rightarrow> sim_state \<Rightarrow> sim_state" where
  "upd_state i f s = s\<lparr>ss_states := map (\<lambda>r. if rs_id r = i then f r else r) (ss_states s)\<rparr>"

definition initial_requestor :: "RequestorPersona \<Rightarrow> int \<Rightarrow> DevRequestorState" where
  "initial_requestor p now =
     (let sh = rp_shape p in
      \<lparr>rs_id = rp_id p, rs_name = rp_name p, rs_shape = sh_name sh,
       rs_wants = (sh_cores sh, sh_ram sh, sh_full sh), rs_maxPrice = sh_maxPrice sh,
       rs_status = Idle, rs_match = None, rs_queries = 0, rs_matches = 0, rs_noMatch = 0,
       rs_probeRejected = 0, rs_bugs = 0, rs_spent = Fin 0, rs_jobs = 0, rs_updated = toIso now\<rparr>)"

text \<open>
  The dashboard's views; the names differ only in their digits, which \<open>localeCompare\<close> orders as
  the code units do.
\<close>

definition devRequestorSnapshot :: "sim_state \<Rightarrow> DevRequestorState list" where
  "devRequestorSnapshot s = sort_by (\<lambda>a b. rs_name a < rs_name b) (ss_states s)"

definition devSimEarnings :: "sim_state \<Rightarrow> DevProviderEarnings list" where
  "devSimEarnings s = sort_by (\<lambda>a b. num_lt (ea_earned b) (ea_earned a)) (ss_earnings s)"

definition devSimTotals :: "sim_state \<Rightarrow> jsnum \<times> int" where
  "devSimTotals s = (ss_spent s, int (ss_jobs s))"

subsection \<open>Settling a job\<close>

record job =
  jb_provider :: jstr
  jb_providerName :: jstr
  jb_offer :: jstr
  jb_price :: jstr
  jb_run :: jsnum
  jb_started :: jstr

definition job_cost :: "job \<Rightarrow> jsnum" where
  "job_cost j = num_div (num_mul (js_number (jb_price j)) (jb_run j)) (Fin 3600000)"

definition settleJob :: "jstr \<Rightarrow> job \<Rightarrow> int \<Rightarrow> sim_state \<Rightarrow> sim_state" where
  "settleJob i j now s =
     (let cost = job_cost j;
          e = (case map_get ea_provider (jb_provider j) (ss_earnings s) of
                 Some e \<Rightarrow> e
               | None \<Rightarrow> \<lparr>ea_provider = jb_provider j, ea_name = jb_providerName j, ea_earned = Fin 0,
                          ea_jobs = 0, ea_lastJob = []\<rparr>);
          s' = upd_state i (\<lambda>r. r\<lparr>rs_spent := num_add (rs_spent r) cost, rs_jobs := rs_jobs r + 1\<rparr>) s
      in s'\<lparr>ss_spent := num_add (ss_spent s) cost, ss_jobs := ss_jobs s + 1,
            ss_earnings := map_set ea_provider
              (e\<lparr>ea_earned := num_add (ea_earned e) cost, ea_jobs := ea_jobs e + 1, ea_lastJob := toIso now\<rparr>)
              (ss_earnings s)\<rparr>)"

text \<open>
  The ledger row; the database gives it its number and its time.  No row is ever deleted; the
  gap a failed insert leaves in the numbers is not modelled.
\<close>

definition insert_job :: "DevRequestorState \<Rightarrow> job \<Rightarrow> int \<Rightarrow> db \<Rightarrow> (unit \<times> db) option" where
  "insert_job st j t d =
     Some ((), d\<lparr>sim_jobs := sim_jobs d @
       [\<lparr>sj_id = int (length (sim_jobs d)) + 1, sj_requestor = rs_id st, sj_requestorName = rs_name st,
         sj_shape = js (rs_shape st), sj_provider = jb_provider j, sj_providerName = jb_providerName j,
         sj_offer = jb_offer j, sj_price = jb_price j, sj_run = int_of (JNum (math_round (jb_run j))),
         sj_cost = numeric_of (job_cost j), sj_started = the (date_parse (jb_started j)), sj_settled = t\<rparr>]\<rparr>)"

text \<open>Written without waiting; a failure is logged and forgotten.\<close>

definition write_job :: "env \<Rightarrow> DevRequestorState \<Rightarrow> job \<Rightarrow> unit io" where
  "write_job E st j = tryI (pg E (insert_job st j)) (\<lambda>_. ret ())"

subsection \<open>Reloading\<close>

definition cost_sum :: "sim_job list \<Rightarrow> jsnum" where
  "cost_sum rows = fl (sum_list (map sj_cost rows))"

definition load_totals :: "db \<Rightarrow> sim_state \<Rightarrow> sim_state" where
  "load_totals d s = s\<lparr>ss_spent := cost_sum (sim_jobs d), ss_jobs := length (sim_jobs d)\<rparr>"

definition load_earnings :: "db \<Rightarrow> sim_state \<Rightarrow> sim_state" where
  "load_earnings d s =
     s\<lparr>ss_earnings := fold (\<lambda>p. let rows = filter (\<lambda>r. sj_provider r = p) (sim_jobs d) in
         map_set ea_provider \<lparr>ea_provider = p, ea_name = Max (set (map sj_providerName rows)),
           ea_earned = cost_sum rows, ea_jobs = length rows, ea_lastJob = toIso (Max (set (map sj_settled rows)))\<rparr>)
       (remdups (map sj_provider (sim_jobs d))) (ss_earnings s)\<rparr>"

definition load_requestors :: "db \<Rightarrow> sim_state \<Rightarrow> sim_state" where
  "load_requestors d s =
     fold (\<lambda>i. let rows = filter (\<lambda>r. sj_requestor r = i) (sim_jobs d) in
         upd_state i (\<lambda>r. r\<lparr>rs_spent := cost_sum rows, rs_jobs := length rows\<rparr>))
       (remdups (map sj_requestor (sim_jobs d))) s"

text \<open>
  Three statements; whichever fails is logged, with what the ones before it have loaded kept.
\<close>

definition loadFromLedger :: "env \<Rightarrow> sim_state \<Rightarrow> world \<Rightarrow> sim_state \<times> world" where
  "loadFromLedger E s w =
     (case pg_read E (\<lambda>_. load_totals) w of
        (Inl _, w1) \<Rightarrow> (s, w1)
      | (Inr f, w1) \<Rightarrow>
          (case pg_read E (\<lambda>_. load_earnings) w1 of
             (Inl _, w2) \<Rightarrow> (f s, w2)
           | (Inr g, w2) \<Rightarrow>
               (case pg_read E (\<lambda>_. load_requestors) w2 of
                  (Inl _, w3) \<Rightarrow> (g (f s), w3)
                | (Inr h, w3) \<Rightarrow> (h (g (f s)), w3))))"

text \<open>The start of the simulator: its personas, then the ledger.\<close>

definition start_requestors :: "env \<Rightarrow> nat \<Rightarrow> int \<Rightarrow> sim_state \<Rightarrow> world \<Rightarrow> (sim_state \<times> world) option" where
  "start_requestors E n now s w =
     map_option (\<lambda>ps. loadFromLedger E
         (s\<lparr>ss_states := fold (\<lambda>p. map_set rs_id (initial_requestor p now)) ps (ss_states s)\<rparr>) w)
       (mapO (requestorPersona (noble_fns E)) [0..<n])"

subsection \<open>The ledger endpoint\<close>

definition jobs_of :: "jstr option \<Rightarrow> jstr option \<Rightarrow> db \<Rightarrow> sim_job list" where
  "jobs_of req prov d =
     filter (\<lambda>j. (req = None \<or> req = Some (sj_requestor j)) \<and> (prov = None \<or> prov = Some (sj_provider j))) (sim_jobs d)"

definition job_json :: "sim_job \<Rightarrow> jsval" where
  "job_json j = obj
     [(''id'', jint (sj_id j)), (''requestorId'', JStr (sj_requestor j)), (''requestorName'', JStr (sj_requestorName j)),
      (''shape'', JStr (sj_shape j)), (''providerId'', JStr (sj_provider j)), (''providerName'', JStr (sj_providerName j)),
      (''offerId'', JStr (sj_offer j)), (''pricePerHour'', JStr (sj_price j)), (''runMs'', jint (sj_run j)),
      (''cost'', JNum (fl (sj_cost j))), (''startedAt'', JStr (toIso (sj_started j))),
      (''settledAt'', JStr (toIso (sj_settled j)))]"

definition recent_jobs :: "int \<Rightarrow> jstr option \<Rightarrow> jstr option \<Rightarrow> db \<Rightarrow> sim_job list" where
  "recent_jobs limit req prov d =
     take (nat limit) (sort_key (\<lambda>j. (- sj_settled j, - sj_id j)) (jobs_of req prov d))"

definition devSimJobs :: "env \<Rightarrow> int \<Rightarrow> jstr option \<Rightarrow> jstr option \<Rightarrow> (int \<times> sim_job list) io" where
  "devSimJobs E limit req prov =
     seqI (pg_read E (\<lambda>_ d. int (length (jobs_of req prov d)))) (\<lambda>total.
     seqI (pg_read E (\<lambda>_. recent_jobs limit req prov)) (\<lambda>rows.
     ret (total, rows)))"

definition job_limit :: "(string \<Rightarrow> jstr option) \<Rightarrow> thrown + int" where
  "job_limit url =
     (let x = (case url ''limit'' of None \<Rightarrow> Fin 50 | Some s \<Rightarrow> js_number s)
      in if \<not> is_integer x \<or> num_lt x (Fin 1) \<or> num_lt (Fin 200) x then Inl (err_field VALIDATION ''limit'')
         else Inr (int_of (JNum x)))"

definition party :: "(string \<Rightarrow> jstr option) \<Rightarrow> string \<Rightarrow> thrown + jstr option" where
  "party url name =
     (case url name of
        None \<Rightarrow> Inr None
      | Some v \<Rightarrow> (let i = toLowerCase v in
          if ADDRESS_RE i then Inr (Some i) else Inl (err_field VALIDATION name)))"

definition getSimJobs :: "env \<Rightarrow> jstr \<Rightarrow> (string \<Rightarrow> jstr option) \<Rightarrow> response io" where
  "getSimJobs E ip url =
     seqI (limited E ''query'' ip rl_queryPerIp) (\<lambda>_.
     seqI (liftI (job_limit url)) (\<lambda>limit.
     seqI (liftI (party url ''requestor'')) (\<lambda>req.
     seqI (liftI (party url ''provider'')) (\<lambda>prov.
     seqI (devSimJobs E limit req prov) (\<lambda>(total, rows).
     ret (json 200 [(''total'', jint total), (''jobs'', JArr (map job_json rows))]))))))"

subsection \<open>Maps kept as lists\<close>

lemma map_get_set: "map_get key k (map_set key x xs) = (if k = key x then Some x else map_get key k xs)"
  by (induction xs) (auto simp: map_get_def)

lemma keys_map_set: "map key (map_set key x xs) =
    (if key x \<in> key ` set xs then map key xs else map key xs @ [key x])"
  by (induction xs) (auto simp: image_iff)

lemma distinct_map_set: "distinct (map key xs) \<Longrightarrow> distinct (map key (map_set key x xs))"
  by (simp add: keys_map_set)

lemma map_get_mem: "distinct (map key xs) \<Longrightarrow> x \<in> set xs \<Longrightarrow> map_get key (key x) xs = Some x"
  by (induction xs) (auto simp: map_get_def image_iff)

lemma map_get_None: "map_get key k xs = None \<longleftrightarrow> k \<notin> key ` set xs"
  by (auto simp: map_get_def find_None_iff)

lemma length_by_key: "finite K \<Longrightarrow> f ` set xs \<subseteq> K \<Longrightarrow> (\<Sum>k\<in>K. length (filter (\<lambda>x. f x = k) xs)) = length xs"
proof (induction xs)
  case (Cons x xs)
  have "(\<Sum>k\<in>K. length (filter (\<lambda>y. f y = k) (x # xs))) =
      (\<Sum>k\<in>K. length (filter (\<lambda>y. f y = k) xs) + (if k = f x then 1 else 0))"
    by (rule sum.cong) auto
  also have "\<dots> = length xs + 1" using Cons by (simp add: sum.distrib)
  finally show ?case by simp
qed simp

subsection \<open>Memory and ledger\<close>

definition jobs_earned :: "sim_state \<Rightarrow> jstr \<Rightarrow> nat" where
  "jobs_earned s p = (case map_get ea_provider p (ss_earnings s) of None \<Rightarrow> 0 | Some e \<Rightarrow> ea_jobs e)"

definition ledger_requestor :: "db \<Rightarrow> jstr \<Rightarrow> nat" where
  "ledger_requestor d i = length (filter (\<lambda>j. sj_requestor j = i) (sim_jobs d))"

definition ledger_provider :: "db \<Rightarrow> jstr \<Rightarrow> nat" where
  "ledger_provider d p = length (filter (\<lambda>j. sj_provider j = p) (sim_jobs d))"

text \<open>What the memory shows of the ledger: its abstraction function, by requestor and provider.\<close>

definition books_agree :: "sim_state \<Rightarrow> db \<Rightarrow> bool" where
  "books_agree s d =
     (ss_jobs s = length (sim_jobs d) \<and> (\<forall>r \<in> set (ss_states s). rs_jobs r = ledger_requestor d (rs_id r))
      \<and> jobs_earned s = ledger_provider d \<and> distinct (map ea_provider (ss_earnings s)))"

lemma settle_states: "map rs_id (ss_states (settleJob i j now s)) = map rs_id (ss_states s)"
  by (simp add: settleJob_def upd_state_def Let_def)

lemma map_get_key: "map_get key k xs = Some x \<Longrightarrow> key x = k \<and> x \<in> set xs"
  by (auto simp: map_get_def find_Some_iff)

lemma jobs_earned_settle:
  "jobs_earned (settleJob i j now s) p = jobs_earned s p + (if p = jb_provider j then 1 else 0)"
proof (cases "map_get ea_provider (jb_provider j) (ss_earnings s)")
  case (Some e)
  then show ?thesis
    using map_get_key [OF Some] by (simp add: settleJob_def upd_state_def Let_def jobs_earned_def map_get_set)
qed (simp add: settleJob_def upd_state_def Let_def jobs_earned_def map_get_set)

lemma settle_agrees:
  assumes b: "books_agree s d" and i: "insert_job r j t d = Some (u, d')"
  shows "books_agree (settleJob (rs_id r) j now s) d'"
proof -
  obtain row where row: "sim_jobs d' = sim_jobs d @ [row]" "sj_requestor row = rs_id r" "sj_provider row = jb_provider j"
    using i by (auto simp: insert_job_def)
  have 1: "jobs_earned (settleJob (rs_id r) j now s) = ledger_provider d'"
    using b row by (simp add: fun_eq_iff jobs_earned_settle books_agree_def ledger_provider_def)
  have 2: "\<forall>x \<in> set (ss_states (settleJob (rs_id r) j now s)). rs_jobs x = ledger_requestor d' (rs_id x)"
    using b row by (auto simp: books_agree_def settleJob_def upd_state_def ledger_requestor_def Let_def)
  have 3: "ss_jobs (settleJob (rs_id r) j now s) = length (sim_jobs d')"
    using b row by (simp add: books_agree_def settleJob_def Let_def)
  have 4: "distinct (map ea_provider (ss_earnings (settleJob (rs_id r) j now s)))"
    using b by (simp add: books_agree_def settleJob_def Let_def distinct_map_set)
  from 1 2 3 4 show ?thesis by (simp add: books_agree_def)
qed

lemma sum_earned: "books_agree s d \<Longrightarrow> sum_list (map ea_jobs (ss_earnings s)) = ss_jobs s"
proof -
  assume b: "books_agree s d"
  let ?es = "ss_earnings s"
  have "ea_jobs e = ledger_provider d (ea_provider e)" if "e \<in> set ?es" for e
    using b that map_get_mem [of ea_provider ?es e] by (auto simp: books_agree_def jobs_earned_def dest: fun_cong [of _ _ "ea_provider e"])
  then have "sum_list (map ea_jobs ?es) = sum_list (map (\<lambda>p. ledger_provider d p) (map ea_provider ?es))"
    by (simp add: comp_def cong: map_cong)
  also have "\<dots> = (\<Sum>p \<in> ea_provider ` set ?es. ledger_provider d p)"
    using b by (simp only: books_agree_def sum_list_distinct_conv_sum_set set_map)
  also have "\<dots> = length (sim_jobs d)"
    unfolding ledger_provider_def
  proof (rule length_by_key)
    show "sj_provider ` set (sim_jobs d) \<subseteq> ea_provider ` set ?es"
    proof
      fix p assume "p \<in> sj_provider ` set (sim_jobs d)"
      then have "ledger_provider d p \<noteq> 0" by (auto simp: ledger_provider_def filter_empty_conv)
      then have "jobs_earned s p \<noteq> 0" using b by (simp add: books_agree_def)
      then show "p \<in> ea_provider ` set ?es"
        using map_get_None [of ea_provider p ?es] by (auto simp: jobs_earned_def split: option.splits)
    qed
  qed simp
  also have "\<dots> = ss_jobs s" using b by (simp add: books_agree_def)
  finally show ?thesis .
qed

subsection \<open>Loading\<close>

lemma load_earnings_get:
  "map_get ea_provider p (fold (\<lambda>p. map_set ea_provider (f p)) ps es) =
     (if p \<in> set ps then Some (f p) else map_get ea_provider p es)"
  if "\<And>p. ea_provider (f p) = p" and "distinct ps"
  using that by (induction ps arbitrary: es) (auto simp: map_get_set)

lemma fold_distinct: "distinct (map key es) \<Longrightarrow> distinct (map key (fold (\<lambda>p. map_set key (f p)) ps es))"
  by (induction ps arbitrary: es) (simp_all add: distinct_map_set)

lemma load_earnings_agree:
  "jobs_earned (load_earnings d (s\<lparr>ss_earnings := []\<rparr>)) = ledger_provider d"
  "distinct (map ea_provider (ss_earnings (load_earnings d (s\<lparr>ss_earnings := []\<rparr>))))"
  by (auto simp: fun_eq_iff jobs_earned_def load_earnings_def Let_def load_earnings_get fold_distinct
      map_get_def [of _ _ "[]"] ledger_provider_def filter_empty_conv image_iff)

lemma load_requestors_jobs:
  "ss_states (fold (\<lambda>i. upd_state i (\<lambda>r. r\<lparr>rs_spent := g i, rs_jobs := f i\<rparr>)) is s) =
     map (\<lambda>r. if rs_id r \<in> set is then r\<lparr>rs_spent := g (rs_id r), rs_jobs := f (rs_id r)\<rparr> else r) (ss_states s)"
  by (induction "is" arbitrary: s) (auto simp: upd_state_def)

lemma load_requestors_rest:
  "ss_earnings (load_requestors d s) = ss_earnings s" "ss_jobs (load_requestors d s) = ss_jobs s"
proof -
  have "ss_earnings (fold (\<lambda>i. upd_state i (f i)) is s) = ss_earnings s \<and>
      ss_jobs (fold (\<lambda>i. upd_state i (f i)) is s) = ss_jobs s" for f "is"
    by (induction "is" arbitrary: s) (simp_all add: upd_state_def)
  then show "ss_earnings (load_requestors d s) = ss_earnings s" "ss_jobs (load_requestors d s) = ss_jobs s"
    by (simp_all add: load_requestors_def Let_def)
qed

definition reads_work :: "env \<Rightarrow> world \<Rightarrow> bool" where
  "reads_work E w = (\<forall>k < 3. pg_fate E (tick w + k) = Works)"

lemma loadFromLedger_works:
  assumes "reads_work E w"
  shows "fst (loadFromLedger E s w) = load_requestors (tables w) (load_earnings (tables w) (load_totals (tables w) s))"
proof -
  have "pg_fate E (tick w) = Works" "pg_fate E (Suc (tick w)) = Works" "pg_fate E (Suc (Suc (tick w))) = Works"
    using assms by (auto simp: reads_work_def dest: spec [of _ "0 :: nat"] spec [of _ "1 :: nat"] spec [of _ "2 :: nat"])
  then show ?thesis by (simp add: loadFromLedger_def pg_read_def pg_def)
qed

lemma initial_states:
  assumes "\<And>r. r \<in> set rs \<Longrightarrow> rs_jobs r = 0" and "r \<in> set (fold (\<lambda>p. map_set rs_id (initial_requestor p now)) ps rs)"
  shows "rs_jobs r = 0"
proof -
  have m: "set (map_set rs_id x ys) \<subseteq> insert x (set ys)" for x ys by (induction ys) auto
  show ?thesis using assms
  proof (induction ps arbitrary: rs)
    case (Cons p ps)
    show ?case
    proof (rule Cons.IH)
      show "r \<in> set (fold (\<lambda>p. map_set rs_id (initial_requestor p now)) ps (map_set rs_id (initial_requestor p now) rs))"
        using Cons.prems(2) by simp
      show "rs_jobs x = 0" if "x \<in> set (map_set rs_id (initial_requestor p now) rs)" for x
        using m [of "initial_requestor p now" rs] that Cons.prems(1) [of x] by (auto simp: initial_requestor_def Let_def)
    qed
  qed simp
qed

lemma initial_ids:
  "map rs_id (fold (\<lambda>p. map_set rs_id (initial_requestor p now)) ps rs) =
   map rs_id (fold (\<lambda>p. map_set rs_id (initial_requestor p now')) ps rs')" if "map rs_id rs = map rs_id rs'"
  using that
proof (induction ps arbitrary: rs rs')
  case (Cons p ps)
  have "rs_id (initial_requestor p t) = rp_id p" for t by (simp add: initial_requestor_def Let_def)
  moreover have "rs_id ` set rs = rs_id ` set rs'" using Cons.prems by (metis list.set_map)
  ultimately have "map rs_id (map_set rs_id (initial_requestor p now) rs) = map rs_id (map_set rs_id (initial_requestor p now') rs')"
    using Cons.prems by (simp add: keys_map_set)
  from Cons.IH [OF this] show ?case by simp
qed simp

lemma start_agrees:
  assumes "start_requestors E n now fresh_sim w = Some (s, w1)" and "reads_work E w"
  shows "books_agree s (tables w)"
    and "map rs_id (ss_states s) = map rs_id (fold (\<lambda>p. map_set rs_id (initial_requestor p 0)) (the (mapO (requestorPersona (noble_fns E)) [0..<n])) [])"
proof -
  obtain ps where ps: "mapO (requestorPersona (noble_fns E)) [0..<n] = Some ps"
    using assms(1) by (auto simp: start_requestors_def)
  define s0 where "s0 = fresh_sim\<lparr>ss_states := fold (\<lambda>p. map_set rs_id (initial_requestor p now)) ps []\<rparr>"
  let ?d = "tables w"
  have "fst (loadFromLedger E s0 w) = s"
    using assms(1) by (simp add: start_requestors_def ps s0_def fresh_sim_def)
  then have s: "s = load_requestors ?d (load_earnings ?d (load_totals ?d s0))"
    using loadFromLedger_works [OF assms(2)] by simp
  have z: "rs_jobs r = 0" if "r \<in> set (ss_states s0)" for r
    by (rule initial_states [of "[]" r now ps]) (use that in \<open>simp_all add: s0_def\<close>)
  have st: "ss_states s = map (\<lambda>r. if rs_id r \<in> sj_requestor ` set (sim_jobs ?d)
        then r\<lparr>rs_spent := cost_sum (filter (\<lambda>x. sj_requestor x = rs_id r) (sim_jobs ?d)),
               rs_jobs := length (filter (\<lambda>x. sj_requestor x = rs_id r) (sim_jobs ?d))\<rparr> else r) (ss_states s0)"
    unfolding s load_requestors_def Let_def load_requestors_jobs
    by (simp add: load_earnings_def load_totals_def)
  show "map rs_id (ss_states s) = map rs_id (fold (\<lambda>p. map_set rs_id (initial_requestor p 0)) (the (mapO (requestorPersona (noble_fns E)) [0..<n])) [])"
    unfolding st using initial_ids [of "[]" "[]" now ps 0] by (simp add: ps s0_def comp_def if_distrib cong: if_cong)
  have c: "length (filter (\<lambda>x. sj_requestor x = i) (sim_jobs ?d)) = 0" if "i \<notin> sj_requestor ` set (sim_jobs ?d)" for i
    using that by (auto simp: filter_empty_conv)
  have 1: "\<forall>r \<in> set (ss_states s). rs_jobs r = ledger_requestor ?d (rs_id r)"
    unfolding st ledger_requestor_def using z c by auto
  have e: "load_totals ?d s0 = (load_totals ?d s0)\<lparr>ss_earnings := []\<rparr>" by (simp add: load_totals_def s0_def fresh_sim_def)
  have 2: "jobs_earned s = ledger_provider ?d" "distinct (map ea_provider (ss_earnings s))"
    using load_earnings_agree [of ?d "load_totals ?d s0"] unfolding s
    by (simp_all add: e [symmetric] jobs_earned_def [abs_def] load_requestors_rest)
  have 3: "ss_jobs s = length (sim_jobs ?d)"
    by (simp add: s load_requestors_rest) (simp add: load_earnings_def load_totals_def)
  from 1 2 3 show "books_agree s ?d" by (simp add: books_agree_def)
qed

text \<open>A run of settled jobs, each written to the ledger.\<close>

fun settle_run :: "(jstr \<times> job \<times> int \<times> int) list \<Rightarrow> sim_state \<times> db \<Rightarrow> (sim_state \<times> db) option" where
  "settle_run [] x = Some x"
| "settle_run ((i, j, now, t) # es) (s, d) =
     (case map_get rs_id i (ss_states s) of
        None \<Rightarrow> None
      | Some r \<Rightarrow> settle_run es (settleJob i j now s, snd (the (insert_job r j t d))))"

lemma settle_run_agrees:
  "settle_run es (s, d) = Some (s', d') \<Longrightarrow> books_agree s d \<Longrightarrow>
   books_agree s' d' \<and> map rs_id (ss_states s') = map rs_id (ss_states s)"
proof (induction es arbitrary: s d)
  case (Cons e es)
  obtain i j now t where e: "e = (i, j, now, t)" by (metis prod_cases4)
  then obtain r where r: "map_get rs_id i (ss_states s) = Some r" using Cons.prems(1) by (auto split: option.splits)
  obtain d1 where d1: "insert_job r j t d = Some ((), d1)" by (simp add: insert_job_def)
  have i: "rs_id r = i" using map_get_key [OF r] by simp
  have "settle_run es (settleJob i j now s, d1) = Some (s', d')" using Cons.prems(1) r d1 by (simp add: e)
  from Cons.IH [OF this] show ?case using settle_agrees [OF Cons.prems(2) d1, of now] i settle_states by metis
qed simp

lemma books_jobs: "books_agree s d \<Longrightarrow> map (\<lambda>r. (rs_id r, rs_jobs r)) (ss_states s) =
    map (\<lambda>i. (i, ledger_requestor d i)) (map rs_id (ss_states s))"
  by (simp add: books_agree_def)

lemma settle_run_jobs: "settle_run es (s, d) = Some (s', d') \<Longrightarrow> ss_jobs s' = ss_jobs s + length es"
proof (induction es arbitrary: s d)
  case (Cons e es)
  obtain i j now t where e: "e = (i, j, now, t)" by (metis prod_cases4)
  then obtain d1 where "settle_run es (settleJob i j now s, d1) = Some (s', d')" using Cons.prems by (auto split: option.splits)
  from Cons.IH [OF this] show ?case by (simp add: settleJob_def Let_def)
qed simp

text \<open>
  C25: simulated books survive a restart.  While every settled job reaches the ledger, the
  simulator started anew on it counts the same jobs, in total, per requestor and per provider,
  as the one that ran; and its providers' jobs add up to the total.
\<close>

theorem books_survive_restart:
  assumes "start_requestors E n now fresh_sim w = Some (s, w1)" and "reads_work E w"
    and "settle_run es (s, tables w) = Some (s', d')"
    and "start_requestors E n now' fresh_sim v = Some (s2, v1)" and "reads_work E v" and "tables v = d'"
  shows "ss_jobs s2 = ss_jobs s'
    \<and> map (\<lambda>r. (rs_id r, rs_jobs r)) (ss_states s2) = map (\<lambda>r. (rs_id r, rs_jobs r)) (ss_states s')
    \<and> jobs_earned s2 = jobs_earned s'
    \<and> sum_list (map ea_jobs (ss_earnings s')) = ss_jobs s' \<and> ss_jobs s' = ss_jobs s + length es"
proof -
  have a: "books_agree s' d'" "map rs_id (ss_states s') = map rs_id (ss_states s)"
    using settle_run_agrees [OF assms(3) start_agrees(1) [OF assms(1,2)]] by simp_all
  have b: "books_agree s2 d'" using start_agrees(1) [OF assms(4,5)] assms(6) by simp
  have i: "map rs_id (ss_states s2) = map rs_id (ss_states s')"
    using start_agrees(2) [OF assms(1,2)] start_agrees(2) [OF assms(4,5)] a(2) by simp
  have "map (\<lambda>r. (rs_id r, rs_jobs r)) (ss_states s2) = map (\<lambda>r. (rs_id r, rs_jobs r)) (ss_states s')"
    using books_jobs [OF b] books_jobs [OF a(1)] i by (simp only:)
  moreover have "ss_jobs s' = ss_jobs s + length es" by (rule settle_run_jobs [OF assms(3)])
  moreover have "ss_jobs s2 = ss_jobs s'" "jobs_earned s2 = jobs_earned s'" using a(1) b by (simp_all add: books_agree_def)
  ultimately show ?thesis using sum_earned [OF a(1)] by (intro conjI)
qed

definition demo_job :: job where
  "demo_job = \<lparr>jb_provider = demo_address, jb_providerName = js ''p'', jb_offer = bufToHex demo_oid,
     jb_price = js ''0.25'', jb_run = Fin 60000, jb_started = toIso 1800000000000\<rparr>"

lemma start_demo: "\<exists>s w1 r. start_requestors demo_env 1 0 fresh_sim w = Some (s, w1) \<and> reads_work demo_env w
    \<and> map_get rs_id demo_address (ss_states s) = Some r"
proof -
  have "\<exists>x. requestorPersona toy 0 = Some x \<and> rp_id x = demo_address"
    using toy_key by (auto simp: requestorPersona_def addressFromPrivateKey_def key_ok_def demo_address_def)
  then obtain x where x: "requestorPersona toy 0 = Some x" "rp_id x = demo_address" by blast
  then obtain s w1 where s: "start_requestors demo_env 1 0 fresh_sim w = Some (s, w1)"
    by (simp add: start_requestors_def) (metis surj_pair)
  have r: "reads_work demo_env w" by (simp add: reads_work_def)
  have "map rs_id (ss_states s) = [demo_address]"
    using start_agrees(2) [OF s r] x by (simp add: initial_requestor_def Let_def)
  then have "map_get rs_id demo_address (ss_states s) \<noteq> None"
    unfolding map_get_None by (metis list.set_intros(1) list.set_map)
  with s r show ?thesis by blast
qed

theorem books_survive_restart_witness:
  "\<exists>s w1 s' d' s2 v1. start_requestors demo_env 1 0 fresh_sim demo_world = Some (s, w1)
     \<and> settle_run [(demo_address, demo_job, 5, 5)] (s, demo_db) = Some (s', d')
     \<and> start_requestors demo_env 1 0 fresh_sim (demo_world\<lparr>tables := d'\<rparr>) = Some (s2, v1)
     \<and> ss_jobs s2 = ss_jobs s + 1"
proof -
  obtain s w1 r where s: "start_requestors demo_env 1 0 fresh_sim demo_world = Some (s, w1)" "reads_work demo_env demo_world"
    "map_get rs_id demo_address (ss_states s) = Some r" using start_demo by blast
  obtain s' d' where r: "settle_run [(demo_address, demo_job, 5, 5)] (s, tables demo_world) = Some (s', d')"
    by (simp add: s(3))
  obtain s2 v1 where s2: "start_requestors demo_env 1 0 fresh_sim (demo_world\<lparr>tables := d'\<rparr>) = Some (s2, v1)"
      "reads_work demo_env (demo_world\<lparr>tables := d'\<rparr>)" using start_demo by blast
  show ?thesis using books_survive_restart [OF s(1,2) r s2] s(1) r s2(1) by simp
qed

subsection \<open>Money\<close>

text \<open>Evaluating a rounding: the binade and the nearest multiple, the even one of two.\<close>

lemma round_near: "\<bar>x - of_int n\<bar> < 1 / 2 \<or> (\<bar>x - of_int n\<bar> = 1 / 2 \<and> even n) \<Longrightarrow> round_half_even x = n"
proof -
  assume a: "\<bar>x - of_int n\<bar> < 1 / 2 \<or> (\<bar>x - of_int n\<bar> = 1 / 2 \<and> even n)"
  show ?thesis
  proof (cases "x \<ge> of_int n")
    case True
    with a have "x < of_int n + 1" by (auto simp: abs_if split: if_splits)
    then have "\<lfloor>x\<rfloor> = n" using True by (simp add: floor_eq_iff)
    then show ?thesis using a True by (auto simp: round_half_even_def Let_def)
  next
    case False
    with a have "of_int n - 1 \<le> x" by (auto simp: abs_if split: if_splits)
    then have f: "\<lfloor>x\<rfloor> = n - 1" using False by (simp add: floor_eq_iff)
    show ?thesis using a False unfolding round_half_even_def f Let_def
      by (auto simp: abs_if split: if_splits)
  qed
qed

lemma ilog_unique:
  assumes "2 powi k \<le> x" and "x < 2 powi (k + 1)"
  shows "ilog 2 x = k"
proof -
  have "0 < x" using assms(1) by (rule less_le_trans [rotated]) simp
  note b = ilog2_bounds [OF this]
  have "(2 :: rat) powi k < 2 powi (ilog 2 x + 1)" "(2 :: rat) powi ilog 2 x < 2 powi (k + 1)"
    using b assms by linarith+
  then have "k < ilog 2 x + 1" "ilog 2 x < k + 1" by (blast intro: pow2_less_exp)+
  then show ?thesis by simp
qed

lemma fl_near:
  assumes "2 powi k \<le> x" and "x < 2 powi (k + 1)" and "-1022 \<le> k" and "k \<le> 0" and "\<bar>n\<bar> \<le> 2 ^ 53"
    and "\<bar>x / 2 powi (k - 52) - of_int n\<bar> < 1 / 2 \<or> (\<bar>x / 2 powi (k - 52) - of_int n\<bar> = 1 / 2 \<and> even n)"
  shows "fl x = Fin (of_int n * 2 powi (k - 52))"
proof -
  have x: "0 < x" using assms(1) by (rule less_le_trans [rotated]) simp
  have u: "ulp_exp x = k - 52" using ilog_unique [OF assms(1,2)] x assms(3) by (simp add: ulp_exp_def)
  have v: "fl_val x = of_int n * 2 powi (k - 52)" using x round_near [OF assms(6)] by (simp add: fl_val_def u)
  have "\<bar>of_int n * 2 powi (k - 52) :: rat\<bar> \<le> 2 ^ 53 * 1"
    unfolding abs_mult using assms(4) of_int_abs_bound [OF assms(5)] 
    using power_int_increasing [of "k - 52" 0 "2 :: rat"] by (intro mult_mono) simp_all
  moreover have "(2 :: rat) ^ 53 < 2 ^ 1024" by (rule power_strict_increasing) simp_all
  ultimately have "\<not> fl_val x \<ge> 2 ^ 1024" "\<not> fl_val x \<le> - (2 ^ 1024)" unfolding v by (simp_all add: abs_le_iff) 
  then show ?thesis by (simp add: fl_def v Let_def)
qed

lemmas near_simps = power_int_def power_one_over

lemma costs:
  "fl (1 / 30) = Fin (4803839602528529 / 2 ^ 57)" "fl (1 / 18) = Fin (8006399337547548 / 2 ^ 57)"
  "fl (4803839602528529 / 2 ^ 57) = Fin (4803839602528529 / 2 ^ 57)"
  "fl (8006399337547548 / 2 ^ 57) = Fin (8006399337547548 / 2 ^ 57)"
  "fl (4803839602528529 / 2 ^ 56) = Fin (4803839602528529 / 2 ^ 56)"
  "fl (12810238940076077 / 2 ^ 57) = Fin (6405119470038038 / 2 ^ 56)"
  "fl (17614078542604606 / 2 ^ 57) = Fin (8807039271302303 / 2 ^ 56)"
  "fl (17614078542604605 / 2 ^ 57) = Fin (8807039271302302 / 2 ^ 56)"
  using fl_near [of "- 5" "1 / 30" 4803839602528529] fl_near [of "- 5" "1 / 18" 8006399337547548]
    fl_near [of "- 5" "4803839602528529 / 2 ^ 57" 4803839602528529]
    fl_near [of "- 5" "8006399337547548 / 2 ^ 57" 8006399337547548]
    fl_near [of "- 4" "4803839602528529 / 2 ^ 56" 4803839602528529]
    fl_near [of "- 4" "12810238940076077 / 2 ^ 57" 6405119470038038]
    fl_near [of "- 4" "17614078542604606 / 2 ^ 57" 8807039271302303]
    fl_near [of "- 4" "17614078542604605 / 2 ^ 57" 8807039271302302]
  by (simp_all add: near_simps)

lemma price_one: "js_number (js ''1'') = Fin 1"
proof -
  have d: "decimal_shape (js ''1'')" by code_simp
  have "dec_value (js ''1'') = 1" by code_simp
  then show ?thesis using fl_of_int [of 1] by (simp add: js_number_decimal [OF d])
qed

definition sum_money :: "jsnum list \<Rightarrow> jsnum" where
  "sum_money xs = foldl num_add (Fin 0) xs"

definition render_job :: "string \<Rightarrow> int \<Rightarrow> job" where
  "render_job p run = \<lparr>jb_provider = js p, jb_providerName = js p, jb_offer = js ''o'', jb_price = js ''1'',
     jb_run = Fin (of_int run), jb_started = toIso 0\<rparr>"

definition two_requestors :: sim_state where
  "two_requestors = fresh_sim\<lparr>ss_states := map (\<lambda>n. initial_requestor
     \<lparr>rp_id = js n, rp_name = js n, rp_shape = SHAPES ! 1\<rparr> 0) [''a'', ''b'']\<rparr>"

definition three_jobs :: sim_state where
  "three_jobs = settleJob (js ''b'') (render_job ''q'' 200000) 3
     (settleJob (js ''a'') (render_job ''q'' 120000) 2 (settleJob (js ''a'') (render_job ''p'' 120000) 1 two_requestors))"

lemma render_cost: "job_cost (render_job p 120000) = Fin (4803839602528529 / 2 ^ 57)"
  "job_cost (render_job p 200000) = Fin (8006399337547548 / 2 ^ 57)"
proof -
  have "fl 120000 = Fin 120000" "fl 200000 = Fin 200000" using fl_of_int [of 120000] fl_of_int [of 200000] by simp_all
  then show "job_cost (render_job p 120000) = Fin (4803839602528529 / 2 ^ 57)"
    "job_cost (render_job p 200000) = Fin (8006399337547548 / 2 ^ 57)"
    using costs(1,2) by (simp_all add: job_cost_def render_job_def price_one)
qed


subsection \<open>The endpoint\<close>

lemma recent_jobs_ok:
  fixes d :: db and req prov :: "jstr option"
  defines "xs \<equiv> jobs_of req prov d"
  shows "length (recent_jobs n req prov d) = min (nat n) (length xs)"
    and "mset (recent_jobs n req prov d) \<subseteq># mset xs"
    and "sorted_wrt (\<lambda>a b. sj_settled b \<le> sj_settled a) (recent_jobs n req prov d)"
    and "a \<in> set (recent_jobs n req prov d) \<Longrightarrow> b \<in># mset xs - mset (recent_jobs n req prov d) \<Longrightarrow> sj_settled b \<le> sj_settled a"
proof -
  define ys where "ys = sort_key (\<lambda>j. (- sj_settled j, - sj_id j)) xs"
  have r: "recent_jobs n req prov d = take (nat n) ys" by (simp add: recent_jobs_def ys_def xs_def)
  have len: "length ys = length xs" by (simp add: ys_def)
  show "length (recent_jobs n req prov d) = min (nat n) (length xs)" by (simp add: r len)
  have s: "sorted_wrt (\<lambda>a b. sj_settled b \<le> sj_settled a) ys"
    using sorted_sort_key [of "\<lambda>j. (- sj_settled j, - sj_id j)" xs] unfolding ys_def [symmetric] sorted_map
    by (rule sorted_wrt_mono_rel [rotated]) (auto simp: less_eq_prod_def)
  then show "sorted_wrt (\<lambda>a b. sj_settled b \<le> sj_settled a) (recent_jobs n req prov d)"
    unfolding r by (rule sorted_wrt_take)
  have m: "mset xs = mset (take (nat n) ys) + mset (drop (nat n) ys)"
    by (metis append_take_drop_id mset_append mset_sort ys_def)
  then show "mset (recent_jobs n req prov d) \<subseteq># mset xs" by (simp add: r)
  assume a: "a \<in> set (recent_jobs n req prov d)" and "b \<in># mset xs - mset (recent_jobs n req prov d)"
  then have "b \<in> set (drop (nat n) ys)" by (simp add: r m)
  moreover have "sorted_wrt (\<lambda>a b. sj_settled b \<le> sj_settled a) (take (nat n) ys @ drop (nat n) ys)" using s by simp
  ultimately show "sj_settled b \<le> sj_settled a" using a unfolding r sorted_wrt_append by blast
qed

lemma job_limit_Inr: "job_limit url = Inr n \<Longrightarrow> 1 \<le> n \<and> n \<le> 200"
proof -
  assume a: "job_limit url = Inr n"
  define x where "x = (case url ''limit'' of None \<Rightarrow> Fin 50 | Some s \<Rightarrow> js_number s)"
  have x: "is_integer x" "\<not> num_lt x (Fin 1)" "\<not> num_lt (Fin 200) x" "n = int_of (JNum x)"
    using a by (auto simp: job_limit_def x_def Let_def split: if_splits)
  then obtain m where "x = Fin (of_int m)" by (auto simp: is_integer_def Ints_def split: jsnum.splits)
  then show ?thesis using x by (auto simp: num_lt_def int_of_def)
qed

text \<open>
  The ledger endpoint answers with the newest jobs of the parties asked for, newest first,
  at most \<open>limit\<close> of them, and with how many there are in all; nothing is changed.
\<close>

theorem sim_jobs_answer:
  assumes "getSimJobs E ip url w = (Inr resp, w')"
  shows "\<exists>limit req prov rows. job_limit url = Inr limit \<and> 1 \<le> limit \<and> limit \<le> 200
    \<and> party url ''requestor'' = Inr req \<and> party url ''provider'' = Inr prov
    \<and> (let all = jobs_of req prov (tables w) in
       resp = json 200 [(''total'', jint (int (length all))), (''jobs'', JArr (map job_json rows))]
       \<and> length rows = min (nat limit) (length all) \<and> mset rows \<subseteq># mset all
       \<and> sorted_wrt (\<lambda>a b. sj_settled b \<le> sj_settled a) rows
       \<and> (\<forall>a \<in># mset rows. \<forall>b \<in># mset all - mset rows. sj_settled b \<le> sj_settled a))
    \<and> tables w' = tables w"
proof -
  obtain w1 limit req prov where s: "limited E ''query'' ip rl_queryPerIp w = (Inr (), w1)"
    "job_limit url = Inr limit" "party url ''requestor'' = Inr req" "party url ''provider'' = Inr prov"
    "tables w' = tables w1" "resp = json 200 [(''total'', jint (int (length (jobs_of req prov (tables w1))))),
       (''jobs'', JArr (map job_json (recent_jobs limit req prov (tables w1))))]"
    using assms by (auto simp: getSimJobs_def devSimJobs_def guard_simps)
  have t: "tables w1 = tables w" using limited_tables [OF s(1)] .
  show ?thesis
    using s t job_limit_Inr [OF s(2)] recent_jobs_ok [where n = limit and req = req and prov = prov and d = "tables w"]
    by (intro exI [of _ limit] exI [of _ req] exI [of _ prov] exI [of _ "recent_jobs limit req prov (tables w)"])
       (simp add: Let_def)
qed

theorem sim_jobs_answer_witness:
  "\<exists>resp w'. getSimJobs still_env (js ''a'') (\<lambda>_. None) empty_world = (Inr resp, w') \<and> tables w' = tables empty_world"
proof -
  have "\<exists>w1. limited still_env ''query'' (js ''a'') rl_queryPerIp empty_world = (Inr (), w1)"
    by (simp add: limited_def rateLimit_def seqI_def time_now_def ret_def guardI_def send_up [OF still_up]
        empty_world_def empty_kv_def rl_queryPerIp_def counter_def alive_def Let_def)
  then obtain w1 where "limited still_env ''query'' (js ''a'') rl_queryPerIp empty_world = (Inr (), w1)" ..
  moreover have "job_limit (\<lambda>_. None) = Inr 50"
    by (simp add: job_limit_def is_integer_def num_lt_def int_of_def)
  ultimately obtain resp w' where "getSimJobs still_env (js ''a'') (\<lambda>_. None) empty_world = (Inr resp, w')"
    by (simp add: getSimJobs_def devSimJobs_def seqI_def liftI_def party_def ret_def pg_read_def pg_def still_env_def)
  with sim_jobs_answer [OF this] show ?thesis by blast
qed

end
