(* ===== verification/Service.thy ===== *)
theory Service
  imports Sim_Ledger "HOL-Library.Sublist"
begin

text \<open>
  The service as a whole (\<open>src/server.ts\<close>): the routes, the error wrapper, the files served
  beside the API, and the steps a running service takes: requests one after the other, ticks
  of the sampler and, in a development deployment, of the seeder and the simulator, while time
  passes and Redis forgets or disconnects.  Proved of every reachable state: the tables'
  keys and references, that the history is append-only, that an attestation was earned in all
  four lanes, and that cached terms are authentic; and that every request is answered with a
  documented status.
\<close>

subsection \<open>Routes\<close>

type_synonym query = "string \<Rightarrow> jstr option"

datatype request =
    PostProvider "jsval option"
  | ListProviders query
  | GetProvider jstr
  | PostChallenge "jsval option"
  | LaneStart jstr jstr
  | LaneSubmit jstr jstr "jsval option"
  | GetAttestation jstr
  | PostOffer "jsval option"
  | GetOffers query
  | GetOffer jstr
  | PostTerms jstr "jsval option"
  | PostAvailability jstr "jsval option"
  | PostRevoke jstr "jsval option"
  | GetLiveness
  | GetHealth
  | GetSpec
  | GetStats
  | GetStatsHistory query
  | GetSimJobs query
  | UnknownRoute

text \<open>
  What the deployment and the database contribute: the order of a scan, \<open>avg\<close>, whether the
  development seeder and simulator run, and what the simulator reports.
\<close>

record platform =
  pf_scan :: "OfferRow list \<Rightarrow> OfferRow list"
  pf_avg :: "rat list \<Rightarrow> rat"
  pf_dev :: bool
  pf_sim :: "(jsval \<times> jsnum \<times> int) option"

definition unknown_route :: response where
  "unknown_route = \<lparr>status = 404, body = JObj [(js ''error'', JObj [(js ''code'', JStr (js ''VALIDATION''))])]\<rparr>"

text \<open>\<open>None\<close>: the verifier's sampling does not end, and the request is never answered.\<close>

fun handle :: "env \<Rightarrow> platform \<Rightarrow> jstr \<Rightarrow> request \<Rightarrow> world \<Rightarrow> ((thrown + response) \<times> world) option" where
  "handle E X ip (PostProvider b) w = Some (postProvider E ip b w)"
| "handle E X ip (ListProviders q) w = Some (listProviders E ip q w)"
| "handle E X ip (GetProvider i) w = Some (getProvider E (Some i) w)"
| "handle E X ip (PostChallenge b) w = Some (postChallenge E b ip w)"
| "handle E X ip (LaneStart c l) w = Some (postLaneStart E c l w)"
| "handle E X ip (LaneSubmit c l b) w = postLaneSubmit E c l b w"
| "handle E X ip (GetAttestation i) w = Some (getAttestation E (Some i) w)"
| "handle E X ip (PostOffer b) w = Some (postOffer E b w)"
| "handle E X ip (GetOffers q) w = Some (getOffers E (pf_scan X) ip q w)"
| "handle E X ip (GetOffer i) w = Some (getOffer E i w)"
| "handle E X ip (PostTerms i b) w = Some (postTerms E i b w)"
| "handle E X ip (PostAvailability i b) w = Some (postAvailability E i b w)"
| "handle E X ip (PostRevoke i b) w = Some (postRevoke E i b w)"
| "handle E X ip GetLiveness w = Some (getLiveness E ip w)"
| "handle E X ip GetHealth w = Some (getHealth E w)"
| "handle E X ip GetSpec w = Some (getSpec E w)"
| "handle E X ip GetStats w = Some (getStats E (map_option fst (pf_sim X)) ip w)"
| "handle E X ip (GetStatsHistory q) w = Some (getStatsHistory E (pf_avg X) ip q w)"
| "handle E X ip (GetSimJobs q) w =
     (if pf_sim X = None then Some (Inr unknown_route, w) else Some (getSimJobs E ip q w))"
| "handle E X ip UnknownRoute w = Some (Inr unknown_route, w)"

definition respond :: "env \<Rightarrow> platform \<Rightarrow> jstr \<Rightarrow> request \<Rightarrow> world \<Rightarrow> (response \<times> world) option" where
  "respond E X ip rq w = map_option (\<lambda>(r, w'). (wrap r, w')) (handle E X ip rq w)"

subsection \<open>Static files\<close>

text \<open>
  \<open>decoded\<close> is the percent-decoded path of the URL, \<open>exists_file\<close> the file system; \<open>None\<close> is
  the 404 above.
\<close>

definition serveStatic :: "jstr \<Rightarrow> (jstr \<Rightarrow> bool) \<Rightarrow> string \<Rightarrow> jstr \<Rightarrow> jstr option" where
  "serveStatic distDir exists_file meth decoded =
     (if meth \<noteq> ''GET'' \<and> meth \<noteq> ''HEAD'' then None
      else if take 4 decoded = js ''/v1/'' \<or> decoded = js ''/v1'' \<or> sublist (js ''..'') decoded then None
      else let f = distDir @ (if decoded = js ''/'' then js ''/index.html'' else decoded);
               index = distDir @ js ''/index.html'' in
        if exists_file f then Some f else if exists_file index then Some index else None)"

text \<open>A served file lies in the bundle: its path continues the directory's and never leaves it.\<close>

lemma serveStatic_inside:
  "serveStatic distDir ex m p = Some f \<Longrightarrow> ex f \<and> (\<exists>r. f = distDir @ r \<and> \<not> sublist (js ''..'') r \<and> take 4 r \<noteq> js ''/v1/'')"
proof -
  assume a: "serveStatic distDir ex m p = Some f"
  have i: "\<not> sublist (js ''..'') (js ''/index.html'')" "take 4 (js ''/index.html'') \<noteq> js ''/v1/''" by code_simp+
  show ?thesis using a i by (auto simp: serveStatic_def Let_def split: if_splits)
qed

subsection \<open>Steps\<close>

text \<open>What Redis may lose: keys, members and fields go, nothing appears.\<close>

definition forgets :: "kv \<Rightarrow> kv \<Rightarrow> bool" where
  "forgets k k' =
     (kv_str k' \<subseteq>\<^sub>m kv_str k \<and> subseq (kv_live k') (kv_live k) \<and> subseq (kv_prices k') (kv_prices k))"

inductive background :: "env \<Rightarrow> platform \<Rightarrow> world \<Rightarrow> world \<Rightarrow> bool" for E X where
  sample: "background E X w (snd (sampler_tick E (map_option snd (pf_sim X)) w))"
| time: "tick w \<le> n \<Longrightarrow> background E X w (w\<lparr>tick := n\<rparr>)"
| lose: "forgets (kvs w) k \<Longrightarrow> background E X w (w\<lparr>kvs := k\<rparr>)"
| link: "background E X w (w\<lparr>client := up, lastFailure := t\<rparr>)"
| seed: "pf_dev X \<Longrightarrow> persona (noble_fns E) i = Some p \<Longrightarrow> background E X w (snd (ensureProvider E damp p now w))"
| beat: "pf_dev X \<Longrightarrow> persona (noble_fns E) i = Some p \<Longrightarrow> background E X w (snd (seed_timer E p oid n r u v w))"
| settle: "pf_sim X \<noteq> None \<Longrightarrow> background E X w (snd (write_job E st j w))"

inductive step :: "env \<Rightarrow> platform \<Rightarrow> world \<Rightarrow> world \<Rightarrow> bool" for E X where
  serve: "respond E X ip rq w = Some (r, w') \<Longrightarrow> step E X w w'"
| behind: "background E X w w' \<Longrightarrow> step E X w w'"

inductive_cases backgroundE: "background E X w w'"
inductive_cases stepE: "step E X w w'"

text \<open>The states a service that started on an empty database and an empty Redis reaches.\<close>

definition fresh_world :: "world \<Rightarrow> bool" where
  "fresh_world w = (kvs w = empty_kv \<and> tables w = tables empty_world)"

inductive reachable :: "env \<Rightarrow> platform \<Rightarrow> world \<Rightarrow> bool" for E X where
  start: "fresh_world w \<Longrightarrow> reachable E X w"
| onward: "reachable E X w \<Longrightarrow> step E X w w' \<Longrightarrow> reachable E X w'"

subsection \<open>Frames of the remaining handlers\<close>

lemma frame_option: "(\<And>a. keeps same_tables (f a)) \<Longrightarrow> keeps same_tables n \<Longrightarrow>
    keeps same_tables (case x of None \<Rightarrow> n | Some a \<Rightarrow> f a)"
  by (cases x) simp_all

lemma frame_or_throw [frame_simps]: "keeps same_tables (or_throw x)"
  by (intro keeps_or_throw frame.keeps_rules)

lemma frame_loadState [frame_simps]: "keeps same_tables (loadState E c)"
  unfolding loadState_def by (intro frame.keeps_rules frame_simps frame_option)

lemma frame_laneOrThrow [frame_simps]: "keeps same_tables (laneOrThrow l)"
  unfolding laneOrThrow_def by (intro frame.keeps_rules frame_option)

lemma frame_postChallenge: "keeps same_tables (postChallenge E b ip)"
  unfolding postChallenge_def check_request_def Let_def by (intro frame.keeps_rules frame_simps)

lemma frame_postLaneStart: "keeps same_tables (postLaneStart E c l)"
  unfolding postLaneStart_def Let_def by (intro frame.keeps_rules frame_simps)

lemma frame_getAttestation: "keeps same_tables (getAttestation E i)"
  unfolding getAttestation_def Let_def
  by (intro frame.keeps_rules) (auto split: list.split intro!: frame.keeps_rules)

lemma frame_offer_json [frame_simps]: "keeps same_tables (offer_json E r t s)"
  unfolding offer_json_def Let_def by (intro frame.keeps_rules)

lemma frame_getOffer: "keeps same_tables (getOffer E i)"
  unfolding getOffer_def offerResponse_def Let_def
  by (intro frame.keeps_rules frame_option frame_simps frame_findOffer)

lemma frame_getOffers: "keeps same_tables (getOffers E scan ip q)"
  unfolding getOffers_def Let_def
  by (intro frame.keeps_rules frame_option frame_simps)
     (auto split: option.split intro!: frame.keeps_rules)

lemma frame_getLiveness: "keeps same_tables (getLiveness E ip)"
  unfolding getLiveness_def Let_def by (intro frame.keeps_rules frame_option frame_simps)

lemma frame_getHealth: "keeps same_tables (getHealth E)"
  unfolding getHealth_def by (intro frame.keeps_rules frame_simps keeps_tryI) (simp add: same_tables_def)

lemma frame_getSpec: "keeps same_tables (getSpec E)"
  unfolding getSpec_def by (intro frame.keeps_rules frame_simps)

lemma frame_getStats: "keeps same_tables (getStats E sim ip)"
  unfolding getStats_def Let_def by (intro frame.keeps_rules frame_option frame_simps frame_compute)

lemma frame_getStatsHistory: "keeps same_tables (getStatsHistory E avg ip q)"
  unfolding getStatsHistory_def Let_def
  by (intro frame.keeps_rules frame_option frame_simps)
     (auto split: range_spec.split intro!: frame.keeps_rules)

lemma frame_getSimJobs: "keeps same_tables (getSimJobs E ip q)"
  unfolding getSimJobs_def devSimJobs_def by (auto intro!: frame.keeps_rules frame_simps)

lemmas reads_only = frame_listProviders frame_getProvider frame_postChallenge frame_postLaneStart frame_getAttestation
  frame_getOffers frame_getOffer frame_getLiveness frame_getHealth frame_getSpec frame_getStats frame_getStatsHistory
  frame_getSimJobs frame_postTerms frame_postAvailability

lemma submit_result_keeps:
  "keeps stays_ok (submit_result E c l sb res)" "keeps evolves (submit_result E c l sb res)"
proof -
  have 1: "keeps stays_ok (close_bench E c st k t e)" and 2: "keeps evolves (close_bench E c st k t e)" for st k t e
    unfolding close_bench_def Let_def
    by (intro inv.keeps_rules keeps_or_throw writes_ok redis_ok; simp split: sum.split add: inv.keeps_throw inv.keeps_ret)
       (intro evo.keeps_rules keeps_or_throw writes_evolve redis_evolves; simp split: sum.split add: evo.keeps_throw evo.keeps_ret)
  show "keeps stays_ok (submit_result E c l sb res)" "keeps evolves (submit_result E c l sb res)"
    unfolding submit_result_def Let_def
    by (auto split: VerifyResult.split intro!: inv.keeps_rules redis_ok 1)
       (auto split: VerifyResult.split intro!: evo.keeps_rules redis_evolves 2)
qed

lemma submit_keeps:
  assumes R: "world_order R" and c: "keeps R (submit_checks E c l b)" and r: "\<And>sb res. keeps R (submit_result E c l sb res)"
    and p: "postLaneSubmit E c l b w = Some (x, w')"
  shows "R w w'"
proof -
  obtain y w1 where y: "submit_checks E c l b w = (y, w1)" by fastforce
  have "R w w1" using c y by (metis keeps_def snd_conv)
  moreover have "R w1 w2 \<Longrightarrow> R w w2" for w2 using calculation world_order.trans [OF R] by blast
  ultimately show ?thesis
    using p y r by (auto simp: postLaneSubmit_def keeps_def split: sum.splits option.splits) (metis snd_conv)+
qed

text \<open>A relation that looks at the tables only is kept by a request when the writing handlers keep it.\<close>

lemma handle_keeps:
  assumes R: "world_order R" and same: "\<And>u v. same_tables u v \<Longrightarrow> R u v"
    and w: "\<And>b. keeps R (postProvider E ip b)" "\<And>b. keeps R (postOffer E b)" "\<And>i b. keeps R (postRevoke E i b)"
      "\<And>c l b sb res. rq = LaneSubmit c l b \<Longrightarrow> keeps R (submit_result E c l sb res)"
    and h: "handle E X ip rq w = Some (r, w')"
  shows "R w w'"
proof -
  have f: "R w (snd (m w))" if "keeps same_tables m" for m :: "response io"
    using that same by (simp add: keeps_def)
  have c: "keeps R (submit_checks E c l b)" for c l b
    using frame_submit_checks same by (simp add: keeps_def)
  have k: "R w (snd (m w))" if "keeps R m" for m :: "response io" using that by (simp add: keeps_def)
  show ?thesis
  proof (cases rq)
    case (LaneSubmit c1 l1 b1)
    then show ?thesis using submit_keeps [OF R c w(4) [OF LaneSubmit]] h by simp
  next
    case (GetSimJobs q)
    then show ?thesis using h f [OF frame_getSimJobs [of E ip q]] world_order.refl [OF R] by (auto split: if_splits)
  next
    case UnknownRoute
    then show ?thesis using h world_order.refl [OF R] by simp
  next
    case (PostProvider b) then show ?thesis using h k [OF w(1) [of b]] by simp
  next
    case (PostOffer b) then show ?thesis using h k [OF w(2) [of b]] by simp
  next
    case (PostRevoke i b) then show ?thesis using h k [OF w(3) [of i b]] by simp
  next
    case (ListProviders q) then show ?thesis using h f [OF frame_listProviders [of E ip q]] by simp
  next
    case (GetProvider i) then show ?thesis using h f [OF frame_getProvider [of E "Some i"]] by simp
  next
    case (PostChallenge b) then show ?thesis using h f [OF frame_postChallenge [of E b ip]] by simp
  next
    case (LaneStart c1 l1) then show ?thesis using h f [OF frame_postLaneStart [of E c1 l1]] by simp
  next
    case (GetAttestation i) then show ?thesis using h f [OF frame_getAttestation [of E "Some i"]] by simp
  next
    case (GetOffers q) then show ?thesis using h f [OF frame_getOffers [of E "pf_scan X" ip q]] by simp
  next
    case (GetOffer i) then show ?thesis using h f [OF frame_getOffer [of E i]] by simp
  next
    case (PostTerms i b) then show ?thesis using h f [OF frame_postTerms [of E i b]] by simp
  next
    case (PostAvailability i b) then show ?thesis using h f [OF frame_postAvailability [of E i b]] by simp
  next
    case GetLiveness then show ?thesis using h f [OF frame_getLiveness [of E ip]] by simp
  next
    case GetHealth then show ?thesis using h f [OF frame_getHealth [of E]] by simp
  next
    case GetSpec then show ?thesis using h f [OF frame_getSpec [of E]] by simp
  next
    case GetStats then show ?thesis using h f [OF frame_getStats [of E "map_option fst (pf_sim X)" ip]] by simp
  next
    case (GetStatsHistory q) then show ?thesis using h f [OF frame_getStatsHistory [of E "pf_avg X" ip q]] by simp
  qed
qed

subsection \<open>Invariants of the tables\<close>

text \<open>At most one sample per moment.\<close>

definition samples_ok :: "world \<Rightarrow> world \<Rightarrow> bool" where
  "samples_ok w w' = (distinct (map sn_at (snapshots (tables w))) \<longrightarrow> distinct (map sn_at (snapshots (tables w'))))"

interpretation samples: world_order samples_ok
  by unfold_locales (simp_all add: samples_ok_def)

lemma samples_pg: "(\<And>t d a d'. f t d = Some (a, d') \<Longrightarrow> snapshots d' = snapshots d) \<Longrightarrow> keeps samples_ok (pg E f)"
  by (rule samples.keeps_pg) (auto simp: samples_ok_def)

lemma insert_provider_once_snapshots: "insert_provider_once r d = Some (u, d') \<Longrightarrow> snapshots d' = snapshots d"
  by (auto simp: insert_provider_once_def split: if_splits)

lemma samples_writes:
  "keeps samples_ok (logPayload E h ty prov p sig)" "keeps samples_ok (pg E (upsert_provider pid h s hb))"
  "keeps samples_ok (pg E (\<lambda>_. insert_attestation ar))" "keeps samples_ok (pg E (\<lambda>t. insert_offer (orow t)))"
  "keeps samples_ok (pg E (revoke_offer i))" "keeps samples_ok (pg E (\<lambda>t. insert_provider_once (prow t)))"
  "keeps samples_ok (pg E (\<lambda>t. insert_offer_once (orow t)))" "keeps samples_ok (pg E (insert_job st j))"
  unfolding logPayload_def
  by (rule samples_pg; auto simp: insert_log_def upsert_provider_def insert_attestation_def insert_offer_def
      revoke_offer_def insert_provider_once_def insert_offer_once_def insert_job_def split: if_splits)+

lemma same_samples: "keeps same_tables m \<Longrightarrow> keeps samples_ok m"
  by (erule keeps_mono [rotated]) (simp add: same_tables_def samples_ok_def)

lemmas redis_samples = keeps_redis_ops [THEN same_samples] keeps_limited [THEN same_samples]
  keeps_rateLimit [THEN same_samples] frame_checks [THEN same_samples] frame_findOffer [THEN same_samples]
  frame_validateProfile [THEN same_samples]

lemma samples_handlers:
  "keeps samples_ok (postProvider E ip b)" "keeps samples_ok (postOffer E b)" "keeps samples_ok (postRevoke E i b)"
  unfolding postProvider_def postOffer_def postRevoke_def Let_def
  by (intro samples.keeps_rules redis_samples samples_writes; simp split: option.split;
      (intro samples.keeps_rules redis_samples samples_writes conjI allI impI; simp?))+

lemma samples_submit: "keeps samples_ok (submit_result E c l sb res)"
proof -
  have "keeps samples_ok (close_bench E c st k t e)" for st k t e
    unfolding close_bench_def Let_def
    by (intro samples.keeps_rules keeps_or_throw samples_writes redis_samples; simp split: sum.split add: samples.keeps_throw samples.keeps_ret)
  then show ?thesis
    unfolding submit_result_def Let_def
    by (auto split: VerifyResult.split intro!: samples.keeps_rules redis_samples)
qed

lemma samples_seed: "keeps samples_ok (ensureProvider E damp p now)"
proof -
  have l: "keeps samples_ok (log_signed E ty b q k)" for ty b q k
    unfolding log_signed_def by (intro samples.keeps_rules keeps_or_throw keeps_hash_or_throw samples_writes)
  have "keeps samples_ok (ensure_registered E p now)"
    unfolding ensure_registered_def Let_def
    by (intro samples.keeps_rules l; simp split: prod.split add: samples_writes)
  moreover have "keeps samples_ok (mint_offer E damp p now)"
    unfolding mint_offer_def Let_def case_prod_beta
    by (intro samples.keeps_rules keeps_or_throw keeps_hash_or_throw l samples_writes)
  ultimately show ?thesis
    unfolding ensureProvider_def
    by (intro samples.keeps_seqI samples.keeps_pg_read) (simp_all add: samples.keeps_ret split: list.split)
qed

lemma write_job_keeps: "keeps evolves (write_job E st j)" "keeps stays_ok (write_job E st j)" "keeps samples_ok (write_job E st j)"
proof -
  have "keeps evolves (pg E (insert_job st j))"
    by (rule evolves_pg) (auto simp: insert_job_def grows_simps)
  then show "keeps evolves (write_job E st j)"
    unfolding write_job_def by (intro keeps_tryI evo.keeps_rules) (rule evo.trans)
  have "keeps stays_ok (pg E (insert_job st j))"
    by (rule stays_ok_pg) (auto simp: insert_job_def db_ok_def)
  then show "keeps stays_ok (write_job E st j)"
    unfolding write_job_def by (intro keeps_tryI inv.keeps_rules) (rule inv.trans)
  show "keeps samples_ok (write_job E st j)"
    unfolding write_job_def by (intro keeps_tryI samples.keeps_rules samples_writes) (rule samples.trans)
qed

lemma snapshots_only: "only_snapshots w w' \<Longrightarrow> evolves w w' \<and> stays_ok w w' \<and> samples_ok w w'"
proof -
  assume o: "only_snapshots w w'"
  then have t: "(tables w')\<lparr>snapshots := []\<rparr> = (tables w)\<lparr>snapshots := []\<rparr>" by (simp add: only_snapshots_def)
  have e: "payload_log (tables w') = payload_log (tables w)" "providers (tables w') = providers (tables w)"
    "attestations (tables w') = attestations (tables w)" "offers (tables w') = offers (tables w)"
    using arg_cong [OF t, of payload_log] arg_cong [OF t, of providers] arg_cong [OF t, of attestations]
      arg_cong [OF t, of offers] by simp_all
  then show ?thesis using o by (simp add: evolves_def stays_ok_def samples_ok_def only_snapshots_def db_ok_def grows_simps)
qed

lemma sampler_snapshots: "only_snapshots w (snd (sampler_tick E sim w))"
proof -
  have "keeps only_snapshots (sampler_tick E sim)"
    unfolding sampler_tick_def by (intro keeps_tryI snaps_take snaps.keeps_rules) (rule snaps.trans)
  then show ?thesis by (simp add: keeps_def)
qed

lemma same_is: "same_tables u v \<Longrightarrow> evolves u v" "same_tables u v \<Longrightarrow> stays_ok u v" "same_tables u v \<Longrightarrow> samples_ok u v"
  by (simp_all add: same_tables_def evolves_def stays_ok_def samples_ok_def grows_simps)

lemma world_orders: "world_order evolves" "world_order stays_ok" "world_order samples_ok"
  by (rule evo.world_order_axioms inv.world_order_axioms samples.world_order_axioms)+

lemma background_tables: "background E X w w' \<Longrightarrow> evolves w w' \<and> stays_ok w w' \<and> samples_ok w w'"
proof (induction rule: background.induct)
  case (sample w)
  show ?case by (rule snapshots_only [OF sampler_snapshots])
next
  case (seed i p w damp now)
  show ?case using ensureProvider_evolves ensureProvider_ok samples_seed by (simp add: keeps_def)
next
  case (beat i p w oid n r u v)
  show ?case using frame_seed_timer same_is by (simp add: keeps_def)
next
  case (settle w st j)
  show ?case using write_job_keeps by (simp add: keeps_def)
qed (simp_all add: evolves_def stays_ok_def samples_ok_def grows_simps)

lemma step_tables: "step E X w w' \<Longrightarrow> evolves w w' \<and> stays_ok w w' \<and> samples_ok w w'"
proof (elim stepE)
  fix ip rq r assume "respond E X ip rq w = Some (r, w')"
  then obtain y where h: "handle E X ip rq w = Some (y, w')" by (auto simp: respond_def)
  show ?thesis
    using handle_keeps [OF world_orders(1) same_is(1) postProvider_evolves postOffer_evolves postRevoke_evolves submit_result_keeps(2) h]
      handle_keeps [OF world_orders(2) same_is(2) postProvider_ok postOffer_ok postRevoke_ok submit_result_keeps(1) h]
      handle_keeps [OF world_orders(3) same_is(3) samples_handlers(1-3) samples_submit h] by blast
qed (rule background_tables)

lemma steps_evolve: "(step E X)\<^sup>*\<^sup>* w w' \<Longrightarrow> evolves w w'"
  by (induction rule: rtranclp_induct) (auto intro: evo.refl evo.trans dest: step_tables)

lemma grows_prefix: "grows_by (=) xs ys \<Longrightarrow> take (length xs) ys = xs"
  by (auto simp: grows_by_def intro: nth_equalityI)


definition plain_platform :: platform where
  "plain_platform = \<lparr>pf_scan = id, pf_avg = hd, pf_dev = False, pf_sim = None\<rparr>"

lemma reachable_empty: "reachable E X empty_world"
  by (rule reachable.start) (simp add: fresh_world_def empty_world_def)


text \<open>
  C28: the service's record is append-only.  From any state, after any steps, the log and the
  attestations are what they were with rows appended, and every offer is where it was,
  unchanged but for at most one revocation.
\<close>

theorem history_append_only:
  assumes "(step E X)\<^sup>*\<^sup>* w w'"
  shows "take (length (payload_log (tables w))) (payload_log (tables w')) = payload_log (tables w)
    \<and> take (length (attestations (tables w))) (attestations (tables w')) = attestations (tables w)
    \<and> length (offers (tables w)) \<le> length (offers (tables w'))
    \<and> (\<forall>i < length (offers (tables w)). let r = offers (tables w) ! i; r' = offers (tables w') ! i in
        r' = r \<or> (of_revoked r = None \<and> (\<exists>t. r' = r\<lparr>of_revoked := Some t\<rparr>)))"
  using steps_evolve [OF assms]
  by (simp add: evolves_def grows_prefix Let_def) (simp add: grows_by_def offer_step_def)

theorem history_append_only_witness:
  "\<exists>w'. step demo_env plain_platform demo_world w' \<and> take 3 (payload_log (tables w')) = payload_log demo_db"
proof -
  obtain x w' where r: "respond demo_env plain_platform (js ''a'') GetHealth demo_world = Some (x, w')"
    by (cases "handle demo_env plain_platform (js ''a'') GetHealth demo_world") (auto simp: respond_def)
  then have s: "step demo_env plain_platform demo_world w'" by (rule step.serve)
  then have "(step demo_env plain_platform)\<^sup>*\<^sup>* demo_world w'" by blast
  from history_append_only [OF this] s show ?thesis by (auto simp: demo_db_def eval_nat_numeral)
qed

subsection \<open>Answers\<close>

text \<open>A computation that, when it returns a response, returns one with a status the API uses.\<close>

definition answers :: "response io \<Rightarrow> bool" where
  "answers m = (\<forall>w r w'. m w = (Inr r, w') \<longrightarrow> status r \<in> {200, 201, 404, 500})"

lemma answers_ret: "status r \<in> {200, 201, 404, 500} \<Longrightarrow> answers (ret r)" and answers_throw: "answers (throw e)"
  and answers_seqI: "(\<And>a. answers (f a)) \<Longrightarrow> answers (seqI m f)"
  by (fastforce simp: answers_def seqI_Inr)+

lemma answers_if: "answers m \<Longrightarrow> answers n \<Longrightarrow> answers (if b then m else n)"
  by simp

lemma status_json [simp]: "status (json c ms) = c"
  by (simp add: json_def)

lemmas answers_rules = answers_ret answers_throw answers_seqI answers_if

lemma answers_providers: "answers (postProvider E ip b)" "answers (listProviders E ip q)" "answers (getProvider E i)"
  unfolding postProvider_def listProviders_def getProvider_def Let_def
  by (auto intro!: answers_rules split: option.split if_splits)

lemma answers_attest: "answers (postChallenge E b ip)" "answers (postLaneStart E c l)" "answers (getAttestation E i)"
  "answers (submit_result E c l sb res)"
  unfolding postChallenge_def postLaneStart_def getAttestation_def submit_result_def close_bench_def Let_def
  by (auto intro!: answers_rules split: list.split VerifyResult.split)

lemma answers_offers: "answers (postOffer E b)" "answers (getOffer E i)" "answers (postTerms E i b)"
  "answers (postAvailability E i b)" "answers (postRevoke E i b)"
  unfolding postOffer_def getOffer_def postTerms_def postAvailability_def postRevoke_def Let_def
  by (auto intro!: answers_rules split: option.split)

lemma answers_rest: "answers (getOffers E scan ip q)" "answers (getLiveness E ip)" "answers (getHealth E)"
  "answers (getSpec E)" "answers (getStats E sim ip)" "answers (getStatsHistory E avg ip q)" "answers (getSimJobs E ip q)"
  unfolding getOffers_def getLiveness_def getHealth_def getSpec_def getStats_def getStatsHistory_def getSimJobs_def Let_def
  by (auto intro!: answers_rules split: option.split range_spec.split)

lemma wrap_status: "(\<And>x. r = Inr x \<Longrightarrow> status x \<in> {200, 201, 404, 500}) \<Longrightarrow> status (wrap r) \<in> {200, 201, 400, 404, 409, 429, 500}"
  using STATUS_range by (fastforce simp: wrap_def toResponse_def split: sum.split thrown.split)

lemma answersD: "answers m \<Longrightarrow> m w = (Inr r, w') \<Longrightarrow> status r = 200 \<or> status r = 201 \<or> status r = 404 \<or> status r = 500"
  by (auto simp: answers_def)

lemma handle_answers: "handle E X ip rq w = Some (Inr x, w') \<Longrightarrow> status x \<in> {200, 201, 404, 500}"
proof (cases rq)
  case (LaneSubmit c l b)
  assume "handle E X ip rq w = Some (Inr x, w')"
  then obtain sb res w1 where "submit_result E c l sb res w1 = (Inr x, w')"
    using LaneSubmit by (auto simp: postLaneSubmit_def split: prod.splits sum.splits option.splits)
  then show ?thesis using answers_attest(4) [of E c l sb res] unfolding answers_def by blast
qed (auto simp: unknown_route_def split: if_splits dest: answersD [OF answers_providers(1)] answersD [OF answers_providers(2)]
      answersD [OF answers_providers(3)] answersD [OF answers_attest(1)] answersD [OF answers_attest(2)]
      answersD [OF answers_attest(3)] answersD [OF answers_offers(1)] answersD [OF answers_offers(2)]
      answersD [OF answers_offers(3)] answersD [OF answers_offers(4)] answersD [OF answers_offers(5)]
      answersD [OF answers_rest(1)] answersD [OF answers_rest(2)] answersD [OF answers_rest(3)]
      answersD [OF answers_rest(4)] answersD [OF answers_rest(5)] answersD [OF answers_rest(6)] answersD [OF answers_rest(7)])


subsection \<open>What Redis holds\<close>

text \<open>
  \<open>stored T B w\<close>: every terms record Redis holds satisfies \<open>T\<close>, every challenge state \<open>B\<close>.
\<close>

definition fits :: "(jstr \<Rightarrow> TermsRec \<Rightarrow> bool) \<Rightarrow> (jstr \<Rightarrow> BenchState \<Rightarrow> bool) \<Rightarrow> rkey \<Rightarrow> rval \<Rightarrow> bool" where
  "fits T B k v = ((\<forall>i x. k = KTerms i \<and> v = VTerms x \<longrightarrow> T i x) \<and> (\<forall>c st. k = KBench c \<and> v = VBench st \<longrightarrow> B c st))"

definition stored :: "(jstr \<Rightarrow> TermsRec \<Rightarrow> bool) \<Rightarrow> (jstr \<Rightarrow> BenchState \<Rightarrow> bool) \<Rightarrow> world \<Rightarrow> bool" where
  "stored T B w = (\<forall>k v e. kv_str (kvs w) k = Some (v, e) \<longrightarrow> fits T B k v)"

definition store_keep :: "(jstr \<Rightarrow> TermsRec \<Rightarrow> bool) \<Rightarrow> (jstr \<Rightarrow> BenchState \<Rightarrow> bool) \<Rightarrow> world \<Rightarrow> world \<Rightarrow> bool" where
  "store_keep T B w w' = (stored T B w \<longrightarrow> stored T B w')"

interpretation store: world_order "store_keep T B" for T B
proof
  show "store_keep T B w w" for w by (simp add: store_keep_def)
  show "store_keep T B u w" if "store_keep T B u v" "store_keep T B v w" for u v w
    using that by (simp add: store_keep_def)
  show "store_keep T B w (w\<lparr>tick := n\<rparr>)" for w n
    by (simp add: store_keep_def stored_def)
qed

lemma stored_mono: "stored T B w \<Longrightarrow> (\<And>i x. T i x \<Longrightarrow> T' i x) \<Longrightarrow> (\<And>c st. B c st \<Longrightarrow> B' c st) \<Longrightarrow> stored T' B' w"
  unfolding stored_def fits_def by blast

lemma stored_kvs: "kvs w' = kvs w \<Longrightarrow> stored T B w' = stored T B w"
  by (simp add: stored_def)

lemma fits_other [simp]: "fits T B k (VNum n)" "fits T B k VFlag" "fits T B k (VIso s)" "fits T B k (VBlob b)"
  by (simp_all add: fits_def)

lemma effect_stored:
  assumes "stored T B w" and "\<And>k v px. c = SET k v px \<Longrightarrow> fits T B k v"
  shows "stored T B (w\<lparr>kvs := redis_effect t c (kvs w)\<rparr>)"
  unfolding stored_def
proof (intro allI impI)
  fix k v e
  assume k: "kv_str (kvs (w\<lparr>kvs := redis_effect t c (kvs w)\<rparr>)) k = Some (v, e)"
  then have k: "kv_str (redis_effect t c (kvs w)) k = Some (v, e)" by simp
  show "fits T B k v"
  proof (cases "\<exists>n. v = VNum n")
    case False
    then have "\<And>n. v \<noteq> VNum n" by blast
    from effect_origin [OF k this] show ?thesis
      using assms by (auto simp: stored_def)
  qed auto
qed

lemma store_send:
  assumes R: "redis_documented E" and c: "\<And>k v px. c = SET k v px \<Longrightarrow> fits T B k v"
  shows "keeps (store_keep T B) (send E c)"
  unfolding keeps_def store_keep_def
proof (intro allI impI)
  fix w assume b: "stored T B w"
  obtain r w' where s: "send E c w = (r, w')" by fastforce
  from send_documented [OF R s] obtain t where
    k: "kvs w' = redis_effect t c (kvs w) \<or> kvs w' = kvs w" by (auto simp: sent_def Let_def)
  have "stored T B w'"
    using k
  proof
    assume "kvs w' = redis_effect t c (kvs w)"
    then show ?thesis using effect_stored [of T B w c t, OF b c] stored_kvs [of w' "w\<lparr>kvs := redis_effect t c (kvs w)\<rparr>"] by simp
  qed (use b stored_kvs in blast)
  then show "stored T B (snd (send E c w))" by (simp add: s)
qed

lemma store_ops:
  assumes "redis_documented E"
  shows "keeps (store_keep T B) (available E)" "T i v \<Longrightarrow> keeps (store_keep T B) (setTerms E i v px price x)"
    "keeps (store_keep T B) (getTerms E i)" "keeps (store_keep T B) (getTermsBatch E is)"
    "keeps (store_keep T B) (dropOffer E i)" "keeps (store_keep T B) (setBusy E i px)"
    "keeps (store_keep T B) (clearBusy E i)" "keeps (store_keep T B) (isBusy E i)"
    "keeps (store_keep T B) (busyBatch E is)" "keeps (store_keep T B) (getAvailSeq E i)"
    "keeps (store_keep T B) (setAvailSeq E i n)" "keeps (store_keep T B) (liveOffers E x)"
    "keeps (store_keep T B) (getCachedSnapshot E)" "keeps (store_keep T B) (setCachedSnapshot E b px)"
    "keeps (store_keep T B) (getCachedStats E)" "keeps (store_keep T B) (setCachedStats E b px)"
    "keeps (store_keep T B) (getSeq E i)" "keeps (store_keep T B) (setSeq E i n)"
    "keeps (store_keep T B) (touchProvider E i sn)" "keeps (store_keep T B) (lastSeen E i)"
    "keeps (store_keep T B) (lastSeenBatch E is)" "B i bst \<Longrightarrow> keeps (store_keep T B) (setBench E i bst px)"
    "keeps (store_keep T B) (getBench E i)" "keeps (store_keep T B) (dropBench E i)"
    "keeps (store_keep T B) (rateLimit E scope key bound)" "keeps (store_keep T B) (limited E scope key bound)"
  unfolding available_def setTerms_def getTerms_def getTermsBatch_def dropOffer_def setBusy_def
    clearBusy_def isBusy_def busyBatch_def getAvailSeq_def setAvailSeq_def liveOffers_def
    getCachedSnapshot_def setCachedSnapshot_def getCachedStats_def setCachedStats_def getSeq_def
    setSeq_def touchProvider_def lastSeen_def lastSeenBatch_def setBench_def getBench_def dropBench_def
    limited_def rateLimit_def Let_def
  by (auto simp: fits_def split: rreply.split intro!: store.keeps_rules store_send [OF assms])

lemma store_pg: "keeps (store_keep T B) (pg E f)"
  by (rule store.keeps_pg) (simp add: store_keep_def stored_def)

lemma store_benches: "benches B w = stored (\<lambda>_ _. True) B w"
  by (auto simp: benches_def stored_def fits_def)

lemma store_forgets: "forgets (kvs w) k \<Longrightarrow> stored T B w \<Longrightarrow> stored T B (w\<lparr>kvs := k\<rparr>)"
  unfolding forgets_def stored_def map_le_def by (auto simp: domI) (metis domI)

lemma store_or_throw: "keeps (store_keep T B) (or_throw x)"
  by (intro keeps_or_throw store.keeps_rules)

lemma store_option: "(\<And>a. x = Some a \<Longrightarrow> keeps (store_keep T B) (f a)) \<Longrightarrow> keeps (store_keep T B) n \<Longrightarrow>
    keeps (store_keep T B) (case x of None \<Rightarrow> n | Some a \<Rightarrow> f a)"
  by (cases x) simp_all

lemma store_list: "keeps (store_keep T B) n \<Longrightarrow> (\<And>x xs. keeps (store_keep T B) (f x xs)) \<Longrightarrow>
    keeps (store_keep T B) (case ys of [] \<Rightarrow> n | x # xs \<Rightarrow> f x xs)"
  by (cases ys) simp_all

lemma store_range: "(\<And>a b. keeps (store_keep T B) (f a b)) \<Longrightarrow> keeps (store_keep T B) n \<Longrightarrow>
    keeps (store_keep T B) (case x of Spec a b \<Rightarrow> f a b | Inherited \<Rightarrow> n)"
  by (cases x) simp_all

lemma store_tryI: "keeps (store_keep T B) m \<Longrightarrow> (\<And>e. keeps (store_keep T B) (h e)) \<Longrightarrow> keeps (store_keep T B) (tryI m h)"
  by (rule keeps_tryI) (rule store.trans)

lemmas store_rules = store.keeps_rules store_pg store_or_throw store_option store_list store_range store_tryI

lemma store_findOffer: "keeps (store_keep T B) (findOffer E i)"
  unfolding findOffer_def Let_def by (intro store_rules)

lemma store_checks:
  "keeps (store_keep T B) (check_template E t p)" "keeps (store_keep T B) (check_target vw r t)"
  "keeps (store_keep T B) (check_times E t p)" "keeps (store_keep T B) (validateProfile E p)"
  "keeps (store_keep T B) (check_request E p)" "keeps (store_keep T B) (logPayload E h ty prov p sig)"
  "keeps (store_keep T B) (offer_json E row tm s)"
  unfolding check_template_def check_target_def check_times_def validateProfile_def check_request_def logPayload_def
    offer_json_def Let_def
  by (intro store_rules)+

lemma store_checkSeq: "(\<And>i. keeps (store_keep T B) (g i)) \<Longrightarrow> (\<And>i n. keeps (store_keep T B) (s i n)) \<Longrightarrow>
    keeps (store_keep T B) (checkSeq g s i n)"
  unfolding checkSeq_def by (intro store_rules)

lemmas store_all = store_rules store_checks store_findOffer store_checkSeq

lemma store_compute:
  assumes R: "redis_documented E"
  shows "keeps (store_keep T B) (computeMarketAggregates E now)"
  unfolding computeMarketAggregates_def Let_def by (auto intro!: store_all store_ops [OF R] split: prod.splits)

lemma store_posts:
  assumes R: "redis_documented E"
  shows "keeps (store_keep T B) (postProvider E ip b)" "keeps (store_keep T B) (postOffer E b)"
  "keeps (store_keep T B) (postRevoke E i b)" "keeps (store_keep T B) (postAvailability E i b)"
  unfolding postProvider_def postOffer_def postRevoke_def postAvailability_def Let_def
  by (intro store_all store_ops [OF R]; simp?)+

lemma store_gets:
  assumes R: "redis_documented E"
  shows "keeps (store_keep T B) (listProviders E ip q)" "keeps (store_keep T B) (getProvider E u)"
  "keeps (store_keep T B) (getAttestation E u)" "keeps (store_keep T B) (getOffers E scan ip q)"
  "keeps (store_keep T B) (getOffer E i)" "keeps (store_keep T B) (getLiveness E ip)"
  unfolding listProviders_def getProvider_def getAttestation_def getOffers_def getOffer_def offerResponse_def
    getLiveness_def Let_def case_prod_beta
  by (intro store_all store_ops [OF R])+

lemma store_ops_gets:
  assumes R: "redis_documented E"
  shows "keeps (store_keep T B) (getHealth E)" "keeps (store_keep T B) (getSpec E)" "keeps (store_keep T B) (getStats E sim ip)"
  "keeps (store_keep T B) (getStatsHistory E avg ip q)" "keeps (store_keep T B) (getSimJobs E ip q)"
  unfolding getHealth_def getSpec_def getStats_def getStatsHistory_def getSimJobs_def devSimJobs_def Let_def case_prod_beta
  by (intro store_all store_ops [OF R] store_compute [OF R])+


lemma store_bench_handlers:
  assumes R: "redis_documented E"
  shows "keeps (store_keep T (\<lambda>_ _. True)) (postChallenge E b ip)" "keeps (store_keep T (\<lambda>_ _. True)) (postLaneStart E c l)"
    "keeps (store_keep T (\<lambda>_ _. True)) (submit_checks E c l b)" "keeps (store_keep T (\<lambda>_ _. True)) (submit_result E c l sb res)"
proof -
  have ld: "keeps (store_keep T B) (loadState E c)" "keeps (store_keep T B) (laneOrThrow l)" for T B c l
    unfolding loadState_def laneOrThrow_def by (intro store_all store_ops [OF R])+
  have out: "keeps (store_keep T B) (case x of Inl e \<Rightarrow> throw (f e) | Inr h \<Rightarrow> ret (g h))" for T B x and f :: "jcs_error \<Rightarrow> thrown" and g :: "jstr \<Rightarrow> jstr"
    by (cases x) (simp_all add: store_rules)
  show "keeps (store_keep T (\<lambda>_ _. True)) (postChallenge E b ip)" "keeps (store_keep T (\<lambda>_ _. True)) (postLaneStart E c l)"
    "keeps (store_keep T (\<lambda>_ _. True)) (submit_checks E c l b)"
    unfolding postChallenge_def postLaneStart_def submit_checks_def Let_def
    by (intro store_all ld store_ops [OF R] TrueI)+
  have "keeps (store_keep T (\<lambda>_ _. True)) (close_bench E c st k t e)" for st k t e
    unfolding close_bench_def Let_def by (intro store_all store_ops [OF R] out)
  then show "keeps (store_keep T (\<lambda>_ _. True)) (submit_result E c l sb res)"
    unfolding submit_result_def Let_def
    by (cases res) (auto intro!: store_all store_ops [OF R])
qed

lemma store_sampler: "redis_documented E \<Longrightarrow> keeps (store_keep T B) (sampler_tick E sim)"
  unfolding sampler_tick_def takeMarketSnapshot_def by (intro store_all store_compute)

lemma store_write_job: "keeps (store_keep T B) (write_job E st j)"
  unfolding write_job_def by (intro store_all)

subsection \<open>Cached terms are authentic\<close>

text \<open>
  The terms cached for an offer: signed by the provider the offer belongs to, who names itself
  and the offer in them, with a well-formed price and end.
\<close>

definition terms_authentic :: "noble \<Rightarrow> db \<Rightarrow> jstr \<Rightarrow> TermsRec \<Rightarrow> bool" where
  "terms_authentic N d i x =
     (\<exists>r \<in> set (offers d). i = bufToHex (of_id r)
        \<and> recoverSigner N (tr_payload x) (tr_signature x) = Inr (Some (bufToHex (of_provider r)))
        \<and> (\<exists>pid. field (tr_payload x) ''providerId'' = JStr pid \<and> toLowerCase pid = bufToHex (of_provider r))
        \<and> field (tr_payload x) ''offerId'' = JStr i \<and> isValidPrice (field (tr_payload x) ''minPricePerHour'')
        \<and> parseIso (field (tr_payload x) ''validUntil'') \<noteq> None)"

lemma terms_authentic_evolves: "evolves w w' \<Longrightarrow> terms_authentic N (tables w) i x \<Longrightarrow> terms_authentic N (tables w') i x"
proof -
  assume e: "evolves w w'" and "terms_authentic N (tables w) i x"
  then obtain r where r: "r \<in> set (offers (tables w))" "i = bufToHex (of_id r)"
      "recoverSigner N (tr_payload x) (tr_signature x) = Inr (Some (bufToHex (of_provider r)))"
      "\<exists>pid. field (tr_payload x) ''providerId'' = JStr pid \<and> toLowerCase pid = bufToHex (of_provider r)"
      "field (tr_payload x) ''offerId'' = JStr i" "isValidPrice (field (tr_payload x) ''minPricePerHour'')"
      "parseIso (field (tr_payload x) ''validUntil'') \<noteq> None"
    unfolding terms_authentic_def by blast
  obtain r' where r': "r' \<in> set (offers (tables w'))" "offer_step r r'"
    using grows_by_mem [of offer_step] e r(1) unfolding evolves_def by blast
  then have "of_id r' = of_id r" "of_provider r' = of_provider r" by (auto simp: offer_step_def)
  then show ?thesis using r r'(1) unfolding terms_authentic_def by metis
qed

text \<open>The store and the tables together.\<close>

definition at_tables :: "(jstr \<Rightarrow> TermsRec \<Rightarrow> bool) \<Rightarrow> db \<Rightarrow> world \<Rightarrow> bool" where
  "at_tables T d w = (stored T (\<lambda>_ _. True) w \<and> tables w = d)"

lemma at_tables_keeps:
  "keeps (store_keep T (\<lambda>_ _. True)) m \<Longrightarrow> keeps same_tables m \<Longrightarrow> inv_io (at_tables T d) m (\<lambda>_. True)"
  by (rule inv_keeps) (simp add: keeps_def store_keep_def same_tables_def at_tables_def)

lemma inv_liftI: "inv_io I (liftI x) (\<lambda>a. x = Inr a)"
  by (simp add: inv_io_def liftI_def throw_def ret_def split: sum.split)

lemma inv_findOffer: "inv_io (at_tables T d) (findOffer E i) (\<lambda>row. \<forall>r. row = Some r \<longrightarrow> or_offer r \<in> set (offers d))"
  unfolding inv_io_def
proof (intro allI impI)
  fix w assume a: "at_tables T d w"
  obtain x w' where x: "findOffer E i w = (x, w')" by fastforce
  have "at_tables T d w'"
    using inv_ioD [OF at_tables_keeps [OF store_findOffer frame_findOffer] a, of E i] by (simp add: x)
  moreover have "or_offer r \<in> set (offers d)" if "x = Inr (Some r)" for r
    using findOffer_Some [of E i w r w'] x that a by (simp add: at_tables_def)
  ultimately show "case findOffer E i w of (Inl e, w') \<Rightarrow> at_tables T d w'
      | (Inr row, w') \<Rightarrow> at_tables T d w' \<and> (\<forall>r. row = Some r \<longrightarrow> or_offer r \<in> set (offers d))"
    by (auto simp: x split: sum.split)
qed

lemma inv_check_target: "inv_io I (check_target vw r now)
    (\<lambda>_. signer vw = bufToHex (of_provider r) \<and> field (payload vw) ''offerId'' = JStr (bufToHex (of_id r)))"
  unfolding check_target_def
  by (intro inv_seqI [OF inv_guardI] inv_weaken [OF inv_guardI]) auto

lemma inv_check_times: "inv_io I (check_times E now p) (\<lambda>_. parseIso (field p ''validUntil'') \<noteq> None)"
  unfolding check_times_def
  by (intro inv_seqI [OF inv_guardI] inv_weaken [OF inv_guardI]) auto

lemma inv_time: "inv_io (at_tables T d) (time_now E) (\<lambda>_. True)"
  by (intro at_tables_keeps store_rules frame.keeps_rules)

lemma inv_case_option: "(\<And>a. x = Some a \<Longrightarrow> inv_io I (f a) F) \<Longrightarrow> inv_io I n F \<Longrightarrow>
    inv_io I (case x of None \<Rightarrow> n | Some a \<Rightarrow> f a) F"
  by (cases x) simp_all

lemma postTerms_authentic:
  assumes R: "redis_documented E"
  shows "inv_io (at_tables (terms_authentic (noble_fns E) d) d) (postTerms E i b) (\<lambda>_. True)" (is "inv_io ?I _ _")
proof -
  note pure = at_tables_keeps [OF store_ops(26) [OF R] keeps_limited]
    at_tables_keeps [OF store_checkSeq [OF store_ops(17) [OF R] store_ops(18) [OF R]] frame_checkSeq [OF keeps_redis_ops(17) keeps_redis_ops(18)]]
    at_tables_keeps [OF store_ops(19) [OF R] keeps_redis_ops(19)]
  note set = at_tables_keeps [OF store_ops(2) [OF R] keeps_redis_ops(2)]
  show ?thesis
    unfolding postTerms_def Let_def
  proof (intro inv_seqI [OF inv_liftI] inv_seqI [OF inv_time] inv_seqI [OF inv_findOffer] inv_case_option inv_throw
      inv_seqI [OF pure(1)] inv_seqI [OF inv_check_target] inv_seqI [OF inv_guardI] inv_seqI [OF inv_check_times]
      inv_seqI [OF pure(2)] inv_seqI [OF set] inv_seqI [OF pure(3)] inv_true)
    fix vw now found row
    assume "readEnvelope (noble_fns E) b ''terms/v1'' = Inr vw"
      and "\<forall>r. found = Some r \<longrightarrow> or_offer r \<in> set (offers d)" and "found = Some row"
      and "signer vw = bufToHex (of_provider (or_offer row)) \<and> field (payload vw) ''offerId'' = JStr (bufToHex (of_id (or_offer row)))"
      and "\<not> \<not> isValidPrice (field (payload vw) ''minPricePerHour'')"
      and "parseIso (field (payload vw) ''validUntil'') \<noteq> None"
    moreover from this obtain pid where "recoverSigner (noble_fns E) (payload vw) (signature vw) = Inr (Some (signer vw))"
        "field (payload vw) ''providerId'' = JStr pid" "signer vw = toLowerCase pid" by (metis readEnvelope_ok)
    ultimately show "terms_authentic (noble_fns E) d (bufToHex (of_id (or_offer row)))
        \<lparr>tr_payload = payload vw, tr_signature = signature vw, tr_receivedAt = toIso now\<rparr>"
      unfolding terms_authentic_def by (intro bexI [of _ "or_offer row"]) auto
  qed
qed

lemma handle_store:
  assumes R: "redis_documented E" and h: "handle E X ip rq w = Some (r, w')" and n: "\<And>i b. rq \<noteq> PostTerms i b"
  shows "store_keep T (\<lambda>_ _. True) w w'"
proof -
  have k: "store_keep T (\<lambda>_ _. True) w w'" if "keeps (store_keep T (\<lambda>_ _. True)) m" "m w = (r, w')" for m
    using that by (metis keeps_def snd_conv)
  show ?thesis
  proof (cases rq)
    case (LaneSubmit c l b)
    then show ?thesis
      using submit_keeps [OF store.world_order_axioms store_bench_handlers(3) [OF R] store_bench_handlers(4) [OF R]] h by simp
  next
    case (GetSimJobs q)
    then show ?thesis using h k [OF store_ops_gets(5) [OF R]] store.refl by (auto split: if_splits)
  qed (use h n k [OF store_posts(1) [OF R]] k [OF store_posts(2) [OF R]] k [OF store_posts(3) [OF R]]
      k [OF store_posts(4) [OF R]] k [OF store_gets(1) [OF R]] k [OF store_gets(2) [OF R]] k [OF store_gets(3) [OF R]]
      k [OF store_gets(4) [OF R]] k [OF store_gets(5) [OF R]] k [OF store_gets(6) [OF R]]
      k [OF store_ops_gets(1) [OF R]] k [OF store_ops_gets(2) [OF R]] k [OF store_ops_gets(3) [OF R]]
      k [OF store_ops_gets(4) [OF R]] k [OF store_bench_handlers(1) [OF R]] k [OF store_bench_handlers(2) [OF R]]
      store.refl in \<open>simp; fail\<close>)+
qed

lemma background_store:
  assumes R: "redis_documented E" and X: "\<not> pf_dev X" and b: "background E X w w'"
  shows "store_keep T B w w'"
  using b
proof (cases rule: background.cases)
  case sample
  then show ?thesis using store_sampler [OF R] by (simp add: keeps_def)
next
  case (lose k)
  then show ?thesis using store_forgets [OF lose(2)] by (simp add: store_keep_def)
next
  case (settle st j)
  then show ?thesis using store_write_job by (simp add: keeps_def)
qed (use X in \<open>simp_all add: store_keep_def stored_def\<close>)

lemma step_authentic:
  assumes R: "redis_documented E" and X: "\<not> pf_dev X" and s: "step E X w w'"
    and a: "stored (terms_authentic (noble_fns E) (tables w)) (\<lambda>_ _. True) w"
  shows "stored (terms_authentic (noble_fns E) (tables w')) (\<lambda>_ _. True) w'"
proof -
  have m: "stored (terms_authentic (noble_fns E) (tables w')) (\<lambda>_ _. True) w"
    using terms_authentic_evolves step_tables [OF s] by (intro stored_mono [OF a]) blast+
  have k: "store_keep (terms_authentic (noble_fns E) (tables w')) (\<lambda>_ _. True) w w' \<Longrightarrow> ?thesis"
    using m by (simp add: store_keep_def)
  from s show ?thesis
  proof (elim stepE)
    fix ip rq r assume "respond E X ip rq w = Some (r, w')"
    then obtain y where h: "handle E X ip rq w = Some (y, w')" by (auto simp: respond_def)
    show ?thesis
    proof (cases "\<exists>i b. rq = PostTerms i b")
      case True
      then obtain i b where p: "postTerms E i b w = (y, w')" using h by auto
      then have t: "tables w' = tables w" using tables_of [OF frame_postTerms] by blast
      have "at_tables (terms_authentic (noble_fns E) (tables w)) (tables w) w" using a by (simp add: at_tables_def)
      from inv_ioD [OF postTerms_authentic [OF R] this, of i b] show ?thesis by (simp add: p t at_tables_def)
    next
      case False
      then show ?thesis using k [OF handle_store [OF R h]] by blast
    qed
  next
    assume "background E X w w'"
    then show ?thesis using k background_store [OF R X] by blast
  qed
qed

lemma steps_authentic:
  assumes "redis_documented E" and "\<not> pf_dev X" and "(step E X)\<^sup>*\<^sup>* v w"
    and "stored (terms_authentic (noble_fns E) (tables v)) (\<lambda>_ _. True) v"
  shows "stored (terms_authentic (noble_fns E) (tables w)) (\<lambda>_ _. True) w"
  using assms(3) by (induction rule: rtranclp_induct) (use assms step_authentic in blast)+

text \<open>
  C30: cached terms are authentic.  After any steps of a service that started with no terms in
  Redis, the terms cached for an offer carry the signature of the provider of that very offer,
  who names itself and the offer in them, and a well-formed price and end, whatever else was
  requested and whatever Redis lost in between.
\<close>

theorem cached_terms_authentic:
  assumes "redis_documented E" and "\<not> pf_dev X" and "\<And>i. kv_str (kvs v) (KTerms i) = None"
    and "(step E X)\<^sup>*\<^sup>* v w" and "kv_str (kvs w) (KTerms i) = Some (VTerms x, e)"
  shows "\<exists>r \<in> set (offers (tables w)). i = bufToHex (of_id r)
    \<and> recoverSigner (noble_fns E) (tr_payload x) (tr_signature x) = Inr (Some (bufToHex (of_provider r)))
    \<and> (\<exists>pid. field (tr_payload x) ''providerId'' = JStr pid \<and> toLowerCase pid = bufToHex (of_provider r))
    \<and> field (tr_payload x) ''offerId'' = JStr i \<and> isValidPrice (field (tr_payload x) ''minPricePerHour'')
    \<and> parseIso (field (tr_payload x) ''validUntil'') \<noteq> None"
proof -
  have "stored (terms_authentic (noble_fns E) (tables v)) (\<lambda>_ _. True) v"
    unfolding stored_def fits_def using assms(3) by (metis option.distinct(1))
  from steps_authentic [OF assms(1,2,4) this] have "terms_authentic (noble_fns E) (tables w) i x"
    using assms(5) unfolding stored_def fits_def by blast
  then show ?thesis by (simp add: terms_authentic_def)
qed

lemma demo_terms_kept:
  assumes "readEnvelope toy (Some req) ''terms/v1'' =
      Inr \<lparr>payload = demo_heartbeat 7, signature = sig, hash = h, signer = demo_address\<rparr>"
  shows "\<exists>resp w' x e. postTerms demo_env (bufToHex demo_oid) (Some req) demo_world = (Inr resp, w')
     \<and> kv_str (kvs w') (KTerms (bufToHex demo_oid)) = Some (VTerms x, e)"
  using assms
  by (simp add: postTerms_def Let_def seqI_def liftI_def ret_def time_now_def demo_find guardI_def demo_fields demo_checks
    parseIso_toIso limited_def rateLimit_def send_up [OF demo_up] check_target_def check_times_def demo_provider
    checkSeq_def getSeq_def setSeq_def setTerms_def touchProvider_def alive_def empty_kv_def counter_def as_num_def)

lemma demo_documented: "redis_documented demo_env"
  by (simp add: redis_documented_def demo_env_def)

theorem cached_terms_authentic_witness:
  "\<exists>w x e. step demo_env plain_platform demo_world w \<and> kv_str (kvs w) (KTerms (bufToHex demo_oid)) = Some (VTerms x, e)
     \<and> isValidPrice (field (tr_payload x) ''minPricePerHour'')"
proof -
  obtain req sig h where r: "readEnvelope toy (Some req) ''terms/v1'' =
      Inr \<lparr>payload = demo_heartbeat 7, signature = sig, hash = h, signer = demo_address\<rparr>"
    by (rule demo_signed [OF demo_heartbeat_ok [of 7], of "''terms/v1''"]) (simp_all add: demo_fields)
  obtain resp w x e where p: "postTerms demo_env (bufToHex demo_oid) (Some req) demo_world = (Inr resp, w)"
      "kv_str (kvs w) (KTerms (bufToHex demo_oid)) = Some (VTerms x, e)"
    using demo_terms_kept [OF r] by blast
  have s: "step demo_env plain_platform demo_world w"
    by (rule step.serve [where rq = "PostTerms (bufToHex demo_oid) (Some req)" and ip = "js ''a''"]) (simp add: respond_def p(1))
  have "\<not> pf_dev plain_platform" "\<And>i. kv_str (kvs demo_world) (KTerms i) = None"
    by (simp_all add: plain_platform_def empty_kv_def)
  from cached_terms_authentic [OF demo_documented this r_into_rtranclp [of "step demo_env plain_platform", OF s] p(2)]
  show ?thesis using s p(2) by blast
qed

subsection \<open>Attestations are earned\<close>

lemma store_postTerms_any:
  assumes R: "redis_documented E"
  shows "keeps (store_keep (\<lambda>_ _. True) B) (postTerms E i b)"
  unfolding postTerms_def Let_def by (intro store_all store_ops [OF R] TrueI)

text \<open>The lanes a request completed: the verifier accepted its proof.\<close>

definition accepted :: "env \<Rightarrow> request \<Rightarrow> world \<Rightarrow> (jstr \<times> LaneId) set" where
  "accepted E rq w =
     (case rq of
        LaneSubmit c l b \<Rightarrow> {(c, sb_lane sb) |sb w1. submit_checks E c l b w = (Inr sb, w1) \<and> run_verifier E c sb = Some (Inr LaneOk)}
      | _ \<Rightarrow> {})"

text \<open>\<open>run E X A w w'\<close>: from \<open>w\<close> the service reached \<open>w'\<close>, and \<open>A\<close> are the lanes completed on the way.\<close>

inductive run :: "env \<Rightarrow> platform \<Rightarrow> (jstr \<times> LaneId) set \<Rightarrow> world \<Rightarrow> world \<Rightarrow> bool" for E X where
  stay: "run E X {} w w"
| answer: "run E X A u v \<Longrightarrow> respond E X ip rq v = Some (r, w) \<Longrightarrow> run E X (A \<union> accepted E rq v) u w"
| pass: "run E X A u v \<Longrightarrow> background E X v w \<Longrightarrow> run E X A u w"

lemma run_steps: "run E X A u w \<Longrightarrow> (step E X)\<^sup>*\<^sup>* u w"
  by (induction rule: run.induct) (auto intro: rtranclp.rtrancl_into_rtrancl step.serve step.behind)

lemma handle_benches:
  assumes R: "redis_documented E" and h: "handle E X ip rq w = Some (r, w')"
    and b: "benches (bench_inv V) w" and V: "\<And>c l. (c, l) \<in> accepted E rq w \<Longrightarrow> V c l"
  shows "benches (bench_inv V) w'"
proof -
  have k: "benches (bench_inv V) w'" if "keeps (store_keep (\<lambda>_ _. True) (bench_inv V)) m" "m w = (r, w')" for m
    using that b unfolding store_benches keeps_def store_keep_def by (metis snd_conv)
  show ?thesis
  proof (cases rq)
    case (LaneSubmit c l rb)
    then have p: "postLaneSubmit E c l rb w = Some (r, w')" using h by simp
    show ?thesis
      by (rule postLaneSubmit_inv [OF R b p], rule V) (auto simp: LaneSubmit accepted_def)
  next
    case (PostChallenge rb)
    then show ?thesis using h b postChallenge_inv [OF R, of V rb ip] by (auto simp: keeps_def bench_keep_def dest: spec [of _ w])
  next
    case (LaneStart c l)
    then show ?thesis using h inv_ioD [OF postLaneStart_inv [OF R] b, of c l] by simp
  next
    case (GetSimJobs q)
    then show ?thesis using h b k [OF store_ops_gets(5) [OF R]] by (auto split: if_splits)
  qed (use h b k [OF store_posts(1) [OF R]] k [OF store_posts(2) [OF R]] k [OF store_posts(3) [OF R]]
      k [OF store_posts(4) [OF R]] k [OF store_gets(1) [OF R]] k [OF store_gets(2) [OF R]] k [OF store_gets(3) [OF R]]
      k [OF store_gets(4) [OF R]] k [OF store_gets(5) [OF R]] k [OF store_gets(6) [OF R]]
      k [OF store_ops_gets(1) [OF R]] k [OF store_ops_gets(2) [OF R]] k [OF store_ops_gets(3) [OF R]]
      k [OF store_ops_gets(4) [OF R]] k [OF store_postTerms_any [OF R]] in \<open>simp; fail\<close>)+
qed

lemma no_atts_writes:
  "keeps (new_atts Q) (postProvider E ip b)" "keeps (new_atts Q) (postOffer E b)" "keeps (new_atts Q) (postRevoke E i b)"
proof -
  have p: "keeps (new_atts Q) (pg E (upsert_provider pid h s hb))" "keeps (new_atts Q) (pg E (\<lambda>t. insert_offer (orow t)))"
      "keeps (new_atts Q) (pg E (revoke_offer j))" for pid h s hb orow j
    by (rule atts_pg; auto simp: upsert_provider_def insert_offer_def revoke_offer_def split: if_splits)+
  have o: "(\<And>a. x = Some a \<Longrightarrow> keeps (new_atts Q) (f a)) \<Longrightarrow> keeps (new_atts Q) n \<Longrightarrow>
      keeps (new_atts Q) (case x of None \<Rightarrow> n | Some a \<Rightarrow> f a)" for x f n by (cases x) simp_all
  note redis = keeps_redis_ops [THEN same_tables_atts] keeps_limited [THEN same_tables_atts]
    frame_checks [THEN same_tables_atts] frame_findOffer [THEN same_tables_atts] frame_validateProfile [THEN same_tables_atts]
  show "keeps (new_atts Q) (postProvider E ip b)" "keeps (new_atts Q) (postOffer E b)" "keeps (new_atts Q) (postRevoke E i b)"
    unfolding postProvider_def postOffer_def postRevoke_def Let_def
    by (intro atts.keeps_rules redis atts_log p) (auto intro!: atts.keeps_rules redis atts_log p split: option.split)
qed

text \<open>\<open>earned A row\<close>: the row is the attestation of a state whose challenge completed all four lanes.\<close>

definition earned :: "env \<Rightarrow> (jstr \<times> LaneId) set \<Rightarrow> att_row \<Rightarrow> bool" where
  "earned E A row =
     (\<exists>c st aid t sig. (\<forall>l. (c, l) \<in> A \<and> ls_status (bs_lanes st l) = LaneDone) \<and> row = attestation_row E aid st t sig)"

lemma earned_mono: "earned E A row \<Longrightarrow> A \<subseteq> B \<Longrightarrow> earned E B row"
  unfolding earned_def by blast

lemma handle_earned:
  assumes R: "redis_documented E" and h: "handle E X ip rq w = Some (r, w')"
    and b: "benches (bench_inv (\<lambda>c l. (c, l) \<in> A)) w"
  shows "new_atts (earned E (A \<union> accepted E rq w)) w w'"
proof (cases "\<exists>c l b. rq = LaneSubmit c l b")
  case False
  show ?thesis
    by (rule handle_keeps [OF atts.world_order_axioms _ no_atts_writes _ h]) (use False in \<open>simp_all add: same_tables_def new_atts_def\<close>)
next
  case True
  then obtain c l rb where rq: "rq = LaneSubmit c l rb" by blast
  then have p: "postLaneSubmit E c l rb w = Some (r, w')" using h by simp
  have "earned E (A \<union> accepted E rq w) row"
    if new: "row \<in> set (attestations (tables w'))" "row \<notin> set (attestations (tables w))" for row
  proof -
    from postLaneSubmit_new_attestation [OF R p new] obtain sb w1 st' aid sig where
      s: "submit_checks E c l rb w = (Inr sb, w1)" "run_verifier E c sb = Some (Inr LaneOk)"
      "st' = upd_lane (sb_lane sb) (\<lambda>s. s\<lparr>ls_status := LaneDone, ls_elapsedMs := Some (sb_elapsedMs sb)\<rparr>) (sb_state sb)"
      "\<forall>k. ls_status (bs_lanes st' k) = LaneDone" "row = attestation_row E aid st' (sb_receivedAt sb) sig" by blast
    have i: "bench_inv (\<lambda>c l. (c, l) \<in> A) c (sb_state sb)"
      using inv_io_Inr [OF inv_submit_checks [OF R] b s(1)] by simp
    have "(c, k) \<in> A \<union> accepted E rq w" for k
    proof (cases "k = sb_lane sb")
      case True
      then show ?thesis using s(1,2) by (auto simp: rq accepted_def)
    next
      case False
      then have "ls_status (bs_lanes (sb_state sb) k) = LaneDone" using spec [OF s(4), of k] by (simp add: s(3) upd_lane_def)
      then show ?thesis using i by (simp add: bench_inv_def)
    qed
    then show ?thesis using s(4,5) unfolding earned_def by blast
  qed
  then show ?thesis by (auto simp: new_atts_def)
qed

lemma background_benches:
  assumes R: "redis_documented E" and X: "\<not> pf_dev X" and b: "background E X w w'"
  shows "bench_keep P w w'"
  using background_store [OF R X b, of "\<lambda>_ _. True" P] by (simp add: bench_keep_def store_keep_def store_benches)

lemma background_atts:
  assumes X: "\<not> pf_dev X" and b: "background E X w w'"
  shows "attestations (tables w') = attestations (tables w)"
  using b
proof (cases rule: background.cases)
  case sample
  have "(tables w')\<lparr>snapshots := []\<rparr> = (tables w)\<lparr>snapshots := []\<rparr>"
    using sampler_snapshots sample by (simp add: only_snapshots_def)
  from arg_cong [OF this, of attestations] show ?thesis by simp
next
  case (settle st j)
  then show ?thesis
    by (auto simp: write_job_def tryI_def pg_def insert_job_def ret_def Let_def split: fate.split)
qed (use X in simp_all)

lemma run_earned:
  assumes R: "redis_documented E" and X: "\<not> pf_dev X" and i: "benches (bench_inv (\<lambda>c l. (c, l) \<in> A0)) u"
    and r: "run E X A u w"
  shows "benches (bench_inv (\<lambda>c l. (c, l) \<in> A0 \<union> A)) w \<and> new_atts (earned E (A0 \<union> A)) u w"
  using r i
proof (induction rule: run.induct)
  case (stay u)
  then show ?case by (simp add: atts.refl)
next
  case (answer A u v ip rq r w)
  let ?B = "A0 \<union> A \<union> accepted E rq v"
  obtain y where h: "handle E X ip rq v = Some (y, w)" using answer.hyps(2) by (auto simp: respond_def)
  have b: "benches (bench_inv (\<lambda>c l. (c, l) \<in> A0 \<union> A)) v" and n: "new_atts (earned E (A0 \<union> A)) u v"
    using answer by simp_all
  have "benches (bench_inv (\<lambda>c l. (c, l) \<in> ?B)) v"
    using b unfolding benches_def bench_inv_def by blast
  then have 1: "benches (bench_inv (\<lambda>c l. (c, l) \<in> ?B)) w" by (rule handle_benches [OF R h]) simp
  have "new_atts (earned E ?B) u v" using n earned_mono unfolding new_atts_def by (metis Un_upper1)
  then have "new_atts (earned E ?B) u w" using handle_earned [OF R h b] by (rule atts.trans)
  with 1 show ?case by (simp add: Un_assoc)
next
  case (pass A u v w)
  then show ?case
    using background_benches [OF R X pass.hyps(2)] background_atts [OF X pass.hyps(2)]
    by (simp add: bench_keep_def new_atts_def)
qed

text \<open>
  C31: attestations are earned.  Let the lanes a service holds as done when a run starts have
  been completed (none, on an empty Redis).  Then every attestation the run adds is that of a
  challenge all four lanes of which were completed, by proofs the verifier accepted, before or
  in the run: no interleaving of requests, losses of Redis and other work of the service yields
  one otherwise.
\<close>

theorem attestations_earned:
  assumes "redis_documented E" and "\<not> pf_dev X" and "run E X A u w"
    and "\<And>c st e l. kv_str (kvs u) (KBench c) = Some (VBench st, e) \<Longrightarrow> bench_wf st \<and> (ls_status (bs_lanes st l) = LaneDone \<longrightarrow> (c, l) \<in> A0)"
    and "row \<in> set (attestations (tables w))" and "row \<notin> set (attestations (tables u))"
  shows "\<exists>c st aid t sig. (\<forall>l. (c, l) \<in> A0 \<union> A) \<and> (\<forall>l. ls_status (bs_lanes st l) = LaneDone)
    \<and> row = attestation_row E aid st t sig"
proof -
  have "benches (bench_inv (\<lambda>c l. (c, l) \<in> A0)) u"
    unfolding benches_def bench_inv_def using assms(4) by blast
  from run_earned [OF assms(1,2) this assms(3)] have "earned E (A0 \<union> A) row"
    using assms(5,6) by (auto simp: new_atts_def)
  then show ?thesis unfolding earned_def by blast
qed

text \<open>A challenge one lane short of its end, on which to see an attestation being earned.\<close>

definition demo_cid :: jstr where "demo_cid = bufToHex (replicate 32 9)"

definition demo_lane :: "int \<Rightarrow> LaneState" where
  "demo_lane n = \<lparr>ls_workers = n, ls_status = LaneDone, ls_issuedAt = Some 1799999990000, ls_nonce = Some (js ''03''),
     ls_elapsedMs = Some 1000\<rparr>"

definition demo_bench :: BenchState where
  "demo_bench = \<lparr>bs_providerId = demo_address, bs_seed = js ''0102'', bs_chainLen = 6, bs_checkpoints = 3, bs_samples = 1,
     bs_deadlineMs = 1800000100000, bs_arch = js ''x64'', bs_coreCount = 1, bs_ramGib = Fin 64, bs_cpuModel = None,
     bs_lanes = (\<lambda>l. if l = Full then \<lparr>ls_workers = 1, ls_status = LaneStarted, ls_issuedAt = Some 1799999999000,
                     ls_nonce = Some (js ''03''), ls_elapsedMs = None\<rparr> else demo_lane (laneWorkers 1 l))\<rparr>"

definition bench_world :: world where
  "bench_world = demo_world\<lparr>kvs := empty_kv\<lparr>kv_str := [KBench demo_cid \<mapsto> (VBench demo_bench, None)]\<rparr>\<rparr>"

definition demo_params :: LaneParams where
  "demo_params = \<lparr>lp_seed = [1, 2], lp_laneNonce = [3], lp_providerId = demo_address, lp_laneId = js ''full'',
     lp_chainLen = 6, lp_checkpoints = 3, lp_samples = 1\<rparr>"

definition demo_submission :: "WorkerProof list \<Rightarrow> jsval" where
  "demo_submission proofs = obj
     [(''type'', JStr (js ''lane-proof/v1'')), (''providerId'', JStr demo_address), (''challengeId'', JStr demo_cid),
      (''laneId'', JStr (js ''full'')), (''workers'', JArr (map proof_js proofs))]"

lemma proof_js_plain: "wf_js (proof_js x)" "plain_json (proof_js x)"
  by (auto simp: proof_js_def opening_js_def num_of_int_def is_finite_num_def split: option.split)

lemma demo_submission_ok: "wf_js (demo_submission ps)" "plain_json (demo_submission ps)" "isPlainObject (demo_submission ps)"
  by (simp_all add: demo_submission_def obj_def isPlainObject_def proof_js_plain)

lemma demo_proofs:
  "\<exists>proofs. verifyLane toy demo_params 1 demo_cid (JArr (map proof_js proofs)) = Some (Inr LaneOk)"
proof -
  have h: "hexToBytesR toy (slice_from 2 (lp_providerId demo_params)) = Inr demo_pid"
    "hexToBytesR toy (slice_from 2 demo_cid) = Inr (replicate 32 9)"
    by (simp_all add: demo_params_def demo_provider [symmetric] demo_cid_def hexToBytesR_def toy_def bufToHex_def)
  obtain proofs where "proveLane toy demo_params 1 demo_cid = Some (Inr proofs)"
    using proveLane_returns [of demo_params toy demo_pid demo_cid "replicate 32 9" 1 1] h
    by (auto simp: demo_params_def lessThan_Suc)
  from proveLane_accepted [OF toy_ok _ this] show ?thesis by (auto simp: demo_params_def)
qed

lemma demo_cid_ok [simp]: "HASH_RE demo_cid"
  using HASH_RE_hex [of "replicate 32 9"] by (simp add: demo_cid_def bufToHex_def)

lemma demo_seed: "hexToBytes toy (js ''0102'') = Some [1, 2]" "hexToBytes toy (js ''03'') = Some [3]"
  by code_simp+

lemma demo_lanes: "lane_of (js ''full'') = Some Full" "maxLaneMs default_config = 120000"
  "attestationTtlMs default_config = 2592000000"
  by (simp_all add: lane_of_def LANE_ORDER_def load_config_fixed [OF load_default] default_config_def load_config_def int_setting_def num_def)

lemma demo_submit_checks:
  assumes "readEnvelope toy (Some req) ''lane-proof/v1'' =
      Inr \<lparr>payload = demo_submission ps, signature = sig, hash = h, signer = demo_address\<rparr>"
  shows "submit_checks demo_env demo_cid (js ''full'') (Some req) bench_world =
    (Inr \<lparr>sb_state = demo_bench, sb_lane = Full, sb_receivedAt = 1800000000000, sb_elapsedMs = 1000,
      sb_params = demo_params, sb_proofs = JArr (map proof_js ps)\<rparr>, bench_world\<lparr>tick := 2\<rparr>)"
proof -
  have k: "kv_str (kvs bench_world) (KBench demo_cid) = Some (VBench demo_bench, None)" "client bench_world"
    "tick bench_world = 0" by (simp_all add: bench_world_def)
  have f: "field (demo_submission ps) ''challengeId'' = JStr demo_cid" "field (demo_submission ps) ''laneId'' = JStr (js ''full'')"
    "field (demo_submission ps) ''workers'' = JArr (map proof_js ps)"
    by (simp_all add: demo_submission_def obj_def)
  have b: "bs_providerId demo_bench = demo_address" "bs_deadlineMs demo_bench = 1800000100000"
    "bs_lanes demo_bench Full = \<lparr>ls_workers = 1, ls_status = LaneStarted, ls_issuedAt = Some 1799999999000,
                     ls_nonce = Some (js ''03''), ls_elapsedMs = None\<rparr>"
    "bs_seed demo_bench = js ''0102''" "bs_chainLen demo_bench = 6" "bs_checkpoints demo_bench = 3" "bs_samples demo_bench = 1"
    by (simp_all add: demo_bench_def)
  show ?thesis
    using k by (simp add: submit_checks_def Let_def seqI_def liftI_def assms ret_def time_now_def loadState_def guardI_def
      getBench_def send_up [OF demo_up] alive_def reply_val_def f b laneOrThrow_def demo_lanes or_throw_def demo_seed demo_params_def)
qed

definition demo_done :: BenchState where
  "demo_done = upd_lane Full (\<lambda>s. s\<lparr>ls_status := LaneDone, ls_elapsedMs := Some 1000\<rparr>) demo_bench"

lemma demo_done_lane: "ls_status (bs_lanes demo_done l) = LaneDone" "ls_workers (bs_lanes demo_done l) = laneWorkers 1 l"
  "ls_elapsedMs (bs_lanes demo_done l) = Some 1000"
  by (cases l; simp add: demo_done_def upd_lane_def demo_bench_def demo_lane_def laneWorkers_def)+

lemma demo_done_simps: "bs_chainLen demo_done = 6" "bs_ramGib demo_done = Fin 64" "bs_cpuModel demo_done = None"
  "bs_providerId demo_done = demo_address" "bs_arch demo_done = js ''x64''" "bs_coreCount demo_done = 1"
  by (simp_all add: demo_done_def upd_lane_def demo_bench_def)

lemma demo_score: "is_finite_num (lane_score demo_done l)"
proof -
  have w: "laneWorkers 1 l \<in> {1, 4, 8}" by (cases l) (simp_all add: laneWorkers_def)
  have "fl 1 = Fin 1" "fl 6 = Fin 6" "fl 24 = Fin 24" "fl 48 = Fin 48"
    using fl_of_int [of 1] fl_of_int [of 6] fl_of_int [of 24] fl_of_int [of 48] by simp_all
  then show ?thesis
    using w by (auto simp: lane_score_def demo_done_lane laneScore_def demo_done_simps is_finite_num_def)
qed

lemma demo_attestation_ok:
  "is_ok (jcs (attestation_payload demo_env demo_cid demo_done t a))"
proof -
  let ?p = "attestation_payload demo_env demo_cid demo_done t a"
  have "wf_js ?p" "plain_json ?p"
    using demo_score by (simp_all add: attestation_payload_def obj_def jint_def num_of_int_def demo_done_simps is_finite_num_def)
  then show ?thesis using serialize_ok_iff [of ?p] by (simp add: jcs_def)
qed

lemma demo_closed:
  "\<exists>resp w' aid sig. close_bench demo_env demo_cid demo_done Full 1800000000000 1000 (bench_world\<lparr>tick := 2\<rparr>) = (Inr resp, w')
     \<and> attestation_row demo_env aid demo_done 1800000000000 sig \<in> set (attestations (tables w'))
     \<and> aid \<noteq> demo_aid"
proof -
  let ?p = "attestation_payload demo_env demo_cid demo_done 1800000000000 demo_address"
  obtain sig where s: "signPayload toy ?p [1] = Some sig"
    using recover_sign [OF toy_ok toy_key demo_attestation_ok] by blast
  obtain h where h: "payloadHash toy ?p = Inr h"
    using demo_attestation_ok [of 1800000000000 demo_address]
    by (auto simp: is_ok_iff payloadHash_def payloadDigest_def jcsBytes_def jcs_def)
  then obtain b where b: "h = bufToHex (toy_keccak b)"
    by (auto simp: payloadHash_def payloadDigest_def seqR_Inr_iff toy_def bufToHex_def)
  have "hd (toy_keccak b) \<noteq> hd demo_aid" by (simp add: toy_keccak_def demo_aid_def)
  then have i: "toy_keccak b \<noteq> demo_aid" by auto
  have a: "addressFromPrivateKey toy [1] = Some demo_address" "svc_key demo_env = [1]"
    using toy_key [of "[1]"] by (simp_all add: addressFromPrivateKey_def key_ok_def demo_address_def demo_env_def)
  have p: "bs_providerId demo_done = bufToHex demo_pid" by (simp add: demo_done_simps demo_provider)
  have w: "tables bench_world = demo_db" "client bench_world" by (simp_all add: bench_world_def)
  show ?thesis
    using s h i a p w demo_documented
    by (simp add: close_bench_def Let_def seqI_def or_throw_def ret_def b logPayload_def pg_def insert_log_def insert_attestation_def
      attestation_row_def dropBench_def send_up [OF demo_up] liftI_def envelopeOut_def demo_db_def demo_att_def)
qed

lemma demo_bench_ok: "bench_wf demo_bench \<and> (ls_status (bs_lanes demo_bench l) = LaneDone \<longrightarrow> l \<noteq> Full)"
  unfolding bench_wf_def lanes_all
  by (auto simp: demo_bench_def demo_lane_def laneWorkers_def less_LaneId_def)

lemma demo_last_lane:
  "\<exists>rq r w row. respond demo_env plain_platform (js ''a'') rq bench_world = Some (r, w)
     \<and> row \<in> set (attestations (tables w)) \<and> row \<notin> set (attestations demo_db)"
proof -
  obtain ps where v: "verifyLane toy demo_params 1 demo_cid (JArr (map proof_js ps)) = Some (Inr LaneOk)"
    using demo_proofs by blast
  obtain req sig h where e: "readEnvelope toy (Some req) ''lane-proof/v1'' =
      Inr \<lparr>payload = demo_submission ps, signature = sig, hash = h, signer = demo_address\<rparr>"
    by (rule demo_signed [OF demo_submission_ok [of ps], of "''lane-proof/v1''"]) (simp_all add: demo_submission_def obj_def)
  obtain resp w' aid sg where c:
    "close_bench demo_env demo_cid demo_done Full 1800000000000 1000 (bench_world\<lparr>tick := 2\<rparr>) = (Inr resp, w')"
    "attestation_row demo_env aid demo_done 1800000000000 sg \<in> set (attestations (tables w'))" "aid \<noteq> demo_aid"
    using demo_closed by blast
  have f: "ls_workers (bs_lanes demo_bench Full) = 1" by (simp add: demo_bench_def)
  have "postLaneSubmit demo_env demo_cid (js ''full'') (Some req) bench_world = Some (Inr resp, w')"
    using c(1) v demo_done_lane(1)
    by (simp add: postLaneSubmit_def demo_submit_checks [OF e] run_verifier_def f submit_result_def Let_def demo_done_def [symmetric])
  then have "respond demo_env plain_platform (js ''a'') (LaneSubmit demo_cid (js ''full'') (Some req)) bench_world = Some (resp, w')"
    by (simp add: respond_def wrap_def)
  moreover have "attestation_row demo_env aid demo_done 1800000000000 sg \<notin> set (attestations demo_db)"
    using c(3) by (simp add: demo_db_def attestation_row_def demo_att_def)
  ultimately show ?thesis using c(2) by blast
qed

theorem attestations_earned_witness:
  "\<exists>A w row c. run demo_env plain_platform A bench_world w \<and> row \<in> set (attestations (tables w))
     \<and> row \<notin> set (attestations demo_db) \<and> (c, Full) \<in> A"
proof -
  obtain rq r w row where l: "respond demo_env plain_platform (js ''a'') rq bench_world = Some (r, w)"
    "row \<in> set (attestations (tables w))" "row \<notin> set (attestations demo_db)" using demo_last_lane by blast
  let ?A0 = "{(demo_cid, l) | l. l \<noteq> Full}"
  have u: "run demo_env plain_platform ({} \<union> accepted demo_env rq bench_world) bench_world w"
    by (rule run.answer [OF run.stay l(1)])
  have s: "bench_wf st \<and> (ls_status (bs_lanes st k) = LaneDone \<longrightarrow> (c, k) \<in> ?A0)"
    if "kv_str (kvs bench_world) (KBench c) = Some (VBench st, e)" for c st e k
  proof -
    have "kv_str (kvs bench_world) = [KBench demo_cid \<mapsto> (VBench demo_bench, None)]"
      by (simp add: bench_world_def empty_kv_def)
    with that have "c = demo_cid" "st = demo_bench" by (simp_all split: if_splits)
    then show ?thesis using demo_bench_ok [of k] by simp
  qed
  have x: "\<not> pf_dev plain_platform" "row \<notin> set (attestations (tables bench_world))"
    using l(3) by (simp_all add: plain_platform_def bench_world_def)
  have "\<exists>c st aid t sig. (\<forall>l. (c, l) \<in> ?A0 \<union> ({} \<union> accepted demo_env rq bench_world))
      \<and> (\<forall>l. ls_status (bs_lanes st l) = LaneDone) \<and> row = attestation_row demo_env aid st t sig"
    by (rule attestations_earned [OF demo_documented x(1) u _ l(2) x(2)]) (rule s)
  then obtain c where "\<forall>l. (c, l) \<in> ?A0 \<union> ({} \<union> accepted demo_env rq bench_world)"
    by (elim exE conjE)
  from spec [OF this, of Full] have "(c, Full) \<in> {} \<union> accepted demo_env rq bench_world" by simp
  then show ?thesis using u l(2,3) by (intro exI conjI)
qed

end
