(* ===== verification/Simulator.thy ===== *)
theory Simulator
  imports Service
begin

text \<open>
  The simulated requestors as clients of the service (\<open>src/dev-requestors.ts\<close>): how one reads a
  search response, which offers it rejects, whom it hires, what it posts for the provider it
  hired, and the cycle of its timers.  \<open>Math.random\<close> is an argument.  Wire values are read at
  the types the source gives them: a value of another type counts as absent.  Proved: a hire
  obeys the simulator's rules, the cycle keeps its books, the busy hint it signs is one the
  service accepts, and what the service lists for a shape passes the client's filters.
\<close>

subsection \<open>Search results on the wire\<close>

record WireEnvelope =
  we_payload :: jsval
  we_signature :: jstr

record WireOfferItem =
  wi_offerId :: jstr
  wi_template :: WireEnvelope
  wi_attestation :: WireEnvelope
  wi_terms :: "WireEnvelope option"
  wi_status :: jstr

definition wire_envelope :: "jsval \<Rightarrow> WireEnvelope option" where
  "wire_envelope v =
     (let e = field v ''envelope'' in
      case (field e ''payload'', field e ''signature'') of
        (JObj p, JStr s) \<Rightarrow> Some \<lparr>we_payload = JObj p, we_signature = s\<rparr>
      | _ \<Rightarrow> None)"

definition wire_item :: "jsval \<Rightarrow> WireOfferItem option" where
  "wire_item v =
     (case (field v ''offerId'', wire_envelope (field v ''template''), wire_envelope (field v ''attestation''), field v ''status'') of
        (JStr i, Some t, Some a, JStr s) \<Rightarrow>
          (if field v ''terms'' = JNull
           then Some \<lparr>wi_offerId = i, wi_template = t, wi_attestation = a, wi_terms = None, wi_status = s\<rparr>
           else map_option (\<lambda>x. \<lparr>wi_offerId = i, wi_template = t, wi_attestation = a, wi_terms = Some x, wi_status = s\<rparr>)
                  (wire_envelope (field v ''terms'')))
      | _ \<Rightarrow> None)"

subsection \<open>Checking an item\<close>

datatype defect =
    BadTemplate | BadAttestation | OtherProvider | NoTerms | BadTerms | OtherOffer | TermsExpired
  | BelowCores | BelowRam | BelowScore | AbovePrice

text \<open>\<open>recoverSigner(e.payload, e.signature) === x\<close>.\<close>

definition signed_by :: "noble \<Rightarrow> WireEnvelope \<Rightarrow> jsval \<Rightarrow> thrown + bool" where
  "signed_by N e x =
     seqR (recoverSigner N (we_payload e) (we_signature e)) (\<lambda>s.
     Inr ((case s of None \<Rightarrow> JNull | Some a \<Rightarrow> JStr a) = x))"

definition verifyOfferItem :: "noble \<Rightarrow> WireOfferItem \<Rightarrow> jstr \<Rightarrow> int \<Rightarrow> thrown + defect option" where
  "verifyOfferItem N item serviceAddr nowMs =
     (let tpl = wi_template item; att = wi_attestation item; providerId = field (we_payload tpl) ''providerId'' in
      seqR (signed_by N tpl providerId) (\<lambda>ok.
      if \<not> ok then Inr (Some BadTemplate) else
      seqR (signed_by N att (JStr serviceAddr)) (\<lambda>ok.
      if \<not> ok then Inr (Some BadAttestation)
      else if field (we_payload att) ''providerId'' \<noteq> providerId then Inr (Some OtherProvider) else
      case wi_terms item of
        None \<Rightarrow> Inr (Some NoTerms)
      | Some t \<Rightarrow>
          seqR (signed_by N t providerId) (\<lambda>ok.
          if \<not> ok then Inr (Some BadTerms)
          else if field (we_payload t) ''offerId'' \<noteq> JStr (wi_offerId item) then Inr (Some OtherOffer)
          else if (case date_parse (jstr_of (field (we_payload t) ''validUntil'')) of
                     None \<Rightarrow> False | Some v \<Rightarrow> v \<le> nowMs) then Inr (Some TermsExpired)
          else Inr None))))"

definition as_number :: "jsval \<Rightarrow> jsnum" where
  "as_number v = (case v of JNum x \<Rightarrow> x | _ \<Rightarrow> NaN)"

definition below :: "jsval \<Rightarrow> int option \<Rightarrow> bool" where
  "below v m = (case m of None \<Rightarrow> False | Some n \<Rightarrow> num_lt (as_number v) (Fin (of_int n)))"

definition checkRegistryFilters :: "WireOfferItem \<Rightarrow> JobShape \<Rightarrow> defect option" where
  "checkRegistryFilters item shape =
     (let att = we_payload (wi_attestation item) in
      if below (field att ''coreCount'') (sh_cores shape) then Some BelowCores
      else if below (field att ''ramGib'') (sh_ram shape) then Some BelowRam
      else if below (field (field att ''scores'') ''full'') (sh_full shape) then Some BelowScore
      else case wi_terms item of
        None \<Rightarrow> None
      | Some t \<Rightarrow>
          (case field (we_payload t) ''minPricePerHour'' of
             JStr price \<Rightarrow>
               if num_lt (js_number (js (sh_maxPrice shape))) (js_number price) then Some AbovePrice else None
           | _ \<Rightarrow> None))"

subsection \<open>Searching\<close>

datatype query_result = Items "WireOfferItem list" | RetryAfter jsnum | QueryError

text \<open>The query string of a shape.\<close>

definition search_url :: "JobShape \<Rightarrow> string \<Rightarrow> jstr option" where
  "search_url shape = ([''model'' \<mapsto> js ''cpu/v1'', ''freshness'' \<mapsto> js ''normal'', ''sort'' \<mapsto> js (sh_sort shape),
       ''limit'' \<mapsto> js ''20'', ''price.perHour.max'' \<mapsto> js (sh_maxPrice shape)])
      (''cores.min'' := map_option dec_str (sh_cores shape), ''ram.gib.min'' := map_option dec_str (sh_ram shape),
       ''score.full.min'' := map_option dec_str (sh_full shape))"

text \<open>
  What the client makes of the response; \<open>None\<close> for a request that did not get through.  The
  outer \<open>None\<close> is a 200 whose body is not a list of items.
\<close>

definition read_response :: "response option \<Rightarrow> query_result option" where
  "read_response r =
     (case r of
        None \<Rightarrow> Some QueryError
      | Some x \<Rightarrow>
          if status x = 429 then
            (let ms = as_number (field (field (field (body x) ''error'') ''details'') ''retryAfterMs'')
             in Some (RetryAfter (if ms = NaN \<or> is_zero ms then Fin 5000 else ms)))
          else if \<not> (200 \<le> status x \<and> status x \<le> 299) then Some QueryError
          else (case field (body x) ''items'' of
                  JArr vs \<Rightarrow> map_option Items (mapO wire_item vs)
                | _ \<Rightarrow> None))"

definition queryOffers :: "env \<Rightarrow> platform \<Rightarrow> jstr \<Rightarrow> JobShape \<Rightarrow> world \<Rightarrow> (query_result option \<times> world) option" where
  "queryOffers E X ip shape w =
     map_option (\<lambda>(r, w'). (read_response (Some r), w')) (respond E X ip (GetOffers (search_url shape)) w)"

subsection \<open>Choosing a provider\<close>

type_synonym dummies = "jstr \<Rightarrow> DevProviderInfo option"
type_synonym candidate = "WireOfferItem \<times> DevProviderInfo"

definition examine :: "noble \<Rightarrow> jstr \<Rightarrow> int \<Rightarrow> JobShape \<Rightarrow> WireOfferItem \<Rightarrow> thrown + defect option" where
  "examine N serviceAddr now shape item =
     seqR (verifyOfferItem N item serviceAddr now) (\<lambda>d.
     Inr (case d of Some x \<Rightarrow> Some x | None \<Rightarrow> checkRegistryFilters item shape))"

definition item_provider :: "WireOfferItem \<Rightarrow> jstr" where
  "item_provider item = jstr_of (field (we_payload (wi_template item)) ''providerId'')"

definition dir_get :: "dummies \<Rightarrow> jsval \<Rightarrow> DevProviderInfo option" where
  "dir_get dir v = (case v of JStr s \<Rightarrow> dir s | _ \<Rightarrow> None)"

text \<open>The defects reported, and the sound items of known dummies in order.\<close>

fun review :: "noble \<Rightarrow> dummies \<Rightarrow> jstr \<Rightarrow> int \<Rightarrow> JobShape \<Rightarrow> WireOfferItem list \<Rightarrow> thrown + nat \<times> candidate list" where
  "review N dir serviceAddr now shape [] = Inr (0, [])"
| "review N dir serviceAddr now shape (item # items) =
     seqR (examine N serviceAddr now shape item) (\<lambda>d.
     seqR (review N dir serviceAddr now shape items) (\<lambda>(bugs, cs).
     Inr (if d \<noteq> None then (bugs + 1, cs)
          else case dir_get dir (field (we_payload (wi_template item)) ''providerId'') of
                 None \<Rightarrow> (bugs, cs)
               | Some info \<Rightarrow> (bugs, (item, info) # cs))))"

definition probe :: "DevProviderInfo \<Rightarrow> rat \<Rightarrow> bool" where
  "probe info u = (di_behavior info = Steady \<or> di_behavior info = Flaky \<and> u < 1 / 2)"

text \<open>Offline providers met, probes refused, and the first that accepts; \<open>u n\<close> is the draw of the \<open>n\<close>-th candidate.\<close>

fun probes :: "(nat \<Rightarrow> rat) \<Rightarrow> candidate list \<Rightarrow> nat \<times> nat \<times> candidate option" where
  "probes u [] = (0, 0, None)"
| "probes u (c # cs) =
     (if di_behavior (snd c) \<noteq> Offline \<and> probe (snd c) (u 0) then (0, 0, Some c)
      else case probes (\<lambda>n. u (Suc n)) cs of
        (off, rej, h) \<Rightarrow> if di_behavior (snd c) = Offline then (off + 1, rej, h) else (off, rej + 1, h))"

subsection \<open>One round of a requestor\<close>

definition rand :: "rat \<Rightarrow> int \<Rightarrow> int \<Rightarrow> jsnum" where
  "rand u lo hi = num_add (Fin (of_int lo)) (num_mul (Fin u) (Fin (of_int (hi - lo))))"

definition randIn :: "rat \<Rightarrow> int \<times> int \<Rightarrow> jsnum" where
  "randIn u bounds = rand u (fst bounds) (snd bounds)"

text \<open>\<open>new Date(x)\<close> drops the fraction of a positive number.\<close>

definition date_of :: "jsnum \<Rightarrow> int" where
  "date_of x = int (num_trunc x)"

definition touch :: "sim_status \<Rightarrow> int \<Rightarrow> DevRequestorState \<Rightarrow> DevRequestorState" where
  "touch st t r = r\<lparr>rs_status := st, rs_updated := toIso t\<rparr>"

definition begin_round :: "int \<Rightarrow> DevRequestorState \<Rightarrow> DevRequestorState" where
  "begin_round t r = (touch Searching t r)\<lparr>rs_queries := rs_queries r + 1\<rparr>"

text \<open>
  What the round schedules: the next round after a delay, or the end of a job after its
  run time, with the key of the dummy that runs it.
\<close>

datatype followup = NextRound jsnum | JobEnds job bytes

definition end_round ::
    "noble \<Rightarrow> dummies \<Rightarrow> jstr \<Rightarrow> JobShape \<Rightarrow> (nat \<Rightarrow> rat) \<Rightarrow> rat \<Rightarrow> int \<Rightarrow> int \<Rightarrow> query_result
      \<Rightarrow> DevRequestorState \<Rightarrow> thrown + DevRequestorState \<times> followup" where
  "end_round N dir serviceAddr shape u v now t r st =
     (case r of
        RetryAfter ms \<Rightarrow> Inr (st, NextRound (num_add ms (rand v 500 2000)))
      | QueryError \<Rightarrow> Inr (st, NextRound (randIn v (sh_retry shape)))
      | Items items \<Rightarrow>
          seqR (review N dir serviceAddr now shape items) (\<lambda>(bugs, cs).
          case probes u (take 3 cs) of (off, rej, hired) \<Rightarrow>
          let st' = st\<lparr>rs_bugs := rs_bugs st + bugs + off, rs_probeRejected := rs_probeRejected st + rej\<rparr> in
          Inr (case hired of
            None \<Rightarrow> (touch Searching t (st'\<lparr>rs_noMatch := rs_noMatch st + 1, rs_match := None\<rparr>),
                      NextRound (randIn v (sh_retry shape)))
          | Some (item, info) \<Rightarrow>
              let runMs = randIn v (sh_run shape); providerId = item_provider item;
                  price = jstr_of (field (we_payload (the (wi_terms item))) ''minPricePerHour'');
                  job = \<lparr>jb_provider = providerId, jb_providerName = di_displayName info, jb_offer = wi_offerId item,
                         jb_price = price, jb_run = runMs, jb_started = toIso now\<rparr>;
                  m = \<lparr>ma_provider = providerId, ma_providerName = di_displayName info, ma_offer = wi_offerId item,
                       ma_price = price, ma_since = toIso now,
                       ma_until = toIso (date_of (num_add (Fin (of_int now)) runMs))\<rparr>
              in (touch Running t (st'\<lparr>rs_matches := rs_matches st + 1, rs_match := Some m\<rparr>),
                  JobEnds job (di_priv info)))))"

definition job_done :: "jstr \<Rightarrow> job \<Rightarrow> int \<Rightarrow> sim_state \<Rightarrow> sim_state" where
  "job_done i j t s = upd_state i (\<lambda>r. touch Idle t (r\<lparr>rs_match := None\<rparr>)) (settleJob i j t s)"

subsection \<open>The busy signal\<close>

definition num_max :: "jsnum \<Rightarrow> jsnum \<Rightarrow> jsnum" where
  "num_max a b = (if a = NaN \<or> b = NaN then NaN else if num_lt a b then b else a)"

definition num_min :: "jsnum \<Rightarrow> jsnum \<Rightarrow> jsnum" where
  "num_min a b = (if a = NaN \<or> b = NaN then NaN else if num_lt b a then b else a)"

definition busy_payload :: "config \<Rightarrow> jstr \<Rightarrow> jstr \<Rightarrow> bool \<Rightarrow> jsnum \<Rightarrow> int \<Rightarrow> jsval" where
  "busy_payload c providerId offerId free busyForMs now = obj
     [(''type'', JStr (js ''avail/v1'')), (''providerId'', JStr providerId), (''offerId'', JStr offerId),
      (''seq'', jint now), (''available'', JBool free), (''signedAt'', JStr (toIso now)),
      (''validUntil'', JStr (toIso (date_of (num_add (Fin (of_int now))
         (num_min (num_max busyForMs (Fin 1000)) (Fin (of_int (availMaxValidityMs c))))))))]"

text \<open>Posted and forgotten; \<open>None\<close> when the key is not one.\<close>

definition post_busy :: "noble \<Rightarrow> config \<Rightarrow> jstr \<Rightarrow> bytes \<Rightarrow> bool \<Rightarrow> jsnum \<Rightarrow> int \<Rightarrow> request option" where
  "post_busy N c offerId priv free busyForMs now =
     (case addressFromPrivateKey N priv of
        None \<Rightarrow> None
      | Some a \<Rightarrow> let p = busy_payload c a offerId free busyForMs now in
          map_option (\<lambda>sig. PostAvailability offerId (Some (envelope p sig))) (signPayload N p priv))"

definition hire_busy :: "job \<Rightarrow> jsnum" where
  "hire_busy j = num_add (jb_run j) (Fin 30000)"

subsection \<open>Whom a requestor hires\<close>

lemma signed_by_str: "signed_by N e (JStr a) = Inr True \<longleftrightarrow> recoverSigner N (we_payload e) (we_signature e) = Inr (Some a)"
  by (auto simp: signed_by_def seqR_Inr_iff split: option.splits)

lemma seqR_flag: "seqR x (\<lambda>ok. if \<not> ok then Inr (Some d) else f) = Inr None \<longleftrightarrow> x = Inr True \<and> f = Inr None"
  by (auto simp: seqR_Inr_iff split: if_splits)

text \<open>An item without defect, of a provider known by name.\<close>

lemma verified_item:
  assumes "verifyOfferItem N item service now = Inr None" and "field (we_payload (wi_template item)) ''providerId'' = JStr pid"
  obtains tm where "recoverSigner N (we_payload (wi_template item)) (we_signature (wi_template item)) = Inr (Some pid)"
    "recoverSigner N (we_payload (wi_attestation item)) (we_signature (wi_attestation item)) = Inr (Some service)"
    "field (we_payload (wi_attestation item)) ''providerId'' = JStr pid"
    "wi_terms item = Some tm" "recoverSigner N (we_payload tm) (we_signature tm) = Inr (Some pid)"
    "field (we_payload tm) ''offerId'' = JStr (wi_offerId item)"
    "\<And>d. date_parse (jstr_of (field (we_payload tm) ''validUntil'')) = Some d \<Longrightarrow> now < d"
proof (cases "wi_terms item")
  case None
  then show thesis using assms(1) by (auto simp: verifyOfferItem_def Let_def seqR_flag split: if_splits)
next
  case (Some tm)
  then show thesis using assms that [of tm]
    by (auto simp: verifyOfferItem_def Let_def seqR_flag signed_by_str split: if_splits option.splits)
qed

lemma examine_None: "examine N service now shape item = Inr None \<longleftrightarrow>
    verifyOfferItem N item service now = Inr None \<and> checkRegistryFilters item shape = None"
  by (auto simp: examine_def seqR_Inr_iff split: option.splits)

lemma review_sound:
  assumes "review N dir service now shape items = Inr (bugs, cs)" and "(item, info) \<in> set cs"
  shows "item \<in> set items \<and> examine N service now shape item = Inr None
    \<and> (\<exists>pid. field (we_payload (wi_template item)) ''providerId'' = JStr pid \<and> dir pid = Some info)"
  using assms
proof (induction items arbitrary: bugs cs)
  case (Cons x xs)
  obtain d b ds where r: "examine N service now shape x = Inr d" "review N dir service now shape xs = Inr (b, ds)"
    using Cons.prems(1) by (auto simp: seqR_Inr_iff)
  have "(item, info) \<in> set ds \<or> d = None \<and> item = x \<and> dir_get dir (field (we_payload (wi_template x)) ''providerId'') = Some info"
    using Cons.prems by (auto simp: r split: if_splits option.splits)
  then show ?case
  proof
    assume "(item, info) \<in> set ds"
    from Cons.IH [OF r(2) this] show ?thesis by auto
  qed (auto simp: r dir_get_def split: jsval.splits)
qed simp

lemma probes_hired: "probes u cs = (off, rej, Some c) \<Longrightarrow> c \<in> set cs \<and> di_behavior (snd c) \<noteq> Offline"
  by (induction u cs arbitrary: off rej rule: probes.induct) (auto split: if_splits prod.splits)

lemma within_filters:
  assumes "checkRegistryFilters item shape = None" and "wi_terms item = Some tm"
  shows "\<not> below (field (we_payload (wi_attestation item)) ''coreCount'') (sh_cores shape)"
    "\<not> below (field (we_payload (wi_attestation item)) ''ramGib'') (sh_ram shape)"
    "\<not> below (field (field (we_payload (wi_attestation item)) ''scores'') ''full'') (sh_full shape)"
    "field (we_payload tm) ''minPricePerHour'' = JStr price \<Longrightarrow> \<not> num_lt (js_number (js (sh_maxPrice shape))) (js_number price)"
  using assms by (auto simp: checkRegistryFilters_def Let_def split: if_splits)

definition busy_match :: "job \<Rightarrow> jstr \<Rightarrow> sim_match" where
  "busy_match j until = \<lparr>ma_provider = jb_provider j, ma_providerName = jb_providerName j, ma_offer = jb_offer j,
     ma_price = jb_price j, ma_since = jb_started j, ma_until = until\<rparr>"

text \<open>What a round does: at most three probes, then a hire or none.\<close>

lemma end_round_cases:
  assumes "end_round N dir service shape u v now t r st = Inr (st', f)"
  obtains (wait) ms where "st' = st" "f = NextRound ms"
  | (none) items bugs cs off rej ms where "r = Items items" "review N dir service now shape items = Inr (bugs, cs)"
      "probes u (take 3 cs) = (off, rej, None)" "f = NextRound ms"
      "st' = touch Searching t (st\<lparr>rs_bugs := rs_bugs st + bugs + off, rs_probeRejected := rs_probeRejected st + rej,
         rs_noMatch := rs_noMatch st + 1, rs_match := None\<rparr>)"
  | (hire) items bugs cs off rej item info j until where "r = Items items"
      "review N dir service now shape items = Inr (bugs, cs)"
      "probes u (take 3 cs) = (off, rej, Some (item, info))" "f = JobEnds j (di_priv info)"
      "st' = touch Running t (st\<lparr>rs_bugs := rs_bugs st + bugs + off, rs_probeRejected := rs_probeRejected st + rej,
         rs_matches := rs_matches st + 1, rs_match := Some (busy_match j until)\<rparr>)"
      "j = \<lparr>jb_provider = item_provider item, jb_providerName = di_displayName info, jb_offer = wi_offerId item,
         jb_price = jstr_of (field (we_payload (the (wi_terms item))) ''minPricePerHour''),
         jb_run = randIn v (sh_run shape), jb_started = toIso now\<rparr>"
proof (cases r)
  case (Items items)
  obtain bugs cs where v: "review N dir service now shape items = Inr (bugs, cs)"
    using assms by (auto simp: Items end_round_def seqR_Inr_iff)
  obtain off rej h where p: "probes u (take 3 cs) = (off, rej, h)" by (metis prod_cases3)
  show thesis
  proof (cases h)
    case None
    have "touch Searching t (st\<lparr>rs_bugs := rs_bugs st + bugs + off, rs_probeRejected := rs_probeRejected st + rej,
         rs_noMatch := rs_noMatch st + 1, rs_match := None\<rparr>) = st' \<and> NextRound (randIn v (sh_retry shape)) = f"
      using assms p None by (simp add: Items end_round_def v Let_def)
    then show thesis by (intro none [OF Items v p [unfolded None]]) auto
  next
    case (Some c)
    obtain item info where c: "c = (item, info)" by (cases c)
    let ?j = "\<lparr>jb_provider = item_provider item, jb_providerName = di_displayName info, jb_offer = wi_offerId item,
         jb_price = jstr_of (field (we_payload (the (wi_terms item))) ''minPricePerHour''),
         jb_run = randIn v (sh_run shape), jb_started = toIso now\<rparr>"
    have "touch Running t (st\<lparr>rs_bugs := rs_bugs st + bugs + off, rs_probeRejected := rs_probeRejected st + rej,
         rs_matches := rs_matches st + 1, rs_match := Some (busy_match ?j
           (toIso (date_of (num_add (Fin (of_int now)) (randIn v (sh_run shape))))))\<rparr>) = st'
        \<and> JobEnds ?j (di_priv info) = f"
      using assms p by (simp add: Items end_round_def v Let_def Some c busy_match_def)
    then show thesis by (intro hire [OF Items v p [unfolded Some c]]) auto
  qed
qed (use assms wait in \<open>auto simp: end_round_def\<close>)

text \<open>
  C32: a hire obeys the rules of the simulator.  The provider is a dummy of the directory that
  is not an offline one, and it is hired under its own key; the three signatures of the item
  verify and agree on it, its terms are for this offer and have not ended; and the machine and
  the price are within what the shape asked for.
\<close>

theorem hires_obey_rules:
  assumes "end_round N dir service shape u v now t (Items items) st = Inr (st', JobEnds j k)"
  shows "\<exists>item \<in> set items. \<exists>info tm.
      dir (jb_provider j) = Some info \<and> k = di_priv info \<and> di_behavior info \<noteq> Offline
    \<and> jb_offer j = wi_offerId item
    \<and> recoverSigner N (we_payload (wi_template item)) (we_signature (wi_template item)) = Inr (Some (jb_provider j))
    \<and> recoverSigner N (we_payload (wi_attestation item)) (we_signature (wi_attestation item)) = Inr (Some service)
    \<and> field (we_payload (wi_attestation item)) ''providerId'' = JStr (jb_provider j)
    \<and> wi_terms item = Some tm \<and> recoverSigner N (we_payload tm) (we_signature tm) = Inr (Some (jb_provider j))
    \<and> field (we_payload tm) ''offerId'' = JStr (jb_offer j)
    \<and> (\<forall>d. date_parse (jstr_of (field (we_payload tm) ''validUntil'')) = Some d \<longrightarrow> now < d)
    \<and> \<not> below (field (we_payload (wi_attestation item)) ''coreCount'') (sh_cores shape)
    \<and> \<not> below (field (we_payload (wi_attestation item)) ''ramGib'') (sh_ram shape)
    \<and> \<not> below (field (field (we_payload (wi_attestation item)) ''scores'') ''full'') (sh_full shape)
    \<and> (\<forall>p. field (we_payload tm) ''minPricePerHour'' = JStr p \<longrightarrow>
          jb_price j = p \<and> \<not> num_lt (js_number (js (sh_maxPrice shape))) (js_number p))"
proof -
  obtain bugs cs off rej item info where r: "review N dir service now shape items = Inr (bugs, cs)"
      "probes u (take 3 cs) = (off, rej, Some (item, info))"
      "jb_provider j = item_provider item" "jb_offer j = wi_offerId item" "k = di_priv info"
      "jb_price j = jstr_of (field (we_payload (the (wi_terms item))) ''minPricePerHour'')"
    using assms by (cases rule: end_round_cases) auto
  from probes_hired [OF r(2)] have c: "(item, info) \<in> set cs" "di_behavior info \<noteq> Offline"
    by (auto dest: in_set_takeD)
  from review_sound [OF r(1) c(1)] obtain pid where i: "item \<in> set items" "examine N service now shape item = Inr None"
      "field (we_payload (wi_template item)) ''providerId'' = JStr pid" "dir pid = Some info" by blast
  then have e: "verifyOfferItem N item service now = Inr None" "checkRegistryFilters item shape = None"
    by (simp_all add: examine_None)
  have p: "jb_provider j = pid" by (simp add: r(3) item_provider_def i(3) jstr_of_def)
  show ?thesis
  proof (rule verified_item [OF e(1) i(3)], rule bexI [OF _ i(1)], intro exI conjI allI impI)
    fix tm pr assume "wi_terms item = Some tm" "field (we_payload tm) ''minPricePerHour'' = JStr pr"
    then show "jb_price j = pr" by (simp add: r(6) jstr_of_def)
  qed (use c(2) i(4) within_filters [OF e(2)] in \<open>simp_all add: p r(4,5)\<close>)
qed

subsection \<open>The cycle of a requestor\<close>

text \<open>
  What a requestor is doing between its timers: waiting for the next round, for the search
  response, or for a job to end.  The turns of all requestors interleave.
\<close>

datatype phase = Waiting | Asking | Working job

fun phase_of :: "followup \<Rightarrow> phase" where
  "phase_of (NextRound _) = Waiting"
| "phase_of (JobEnds j _) = Working j"

inductive turn :: "noble \<Rightarrow> dummies \<Rightarrow> jstr \<Rightarrow> (jstr \<Rightarrow> JobShape)
    \<Rightarrow> (jstr \<Rightarrow> phase) \<times> sim_state \<Rightarrow> (jstr \<Rightarrow> phase) \<times> sim_state \<Rightarrow> bool" for N dir service shapes where
  ask: "ph i = Waiting \<Longrightarrow> turn N dir service shapes (ph, s) (ph(i := Asking), upd_state i (begin_round t) s)"
| answer: "ph i = Asking \<Longrightarrow> st \<in> set (ss_states s) \<Longrightarrow> rs_id st = i
    \<Longrightarrow> end_round N dir service (shapes i) u v now t r st = Inr (st', f)
    \<Longrightarrow> turn N dir service shapes (ph, s) (ph(i := phase_of f), upd_state i (\<lambda>_. st') s)"
| finish: "ph i = Working j \<Longrightarrow> turn N dir service shapes (ph, s) (ph(i := Waiting), job_done i j t s)"

inductive_cases turnE: "turn N dir service shapes x y"

text \<open>The books of one requestor: what its counters say about its phase.\<close>

definition round_ok :: "phase \<Rightarrow> nat \<Rightarrow> DevRequestorState \<Rightarrow> bool" where
  "round_ok ph loaded r =
     (rs_jobs r + (case ph of Working _ \<Rightarrow> 1 | _ \<Rightarrow> 0) = loaded + rs_matches r
      \<and> rs_matches r + rs_noMatch r + (if ph = Asking then 1 else 0) \<le> rs_queries r
      \<and> rs_probeRejected r + (if ph = Asking then 3 else 0) \<le> 3 * rs_queries r
      \<and> (case ph of
           Working j \<Rightarrow> rs_status r = Running \<and> (\<exists>m. rs_match r = Some m \<and> ma_provider m = jb_provider j
              \<and> ma_offer m = jb_offer j \<and> ma_price m = jb_price j)
         | Asking \<Rightarrow> rs_status r = Searching \<and> rs_match r = None
         | Waiting \<Rightarrow> rs_status r \<in> {Searching, Idle} \<and> rs_match r = None))"


lemma probes_count: "probes u cs = (off, rej, h) \<Longrightarrow> off + rej \<le> length cs"
  by (induction u cs arbitrary: off rej h rule: probes.induct) (fastforce split: if_splits prod.splits)+

lemma round_asked: "round_ok Waiting b r \<Longrightarrow> round_ok Asking b (begin_round t r)"
  by (auto simp: round_ok_def begin_round_def touch_def)

lemma round_answered:
  assumes "round_ok Asking b st" and "end_round N dir service shape u v now t r st = Inr (st', f)"
  shows "round_ok (phase_of f) b st' \<and> rs_id st' = rs_id st"
  using assms(2)
proof (cases rule: end_round_cases)
  case (none items bugs cs off rej ms)
  have "rej \<le> 3" using probes_count [OF none(3)] by simp
  then show ?thesis using assms(1) by (simp add: none round_ok_def touch_def)
next
  case (hire items bugs cs off rej item info j until)
  have "rej \<le> 3" using probes_count [OF hire(3)] by simp
  then show ?thesis using assms(1) by (simp add: hire(4,5) round_ok_def touch_def busy_match_def)
qed (use assms(1) in \<open>auto simp: round_ok_def\<close>)

lemma round_finished: "round_ok (Working j) b r \<Longrightarrow>
    round_ok Waiting b (touch Idle t (r\<lparr>rs_spent := x, rs_jobs := rs_jobs r + 1, rs_match := None\<rparr>))"
  by (auto simp: round_ok_def touch_def)

definition cycle_ok :: "jstr list \<Rightarrow> (jstr \<Rightarrow> nat) \<Rightarrow> (jstr \<Rightarrow> phase) \<times> sim_state \<Rightarrow> bool" where
  "cycle_ok ids loaded x =
     (map rs_id (ss_states (snd x)) = ids \<and> distinct ids
      \<and> (\<forall>r \<in> set (ss_states (snd x)). round_ok (fst x (rs_id r)) (loaded (rs_id r)) r))"

lemma cycle_upd:
  assumes "cycle_ok ids b (ph, s)" and "\<And>r. r \<in> set (ss_states s) \<Longrightarrow> rs_id r = i \<Longrightarrow> rs_id (f r) = i \<and> round_ok p (b i) (f r)"
  shows "cycle_ok ids b (ph(i := p), upd_state i f s)"
proof -
  have "map rs_id (ss_states (upd_state i f s)) = map rs_id (ss_states s)"
    using assms(2) by (auto simp: upd_state_def)
  then have "map rs_id (ss_states (upd_state i f s)) = ids \<and> distinct ids" using assms(1) by (simp add: cycle_ok_def)
  moreover have "\<forall>r \<in> set (ss_states (upd_state i f s)). round_ok ((ph(i := p)) (rs_id r)) (b (rs_id r)) r"
    using assms by (auto simp: cycle_ok_def upd_state_def)
  ultimately show ?thesis by (simp add: cycle_ok_def)
qed

lemma job_done_upd: "ss_states (job_done i j t s) = ss_states (upd_state i (\<lambda>r. touch Idle t
    (r\<lparr>rs_spent := num_add (rs_spent r) (job_cost j), rs_jobs := rs_jobs r + 1, rs_match := None\<rparr>)) s)"
  by (simp add: job_done_def settleJob_def upd_state_def Let_def touch_def)

lemma turn_keeps:
  assumes "turn N dir service shapes x y" and "cycle_ok ids b x"
  shows "cycle_ok ids b y"
  using assms
proof (induction rule: turn.induct)
  case (ask ph i s t)
  show ?case using ask.prems
    by (rule cycle_upd) (use ask.prems round_asked ask.hyps in \<open>auto simp: cycle_ok_def begin_round_def touch_def\<close>)
next
  case (answer ph i st s u v now t r st' f)
  have "round_ok Asking (b i) st" using answer by (auto simp: cycle_ok_def)
  from round_answered [OF this answer.hyps(4)] have "rs_id st' = i \<and> round_ok (phase_of f) (b i) st'"
    using answer.hyps(3) by simp
  then show ?case by (intro cycle_upd [OF answer.prems])
next
  case (finish ph i j s t)
  have "cycle_ok ids b (ph(i := Waiting), upd_state i (\<lambda>r. touch Idle t
      (r\<lparr>rs_spent := num_add (rs_spent r) (job_cost j), rs_jobs := rs_jobs r + 1, rs_match := None\<rparr>)) s)"
    using finish.prems
  proof (rule cycle_upd)
    fix r assume "r \<in> set (ss_states s)" "rs_id r = i"
    then have "round_ok (Working j) (b i) r" using finish by (auto simp: cycle_ok_def)
    then show "rs_id (touch Idle t (r\<lparr>rs_spent := num_add (rs_spent r) (job_cost j), rs_jobs := rs_jobs r + 1, rs_match := None\<rparr>)) = i
        \<and> round_ok Waiting (b i) (touch Idle t (r\<lparr>rs_spent := num_add (rs_spent r) (job_cost j), rs_jobs := rs_jobs r + 1, rs_match := None\<rparr>))"
      using round_finished \<open>rs_id r = i\<close> by (simp add: touch_def)
  qed
  then show ?case by (simp add: cycle_ok_def job_done_upd)
qed

lemma turns_keep: "(turn N dir service shapes)\<^sup>*\<^sup>* x y \<Longrightarrow> cycle_ok ids b x \<Longrightarrow> cycle_ok ids b y"
  by (induction rule: rtranclp_induct) (blast intro: turn_keeps)+

text \<open>The start: personas as declared, their job counts as the ledger has them.\<close>

definition idle_start :: "DevRequestorState \<Rightarrow> bool" where
  "idle_start r = (rs_queries r = 0 \<and> rs_matches r = 0 \<and> rs_noMatch r = 0 \<and> rs_probeRejected r = 0
     \<and> rs_status r = Idle \<and> rs_match r = None)"

lemma idle_round: "idle_start r \<Longrightarrow> round_ok Waiting (rs_jobs r) r"
  by (simp add: idle_start_def round_ok_def)

definition at_rest :: "sim_state \<Rightarrow> bool" where
  "at_rest s = (distinct (map rs_id (ss_states s)) \<and> (\<forall>r \<in> set (ss_states s). idle_start r))"

lemma loads_at_rest:
  assumes "at_rest s"
  shows "at_rest (load_totals d s)" "at_rest (load_earnings d s)" "at_rest (load_requestors d s)"
proof -
  show "at_rest (load_requestors d s)"
    unfolding at_rest_def load_requestors_def Let_def load_requestors_jobs
    using assms by (auto simp: at_rest_def idle_start_def comp_def if_distrib cong: if_cong)
qed (use assms in \<open>simp_all add: at_rest_def load_totals_def load_earnings_def\<close>)

lemma start_at_rest:
  assumes "start_requestors E n now fresh_sim w = Some (s, w1)"
  shows "at_rest s"
proof -
  obtain ps where s: "loadFromLedger E
      (fresh_sim\<lparr>ss_states := fold (\<lambda>p. map_set rs_id (initial_requestor p now)) ps []\<rparr>) w = (s, w1)"
    using assms by (auto simp: start_requestors_def fresh_sim_def)
  have m: "set (map_set rs_id x ys) \<subseteq> insert x (set ys)" for x ys by (induction ys) auto
  have i: "idle_start (initial_requestor p now)" for p by (simp add: idle_start_def initial_requestor_def Let_def)
  have f: "distinct (map rs_id rs) \<Longrightarrow> (\<forall>r \<in> set rs. idle_start r) \<Longrightarrow>
      distinct (map rs_id (fold (\<lambda>p. map_set rs_id (initial_requestor p now)) ps rs))
      \<and> (\<forall>r \<in> set (fold (\<lambda>p. map_set rs_id (initial_requestor p now)) ps rs). idle_start r)" for rs
  proof (induction ps arbitrary: rs)
    case (Cons p ps)
    have "\<forall>r \<in> set (map_set rs_id (initial_requestor p now) rs). idle_start r"
      using m [of "initial_requestor p now" rs] Cons.prems(2) i by blast
    from Cons.IH [OF distinct_map_set [OF Cons.prems(1)] this] show ?case by simp
  qed simp
  let ?s = "fresh_sim\<lparr>ss_states := fold (\<lambda>p. map_set rs_id (initial_requestor p now)) ps []\<rparr>"
  have a: "at_rest ?s" using f [of "[]"] by (simp add: at_rest_def)
  have g: "pg_read E (\<lambda>_. h) v = (Inr f, v') \<Longrightarrow> f = h (tables v)" for h :: "db \<Rightarrow> sim_state \<Rightarrow> sim_state" and f v v'
    by (auto simp: pg_read_def pg_def Let_def split: fate.splits option.splits)
  from s a show ?thesis
    unfolding loadFromLedger_def by (auto split: prod.splits sum.splits dest!: g simp: loads_at_rest)
qed


text \<open>
  C33: the cycle of a requestor keeps its books, however the rounds of all requestors
  interleave and whatever the answers are.  Every match of this run is a finished job or the one
  running, on top of the jobs the ledger had; rounds counted as matched or unmatched are
  rounds asked, with at most three refusals each; a requestor shows a match exactly while it
  works on that job, and is shown running exactly then.
\<close>

theorem requestor_cycle:
  assumes "start_requestors E n now fresh_sim w = Some (si, w1)"
    and "(turn N dir service shapes)\<^sup>*\<^sup>* (\<lambda>_. Waiting, si) (ph, s)" and "r \<in> set (ss_states s)"
  shows "(\<exists>r0 \<in> set (ss_states si). rs_id r0 = rs_id r \<and>
         rs_jobs r + (if rs_status r = Running then 1 else 0) = rs_jobs r0 + rs_matches r)
    \<and> rs_matches r + rs_noMatch r \<le> rs_queries r \<and> rs_probeRejected r \<le> 3 * rs_queries r
    \<and> (\<forall>j. ph (rs_id r) = Working j \<longrightarrow> rs_status r = Running \<and> (\<exists>m. rs_match r = Some m \<and> ma_provider m = jb_provider j
          \<and> ma_offer m = jb_offer j \<and> ma_price m = jb_price j))
    \<and> ((\<nexists>j. ph (rs_id r) = Working j) \<longrightarrow> rs_status r \<in> {Searching, Idle} \<and> rs_match r = None)"
proof -
  define b where "b i = rs_jobs (the (map_get rs_id i (ss_states si)))" for i
  have a: "at_rest si" by (rule start_at_rest [OF assms(1)])
  have m: "map_get rs_id (rs_id r0) (ss_states si) = Some r0" if "r0 \<in> set (ss_states si)" for r0
    using map_get_mem a that by (auto simp: at_rest_def)
  have "cycle_ok (map rs_id (ss_states si)) b (\<lambda>_. Waiting, si)"
    using a m idle_round by (simp add: cycle_ok_def at_rest_def b_def)
  from turns_keep [OF assms(2) this] have c: "map rs_id (ss_states s) = map rs_id (ss_states si)"
      "round_ok (ph (rs_id r)) (b (rs_id r)) r"
    using assms(3) by (simp_all add: cycle_ok_def)
  obtain r0 where r0: "r0 \<in> set (ss_states si)" "rs_id r0 = rs_id r"
    using c(1) assms(3) by (metis (no_types, lifting) imageE list.set_map image_eqI)
  then have "b (rs_id r) = rs_jobs r0" using m [OF r0(1)] by (simp add: b_def r0(2) [symmetric])
  with c(2) r0 show ?thesis
    by (cases "ph (rs_id r)") (auto simp: round_ok_def)
qed

theorem requestor_cycle_witness:
  "\<exists>si w1 r. start_requestors demo_env 1 0 fresh_sim demo_world = Some (si, w1)
     \<and> (turn toy (\<lambda>_. None) demo_address (\<lambda>_. hd SHAPES))\<^sup>*\<^sup>* (\<lambda>_. Waiting, si)
          ((\<lambda>_. Waiting)(demo_address := Asking), upd_state demo_address (begin_round 5) si)
     \<and> r \<in> set (ss_states (upd_state demo_address (begin_round 5) si)) \<and> rs_match r = None \<and> rs_matches r \<le> rs_queries r"
proof -
  obtain s w1 r where s: "start_requestors demo_env 1 0 fresh_sim demo_world = Some (s, w1)" "reads_work demo_env demo_world"
    "map_get rs_id demo_address (ss_states s) = Some r" using start_demo by blast
  have t: "(turn toy (\<lambda>_. None) demo_address (\<lambda>_. hd SHAPES))\<^sup>*\<^sup>* (\<lambda>_. Waiting, s)
      ((\<lambda>_. Waiting)(demo_address := Asking), upd_state demo_address (begin_round 5) s)"
    by (intro r_into_rtranclp turn.ask) simp
  have "r \<in> set (ss_states s)" "rs_id r = demo_address" using map_get_key [OF s(3)] by auto
  then have m: "begin_round 5 r \<in> set (ss_states (upd_state demo_address (begin_round 5) s))"
    by (auto simp: upd_state_def image_iff intro!: bexI [of _ r])
  have "\<nexists>j. ((\<lambda>_. Waiting)(demo_address := Asking)) x = Working j" for x by simp
  then show ?thesis using requestor_cycle [OF s(1) t m] s(1) t m by (intro exI conjI) auto
qed

subsection \<open>A requestor always goes on\<close>

lemma recoverSigner_total:
  assumes N: "noble_ok N" and p: "is_ok (jcs p)"
  shows "\<exists>s. recoverSigner N p sig = Inr s"
proof -
  obtain s where "serialize p = Inr s" using p by (auto simp: jcs_def is_ok_iff)
  then obtain d where d: "payloadDigest N p = Inr d" by (simp add: payloadDigest_def jcsBytes_def)
  have "\<exists>b. unhex (slice_from 2 sig) = Some b" if "SIG_RE sig"
    using that by (intro unhex_total) (auto simp: SIG_RE_def slice_from_def)
  then show ?thesis
    by (auto simp: recoverSigner_def d recoverSignerOfDigest_def noble_okD [OF N] Let_def split: option.splits)
qed

definition canonical_item :: "WireOfferItem \<Rightarrow> bool" where
  "canonical_item item =
     (is_ok (jcs (we_payload (wi_template item))) \<and> is_ok (jcs (we_payload (wi_attestation item)))
      \<and> (\<forall>t. wi_terms item = Some t \<longrightarrow> is_ok (jcs (we_payload t))))"

lemma signed_by_total: "noble_ok N \<Longrightarrow> is_ok (jcs (we_payload e)) \<Longrightarrow> \<exists>b. signed_by N e x = Inr b"
  using recoverSigner_total [of N "we_payload e" "we_signature e"] by (auto simp: signed_by_def)

lemma verify_total:
  assumes N: "noble_ok N" and c: "canonical_item item"
  shows "\<exists>d. verifyOfferItem N item service now = Inr d"
proof -
  let ?p = "field (we_payload (wi_template item)) ''providerId''"
  obtain a b where "signed_by N (wi_template item) ?p = Inr a" "signed_by N (wi_attestation item) (JStr service) = Inr b"
    using signed_by_total [OF N] c unfolding canonical_item_def by blast
  moreover have "\<exists>e. signed_by N t ?p = Inr e" if "wi_terms item = Some t" for t
    using signed_by_total [OF N] c that unfolding canonical_item_def by blast
  ultimately show ?thesis by (auto simp: verifyOfferItem_def Let_def split: option.split)
qed

lemma review_total:
  "noble_ok N \<Longrightarrow> \<forall>item \<in> set items. canonical_item item \<Longrightarrow> \<exists>x. review N dir service now shape items = Inr x"
proof (induction items)
  case (Cons x xs)
  obtain d where "verifyOfferItem N x service now = Inr d" using verify_total Cons.prems by (metis list.set_intros(1))
  moreover obtain b cs where "review N dir service now shape xs = Inr (b, cs)" using Cons by (metis list.set_intros(2) surj_pair)
  ultimately show ?case by (simp add: examine_def)
qed simp

definition num_in :: "int \<Rightarrow> int \<Rightarrow> jsnum \<Rightarrow> bool" where
  "num_in lo hi x = (\<exists>r. x = Fin r \<and> of_int lo \<le> r \<and> r \<le> of_int hi)"

lemma rand_within:
  assumes v: "0 \<le> v" "v < 1" and b: "0 \<le> lo" "lo \<le> hi" "hi \<le> 2 ^ 53"
  shows "num_in lo hi (rand v lo hi)"
proof -
  have h: "(0 :: rat) \<le> of_int (hi - lo)" using b by (simp only: of_int_0_le_iff)
  have "v * of_int (hi - lo) \<le> 1 * of_int (hi - lo)" by (rule mult_right_mono) (use v h in simp_all)
  then obtain x where x: "fl (v * of_int (hi - lo)) = Fin x" "0 \<le> x" "x \<le> of_int (hi - lo)"
    using fl_between_ints [of 0 "v * of_int (hi - lo)" "hi - lo"] v h b by (auto simp del: of_int_diff)
  then show ?thesis
    using fl_between_ints [of lo "of_int lo + x" hi] b by (auto simp: rand_def num_in_def simp del: of_int_diff)
qed

lemma SHAPES_bounds:
  assumes "shape \<in> set SHAPES"
  shows "10000 \<le> fst (sh_retry shape)" "fst (sh_retry shape) \<le> snd (sh_retry shape)" "snd (sh_retry shape) \<le> 60000"
    "10000 \<le> fst (sh_run shape)" "fst (sh_run shape) \<le> snd (sh_run shape)" "snd (sh_run shape) \<le> 300000"
  using assms by (auto simp: SHAPES_def)





subsection \<open>A hire\<close>

definition demo_item_payloads :: "jsval \<times> jsval \<times> jsval" where
  "demo_item_payloads =
     (obj [(''providerId'', JStr demo_address)],
      obj [(''providerId'', JStr demo_address), (''coreCount'', JNum (Fin 16)), (''ramGib'', JNum (Fin 128)),
           (''scores'', obj [(''full'', JNum (Fin 9000))])],
      obj [(''offerId'', JStr (bufToHex demo_oid)), (''minPricePerHour'', JStr (js ''0.25'')),
           (''validUntil'', JStr (toIso 1800000000000))])"

lemma demo_recover: "wf_js p \<Longrightarrow> plain_json p \<Longrightarrow> \<exists>sig. recoverSigner toy p sig = Inr (Some demo_address)"
proof -
  assume p: "wf_js p" "plain_json p"
  then have "is_ok (jcs p)" using serialize_ok_iff [OF p(1)] by (simp add: jcs_def)
  from recover_sign [OF toy_ok toy_key this, of "[]"] show ?thesis by (auto simp: demo_address_def)
qed

lemma demo_hire:
  "\<exists>items st' j. end_round toy [demo_address \<mapsto> \<lparr>di_displayName = js ''d'', di_behavior = Steady, di_priv = [7]\<rparr>]
      demo_address (hd SHAPES) (\<lambda>_. 0) (1 / 2) 5 6 (Items items) st = Inr (st', JobEnds j [7])"
proof -
  obtain p a t where pt: "demo_item_payloads = (p, a, t)" by (metis prod_cases3)
  then have "wf_js p \<and> plain_json p" "wf_js a \<and> plain_json a" "wf_js t \<and> plain_json t"
    by (auto simp: demo_item_payloads_def obj_def is_finite_num_def)
  then obtain u v w where s: "recoverSigner toy p u = Inr (Some demo_address)"
      "recoverSigner toy a v = Inr (Some demo_address)" "recoverSigner toy t w = Inr (Some demo_address)"
    using demo_recover by blast
  have d: "date_parse (toIso 1800000000000) = Some 1800000000000"
    using parseIso_toIso [of 1800000000000] by (simp add: parseIso_def split: if_splits option.splits)
  let ?item = "\<lparr>wi_offerId = bufToHex demo_oid, wi_template = \<lparr>we_payload = p, we_signature = u\<rparr>,
      wi_attestation = \<lparr>we_payload = a, we_signature = v\<rparr>, wi_terms = Some \<lparr>we_payload = t, we_signature = w\<rparr>,
      wi_status = js ''active''\<rparr>"
  have f: "field p ''providerId'' = JStr demo_address" "field a ''providerId'' = JStr demo_address"
      "field a ''coreCount'' = JNum (Fin 16)" "field a ''ramGib'' = JNum (Fin 128)" "field (field a ''scores'') ''full'' = JNum (Fin 9000)"
      "field t ''offerId'' = JStr (bufToHex demo_oid)" "field t ''minPricePerHour'' = JStr (js ''0.25'')"
      "field t ''validUntil'' = JStr (toIso 1800000000000)"
    using pt by (auto simp: demo_item_payloads_def obj_def)
  have "examine toy demo_address 5 (hd SHAPES) ?item = Inr None"
    by (simp add: examine_def verifyOfferItem_def signed_by_def s f d jstr_of_def checkRegistryFilters_def below_def
      as_number_def SHAPES_def num_lt_def)
  then show ?thesis
    by (intro exI [of _ "[?item]"]) (simp add: end_round_def f dir_get_def probe_def Let_def)
qed

theorem hires_obey_rules_witness:
  "\<exists>st items st' j. end_round toy [demo_address \<mapsto> \<lparr>di_displayName = js ''d'', di_behavior = Steady, di_priv = [7]\<rparr>]
      demo_address (hd SHAPES) (\<lambda>_. 0) (1 / 2) 5 6 (Items items) st = Inr (st', JobEnds j [7])
    \<and> jb_provider j = demo_address"
proof -
  obtain items st' j where e: "end_round toy [demo_address \<mapsto> \<lparr>di_displayName = js ''d'', di_behavior = Steady, di_priv = [7]\<rparr>]
      demo_address (hd SHAPES) (\<lambda>_. 0) (1 / 2) 5 6 (Items items) st = Inr (st', JobEnds j [7])" using demo_hire by blast
  from hires_obey_rules [OF e] have "jb_provider j = demo_address" by (auto split: if_splits)
  with e show ?thesis by blast
qed


subsection \<open>The busy signal and the service\<close>

lemma busy_fields [simp]:
  "field (busy_payload c a i free b t) ''type'' = JStr (js ''avail/v1'')"
  "field (busy_payload c a i free b t) ''providerId'' = JStr a" "field (busy_payload c a i free b t) ''offerId'' = JStr i"
  "field (busy_payload c a i free b t) ''seq'' = jint t" "field (busy_payload c a i free b t) ''available'' = JBool free"
  "field (busy_payload c a i free b t) ''signedAt'' = JStr (toIso t)"
  "field (busy_payload c a i free b t) ''validUntil'' = JStr (toIso (date_of (num_add (Fin (of_int t))
     (num_min (num_max b (Fin 1000)) (Fin (of_int (availMaxValidityMs c)))))))"
  by (simp_all add: busy_payload_def obj_def)

text \<open>How long the signal lasts: between a second and the configured bound.\<close>

lemma busy_end:
  assumes b: "num_in 0 (2 ^ 52) b" and t: "0 \<le> t" "t \<le> 2 ^ 52" and m: "1000 \<le> m" "m \<le> 2 ^ 52"
  shows "\<exists>e. date_of (num_add (Fin (of_int t)) (num_min (num_max b (Fin 1000)) (Fin (of_int m)))) = e
    \<and> t + 1000 \<le> e \<and> e \<le> t + m"
proof -
  obtain x where x: "b = Fin x" using b by (auto simp: num_in_def)
  have o: "(1000 :: rat) \<le> of_int m" using m(1) by (metis of_int_le_iff of_int_numeral)
  obtain y where y: "num_min (num_max b (Fin 1000)) (Fin (of_int m)) = Fin y" "1000 \<le> y" "y \<le> of_int m"
    using o by (cases "x < 1000"; cases "(if x < 1000 then 1000 else x) > of_int m")
      (auto simp: x num_min_def num_max_def num_lt_def)
  have "\<exists>z. fl (of_int t + y) = Fin z \<and> of_int (t + 1000) \<le> z \<and> z \<le> of_int (t + m)"
    using y t m by (intro fl_between_ints) auto
  then obtain z where z: "fl (of_int t + y) = Fin z" "of_int (t + 1000) \<le> z" "z \<le> of_int (t + m)" by blast
  have f: "t + 1000 \<le> \<lfloor>z\<rfloor>" "\<lfloor>z\<rfloor> \<le> t + m"
    using z(2,3) by (simp_all only: le_floor_iff floor_le_iff)
  then have "0 \<le> \<lfloor>z\<rfloor>" using t(1) by linarith
  then have "date_of (Fin z) = \<lfloor>z\<rfloor>" by (simp only: date_of_def num_trunc_def jsnum.case nat_0_le int_nat_eq if_True)
  with f show ?thesis by (simp add: y(1) z(1))
qed

text \<open>
  The signal the simulator signs for the dummy it hired is one the availability endpoint
  accepts on its own merits: the envelope verifies and names the dummy, its fields are well
  formed, it was signed just now and ends within the configured bound, after a second at least.
\<close>

theorem busy_signal_acceptable:
  assumes N: "noble_ok N" and K: "key_ok N priv pub" and b: "num_in 0 (2 ^ 52) b"
    and t: "0 \<le> t" "t \<le> 2 ^ 52" "iso_range (t + availMaxValidityMs c)" and m: "1000 \<le> availMaxValidityMs c" "availMaxValidityMs c \<le> 2 ^ 52"
  shows "\<exists>x sig h e. post_busy N c offerId priv free b t = Some (PostAvailability offerId (Some (envelope x sig)))
    \<and> readEnvelope N (Some (envelope x sig)) ''avail/v1'' = Inr \<lparr>payload = x, signature = sig, hash = h, signer = pub_address N pub\<rparr>
    \<and> field x ''offerId'' = JStr offerId \<and> field x ''available'' = JBool free \<and> valid_seq (field x ''seq'')
    \<and> parseIso (field x ''signedAt'') = Some t \<and> parseIso (field x ''validUntil'') = Some e
    \<and> t + 1000 \<le> e \<and> e - t \<le> availMaxValidityMs c"
proof -
  let ?x = "busy_payload c (pub_address N pub) offerId free b t"
  obtain e where e: "date_of (num_add (Fin (of_int t)) (num_min (num_max b (Fin 1000)) (Fin (of_int (availMaxValidityMs c))))) = e"
      "t + 1000 \<le> e" "e \<le> t + availMaxValidityMs c" using busy_end [OF b t(1,2) m] by blast
  have i: "iso_range t" "iso_range e" using t e m by (auto simp: iso_range_def)
  have a: "addressFromPrivateKey N priv = Some (pub_address N pub)"
    using K by (simp add: addressFromPrivateKey_def key_ok_def)
  have wf: "wf_js ?x" "plain_json ?x" "isPlainObject ?x"
    by (simp_all add: busy_payload_def obj_def isPlainObject_def jint_def num_of_int_def is_finite_num_def)
  have ok: "is_ok (jcs ?x)" using serialize_ok_iff [OF wf(1)] wf(2) by (simp add: jcs_def)
  obtain sig h where s: "signPayload N ?x priv = Some sig" "readEnvelope N (Some (envelope ?x sig)) ''avail/v1'' =
        Inr \<lparr>payload = ?x, signature = sig, hash = h, signer = pub_address N pub\<rparr>"
    using readEnvelope_signed [OF N K wf(3) ok busy_fields(1)] by auto
  have q: "valid_seq (jint t)"
  proof -
    have "t \<le> 9007199254740991" using t(2) by simp
    then have "(of_int 0 :: rat) \<le> of_int t" "(of_int t :: rat) \<le> of_int 9007199254740991"
      using t(1) by (simp_all only: of_int_le_iff)
    then show ?thesis by (simp add: valid_seq_def jint_def num_of_int_def is_integer_def num_lt_def not_less)
  qed
  show ?thesis
    using s e i q by (intro exI [of _ ?x] exI [of _ sig] exI [of _ h] exI [of _ e])
      (simp add: post_busy_def a Let_def parseIso_toIso)
qed


theorem busy_signal_acceptable_witness:
  "\<exists>x sig. post_busy toy default_config (bufToHex demo_oid) [7] False (Fin 75000) 1800000000000 =
      Some (PostAvailability (bufToHex demo_oid) (Some (envelope x sig))) \<and> field x ''available'' = JBool False"
proof -
  have "availMaxValidityMs default_config = 3600000" by (rule load_config_fixed(4) [OF load_default])
  then show ?thesis
    using busy_signal_acceptable [OF toy_ok toy_key, of "Fin 75000" 1800000000000 default_config "bufToHex demo_oid" "[7]" False]
    by (auto simp: num_in_def iso_range_def)
qed

subsection \<open>Names in mixed case\<close>

text \<open>
  The service takes an address in any case (\<open>signer\<close> is compared with \<open>toLowerCase\<close>); the client
  compares the letters as they stand, so it reports an offer whose provider writes its address
  with capitals as one whose signature does not verify.
\<close>

lemma mixed_case_reported:
  assumes "readEnvelope N (Some (envelope p sig)) ''offer/v1'' = Inr vw"
    and "field p ''providerId'' \<noteq> JStr (signer vw)" and "wi_template item = \<lparr>we_payload = p, we_signature = sig\<rparr>"
  shows "verifyOfferItem N item service now = Inr (Some BadTemplate)"
proof -
  have f: "field (envelope p sig) ''payload'' = p" "field (envelope p sig) ''signature'' = JStr sig"
    by (simp_all add: envelope_def)
  obtain b where b: "Some (envelope p sig) = Some b" "payload vw = field b ''payload''" "field b ''signature'' = JStr (signature vw)"
      "recoverSigner N (payload vw) (signature vw) = Inr (Some (signer vw))"
    by (rule readEnvelope_ok [OF assms(1)])
  have "b = envelope p sig" using b(1) by simp
  then have "payload vw = p" "signature vw = sig" using b(2,3) by (simp_all only: f jsval.inject)
  then have "recoverSigner N p sig = Inr (Some (signer vw))" using b(4) by (simp only:)
  then have "signed_by N (wi_template item) (field p ''providerId'') = Inr False"
    using assms(2) by (simp add: signed_by_def assms(3) eq_commute [of "JStr (signer vw)"])
  then show ?thesis by (simp add: verifyOfferItem_def Let_def assms(3))
qed

end
