(* ===== verification/Authentic.thy ===== *)
theory Authentic
  imports Simulator
begin

text \<open>
  What the service serves verifies.  The log holds only payloads whose signature was checked
  or made by the service, under the digest of the payload; an offer's template has the digest
  its id says.  Every write keeps this, so the envelopes of a search response carry the
  signatures a client checks (\<open>verifyOfferItem\<close> of \<open>src/dev-requestors.ts\<close>), unless payloads of
  different makers share a digest.
\<close>

subsection \<open>Signatures stored as bytes\<close>

text \<open>Storing a signature loses the case of its digits only.\<close>

lemma buffer_unhex: "unhex s = Some b \<Longrightarrow> buffer_from_hex s = b"
  by (induction s arbitrary: b rule: unhex.induct) (auto split: option.splits)

lemma recover_stored:
  assumes N: "noble_ok N" and s: "SIG_RE sig"
  shows "recoverSigner N p (bufToHex (hexToBuf sig)) = recoverSigner N p sig"
proof -
  obtain b where b: "unhex (drop 2 sig) = Some b"
    using unhex_total [of "drop 2 sig"] s by (auto simp: SIG_RE_def)
  have h: "hexToBuf sig = b" using buffer_unhex [OF b] by (simp add: hexToBuf_def slice_from_def)
  have "length b = 65" using unhex_length [OF b] s by (simp add: SIG_RE_def)
  then have "SIG_RE (bufToHex b)" by (simp add: bufToHex_def SIG_RE_hex)
  then have "recoverSignerOfDigest N d (bufToHex b) = recoverSignerOfDigest N d sig" for d
    using s b by (simp add: recoverSignerOfDigest_def noble_okD [OF N] bufToHex_def) (simp add: slice_from_def)
  then show ?thesis by (simp add: recoverSigner_def h split: sum.split)
qed

lemma stored_address: "ADDRESS_RE a \<Longrightarrow> bufToHex (hexToBuf a) = a"
proof -
  assume a: "ADDRESS_RE a"
  then obtain b where "drop 2 a = hex_of b"
    using lower_hex_bytes [of "drop 2 a"] by (auto simp: ADDRESS_RE_def)
  then have "a = bufToHex b"
    using a unfolding ADDRESS_RE_def bufToHex_def ox_def by (metis append_take_drop_id)
  then show ?thesis by simp
qed

lemma stored_hash: "HASH_RE h \<Longrightarrow> bufToHex (hexToBuf h) = h"
  using HASH_RE_bytes [of h] by auto

lemma recover_digest:
  assumes "payloadHash N p = Inr h" and "payloadHash N q = Inr h" and N: "noble_ok N"
  shows "recoverSigner N p sig = recoverSigner N q sig"
proof -
  obtain d e where "payloadDigest N p = Inr d" "payloadDigest N q = Inr e" "h = ox (hex_of d)" "h = ox (hex_of e)"
    using assms(1,2) by (auto simp: payloadHash_def seqR_Inr_iff noble_okD [OF N])
  then show ?thesis by (simp add: recoverSigner_def)
qed

subsection \<open>The log and the offers\<close>

definition log_entry_ok :: "noble \<Rightarrow> jstr \<Rightarrow> log_row \<Rightarrow> bool" where
  "log_entry_ok N service l =
     (payloadHash N (l_payload l) = Inr (bufToHex (l_hash l))
      \<and> recoverSigner N (l_payload l) (bufToHex (l_signature l)) =
          Inr (Some (if l_type l = ''attest/cpu/v1'' then service else bufToHex (l_provider l))))"

definition authentic :: "noble \<Rightarrow> jstr \<Rightarrow> db \<Rightarrow> bool" where
  "authentic N service d =
     ((\<forall>l \<in> set (payload_log d). log_entry_ok N service l)
      \<and> (\<forall>r \<in> set (offers d). payloadHash N (of_template r) = Inr (bufToHex (of_id r))))"

definition auth_keep :: "noble \<Rightarrow> jstr \<Rightarrow> world \<Rightarrow> world \<Rightarrow> bool" where
  "auth_keep N service w w' = (authentic N service (tables w) \<longrightarrow> authentic N service (tables w'))"

interpretation auth: world_order "auth_keep N service" for N service
proof
  show "auth_keep N service w w" for w by (simp add: auth_keep_def)
  show "auth_keep N service u w" if "auth_keep N service u v" "auth_keep N service v w" for u v w
    using that by (simp add: auth_keep_def)
  show "auth_keep N service w (w\<lparr>tick := n\<rparr>)" for w n by (simp add: auth_keep_def)
qed

definition auth_world :: "noble \<Rightarrow> jstr \<Rightarrow> world \<Rightarrow> bool" where
  "auth_world N service w = authentic N service (tables w)"

lemma keeps_auth: "inv_io (auth_world N service) m F \<Longrightarrow> keeps (auth_keep N service) m"
  unfolding keeps_def auth_keep_def auth_world_def [symmetric] by (blast intro: inv_ioD)

lemma auth_same: "keeps same_tables m \<Longrightarrow> inv_io (auth_world N service) m (\<lambda>_. True)"
  by (rule inv_keeps) (simp add: keeps_def same_tables_def auth_world_def)

lemma auth_pg:
  assumes "\<And>t d a d'. f t d = Some (a, d') \<Longrightarrow> authentic N service d \<Longrightarrow> authentic N service d'"
  shows "inv_io (auth_world N service) (pg E f) (\<lambda>_. True)"
proof (rule inv_keeps)
  have "keeps (auth_keep N service) (pg E f)" by (rule auth.keeps_pg) (simp add: auth_keep_def assms)
  then show "keeps (\<lambda>w w'. auth_world N service w \<longrightarrow> auth_world N service w') (pg E f)"
    by (simp add: keeps_def auth_keep_def auth_world_def)
qed

lemma auth_log:
  assumes "\<And>t. log_entry_ok N service
      \<lparr>l_hash = h, l_type = ty, l_provider = prov, l_payload = p, l_signature = sig, l_received = t\<rparr>"
  shows "inv_io (auth_world N service) (logPayload E h ty prov p sig) (\<lambda>_. True)"
  unfolding logPayload_def by (rule auth_pg) (auto simp: authentic_def insert_log_def assms split: if_splits)

text \<open>A verified write is logged as it was verified.\<close>

lemma verified_entry:
  assumes N: "noble_ok N" and r: "readEnvelope N req ty = Inr vw" and t: "ty \<noteq> ''attest/cpu/v1''"
  shows "log_entry_ok N service \<lparr>l_hash = hexToBuf (hash vw), l_type = ty, l_provider = hexToBuf (signer vw),
      l_payload = payload vw, l_signature = hexToBuf (signature vw), l_received = now\<rparr>"
proof -
  obtain pid where "recoverSigner N (payload vw) (signature vw) = Inr (Some (signer vw))"
      "payloadHash N (payload vw) = Inr (hash vw)" "SIG_RE (signature vw)"
    by (rule readEnvelope_ok [OF r])
  then show ?thesis
    using t readEnvelope_signer_shape [OF N r]
    by (simp add: log_entry_ok_def recover_stored [OF N] stored_address stored_hash)
qed


subsection \<open>Every write keeps them\<close>

lemma auth_read: "inv_io (auth_world N service) (pg_read E q) (\<lambda>_. True)"
  by (intro auth_same frame.keeps_rules)

lemma auth_redis: "keeps same_tables m \<Longrightarrow> (\<And>a. inv_io (auth_world N service) (f a) F) \<Longrightarrow>
    inv_io (auth_world N service) (seqI m f) F"
  by (intro inv_pure_seqI auth_same)

lemma auth_upsert: "inv_io (auth_world N service) (pg E (upsert_provider pid h sn hb)) (\<lambda>_. True)"
  by (rule auth_pg) (auto simp: authentic_def upsert_provider_def split: if_splits)

lemma auth_revoke: "inv_io (auth_world N service) (pg E (revoke_offer i)) (\<lambda>_. True)"
  by (rule auth_pg) (auto simp: authentic_def revoke_offer_def split: if_splits)

lemma auth_attestation: "inv_io (auth_world N service) (pg E (\<lambda>_. insert_attestation a)) (\<lambda>_. True)"
  by (rule auth_pg) (auto simp: authentic_def insert_attestation_def split: if_splits)

lemma auth_offer:
  assumes "\<And>t. payloadHash N (of_template (r t)) = Inr (bufToHex (of_id (r t)))"
  shows "inv_io (auth_world N service) (pg E (\<lambda>t. insert_offer (r t))) (\<lambda>_. True)"
  by (rule auth_pg) (auto simp: authentic_def insert_offer_def assms split: if_splits)

lemma auth_postProvider:
  assumes N: "noble_ok (noble_fns E)"
  shows "inv_io (auth_world (noble_fns E) service) (postProvider E ip b) (\<lambda>_. True)"
  unfolding postProvider_def Let_def
  by (intro auth_redis [OF keeps_limited] inv_seqI [OF inv_liftI] auth_redis [OF frame_validateProfile]
      inv_seqI [OF auth_read] inv_seqI [OF inv_guardI] inv_seqI [OF auth_log] inv_seqI [OF auth_upsert] inv_ret TrueI)
     (simp add: verified_entry [OF N])

lemma inv_if: "inv_io I m F \<Longrightarrow> inv_io I n F \<Longrightarrow> inv_io I (if b then m else n) F"
  by simp

lemma auth_postOffer:
  assumes N: "noble_ok (noble_fns E)"
  shows "inv_io (auth_world (noble_fns E) service) (postOffer E b) (\<lambda>_. True)"
  unfolding postOffer_def Let_def
proof (intro inv_seqI [OF inv_liftI] auth_redis [OF keeps_limited] inv_seqI [OF auth_read] inv_seqI [OF inv_guardI]
    auth_redis [OF frame.keeps_time_now] auth_redis [OF frame_checks(3)] inv_case_option inv_throw inv_if inv_ret TrueI
    inv_seqI [OF auth_log] inv_seqI [OF auth_offer])
  fix vw assume r: "readEnvelope (noble_fns E) b ''offer/v1'' = Inr vw"
  show "log_entry_ok (noble_fns E) service \<lparr>l_hash = hexToBuf (hash vw), l_type = ''offer/v1'',
      l_provider = hexToBuf (signer vw), l_payload = payload vw, l_signature = hexToBuf (signature vw), l_received = t\<rparr>" for t
    using verified_entry [OF N r] by simp
  have h: "payloadHash (noble_fns E) (payload vw) = Inr (hash vw)" "HASH_RE (hash vw)"
    using readEnvelope_signer_shape [OF N r] by (auto intro: readEnvelope_ok [OF r])
  show "payloadHash (noble_fns E) (of_template (offer_of (hexToBuf (hash vw)) (hexToBuf (signer vw)) a (payload vw) e t)) =
      Inr (bufToHex (of_id (offer_of (hexToBuf (hash vw)) (hexToBuf (signer vw)) a (payload vw) e t)))" for a e t
    by (simp add: offer_of_def h stored_hash)
qed

lemma auth_postRevoke:
  assumes N: "noble_ok (noble_fns E)"
  shows "inv_io (auth_world (noble_fns E) service) (postRevoke E i b) (\<lambda>_. True)"
  unfolding postRevoke_def Let_def
proof (intro inv_seqI [OF inv_liftI] auth_redis [OF frame_findOffer] inv_seqI [OF inv_guardI] inv_case_option inv_throw
    inv_seqI [OF auth_log] inv_seqI [OF auth_revoke] auth_redis [OF keeps_redis_ops(5)] inv_ret TrueI)
  fix vw row assume r: "readEnvelope (noble_fns E) b ''revoke/v1'' = Inr vw"
    and s: "\<not> signer vw \<noteq> bufToHex (of_provider (or_offer row))"
  then have "hexToBuf (signer vw) = of_provider (or_offer row)" by simp
  then show "log_entry_ok (noble_fns E) service \<lparr>l_hash = hexToBuf (hash vw), l_type = ''revoke/v1'',
      l_provider = of_provider (or_offer row), l_payload = payload vw, l_signature = hexToBuf (signature vw), l_received = t\<rparr>" for t
    using verified_entry [OF N r, of service t] by simp
qed

text \<open>The service's own signature.\<close>

lemma signed_entry:
  assumes N: "noble_ok N" and K: "key_ok N key pub" and s: "signPayload N p key = Some sig" and h: "payloadHash N p = Inr h"
  shows "log_entry_ok N (pub_address N pub) \<lparr>l_hash = hexToBuf h, l_type = ''attest/cpu/v1'', l_provider = pid,
      l_payload = p, l_signature = hexToBuf sig, l_received = t\<rparr>"
proof -
  have "is_ok (jcs p)" using h by (auto simp: payloadHash_def payloadDigest_def jcsBytes_def jcs_def seqR_Inr_iff)
  from recover_sign [OF N K this] s have r: "recoverSigner N p sig = Inr (Some (pub_address N pub))" by simp
  then have "SIG_RE sig" by (auto simp: recoverSigner_def recoverSignerOfDigest_def split: sum.splits if_splits)
  then show ?thesis
    using r h payloadHash_shape [OF N h] by (simp add: log_entry_ok_def recover_stored [OF N] stored_hash)
qed

lemma inv_or_throw: "inv_io I (or_throw x) (\<lambda>a. x = Some a)"
  by (simp add: or_throw_def inv_io_def throw_def ret_def split: option.split)

lemma inv_hash: "inv_io I (case r of Inl _ \<Rightarrow> throw Uncaught | Inr h \<Rightarrow> ret h) (\<lambda>h. r = Inr h)"
  by (simp add: inv_io_def throw_def ret_def split: sum.split)

lemma auth_close_bench:
  assumes N: "noble_ok (noble_fns E)" and K: "key_ok (noble_fns E) (svc_key E) pub"
  shows "inv_io (auth_world (noble_fns E) (pub_address (noble_fns E) pub)) (close_bench E c st l t e) (\<lambda>_. True)"
  unfolding close_bench_def Let_def
  by (intro inv_seqI [OF inv_or_throw] inv_seqI [OF inv_hash] inv_seqI [OF auth_log] inv_seqI [OF auth_attestation]
      auth_redis [OF keeps_redis_ops(24)] inv_seqI [OF inv_liftI] inv_ret TrueI signed_entry [OF N K])

lemma auth_submit_result:
  assumes N: "noble_ok (noble_fns E)" and K: "key_ok (noble_fns E) (svc_key E) pub"
  shows "inv_io (auth_world (noble_fns E) (pub_address (noble_fns E) pub)) (submit_result E c l sb res) (\<lambda>_. True)"
  unfolding submit_result_def Let_def
  by (cases res) (auto intro!: inv_if auth_close_bench [OF N K] auth_redis inv_throw inv_ret simp: keeps_redis_ops)

subsection \<open>Reachable tables are authentic\<close>

lemma same_auth: "same_tables u v \<Longrightarrow> auth_keep N service u v"
  by (simp add: same_tables_def auth_keep_def)

lemma background_auth: "\<not> pf_dev X \<Longrightarrow> background E X w w' \<Longrightarrow> auth_keep N service w w'"
proof (elim backgroundE)
  assume w: "w' = snd (sampler_tick E (map_option snd (pf_sim X)) w)"
  have o: "(tables w')\<lparr>snapshots := []\<rparr> = (tables w)\<lparr>snapshots := []\<rparr>"
    using sampler_snapshots [of w E "map_option snd (pf_sim X)"] by (simp add: only_snapshots_def w)
  have "payload_log (tables w') = payload_log (tables w)" "offers (tables w') = offers (tables w)"
    using arg_cong [OF o, of payload_log] arg_cong [OF o, of offers] by simp_all
  then show ?thesis by (simp add: auth_keep_def authentic_def)
next
  fix st j assume w: "w' = snd (write_job E st j w)"
  have "keeps (auth_keep N service) (pg E (insert_job st j))"
    by (rule auth.keeps_pg) (auto simp: auth_keep_def authentic_def insert_job_def)
  then have "keeps (auth_keep N service) (write_job E st j)"
    unfolding write_job_def by (intro keeps_tryI auth.keeps_rules) (rule auth.trans)
  then show ?thesis by (simp add: w keeps_def)
qed (auto simp: auth_keep_def)

lemma step_auth:
  assumes N: "noble_ok (noble_fns E)" and K: "key_ok (noble_fns E) (svc_key E) pub" and X: "\<not> pf_dev X" and s: "step E X w w'"
  shows "auth_keep (noble_fns E) (pub_address (noble_fns E) pub) w w'"
  using s
proof (elim stepE)
  fix ip rq r assume "respond E X ip rq w = Some (r, w')"
  then obtain y where h: "handle E X ip rq w = Some (y, w')" by (auto simp: respond_def)
  show ?thesis
    by (rule handle_keeps [OF auth.world_order_axioms same_auth _ _ _ _ h])
      (auto intro!: keeps_auth auth_postProvider [OF N] auth_postOffer [OF N] auth_postRevoke [OF N] auth_submit_result [OF N K])
qed (rule background_auth [OF X])

lemma steps_auth:
  assumes N: "noble_ok (noble_fns E)" and K: "key_ok (noble_fns E) (svc_key E) pub" and X: "\<not> pf_dev X" and s: "(step E X)\<^sup>*\<^sup>* v w"
    and a: "authentic (noble_fns E) (pub_address (noble_fns E) pub) (tables v)"
  shows "authentic (noble_fns E) (pub_address (noble_fns E) pub) (tables w)"
  using s by (induction rule: rtranclp_induct) (use a step_auth [OF N K X] in \<open>auto simp: auth_keep_def\<close>)

subsection \<open>What a search serves\<close>

lemma inv_mapI: "(\<And>x. x \<in> set xs \<Longrightarrow> inv_io I (f x) F) \<Longrightarrow> inv_io I (mapI f xs) (\<lambda>ys. \<forall>y \<in> set ys. F y)"
proof (induction xs)
  case (Cons x xs)
  have t: "inv_io I (mapI f xs) (\<lambda>ys. \<forall>y \<in> set ys. F y)" by (rule Cons.IH) (use Cons.prems in simp)
  have "inv_io I (f x) F" by (rule Cons.prems) simp
  then show ?case by (auto intro!: inv_seqI [OF _ inv_seqI [OF t]] inv_ret)
qed (simp add: inv_ret)

lemma batch_map_origin: "batch_map ids vs f i = Some x \<Longrightarrow> \<exists>v. (i, v) \<in> set (zip ids vs) \<and> f v = Some x"
proof -
  have "foldl (\<lambda>m (i, v). case f v of None \<Rightarrow> m | Some x \<Rightarrow> m(i \<mapsto> x)) m ps i = Some x
      \<Longrightarrow> m i = Some x \<or> (\<exists>v. (i, v) \<in> set ps \<and> f v = Some x)" for m ps
  proof (induction ps arbitrary: m)
    case (Cons p ps)
    obtain j v where p: "p = (j, v)" by (cases p)
    show ?case using Cons.IH [of "case f v of None \<Rightarrow> m | Some x \<Rightarrow> m(j \<mapsto> x)"] Cons.prems
      by (auto simp: p split: option.splits if_splits)
  qed simp
  then show "batch_map ids vs f i = Some x \<Longrightarrow> ?thesis" by (fastforce simp: batch_map_def)
qed

lemma zip_map_self: "(i, v) \<in> set (zip xs (map f xs)) \<Longrightarrow> v = f i"
  by (induction xs) auto

lemma inv_getTermsBatch:
  assumes R: "redis_documented E"
  shows "inv_io (at_tables T d) (getTermsBatch E ids) (\<lambda>m. \<forall>i x. m i = Some x \<longrightarrow> T i x)"
  unfolding inv_io_def
proof (intro allI impI)
  fix w assume a: "at_tables T d w"
  obtain m w' where m: "getTermsBatch E ids w = (m, w')" by fastforce
  have "at_tables T d w'"
    using inv_ioD [OF at_tables_keeps [OF store_ops(4) [OF R] keeps_redis_ops(4)] a, of ids] by (simp add: m)
  moreover have "T i x" if t: "m = Inr tm" "tm i = Some x" for tm i x
  proof (cases "ids = []")
    case False
    obtain r w1 where s: "send E (MGET (map KTerms ids)) w = (r, w1)" by fastforce
    from send_documented [OF R s] obtain y where y: "r = Inr y" "sent E (MGET (map KTerms ids)) w w1 y" by blast
    have "\<exists>vs. y = RVals vs \<and> tm = batch_map ids vs as_terms"
      using m t False s y(1) by (auto simp: getTermsBatch_def seqI_def ret_def split: rreply.splits)
    then obtain vs where vs: "y = RVals vs" "tm = batch_map ids vs as_terms" by blast
    then obtain n where n: "vs = map (alive (now_at E n) (kvs w)) (map KTerms ids)"
      using y(2) by (auto simp: sent_def Let_def)
    obtain v where v: "(i, v) \<in> set (zip ids vs)" "as_terms v = Some x"
      using batch_map_origin [OF t(2) [unfolded vs(2)]] by blast
    then have "(i, v) \<in> set (zip ids (map (\<lambda>i. alive (now_at E n) (kvs w) (KTerms i)) ids))"
      by (simp add: n comp_def)
    then have "v = alive (now_at E n) (kvs w) (KTerms i)" by (rule zip_map_self)
    moreover have "v = Some (VTerms x)" using v(2) by (auto simp: as_terms_def split: option.splits rval.splits)
    ultimately obtain e where "kv_str (kvs w) (KTerms i) = Some (VTerms x, e)" using alive_stored by metis
    then show ?thesis using a by (auto simp: at_tables_def stored_def fits_def)
  qed (use m t in \<open>auto simp: getTermsBatch_def ret_def\<close>)
  ultimately show "case getTermsBatch E ids w of (Inl e, w') \<Rightarrow> at_tables T d w'
      | (Inr m, w') \<Rightarrow> at_tables T d w' \<and> (\<forall>i x. m i = Some x \<longrightarrow> T i x)"
    by (auto simp: m split: sum.split)
qed


text \<open>
  Payloads of different makers under one digest: a logged payload with the digest of an offer's
  template that is not its provider's, or one logged under the id of its attestation that is
  not an attestation.
\<close>

definition shared_digest :: "noble \<Rightarrow> db \<Rightarrow> offer_row \<Rightarrow> bool" where
  "shared_digest N d r =
     (\<exists>l \<in> set (payload_log d).
        payloadHash N (l_payload l) = payloadHash N (of_template r) \<and> (l_type l = ''attest/cpu/v1'' \<or> l_provider l \<noteq> of_provider r)
        \<or> l_hash l = of_att r \<and> l_type l \<noteq> ''attest/cpu/v1'')"

definition sound_item :: "noble \<Rightarrow> jstr \<Rightarrow> db \<Rightarrow> WireOfferItem \<Rightarrow> bool" where
  "sound_item N service d item =
     (\<exists>r \<in> set (offers d). wi_offerId item = bufToHex (of_id r)
        \<and> (shared_digest N d r
            \<or> recoverSigner N (we_payload (wi_template item)) (we_signature (wi_template item)) = Inr (Some (bufToHex (of_provider r)))
              \<and> recoverSigner N (we_payload (wi_attestation item)) (we_signature (wi_attestation item)) = Inr (Some service))
        \<and> (\<forall>t. wi_terms item = Some t \<longrightarrow>
              recoverSigner N (we_payload t) (we_signature t) = Inr (Some (bufToHex (of_provider r)))
              \<and> field (we_payload t) ''offerId'' = JStr (wi_offerId item)))"

lemma selected_verifies:
  assumes N: "noble_ok N" and a: "authentic N service d" and x: "x \<in> set (offer_select c d)"
  shows "or_offer x \<in> set (offers d) \<and> (shared_digest N d (or_offer x)
     \<or> recoverSigner N (of_template (or_offer x)) (bufToHex (or_tplSig x)) = Inr (Some (bufToHex (of_provider (or_offer x))))
       \<and> recoverSigner N (or_attPayload x) (bufToHex (or_attSig x)) = Inr (Some service))"
proof -
  obtain r where r: "r \<in> set (offers d)" "x \<in> set (join_offer d r)" using x by (auto simp: offer_select_def)
  then obtain pl al where l: "find_log (of_id r) d = Some pl" "find_log (of_att r) d = Some al"
      "or_offer x = r" "or_tplSig x = l_signature pl" "or_attPayload x = l_payload al" "or_attSig x = l_signature al"
    by (cases "find_log (of_id r) d"; cases "find_log (of_att r) d"; cases "find_provider (of_provider r) d")
       (auto simp: join_offer_def)
  then have m: "pl \<in> set (payload_log d)" "l_hash pl = of_id r" "al \<in> set (payload_log d)" "l_hash al = of_att r"
    by (auto simp: find_log_def find_Some_iff)
  then have p: "log_entry_ok N service pl" "log_entry_ok N service al" using a by (auto simp: authentic_def)
  have h: "payloadHash N (of_template r) = Inr (bufToHex (of_id r))" using a r(1) by (auto simp: authentic_def)
  then have e: "payloadHash N (l_payload pl) = payloadHash N (of_template r)" using p(1) m(2) by (simp add: log_entry_ok_def)
  have g: "recoverSigner N (of_template r) s = recoverSigner N (l_payload pl) s" for s
    using recover_digest [OF h _ N, of "l_payload pl"] e h by simp
  show ?thesis
  proof (cases "l_type pl \<noteq> ''attest/cpu/v1'' \<and> l_provider pl = of_provider r \<and> l_type al = ''attest/cpu/v1''")
    case True
    then show ?thesis using p r(1) by (simp add: l(3-6) g log_entry_ok_def)
  next
    case False
    then have "shared_digest N d r" unfolding shared_digest_def using m e by blast
    then show ?thesis using r(1) l(3) by simp
  qed
qed

lemma wire_envelope_out: "envelopeOut N p sig rc = Inr v \<Longrightarrow> wire_envelope v = Some e \<Longrightarrow> we_payload e = p \<and> we_signature e = sig"
  by (auto simp: envelopeOut_def wire_envelope_def Let_def split: sum.splits jsval.splits)

lemma wire_terms_json: "wire_envelope (terms_json (Some t)) = Some e \<Longrightarrow> we_payload e = tr_payload t \<and> we_signature e = tr_signature t"
  by (auto simp: terms_json_def obj_def wire_envelope_def Let_def split: jsval.splits)

lemma inv_offer_json:
  "inv_io I (offer_json E row terms st) (\<lambda>v. \<forall>item. wire_item v = Some item \<longrightarrow>
      wi_offerId item = bufToHex (of_id (or_offer row))
      \<and> we_payload (wi_template item) = of_template (or_offer row) \<and> we_signature (wi_template item) = bufToHex (or_tplSig row)
      \<and> we_payload (wi_attestation item) = or_attPayload row \<and> we_signature (wi_attestation item) = bufToHex (or_attSig row)
      \<and> (\<forall>e. wi_terms item = Some e \<longrightarrow> (\<exists>t. terms = Some t \<and> we_payload e = tr_payload t \<and> we_signature e = tr_signature t)))"
  unfolding offer_json_def Let_def
proof (intro inv_seqI [OF inv_liftI] inv_ret allI impI)
  fix tpl att item
  assume o: "envelopeOut (noble_fns E) (of_template (or_offer row)) (bufToHex (or_tplSig row)) (DateMs (of_created (or_offer row))) = Inr tpl"
      "envelopeOut (noble_fns E) (or_attPayload row) (bufToHex (or_attSig row)) (DateMs (or_attReceived row)) = Inr att"
    and w: "wire_item (obj [(''offerId'', JStr (bufToHex (of_id (or_offer row)))), (''template'', tpl), (''attestation'', att),
                (''terms'', terms_json terms), (''status'', JStr (js (status_name st)))]) = Some item"
  let ?x = "obj [(''offerId'', JStr (bufToHex (of_id (or_offer row)))), (''template'', tpl), (''attestation'', att),
                (''terms'', terms_json terms), (''status'', JStr (js (status_name st)))]"
  have f: "field ?x ''offerId'' = JStr (bufToHex (of_id (or_offer row)))" "field ?x ''template'' = tpl"
      "field ?x ''attestation'' = att" "field ?x ''terms'' = terms_json terms" "field ?x ''status'' = JStr (js (status_name st))"
    by (simp_all add: obj_def)
  obtain t a where e: "wire_envelope tpl = Some t" "wire_envelope att = Some a"
    using w unfolding wire_item_def f by (auto split: option.splits)
  have i: "wi_offerId item = bufToHex (of_id (or_offer row))" "wi_template item = t" "wi_attestation item = a"
      "\<And>z. wi_terms item = Some z \<Longrightarrow> terms_json terms \<noteq> JNull \<and> wire_envelope (terms_json terms) = Some z"
    using w unfolding wire_item_def f e by (auto split: if_splits)
  have "\<exists>u. terms = Some u \<and> we_payload z = tr_payload u \<and> we_signature z = tr_signature u" if "wi_terms item = Some z" for z
    using i(4) [OF that] wire_terms_json by (cases terms) (auto simp: terms_json_def [of None])
  with i wire_envelope_out [OF o(1) e(1)] wire_envelope_out [OF o(2) e(2)]
  show "wi_offerId item = bufToHex (of_id (or_offer row))
      \<and> we_payload (wi_template item) = of_template (or_offer row) \<and> we_signature (wi_template item) = bufToHex (or_tplSig row)
      \<and> we_payload (wi_attestation item) = or_attPayload row \<and> we_signature (wi_attestation item) = bufToHex (or_attSig row)
      \<and> (\<forall>e. wi_terms item = Some e \<longrightarrow> (\<exists>t. terms = Some t \<and> we_payload e = tr_payload t \<and> we_signature e = tr_signature t))"
    by auto
qed


lemma search_rows: "e \<in> set (search_results N q now tm busy seed rows) \<Longrightarrow>
    en_row e \<in> set rows \<and> en_id e = bufToHex (of_id (or_offer (en_row e)))"
  by (auto simp: search_results_def enrich_def Let_def split: if_splits)

lemma page_rows: "e \<in> set (result_page off m es) \<Longrightarrow> e \<in> set es"
  by (auto simp: result_page_def Let_def dest: in_set_takeD in_set_dropD)

lemma served_item:
  assumes N: "noble_ok (noble_fns E)" and a: "authentic (noble_fns E) service d" and u: "distinct (map of_id (offers d))"
    and row: "row \<in> set (offer_select c d)" and i: "i = bufToHex (of_id (or_offer row))"
    and tm: "\<And>x. tm i = Some x \<Longrightarrow> terms_authentic (noble_fns E) d i x"
  shows "inv_io I (offer_json E row (tm i) st) (\<lambda>v. \<forall>item. wire_item v = Some item \<longrightarrow> sound_item (noble_fns E) service d item)"
proof (rule inv_weaken [OF inv_offer_json], intro allI impI)
  let ?r = "or_offer row"
  fix v item
  assume "\<forall>item. wire_item v = Some item \<longrightarrow> wi_offerId item = bufToHex (of_id ?r)
      \<and> we_payload (wi_template item) = of_template ?r \<and> we_signature (wi_template item) = bufToHex (or_tplSig row)
      \<and> we_payload (wi_attestation item) = or_attPayload row \<and> we_signature (wi_attestation item) = bufToHex (or_attSig row)
      \<and> (\<forall>e. wi_terms item = Some e \<longrightarrow> (\<exists>t. tm i = Some t \<and> we_payload e = tr_payload t \<and> we_signature e = tr_signature t))"
    and "wire_item v = Some item"
  then have w: "wi_offerId item = bufToHex (of_id ?r)" "we_payload (wi_template item) = of_template ?r"
      "we_signature (wi_template item) = bufToHex (or_tplSig row)" "we_payload (wi_attestation item) = or_attPayload row"
      "we_signature (wi_attestation item) = bufToHex (or_attSig row)"
      "\<And>e. wi_terms item = Some e \<Longrightarrow> \<exists>t. tm i = Some t \<and> we_payload e = tr_payload t \<and> we_signature e = tr_signature t"
    by blast+
  note s = selected_verifies [OF N a row]
  have t: "recoverSigner (noble_fns E) (we_payload e) (we_signature e) = Inr (Some (bufToHex (of_provider ?r)))
      \<and> field (we_payload e) ''offerId'' = JStr (wi_offerId item)" if e: "wi_terms item = Some e" for e
  proof -
    obtain x where x: "tm i = Some x" "we_payload e = tr_payload x" "we_signature e = tr_signature x" using w(6) [OF e] by blast
    from tm [OF x(1)] obtain r' where r': "r' \<in> set (offers d)" "i = bufToHex (of_id r')"
        "recoverSigner (noble_fns E) (tr_payload x) (tr_signature x) = Inr (Some (bufToHex (of_provider r')))"
        "field (tr_payload x) ''offerId'' = JStr i"
      unfolding terms_authentic_def by blast
    have "of_id r' = of_id ?r" using r'(2) i by simp
    then have "r' = ?r" using u r'(1) s by (metis distinct_map inj_onD)
    with r' show ?thesis by (simp add: x w(1) i)
  qed
  show "sound_item (noble_fns E) service d item"
    unfolding sound_item_def
    by (rule bexI [of _ ?r]) (use s t w in \<open>simp_all add: w\<close>)
qed

lemma inv_getOffers:
  assumes N: "noble_ok (noble_fns E)" and R: "redis_documented E" and scan: "\<And>xs. set (scan xs) = set xs"
    and a: "authentic (noble_fns E) service d" and u: "distinct (map of_id (offers d))"
  shows "inv_io (at_tables (terms_authentic (noble_fns E) d) d) (getOffers E scan ip url)
     (\<lambda>r. \<exists>vs. field (body r) ''items'' = JArr vs \<and> (\<forall>v \<in> set vs. \<forall>item. wire_item v = Some item \<longrightarrow>
        sound_item (noble_fns E) service d item))"
    (is "inv_io ?I _ ?F")
proof -
  note pure = at_tables_keeps [OF store_ops(26) [OF R] keeps_limited] at_tables_keeps [OF store_ops(9) [OF R] keeps_redis_ops(9)]
  have rows: "inv_io ?I (pg_read E (candidates scan (cfg E) q)) (\<lambda>rows. \<forall>x \<in> set rows. \<exists>c. x \<in> set (offer_select c d))" for q
    by (auto simp: inv_io_def pg_read_def pg_def at_tables_def stored_def candidates_def scan Let_def
        split: fate.split dest!: in_set_takeD)
  have seed: "inv_io ?I (case q_cursor q of None \<Rightarrow> seqI (randomBytes E 8) (\<lambda>b. ret (bytesToHex (noble_fns E) b))
      | Some (s, _) \<Rightarrow> ret s) (\<lambda>_. True)" for q
    by (rule at_tables_keeps; auto split: option.split intro!: store.keeps_rules frame.keeps_rules)
  have items: "inv_io ?I (mapI (\<lambda>e. offer_json E (en_row e) (tm (en_id e)) (st e)) es)
      (\<lambda>vs. \<forall>v \<in> set vs. \<forall>item. wire_item v = Some item \<longrightarrow> sound_item (noble_fns E) service d item)"
    if es: "\<And>e. e \<in> set es \<Longrightarrow> (\<exists>c. en_row e \<in> set (offer_select c d)) \<and> en_id e = bufToHex (of_id (or_offer (en_row e)))"
      and tm: "\<forall>i x. tm i = Some x \<longrightarrow> terms_authentic (noble_fns E) d i x" for es tm st
  proof (rule inv_mapI)
    fix e assume e: "e \<in> set es"
    then obtain c where "en_row e \<in> set (offer_select c d)" "en_id e = bufToHex (of_id (or_offer (en_row e)))" using es by blast
    then show "inv_io ?I (offer_json E (en_row e) (tm (en_id e)) (st e)) (\<lambda>v. \<forall>item. wire_item v = Some item \<longrightarrow> sound_item (noble_fns E) service d item)"
      using served_item [OF N a u] tm by blast
  qed
  have out: "?F (json 200 [(''items'', JArr vs), (''nextCursor'', x)]) \<longleftrightarrow>
      (\<forall>v \<in> set vs. \<forall>item. wire_item v = Some item \<longrightarrow> sound_item (noble_fns E) service d item)" for vs x
    by (simp add: json_def)
  show ?thesis
    unfolding getOffers_def Let_def
  proof (intro inv_seqI [OF pure(1)] inv_seqI [OF inv_liftI] inv_case_option inv_seqI [OF rows] inv_seqI [OF inv_time]
      inv_seqI [OF inv_getTermsBatch [OF R]] inv_seqI [OF pure(2)] inv_seqI [OF seed] inv_ret inv_seqI [OF items])
    show "?F (json 200 [(''items'', JArr []), (''nextCursor'', JNull)])" by (simp only: out) simp
  next
    fix q rows now tm busy seed e
    assume r: "\<forall>x \<in> set rows. \<exists>c. x \<in> set (offer_select c d)"
      and e: "e \<in> set (result_page (case q_cursor q of None \<Rightarrow> 0 | Some (_, n) \<Rightarrow> n) (q_limit q)
            (search_results (noble_fns E) q now tm busy seed rows))"
    from search_rows [OF page_rows [OF e]] r
    show "(\<exists>c. en_row e \<in> set (offer_select c d)) \<and> en_id e = bufToHex (of_id (or_offer (en_row e)))" by blast
  next
    fix vs x assume "\<forall>v \<in> set vs. \<forall>item. wire_item v = Some item \<longrightarrow> sound_item (noble_fns E) service d item"
    then show "?F (json 200 [(''items'', JArr vs), (''nextCursor'', x)])" by (simp only: out)
  qed assumption
qed

lemma wrap_error: "status (wrap (Inl e)) \<ge> 400"
proof (cases e)
  case (ApiError c d)
  then show ?thesis using STATUS_range [of c] by (auto simp: wrap_def toResponse_def)
qed (simp add: wrap_def toResponse_def)

lemma read_items:
  assumes "read_response (Some r) = Some (Items items)"
  shows "\<not> 400 \<le> status r" "field (body r) ''items'' = JArr vs \<Longrightarrow> mapO wire_item vs = Some items"
proof -
  show "\<not> 400 \<le> status r" using assms by (simp add: read_response_def Let_def split: if_splits)
  assume "field (body r) ''items'' = JArr vs"
  then show "mapO wire_item vs = Some items"
    using assms by (simp add: read_response_def Let_def map_option_eq_Some split: if_splits)
qed

lemma list_all2_source: "list_all2 P xs ys \<Longrightarrow> y \<in> set ys \<Longrightarrow> \<exists>x. x \<in> set xs \<and> P x y"
  by (induction rule: list_all2_induct) auto

lemma steps_ok: "(step E X)\<^sup>*\<^sup>* w w' \<Longrightarrow> db_ok (tables w) \<Longrightarrow> db_ok (tables w')"
  by (induction rule: rtranclp_induct) (auto simp: stays_ok_def dest: step_tables)

text \<open>
  C35: what the service serves verifies.  Let it start on authentic tables and without cached terms,
  as on an empty database.  After any steps, every item of a search response that a client
  reads is for a stored offer; its template carries the signature of the offer's provider and
  its attestation that of the service, and its terms are the provider's and for this offer;
  the first two unless payloads of different makers share a digest.
\<close>

theorem served_envelopes_verify:
  assumes N: "noble_ok (noble_fns E)" and K: "key_ok (noble_fns E) (svc_key E) pub" and R: "redis_documented E"
    and X: "\<not> pf_dev X" and scan: "\<And>xs. mset (pf_scan X xs) = mset xs"
    and start: "authentic (noble_fns E) (pub_address (noble_fns E) pub) (tables v)" "db_ok (tables v)"
      "\<And>i. kv_str (kvs v) (KTerms i) = None"
    and run: "(step E X)\<^sup>*\<^sup>* v w" and q: "respond E X ip (GetOffers url) w = Some (resp, w')"
    and items: "read_response (Some resp) = Some (Items items)" and item: "item \<in> set items"
  shows "\<exists>r \<in> set (offers (tables w)). wi_offerId item = bufToHex (of_id r)
    \<and> (shared_digest (noble_fns E) (tables w) r
       \<or> recoverSigner (noble_fns E) (we_payload (wi_template item)) (we_signature (wi_template item))
            = Inr (Some (bufToHex (of_provider r)))
         \<and> recoverSigner (noble_fns E) (we_payload (wi_attestation item)) (we_signature (wi_attestation item))
            = Inr (Some (pub_address (noble_fns E) pub)))
    \<and> (\<forall>t. wi_terms item = Some t \<longrightarrow>
         recoverSigner (noble_fns E) (we_payload t) (we_signature t) = Inr (Some (bufToHex (of_provider r)))
         \<and> field (we_payload t) ''offerId'' = JStr (wi_offerId item))"
proof -
  let ?N = "noble_fns E" let ?d = "tables w"
  have a: "authentic ?N (pub_address ?N pub) ?d" by (rule steps_auth [OF N K X run start(1)])
  have u: "distinct (map of_id (offers ?d))"
    using steps_ok [OF run start(2)] by (simp add: db_ok_def)
  have "stored (terms_authentic ?N (tables v)) (\<lambda>_ _. True) v"
    unfolding stored_def fits_def using start(3) by (metis option.distinct(1))
  from steps_authentic [OF R X run this] have t: "at_tables (terms_authentic ?N ?d) ?d w" by (simp add: at_tables_def)
  have s: "set (pf_scan X xs) = set xs" for xs using scan [of xs] by (metis set_mset_mset)
  obtain y where y: "getOffers E (pf_scan X) ip url w = (y, w')" "resp = wrap y"
    using q by (auto simp: respond_def split: prod.splits)
  note ok = read_items(1) [OF items]
  obtain x where x: "y = Inr x" "resp = x" using ok wrap_error y(2) by (cases y) (auto simp: wrap_def)
  have "getOffers E (pf_scan X) ip url w = (Inr x, w')" using y(1) x(1) by simp
  from inv_io_Inr [OF inv_getOffers [OF N R s a u] t this, THEN conjunct2]
  obtain vs where good: "field (body x) ''items'' = JArr vs
      \<and> (\<forall>v \<in> set vs. \<forall>item. wire_item v = Some item \<longrightarrow> sound_item ?N (pub_address ?N pub) ?d item)" by (rule exE)
  have vs: "field (body resp) ''items'' = JArr vs" unfolding x(2) by (rule good [THEN conjunct1])
  have "list_all2 (\<lambda>v i. wire_item v = Some i) vs items"
    using read_items(2) [OF items vs] by (simp only: mapO_Some_iff)
  from list_all2_source [OF this item] obtain z where z: "z \<in> set vs \<and> wire_item z = Some item" by (rule exE)
  have "sound_item ?N (pub_address ?N pub) ?d item"
    by (rule good [THEN conjunct2, rule_format, OF z [THEN conjunct1] z [THEN conjunct2]])
  then show ?thesis unfolding sound_item_def .
qed


text \<open>A signed offer and its attestation, logged under their digests.\<close>

definition toy_id :: "jsval \<Rightarrow> bytes" where
  "toy_id p = toy_keccak (concat [DOMAIN_PREFIX, case jcsBytes p of Inr b \<Rightarrow> b | Inl _ \<Rightarrow> []])"

definition toy_sig :: bytes where "toy_sig = replicate 64 1 @ [0]"

definition toy_att :: jsval where "toy_att = JObj []"
definition toy_tpl :: jsval where "toy_tpl = JObj [(js ''a'', JNull)]"

definition toy_db :: db where
  "toy_db = demo_db\<lparr>payload_log :=
       [\<lparr>l_hash = toy_id toy_att, l_type = ''attest/cpu/v1'', l_provider = demo_pid, l_payload = toy_att, l_signature = toy_sig, l_received = 1\<rparr>,
        \<lparr>l_hash = toy_id toy_tpl, l_type = ''offer/v1'', l_provider = demo_pid, l_payload = toy_tpl, l_signature = toy_sig, l_received = 2\<rparr>],
     providers := [\<lparr>pr_id = demo_pid, pr_profile = toy_id toy_att, pr_signed = 1, pr_heartbeat = 60, pr_firstSeen = 1, pr_updated = 1\<rparr>],
     attestations := [demo_att\<lparr>at_id := toy_id toy_att\<rparr>],
     offers := [demo_offer\<lparr>of_id := toy_id toy_tpl, of_att := toy_id toy_att, of_template := toy_tpl\<rparr>]\<rparr>"

lemma toy_texts: "jcsBytes toy_att = Inr [123, 125]" "jcsBytes toy_tpl = Inr [123, 34, 97, 34, 58, 110, 117, 108, 108, 125]"
  by (simp_all add: jcsBytes_def toy_att_def toy_tpl_def js_def json_quote_def escape_unit_def is_high_def is_low_def utf8_point_def)

lemma toy_ids: "toy_id toy_att \<noteq> toy_id toy_tpl"
  by (simp add: toy_id_def toy_keccak_def toy_texts)

lemma toy_hash: "payloadHash toy toy_att = Inr (bufToHex (toy_id toy_att))" "payloadHash toy toy_tpl = Inr (bufToHex (toy_id toy_tpl))"
  by (simp_all add: payloadHash_def payloadDigest_def toy_texts toy_id_def bufToHex_def toy_def)

lemma toy_recover: "recoverSigner toy toy_att (bufToHex toy_sig) = Inr (Some demo_address)"
    "recoverSigner toy toy_tpl (bufToHex toy_sig) = Inr (Some demo_address)"
proof -
  have "SIG_RE (bufToHex toy_sig)" by (simp add: toy_sig_def bufToHex_def SIG_RE_hex)
  then have "recoverSignerOfDigest toy d (bufToHex toy_sig) = Inr (Some demo_address)" for d
    by (simp add: recoverSignerOfDigest_def bufToHex_def noble_okD [OF toy_ok])
       (simp add: toy_sig_def toy_def demo_address_def pub_address_def nth_append)
  then show "recoverSigner toy toy_att (bufToHex toy_sig) = Inr (Some demo_address)"
    "recoverSigner toy toy_tpl (bufToHex toy_sig) = Inr (Some demo_address)"
    by (simp_all add: recoverSigner_def payloadDigest_def toy_texts)
qed

lemma toy_authentic: "authentic toy demo_address toy_db"
  by (simp add: authentic_def toy_db_def log_entry_ok_def toy_hash toy_recover demo_provider)

lemma toy_db_ok: "db_ok toy_db"
  by (simp add: db_ok_def toy_db_def toy_ids demo_att_def demo_offer_def)


definition toy_world :: world where
  "toy_world = empty_world\<lparr>tables := toy_db\<rparr>"

definition any_url :: "string \<Rightarrow> jstr option" where
  "any_url = [''freshness'' \<mapsto> js ''any'']"

lemma toy_limited: "\<exists>k. limited demo_env ''query'' ip rl_queryPerIp toy_world = (Inr (), toy_world\<lparr>tick := 3, kvs := k\<rparr>)
    \<and> (\<forall>i. kv_str k (KTerms i) = None \<and> kv_str k (KBusy i) = None)"
  by (simp add: limited_def rateLimit_def Let_def seqI_def time_now_def send_up [OF demo_up] guardI_def ret_def toy_world_def
    empty_world_def empty_kv_def alive_def counter_def rl_queryPerIp_def)

lemma toy_parse: "parse_search default_config any_url = Inr (Some \<lparr>q_freshness = js ''any'', q_availability = js ''free'', q_sort = ''random'',
    q_limit = Fin 20, q_cursor = None, q_priceMax = None, q_coresMin = None, q_ramMin = None, q_singleMin = None, q_quadMin = None,
    q_eightMin = None, q_fullMin = None\<rparr>)"
  by (simp add: parse_search_def any_url_def param_or_def need_def SORTS_def numParam_def parseCursor_def num_clamp_def num_lt_def
    default_config_def load_config_def int_setting_def num_def)


definition toy_row :: OfferRow where
  "toy_row = \<lparr>or_offer = demo_offer\<lparr>of_id := toy_id toy_tpl, of_att := toy_id toy_att, of_template := toy_tpl\<rparr>,
     or_tplSig = toy_sig, or_attPayload = toy_att, or_attSig = toy_sig, or_attReceived = 1, or_heartbeat = 60\<rparr>"

lemma toy_join: "join_offer toy_db (demo_offer\<lparr>of_id := toy_id toy_tpl, of_att := toy_id toy_att, of_template := toy_tpl\<rparr>) = [toy_row]"
  using toy_ids by (simp add: join_offer_def toy_db_def find_log_def find_provider_def toy_row_def demo_offer_def)

lemma toy_candidates: "q_coresMin q = None \<Longrightarrow> q_ramMin q = None \<Longrightarrow> q_singleMin q = None \<Longrightarrow> q_quadMin q = None \<Longrightarrow> q_eightMin q = None
    \<Longrightarrow> q_fullMin q = None \<Longrightarrow> t < 1801000000000 \<Longrightarrow> candidates id default_config q t toy_db = [toy_row]"
proof -
  assume a: "q_coresMin q = None" "q_ramMin q = None" "q_singleMin q = None" "q_quadMin q = None" "q_eightMin q = None"
    "q_fullMin q = None" "t < 1801000000000"
  let ?r = "demo_offer\<lparr>of_id := toy_id toy_tpl, of_att := toy_id toy_att, of_template := toy_tpl\<rparr>"
  have "matches q t ?r" using a by (simp add: matches_def active_at_def at_least_def demo_offer_def)
  moreover have "offers toy_db = [?r]" by (simp add: toy_db_def)
  ultimately have "offer_select (matches q t) toy_db = [toy_row]" by (simp add: offer_select_def toy_join)
  then show ?thesis by (simp add: candidates_def load_config_fixed [OF load_default])
qed


lemma toy_out: "\<exists>v. envelopeOut toy toy_tpl (bufToHex toy_sig) r = Inr v \<and> wire_envelope v = Some \<lparr>we_payload = toy_tpl, we_signature = bufToHex toy_sig\<rparr>"
   "\<exists>v. envelopeOut toy toy_att (bufToHex toy_sig) r = Inr v \<and> wire_envelope v = Some \<lparr>we_payload = toy_att, we_signature = bufToHex toy_sig\<rparr>"
  by (simp_all add: envelopeOut_def toy_hash wire_envelope_def Let_def) (simp_all add: toy_tpl_def toy_att_def)

definition toy_query :: search where
  "toy_query = \<lparr>q_freshness = js ''any'', q_availability = js ''free'', q_sort = ''random'',
    q_limit = Fin 20, q_cursor = None, q_priceMax = None, q_coresMin = None, q_ramMin = None, q_singleMin = None, q_quadMin = None,
    q_eightMin = None, q_fullMin = None\<rparr>"

lemma toy_json: "\<exists>v. offer_json demo_env toy_row None st w = (Inr v, w) \<and> wire_item v = Some \<lparr>wi_offerId = bufToHex (toy_id toy_tpl),
     wi_template = \<lparr>we_payload = toy_tpl, we_signature = bufToHex toy_sig\<rparr>,
     wi_attestation = \<lparr>we_payload = toy_att, we_signature = bufToHex toy_sig\<rparr>, wi_terms = None, wi_status = js (status_name st)\<rparr>"
proof -
  obtain a b where "envelopeOut toy toy_tpl (bufToHex toy_sig) (DateMs (of_created demo_offer)) = Inr a"
      "wire_envelope a = Some \<lparr>we_payload = toy_tpl, we_signature = bufToHex toy_sig\<rparr>"
      "envelopeOut toy toy_att (bufToHex toy_sig) (DateMs 1) = Inr b"
      "wire_envelope b = Some \<lparr>we_payload = toy_att, we_signature = bufToHex toy_sig\<rparr>"
    using toy_out by blast
  then show ?thesis
    by (simp add: offer_json_def toy_row_def Let_def seqI_def liftI_def ret_def demo_env_def) (simp add: wire_item_def obj_def terms_json_def)
qed

lemma toy_page: "\<exists>e. search_results toy toy_query t Map.empty [] sd [toy_row] = [e] \<and> en_row e = toy_row \<and> en_id e = bufToHex (toy_id toy_tpl)"
  by (simp add: search_results_def enrich_def toy_query_def sort_by_def toy_row_def)

lemma seqI_then: "m w = (Inr a, w1) \<Longrightarrow> \<exists>x. f a w1 = (Inr x, w') \<and> P x \<Longrightarrow> \<exists>x. seqI m f w = (Inr x, w') \<and> P x"
  by (simp add: seqI_def)

lemma toy_search:
  "\<exists>resp w' item. respond demo_env plain_platform (js ''a'') (GetOffers any_url) toy_world = Some (resp, w')
     \<and> read_response (Some resp) = Some (Items [item]) \<and> wi_offerId item = bufToHex (toy_id toy_tpl)"
proof -
  obtain k where l: "limited demo_env ''query'' (js ''a'') rl_queryPerIp toy_world = (Inr (), toy_world\<lparr>tick := 3, kvs := k\<rparr>)"
      "\<forall>i. kv_str k (KTerms i) = None \<and> kv_str k (KBusy i) = None" using toy_limited by blast
  have c: "candidates id default_config toy_query t toy_db = [toy_row]" if "t < 1801000000000" for t
    by (rule toy_candidates) (simp_all add: toy_query_def that)
  let ?i = "bufToHex (toy_id toy_tpl)"
  have tm: "getTermsBatch demo_env [?i] (toy_world\<lparr>tick := 5, kvs := k\<rparr>) = (Inr Map.empty, toy_world\<lparr>tick := 6, kvs := k\<rparr>)"
    using l(2) by (simp add: getTermsBatch_def seqI_def send_up [OF demo_up] ret_def batch_map_def as_terms_def alive_def toy_world_def empty_world_def)
  have bz: "busyBatch demo_env [?i] (toy_world\<lparr>tick := 6, kvs := k\<rparr>) = (Inr [], toy_world\<lparr>tick := 7, kvs := k\<rparr>)"
    using l(2) by (simp add: busyBatch_def seqI_def send_up [OF demo_up] ret_def alive_def toy_world_def empty_world_def)
  have rd: "pg_read demo_env (candidates id default_config toy_query) (toy_world\<lparr>tick := 3, kvs := k\<rparr>)
      = (Inr [toy_row], toy_world\<lparr>tick := 4, kvs := k\<rparr>)"
    using c by (simp add: pg_read_def pg_def toy_world_def demo_env_def)
  have id_row: "bufToHex (of_id (or_offer toy_row)) = ?i" by (simp add: toy_row_def)
  let ?sd = "bytesToHex toy (random_at demo_env 7 8)"
  obtain e where e: "search_results toy toy_query (now_at demo_env 4) Map.empty [] ?sd [toy_row] = [e]"
      "en_row e = toy_row" "en_id e = ?i" using toy_page by blast
  obtain v where v: "offer_json demo_env toy_row None (offerStatus (or_offer toy_row) False (en_busy e) (now_at demo_env 4)) (toy_world\<lparr>tick := 8, kvs := k\<rparr>)
        = (Inr v, toy_world\<lparr>tick := 8, kvs := k\<rparr>)"
      "\<exists>item. wire_item v = Some item \<and> wi_offerId item = ?i"
    using toy_json by fastforce
  have pg: "result_page 0 (Fin 20) [e] = [e]"
    using fl_of_int [of 20] by (simp add: result_page_def num_trunc_def)
  have nw: "time_now demo_env (toy_world\<lparr>tick := 4, kvs := k\<rparr>) = (Inr (now_at demo_env 4), toy_world\<lparr>tick := 5, kvs := k\<rparr>)"
    by (simp add: time_now_def)
  have rb: "seqI (randomBytes demo_env 8) (\<lambda>b. ret (bytesToHex toy b)) (toy_world\<lparr>tick := 7, kvs := k\<rparr>)
      = (Inr ?sd, toy_world\<lparr>tick := 8, kvs := k\<rparr>)"
    by (simp add: seqI_def randomBytes_def ret_def)
  have q: "q_cursor toy_query = None" "q_limit toy_query = Fin 20" by (simp_all add: toy_query_def)
  have mp: "mapI (\<lambda>e. offer_json demo_env (en_row e) (Map.empty (en_id e))
        (offerStatus (or_offer (en_row e)) (Map.empty (en_id e) \<noteq> None) (en_busy e) (now_at demo_env 4))) [e] (toy_world\<lparr>tick := 8, kvs := k\<rparr>)
      = (Inr [v], toy_world\<lparr>tick := 8, kvs := k\<rparr>)"
    using v(1) e by (simp add: seqI_def ret_def)
  have "\<exists>x. getOffers demo_env id (js ''a'') any_url toy_world = (Inr x, toy_world\<lparr>tick := 8, kvs := k\<rparr>) \<and> status x = 200
      \<and> field (body x) ''items'' = JArr [v]"
    unfolding getOffers_def demo_rows
    apply (rule seqI_then, rule l(1))
    apply (rule seqI_then, simp add: liftI_def toy_parse [folded toy_query_def])
    apply (simp only: option.case)
    apply (rule seqI_then, rule rd)
    apply (rule seqI_then, rule nw)
    apply (simp only: Let_def list.map id_row)
    apply (rule seqI_then, rule tm)
    apply (rule seqI_then, rule bz)
    apply (simp only: q option.case)
    apply (rule seqI_then, rule rb)
    apply (simp only: e(1) of_int_0 pg)
    apply (rule seqI_then, rule mp)
    apply (simp add: json_def ret_def obj_def)
    done
  then obtain x where x: "getOffers demo_env id (js ''a'') any_url toy_world = (Inr x, toy_world\<lparr>tick := 8, kvs := k\<rparr>)"
      "status x = 200" "field (body x) ''items'' = JArr [v]" by blast
  from v(2) obtain item where i: "wire_item v = Some item" "wi_offerId item = ?i" by blast
  have "read_response (Some x) = Some (Items [item])" using x i by (simp add: read_response_def)
  moreover have "respond demo_env plain_platform (js ''a'') (GetOffers any_url) toy_world = Some (x, toy_world\<lparr>tick := 8, kvs := k\<rparr>)"
    using x(1) by (simp add: respond_def plain_platform_def wrap_def)
  ultimately show ?thesis using i(2) by blast
qed

theorem served_envelopes_verify_witness:
  "\<exists>resp w' item. respond demo_env plain_platform (js ''a'') (GetOffers any_url) toy_world = Some (resp, w')
     \<and> read_response (Some resp) = Some (Items [item])
     \<and> (\<exists>r \<in> set (offers toy_db). wi_offerId item = bufToHex (of_id r)
        \<and> (shared_digest toy toy_db r
           \<or> recoverSigner toy (we_payload (wi_attestation item)) (we_signature (wi_attestation item)) = Inr (Some demo_address)))"
proof -
  obtain resp w' item where r: "respond demo_env plain_platform (js ''a'') (GetOffers any_url) toy_world = Some (resp, w')"
      "read_response (Some resp) = Some (Items [item])" using toy_search by blast
  have t: "tables toy_world = toy_db" "\<And>i. kv_str (kvs toy_world) (KTerms i) = None"
    by (simp_all add: toy_world_def empty_world_def empty_kv_def)
  have "item \<in> set [item]" by simp
  from served_envelopes_verify [where E = demo_env and X = plain_platform and pub = toy_pub and v = toy_world and w = toy_world,
      OF _ _ demo_documented _ _ _ _ _ rtranclp.rtrancl_refl r this]
  show ?thesis using r toy_key toy_ok toy_authentic toy_db_ok t unfolding demo_rows demo_address_def
    by (auto simp: plain_platform_def)
qed

end
