(* ===== verification/Provider_Client.thy ===== *)
theory Provider_Client
  imports Authentic
begin

text \<open>
  The reference provider (\<open>scripts/bench-client.ts\<close>), against the service of \<open>Service\<close>: it
  registers, benchmarks, publishes an offer and sends the first heartbeat.  Proved: on a fresh
  deployment whose store and database answer, the whole flow goes through, and leaves the
  offer active with the provider's price.
\<close>

subsection \<open>A client's computations\<close>

text \<open>
  \<open>Refused\<close> is the \<open>Error\<close> thrown on a status of 400 or more, with the response body; \<open>Broken\<close>
  any other exception (a bad key, digits that are not hexadecimal, a body of another shape).
  \<open>None\<close>: the flow hangs, on a sampling that does not end.  The responses are JSON and arrive.
\<close>

datatype client_error = Refused string jsval | NoAttestation | Broken

type_synonym 'a client = "world \<Rightarrow> ((client_error + 'a) \<times> world) option"

definition retC :: "'a \<Rightarrow> 'a client" where
  "retC a w = Some (Inr a, w)"

definition failC :: "client_error \<Rightarrow> 'a client" where
  "failC e w = Some (Inl e, w)"

definition bindC :: "'a client \<Rightarrow> ('a \<Rightarrow> 'b client) \<Rightarrow> 'b client" where
  "bindC m f w = (case m w of
     None \<Rightarrow> None | Some (Inl e, w') \<Rightarrow> Some (Inl e, w') | Some (Inr a, w') \<Rightarrow> f a w')"

definition or_broken :: "'a option \<Rightarrow> 'a client" where
  "or_broken x = (case x of None \<Rightarrow> failC Broken | Some a \<Rightarrow> retC a)"

text \<open>\<open>post\<close>, and the status check after it.\<close>

definition post :: "env \<Rightarrow> platform \<Rightarrow> jstr \<Rightarrow> request \<Rightarrow> response client" where
  "post E X ip rq w = map_option (\<lambda>(r, w'). (Inr r, w')) (respond E X ip rq w)"

definition checked :: "string \<Rightarrow> response client \<Rightarrow> jsval client" where
  "checked stage m = bindC m (\<lambda>r. if status r \<ge> 400 then failC (Refused stage (body r)) else retC (body r))"

text \<open>\<open>envelope(payload, priv)\<close>; \<open>None\<close> when signing throws.\<close>

definition signed_envelope :: "noble \<Rightarrow> jsval \<Rightarrow> bytes \<Rightarrow> jsval option" where
  "signed_envelope N p priv = map_option (envelope p) (signPayload N p priv)"

definition send_signed :: "env \<Rightarrow> platform \<Rightarrow> jstr \<Rightarrow> bytes \<Rightarrow> string \<Rightarrow> (jsval option \<Rightarrow> request) \<Rightarrow> jsval \<Rightarrow> jsval client" where
  "send_signed E X ip priv stage route p =
     bindC (or_broken (signed_envelope (noble_fns E) p priv)) (\<lambda>e. checked stage (post E X ip (route (Some e))))"

subsection \<open>Messages\<close>

record ClientOptions =
  co_priv :: bytes
  co_coreCount :: jsnum
  co_ramGib :: jsnum
  co_cpuModel :: "jstr option"
  co_minPrice :: jstr

definition profile_message :: "jstr \<Rightarrow> int \<Rightarrow> jsval" where
  "profile_message who now = obj
     [(''type'', JStr (js ''profile/v1'')), (''providerId'', JStr who), (''signedAt'', JStr (toIso now)),
      (''displayName'', JStr (js ''node-'' @ slice 2 8 who)),
      (''netEndpoints'', JArr [JStr (js ''p2p://'' @ slice 2 10 who @ js ''.example'')]),
      (''heartbeatIntervalSec'', jint 60)]"

definition request_message :: "ClientOptions \<Rightarrow> jstr \<Rightarrow> int \<Rightarrow> jsval" where
  "request_message opts who now = obj
     ([(''type'', JStr (js ''attest-request/v1'')), (''providerId'', JStr who), (''model'', JStr (js ''cpu/v1'')),
       (''arch'', JStr (js ''x64'')), (''coreCount'', JNum (co_coreCount opts)), (''ramGib'', JNum (co_ramGib opts))]
      @ (case co_cpuModel opts of None \<Rightarrow> [] | Some s \<Rightarrow> if s = [] then [] else [(''cpuModel'', JStr s)])
      @ [(''signedAt'', JStr (toIso now))])"

definition lane_message :: "jstr \<Rightarrow> jstr \<Rightarrow> jstr \<Rightarrow> WorkerProof list \<Rightarrow> jsval" where
  "lane_message who challengeId laneId proofs = obj
     [(''type'', JStr (js ''lane-proof/v1'')), (''providerId'', JStr who), (''challengeId'', JStr challengeId),
      (''laneId'', JStr laneId), (''workers'', JArr (map proof_js proofs))]"

definition offer_message :: "jstr \<Rightarrow> jstr \<Rightarrow> int \<Rightarrow> int \<Rightarrow> jsval" where
  "offer_message who attestationId now now' = obj
     [(''type'', JStr (js ''offer/v1'')), (''providerId'', JStr who), (''signedAt'', JStr (toIso now)),
      (''compute'', obj [(''model'', JStr (js ''cpu/v1'')), (''attestationId'', JStr attestationId)]),
      (''expiresAt'', JStr (toIso (now' + 7 * 86400000)))]"

definition terms_message :: "ClientOptions \<Rightarrow> jstr \<Rightarrow> jstr \<Rightarrow> int \<Rightarrow> int \<Rightarrow> jsval" where
  "terms_message opts who offerId now now' = obj
     [(''type'', JStr (js ''terms/v1'')), (''providerId'', JStr who), (''offerId'', JStr offerId), (''seq'', jint 1),
      (''signedAt'', JStr (toIso now)), (''validUntil'', JStr (toIso (now' + 180000))), (''unit'', JStr (js ''GLM'')),
      (''minPricePerHour'', JStr (co_minPrice opts)), (''capacity'', obj [(''coresFree'', JNum (co_coreCount opts))])]"

subsection \<open>The optional busy signal\<close>

text \<open>
  A time value a \<open>Date\<close> holds, cut to an integer; \<open>None\<close> is the invalid date, whose
  \<open>toISOString\<close> throws.
\<close>

definition time_clip :: "jsnum \<Rightarrow> int option" where
  "time_clip x = (case x of
     Fin r \<Rightarrow> if \<bar>r\<bar> \<le> 8640000000000000 then Some (if 0 \<le> r then \<lfloor>r\<rfloor> else \<lceil>r\<rceil>) else None
   | _ \<Rightarrow> None)"

definition avail_message :: "jstr \<Rightarrow> jstr \<Rightarrow> bool \<Rightarrow> jsnum option \<Rightarrow> jsnum option \<Rightarrow> int \<Rightarrow> jsval option" where
  "avail_message who offerId free sq busyForMs now =
     map_option (\<lambda>e. obj
       [(''type'', JStr (js ''avail/v1'')), (''providerId'', JStr who), (''offerId'', JStr offerId),
        (''seq'', case sq of Some x \<Rightarrow> JNum x | None \<Rightarrow> jint now), (''available'', JBool free),
        (''signedAt'', JStr (toIso now)), (''validUntil'', JStr (toIso e))])
     (time_clip (num_add (Fin (of_int now))
        (num_min (case busyForMs of Some x \<Rightarrow> x | None \<Rightarrow> Fin 600000) (Fin 3600000))))"

definition setAvailability :: "env \<Rightarrow> platform \<Rightarrow> jstr \<Rightarrow> jstr \<Rightarrow> bytes \<Rightarrow> bool
    \<Rightarrow> jsnum option \<Rightarrow> jsnum option \<Rightarrow> int \<Rightarrow> response client" where
  "setAvailability E X ip offerId priv free sq busyForMs now =
     bindC (or_broken (addressFromPrivateKey (noble_fns E) priv)) (\<lambda>who.
     bindC (or_broken (avail_message who offerId free sq busyForMs now)) (\<lambda>p.
     bindC (or_broken (signed_envelope (noble_fns E) p priv)) (\<lambda>e.
     post E X ip (PostAvailability offerId (Some e)))))"

subsection \<open>The flow\<close>

text \<open>The challenge, its fields read at the types the service sends.\<close>

record Challenge =
  ch_id :: jstr
  ch_seed :: jstr
  ch_chainLen :: nat
  ch_checkpoints :: nat
  ch_samples :: nat
  ch_lanes :: "(jstr \<times> nat) list"

fun as_str :: "jsval \<Rightarrow> jstr option" where
  "as_str (JStr s) = Some s"
| "as_str _ = None"

fun as_count :: "jsval \<Rightarrow> nat option" where
  "as_count (JNum (Fin r)) = (if 0 \<le> r \<and> of_int \<lfloor>r\<rfloor> = r then Some (nat \<lfloor>r\<rfloor>) else None)"
| "as_count _ = None"

definition read_lane :: "jsval \<Rightarrow> (jstr \<times> nat) option" where
  "read_lane v = (case (as_str (field v ''laneId''), as_count (field v ''workers'')) of
     (Some l, Some n) \<Rightarrow> Some (l, n) | _ \<Rightarrow> None)"

definition read_challenge :: "jsval \<Rightarrow> Challenge option" where
  "read_challenge c =
     (case (as_str (field c ''challengeId''), as_str (field c ''seed''), as_count (field c ''chainLen''),
            as_count (field c ''checkpoints''), as_count (field c ''samples''), mapO read_lane (jarr (field c ''lanes''))) of
        (Some i, Some s, Some L, Some C, Some K, Some ls) \<Rightarrow>
          Some \<lparr>ch_id = i, ch_seed = s, ch_chainLen = L, ch_checkpoints = C, ch_samples = K, ch_lanes = ls\<rparr>
      | _ \<Rightarrow> None)"

definition lane_params :: "noble \<Rightarrow> jstr \<Rightarrow> Challenge \<Rightarrow> jstr \<Rightarrow> jsval \<Rightarrow> LaneParams option" where
  "lane_params N who c laneId start =
     Option.bind (hexToBytes N (slice_from 2 (ch_seed c))) (\<lambda>seed.
     Option.bind (as_str (field start ''laneNonce'')) (\<lambda>n.
     Option.bind (hexToBytes N (slice_from 2 n)) (\<lambda>nonce.
     Some \<lparr>lp_seed = seed, lp_laneNonce = nonce, lp_providerId = who, lp_laneId = laneId,
           lp_chainLen = ch_chainLen c, lp_checkpoints = ch_checkpoints c, lp_samples = ch_samples c\<rparr>)))"

definition prove_lane :: "noble \<Rightarrow> LaneParams \<Rightarrow> nat \<Rightarrow> jstr \<Rightarrow> WorkerProof list client" where
  "prove_lane N p workers challengeId w =
     map_option (\<lambda>r. case r of Inl _ \<Rightarrow> (Inl Broken, w) | Inr proofs \<Rightarrow> (Inr proofs, w)) (proveLane N p workers challengeId)"

text \<open>The lanes in turn; the result is the last attestation a submission returned.\<close>

fun run_lanes :: "env \<Rightarrow> platform \<Rightarrow> jstr \<Rightarrow> bytes \<Rightarrow> jstr \<Rightarrow> Challenge \<Rightarrow> (jstr \<times> nat) list \<Rightarrow> jsval \<Rightarrow> jsval client" where
  "run_lanes E X ip priv who c [] attestation = retC attestation"
| "run_lanes E X ip priv who c ((laneId, workers) # rest) attestation =
     bindC (checked ''start'' (post E X ip (LaneStart (ch_id c) laneId))) (\<lambda>start.
     bindC (or_broken (lane_params (noble_fns E) who c laneId start)) (\<lambda>p.
     bindC (prove_lane (noble_fns E) p workers (ch_id c)) (\<lambda>proofs.
     bindC (send_signed E X ip priv ''submit'' (LaneSubmit (ch_id c) laneId) (lane_message who (ch_id c) laneId proofs)) (\<lambda>r.
     run_lanes E X ip priv who c rest
       (if truthy (field r ''attestation'') then field r ''attestation'' else attestation)))))"

record flow_result =
  fl_provider :: jstr
  fl_challenge :: jstr
  fl_attestation :: jsval
  fl_offer :: jstr

text \<open>\<open>now i\<close> is the flow's \<open>i\<close>th reading of its clock.\<close>

definition runProviderFlow :: "env \<Rightarrow> platform \<Rightarrow> jstr \<Rightarrow> ClientOptions \<Rightarrow> (nat \<Rightarrow> int) \<Rightarrow> flow_result client" where
  "runProviderFlow E X ip opts now =
     (let priv = co_priv opts in
      bindC (or_broken (addressFromPrivateKey (noble_fns E) priv)) (\<lambda>who.
      bindC (send_signed E X ip priv ''profile'' PostProvider (profile_message who (now 0))) (\<lambda>_.
      bindC (send_signed E X ip priv ''challenge'' PostChallenge (request_message opts who (now 1))) (\<lambda>chal.
      bindC (or_broken (read_challenge (field chal ''payload''))) (\<lambda>c.
      bindC (run_lanes E X ip priv who c (ch_lanes c) JNull) (\<lambda>attestation.
      if \<not> truthy attestation then failC NoAttestation else
      bindC (or_broken (as_str (field attestation ''attestationId''))) (\<lambda>aid.
      bindC (send_signed E X ip priv ''offer'' PostOffer (offer_message who aid (now 2) (now 3))) (\<lambda>offer.
      bindC (or_broken (as_str (field offer ''offerId''))) (\<lambda>oid.
      bindC (send_signed E X ip priv ''terms'' (PostTerms oid) (terms_message opts who oid (now 4) (now 5))) (\<lambda>_.
      retC \<lparr>fl_provider = who, fl_challenge = ch_id c, fl_attestation = attestation, fl_offer = oid\<rparr>))))))))))"

end
