(* ===== verification/Progress.thy ===== *)
theory Progress
  imports Offers
begin

text \<open>
  Running handlers forwards: \<open>goes m w Q\<close> says that a computation returns, with rules for each
  way handlers are composed, and one rule per operation of the Redis wrapper and the database in
  a deployment that answers.  A world is described by its tables, by the Redis values other than
  the rate limits' counters, and by the limits that have been used.
\<close>

subsection \<open>Computations that get through\<close>

text \<open>\<open>goes m w Q\<close>: from \<open>w\<close> the computation returns, and its result and world satisfy \<open>Q\<close>.\<close>

definition goes :: "'a io \<Rightarrow> world \<Rightarrow> ('a \<Rightarrow> world \<Rightarrow> bool) \<Rightarrow> bool" where
  "goes m w Q = (\<exists>a w'. m w = (Inr a, w') \<and> Q a w')"

lemma goes_rules:
  "goes (ret a) w Q \<longleftrightarrow> Q a w" "goes (throw e) w Q \<longleftrightarrow> False"
  "goes (guardI bad e) w R \<longleftrightarrow> \<not> bad \<and> R () w" "goes (liftI r) w Q \<longleftrightarrow> (\<exists>a. r = Inr a \<and> Q a w)"
  "goes (or_throw x) w Q \<longleftrightarrow> (\<exists>a. x = Some a \<and> Q a w)"
  by (auto simp: goes_def guard_simps)

lemma goes_bind: "goes m w P \<Longrightarrow> (\<And>a w'. P a w' \<Longrightarrow> goes (f a) w' Q) \<Longrightarrow> goes (seqI m f) w Q"
  by (fastforce simp: goes_def seqI_step)

lemma goes_pass: "Q () w \<Longrightarrow> \<not> bad \<Longrightarrow> goes (guardI bad e) w Q"
  by (simp add: goes_rules)

lemma goes_guard: "\<not> bad \<Longrightarrow> goes (f ()) w Q \<Longrightarrow> goes (seqI (guardI bad e) f) w Q"
  by (simp add: goes_def seqI_def guardI_def ret_def)

lemma goes_lift: "r = Inr a \<Longrightarrow> goes (f a) w Q \<Longrightarrow> goes (seqI (liftI r) f) w Q"
  by (simp add: goes_def seqI_def liftI_def ret_def)

lemma goes_or: "x = Some a \<Longrightarrow> goes (f a) w Q \<Longrightarrow> goes (seqI (or_throw x) f) w Q"
  by (simp add: goes_def seqI_def or_throw_def ret_def)

lemma goes_mono: "goes m w P \<Longrightarrow> (\<And>a w'. P a w' \<Longrightarrow> Q a w') \<Longrightarrow> goes m w Q"
  by (auto simp: goes_def)

subsection \<open>A deployment that answers\<close>

text \<open>
  Redis and the database answer, the packages and the service's key are sound, and the server's
  clock stays within \<open>D\<close> milliseconds from \<open>T\<close> on: a flow that takes no longer than that.
\<close>

definition healthy :: "env \<Rightarrow> bytes \<Rightarrow> int \<Rightarrow> int \<Rightarrow> bool" where
  "healthy E pub T D =
     (noble_ok (noble_fns E) \<and> key_ok (noble_fns E) (svc_key E) pub \<and> redis_up E \<and> (\<forall>n. pg_fate E n = Works)
      \<and> (\<forall>n k. length (random_at E n k) = k) \<and> (\<forall>n. T \<le> now_at E n \<and> now_at E n < T + D))"

lemma healthyD:
  assumes "healthy E pub T D"
  shows "noble_ok (noble_fns E)" "key_ok (noble_fns E) (svc_key E) pub" "redis_up E" "pg_fate E n = Works"
    "length (random_at E n k) = k" "T \<le> now_at E n" "now_at E n < T + D"
  using assms by (simp_all add: healthy_def)

text \<open>
  \<open>deploy d f U w\<close>: the connection is up, the tables are \<open>d\<close>, and Redis holds the values \<open>f\<close>,
  except for the counters of the limits in \<open>U\<close>.
\<close>

definition deploy :: "db \<Rightarrow> (rkey \<Rightarrow> (rval \<times> int option) option) \<Rightarrow> string set \<Rightarrow> world \<Rightarrow> bool" where
  "deploy d f U w =
     (client w \<and> tables w = d \<and> (\<forall>k. kv_str (kvs w) k = f k \<or> (\<exists>s \<in> U. \<exists>a t. k = KRl s a t)))"

lemma deploy_value: "deploy d f U w \<Longrightarrow> (\<And>s a t. s \<in> U \<Longrightarrow> k \<noteq> KRl s a t) \<Longrightarrow> kv_str (kvs w) k = f k"
  unfolding deploy_def by blast

definition now_in :: "int \<Rightarrow> int \<Rightarrow> int \<Rightarrow> bool" where
  "now_in T D t = (T \<le> t \<and> t < T + D)"

lemma go_time:
  "healthy E pub T D \<Longrightarrow> deploy d f U w \<Longrightarrow> goes (time_now E) w (\<lambda>t w'. now_in T D t \<and> deploy d f U w')"
  by (simp add: goes_def time_now_def deploy_def now_in_def healthyD)

lemma go_random:
  "healthy E pub T D \<Longrightarrow> deploy d f U w \<Longrightarrow> goes (randomBytes E n) w (\<lambda>b w'. length b = n \<and> deploy d f U w')"
  by (simp add: goes_def randomBytes_def deploy_def healthyD)

lemma go_pg:
  assumes H: "healthy E pub T D" and w: "deploy d f U w"
    and g: "\<And>t. now_in T D t \<Longrightarrow> \<exists>a d'. g t d = Some (a, d') \<and> Q a d'"
  shows "goes (pg E g) w (\<lambda>a w'. \<exists>d'. Q a d' \<and> deploy d' f U w')"
proof -
  have "now_in T D (now_at E (tick w))" using healthyD [OF H] by (simp add: now_in_def)
  from g [OF this] obtain a d' where a: "g (now_at E (tick w)) d = Some (a, d')" "Q a d'" by blast
  then show ?thesis using w healthyD(4) [OF H]
    by (auto simp: goes_def pg_def deploy_def intro!: exI [of _ d'])
qed

lemma go_read:
  assumes H: "healthy E pub T D" and w: "deploy d f U w"
  shows "goes (pg_read E q) w (\<lambda>a w'. (\<exists>t. now_in T D t \<and> a = q t d) \<and> deploy d f U w')"
  unfolding pg_read_def by (rule goes_mono [OF go_pg [OF H w, where Q = "\<lambda>a d'. d' = d \<and> (\<exists>t. now_in T D t \<and> a = q t d)"]]) auto

lemma go_send:
  assumes H: "healthy E pub T D" and w: "deploy d f U w"
    and c: "\<And>t s. now_in T D t \<Longrightarrow> (\<And>k. kv_str s k = f k \<or> (\<exists>s \<in> U. \<exists>a t. k = KRl s a t)) \<Longrightarrow>
       Q (redis_reply t c s) (redis_effect t c s)"
  shows "goes (send E c) w (\<lambda>r w'. client w' \<and> tables w' = d \<and> Q r (kvs w'))"
  using w c [of "now_at E (tick w)" "kvs w"] healthyD(6,7) [OF H, of "tick w"]
  by (simp add: goes_def send_up [OF healthyD(3) [OF H]] deploy_def now_in_def)

text \<open>The Redis values of the flow; the counters are not among them.\<close>

definition uncounted :: "(rkey \<Rightarrow> (rval \<times> int option) option) \<Rightarrow> bool" where
  "uncounted f = (\<forall>s a t. f (KRl s a t) = None)"

lemma uncounted_upd [simp]:
  "uncounted (f(KBench i := v)) = uncounted f" "uncounted (f(KSeq i := v)) = uncounted f"
  "uncounted (f(KTerms i := v)) = uncounted f" "uncounted (f(KSeen i := v)) = uncounted f"
  by (simp_all add: uncounted_def)

lemma go_rate:
  assumes H: "healthy E pub T D" and w: "deploy d f U w" and u: "uncounted f" "s \<notin> U" and m: "1 \<le> fst bound"
  shows "goes (rateLimit E s key bound) w (\<lambda>r w'. r = 0 \<and> deploy d f (insert s U) w')"
proof -
  let ?k = "KRl s key (now_at E (tick w) div snd bound * snd bound)"
  have k: "kv_str (kvs w) ?k = None"
    using deploy_value [OF w, of "KRl s key t" for t] u by (auto simp: uncounted_def)
  have cl: "client w" using w by (simp add: deploy_def)
  show ?thesis using k w m
    by (auto simp: goes_def rateLimit_def Let_def seqI_def time_now_def send_up [OF healthyD(3) [OF H]] cl ret_def
        counter_def alive_def deploy_def)
qed

lemma go_limited:
  assumes "healthy E pub T D" and "deploy d f U w" and "uncounted f" "s \<notin> U" and "1 \<le> fst bound"
  shows "goes (limited E s key bound) w (\<lambda>_. deploy d f (insert s U))"
  unfolding limited_def by (rule goes_bind [OF go_rate [OF assms]]) (simp add: goes_rules)

lemma go_set:
  assumes H: "healthy E pub T D" and w: "deploy d f U w" and k: "\<And>s a t. k \<noteq> KRl s a t"
  shows "goes (send E (SET k v (Some px))) w (\<lambda>r w'. r = ROk \<and> (\<exists>e \<ge> T + px. deploy d (f(k \<mapsto> (v, Some e))) U w'))"
    and "goes (send E (SET k v None)) w (\<lambda>r w'. r = ROk \<and> deploy d (f(k \<mapsto> (v, None))) U w')"
  using w k healthyD(6) [OF H, of "tick w"]
  by (auto simp: goes_def send_up [OF healthyD(3) [OF H]] deploy_def intro!: exI [of _ "now_at E (tick w) + px"])

lemma go_get:
  assumes H: "healthy E pub T D" and w: "deploy d f U w" and k: "\<And>s a t. k \<noteq> KRl s a t"
  shows "f k = None \<Longrightarrow> goes (send E (GET k)) w (\<lambda>r w'. r = RNil \<and> deploy d f U w')"
    and "f k = Some (v, Some e) \<Longrightarrow> T + D \<le> e \<Longrightarrow> goes (send E (GET k)) w (\<lambda>r w'. r = RVal v \<and> deploy d f U w')"
  using w deploy_value [OF w k] healthyD(7) [OF H, of "tick w"]
  by (auto simp: goes_def send_up [OF healthyD(3) [OF H]] deploy_def [of _ _ _ w] alive_def) (simp_all add: deploy_def)

lemma go_del:
  assumes H: "healthy E pub T D" and w: "deploy d f U w" and k: "\<And>s a t. k \<noteq> KRl s a t"
  shows "goes (send E (DEL [k])) w (\<lambda>_. deploy d (f(k := None)) U)"
  using w k by (auto simp: goes_def send_up [OF healthyD(3) [OF H]] deploy_def)

lemma go_live:
  assumes H: "healthy E pub T D" and w: "deploy d f U w"
  shows "goes (send E (ZADD i x)) w (\<lambda>_. deploy d f U)" "goes (send E (HSET i p)) w (\<lambda>_. deploy d f U)"
  using w by (auto simp: goes_def send_up [OF healthyD(3) [OF H]] deploy_def)

lemma max_px: "T + px \<le> T + max 1 px" for T :: int
  by simp

lemma go_setBench:
  assumes H: "healthy E pub T D" and w: "deploy d f U w"
  shows "goes (setBench E c st px) w (\<lambda>ok w'. ok \<and> (\<exists>e \<ge> T + px. deploy d (f(KBench c \<mapsto> (VBench st, Some e))) U w'))"
  unfolding setBench_def
  by (rule goes_bind, rule go_set(1) [OF H w]) (auto simp: goes_rules intro: order.trans [OF max_px])

lemma go_setBench_by:
  assumes "healthy E pub T D" and "deploy d f U w" and b: "b \<le> T + px"
  shows "goes (setBench E c st px) w (\<lambda>ok w'. \<exists>e \<ge> b. deploy d (f(KBench c \<mapsto> (VBench st, Some e))) U w')"
  by (rule goes_mono [OF go_setBench [OF assms(1,2)]]) (blast intro: order.trans [OF b])

lemma go_getBench:
  assumes H: "healthy E pub T D" and w: "deploy d f U w" and k: "f (KBench c) = Some (VBench st, Some e)" "T + D \<le> e"
  shows "goes (getBench E c) w (\<lambda>r w'. r = Some st \<and> deploy d f U w')"
  unfolding getBench_def
  by (rule goes_bind, rule go_get(2) [OF H w _ k]) (simp_all add: goes_rules reply_val_def)

lemma go_dropBench:
  assumes H: "healthy E pub T D" and w: "deploy d f U w"
  shows "goes (dropBench E c) w (\<lambda>_. deploy d (f(KBench c := None)) U)"
  unfolding dropBench_def by (rule goes_bind, rule go_del [OF H w]) (simp_all add: goes_rules)

lemma go_checkSeq:
  assumes w: "deploy d f U w" and g: "goes (getter i) w (\<lambda>r w'. r = None \<and> deploy d f U w')"
    and s: "\<And>u. deploy d f U u \<Longrightarrow> goes (setter i n) u (\<lambda>_. deploy d f' U)"
  shows "goes (checkSeq getter setter i n) w (\<lambda>_. deploy d f' U)"
  unfolding checkSeq_def by (rule goes_bind [OF g], rule goes_guard) (simp_all add: s)

lemma go_seq:
  assumes H: "healthy E pub T D" and w: "deploy d f U w"
  shows "f (KSeq i) = None \<Longrightarrow> goes (checkSeq (getSeq E) (setSeq E) i n) w (\<lambda>_. deploy d (f(KSeq i \<mapsto> (VNum n, None))) U)"
    and "f (KAvailSeq i) = None \<Longrightarrow> goes (checkSeq (getAvailSeq E) (setAvailSeq E) i n) w (\<lambda>_. deploy d (f(KAvailSeq i \<mapsto> (VNum n, None))) U)"
proof -
  show "goes (checkSeq (getSeq E) (setSeq E) i n) w (\<lambda>_. deploy d (f(KSeq i \<mapsto> (VNum n, None))) U)" if "f (KSeq i) = None"
    unfolding getSeq_def setSeq_def
    by (rule go_checkSeq [OF w]) (rule goes_bind, rule go_get(1) [where f = f, OF H w _ that], simp_all add: goes_rules as_num_def,
      rule goes_bind, erule go_set(2) [OF H], simp_all add: goes_rules)
  show "goes (checkSeq (getAvailSeq E) (setAvailSeq E) i n) w (\<lambda>_. deploy d (f(KAvailSeq i \<mapsto> (VNum n, None))) U)" if "f (KAvailSeq i) = None"
    unfolding getAvailSeq_def setAvailSeq_def
    by (rule go_checkSeq [OF w]) (rule goes_bind, rule go_get(1) [where f = f, OF H w _ that], simp_all add: goes_rules as_num_def,
      rule goes_bind, erule go_set(2) [OF H], simp_all add: goes_rules)
qed

lemma go_setTerms:
  assumes H: "healthy E pub T D" and w: "deploy d f U w"
  shows "goes (setTerms E i v px p x) w (\<lambda>ok w'. ok \<and> (\<exists>e \<ge> T + px. deploy d (f(KTerms i \<mapsto> (VTerms v, Some e))) U w'))"
proof -
  have l: "goes (seqI (send E (ZADD i x)) (\<lambda>_. seqI (send E (HSET i p)) (\<lambda>_. ret True))) w'
      (\<lambda>ok w'. ok \<and> deploy d' f' U w')" if "deploy d' f' U w'" for d' f' w'
    by (rule goes_bind, rule go_live(1) [OF H that], rule goes_bind, erule go_live(2) [OF H]) (simp add: goes_rules)
  show ?thesis unfolding setTerms_def
    by (rule goes_bind, rule go_set(1) [OF H w]) (auto intro!: goes_mono [OF l] intro: order.trans [OF max_px])
qed

lemma go_touch:
  assumes H: "healthy E pub T D" and w: "deploy d f U w"
  shows "goes (touchProvider E i t) w (\<lambda>_ w'. \<exists>v. deploy d (f(KSeen i \<mapsto> v)) U w')"
  unfolding touchProvider_def by (rule goes_bind, rule go_set(1) [OF H w]) (auto simp: goes_rules)

end
