(* ===== verification/Provider_Run.thy ===== *)
theory Provider_Run
  imports Provider_Client Progress
begin

text \<open>
  The reference provider against the service, end to end: each of its requests is carried
  through the handler that serves it, with the tables and the Redis values it leaves; the flow
  composes them.  Proved: the flow gets through on a deployment that answers, and leaves an
  offer that is served as active, and as busy after the busy signal.
\<close>

subsection \<open>Registration\<close>

text \<open>A deployment leaves room for a flow of \<open>D\<close> milliseconds when its settings do.\<close>

definition roomy :: "config \<Rightarrow> int \<Rightarrow> bool" where
  "roomy c D =
     (0 < D \<and> D \<le> 90000 \<and> 0 < checkpoints c \<and> checkpoints c dvd chainLen c \<and> 0 \<le> chainLen c \<and> chainLen c \<le> 2 ^ 40
      \<and> 0 \<le> samples c \<and> 3 * D \<le> challengeTtlMs c \<and> D \<le> maxLaneMs c \<and> D \<le> attestationTtlMs c
      \<and> D \<le> signedAtMaxFutureMs c \<and> 8 * 86400000 \<le> templateMaxAheadMs c \<and> 300000 \<le> termsMaxValidityMs c \<and> 600000 \<le> availMaxValidityMs c
      \<and> 0 < offerCapPerProvider c \<and> heartbeatMin c \<le> 60 \<and> 60 \<le> heartbeatMax c)"

lemma message_ok:
  assumes N: "noble_ok N" and K: "key_ok N priv pub" and p: "wf_js p" "plain_json p" "isPlainObject p"
    and t: "field p ''type'' = JStr (js ty)" "field p ''providerId'' = JStr (pub_address N pub)"
  obtains sig h where "signed_envelope N p priv = Some (envelope p sig)" "payloadHash N p = Inr h" "HASH_RE h" "is_ok (jcs p)"
    "readEnvelope N (Some (envelope p sig)) ty = Inr \<lparr>payload = p, signature = sig, hash = h, signer = pub_address N pub\<rparr>"
proof -
  have ok: "is_ok (jcs p)" using serialize_ok_iff [OF p(1)] p(2) by (simp add: jcs_def)
  from readEnvelope_signed [OF N K p(3) ok t] obtain sig h where "signPayload N p priv = Some sig" "payloadHash N p = Inr h"
      "readEnvelope N (Some (envelope p sig)) ty = Inr \<lparr>payload = p, signature = sig, hash = h, signer = pub_address N pub\<rparr>" by blast
  with ok that payloadHash_shape [OF N] show thesis by (auto simp: signed_envelope_def)
qed

lemma hashed: "is_ok (jcs p) \<Longrightarrow> \<exists>h. payloadHash N p = Inr h"
  by (auto simp: payloadHash_def payloadDigest_def jcsBytes_def jcs_def is_ok_iff)

definition signable :: "db \<Rightarrow> bool" where
  "signable d = (\<forall>r \<in> set (payload_log d). is_ok (jcs (l_payload r)))"

lemma signable_insert: "signable d \<Longrightarrow> is_ok (jcs (l_payload r)) \<Longrightarrow> signable (insert_log r d)"
  by (simp add: signable_def insert_log_def)

lemma logged: "l_hash ` set (payload_log (insert_log r d)) = insert (l_hash r) (l_hash ` set (payload_log d))"
  by (auto simp: insert_log_def)

lemma go_log:
  assumes H: "healthy E pub T D" and w: "deploy d f U w" and p: "is_ok (jcs p)" "signable d"
  shows "goes (logPayload E h ty prov p sig) w (\<lambda>_ w'. \<exists>d'. deploy d' f U w' \<and> signable d' \<and> h \<in> l_hash ` set (payload_log d')
    \<and> l_hash ` set (payload_log d) \<subseteq> l_hash ` set (payload_log d')
    \<and> providers d' = providers d \<and> attestations d' = attestations d \<and> offers d' = offers d)"
  unfolding logPayload_def
  by (rule goes_mono, rule go_pg [OF H w, where Q = "\<lambda>_ d'. signable d' \<and> h \<in> l_hash ` set (payload_log d')
    \<and> l_hash ` set (payload_log d) \<subseteq> l_hash ` set (payload_log d')
    \<and> providers d' = providers d \<and> attestations d' = attestations d \<and> offers d' = offers d"])
    (use signable_insert [OF p(2)] p(1) in \<open>auto simp: logged simp del: set_map image_iff\<close>)

lemma int_of_num [simp]: "int_of (num_of_int n) = n"
  by (simp add: int_of_def num_of_int_def)

lemma profile_fields:
  "field (profile_message who c) ''type'' = JStr (js ''profile/v1'')" "field (profile_message who c) ''providerId'' = JStr who"
  "field (profile_message who c) ''signedAt'' = JStr (toIso c)" "field (profile_message who c) ''contact'' = JUndef"
  "field (profile_message who c) ''displayName'' = JStr (js ''node-'' @ slice 2 8 who)"
  "field (profile_message who c) ''netEndpoints'' = JArr [JStr (js ''p2p://'' @ slice 2 10 who @ js ''.example'')]"
  "field (profile_message who c) ''heartbeatIntervalSec'' = num_of_int 60"
  "wf_js (profile_message who c)" "plain_json (profile_message who c)" "isPlainObject (profile_message who c)"
  by (simp_all add: profile_message_def obj_def isPlainObject_def jint_def num_of_int_def is_finite_num_def)

lemma slice_length: "length (slice a b xs) \<le> b - a"
  by (simp add: slice_def)

lemma go_validate:
  assumes H: "healthy E pub T D" and w: "deploy d f U w" and c: "now_in T D c" "iso_range c" and r: "roomy (cfg E) D"
  shows "goes (validateProfile E (profile_message who c)) w (\<lambda>_. deploy d f U)"
proof -
  have i: "is_integer (Fin 60)" "\<not> num_lt (Fin 60) (Fin (of_int (heartbeatMin (cfg E))))" "\<not> num_lt (Fin (of_int (heartbeatMax (cfg E)))) (Fin 60)"
    using r by (simp_all add: roomy_def is_integer_def num_lt_def)
  have n: "short_string 1 128 (JStr (js ''node-'' @ slice 2 8 who))" "short_string 1 256 (JStr (js ''p2p://'' @ slice 2 10 who @ js ''.example''))"
    using slice_length [of 2 8 who] slice_length [of 2 10 who] by (simp_all add: short_string_def)
  have t: "\<not> c > t + signedAtMaxFutureMs (cfg E)" if "now_in T D t" for t
    using that c(1) r by (auto simp: now_in_def roomy_def)
  show ?thesis
    unfolding validateProfile_def profile_fields
    by (rule goes_guard, simp add: parseIso_toIso [OF c(2)], rule goes_bind, rule go_time [OF H w], elim conjE)
      (auto intro!: goes_guard goes_pass simp: parseIso_toIso [OF c(2)] t n num_of_int_def i simp del: One_nat_def)
qed

text \<open>The tables after the registration: the provider is there, and offers nothing yet.\<close>

definition registered :: "bytes \<Rightarrow> db \<Rightarrow> bool" where
  "registered pid d =
     (signable d \<and> (\<exists>r. find_provider pid d = Some r \<and> pr_heartbeat r = 60) \<and> pid \<in> pr_id ` set (providers d))"

lemma go_postProvider:
  assumes H: "healthy E pub T D" and w: "deploy d f U w" and c: "now_in T D c" "iso_range c" and r: "roomy (cfg E) D"
    and f: "uncounted f" "''reg'' \<notin> U" "''profile'' \<notin> U"
    and vw: "readEnvelope (noble_fns E) req ''profile/v1'' = Inr vw" "payload vw = profile_message who c" "is_ok (jcs (payload vw))"
    and d: "find_provider (hexToBuf (signer vw)) d = None" "signable d"
  shows "goes (postProvider E ip req) w (\<lambda>r w'. status r = 201 \<and> (\<exists>d'. deploy d' f (insert ''profile'' (insert ''reg'' U)) w'
      \<and> registered (hexToBuf (signer vw)) d' \<and> attestations d' = attestations d \<and> offers d' = offers d))"
proof -
  let ?pid = "hexToBuf (signer vw)" and ?V = "insert ''profile'' (insert ''reg'' U)"
  have new: "?pid \<notin> pr_id ` set (providers d)" using d(1) by (simp add: find_provider_def find_key_None)
  have up: "goes (pg E (upsert_provider ?pid h c 60)) w (\<lambda>_ w'. \<exists>d''. deploy d'' f ?V w' \<and> registered ?pid d''
      \<and> attestations d'' = attestations d \<and> offers d'' = offers d)"
    if "deploy d' f ?V w" "signable d'" "h \<in> l_hash ` set (payload_log d')" "providers d' = providers d"
      "attestations d' = attestations d" "offers d' = offers d" for d' w h
    using that d(1) new
    by (intro goes_mono [OF go_pg [OF H that(1), where Q = "\<lambda>_ d''. registered ?pid d'' \<and> attestations d'' = attestations d \<and> offers d'' = offers d"]])
      (auto simp: upsert_provider_def find_provider_def registered_def signable_def find_append)
  show ?thesis
    unfolding postProvider_def Let_def
    apply (rule goes_bind, rule go_limited [OF H w f(1,2)], simp add: rl_registrationPerIp_def)
    apply (rule goes_lift, rule vw(1))
    apply (rule goes_bind, unfold vw(2), erule go_validate [OF H _ c r])
    apply (rule goes_bind, erule go_limited [OF H _ f(1)], simp add: f, simp add: rl_profilePerProvider_def)
    apply (rule goes_bind, erule go_read [OF H], elim conjE exE)
    apply (rule goes_guard, simp add: d)
    apply (rule goes_bind, erule go_log [OF H _ vw(3) [unfolded vw(2)] d(2)], elim conjE exE)
    apply (simp add: profile_fields parseIso_toIso [OF c(2)] d(1))
    apply (rule goes_bind, rule up, assumption+)
    apply (auto simp: goes_rules json_def d)
    done
qed

subsection \<open>The challenge\<close>

text \<open>What the provider declares is within the service's bounds.\<close>

definition sound_options :: "config \<Rightarrow> ClientOptions \<Rightarrow> int \<Rightarrow> bool" where
  "sound_options c opts n =
     (co_coreCount opts = Fin (of_int n) \<and> 0 < n \<and> n \<le> maxWorkers c \<and> n \<le> 256 \<and> (\<exists>x > 0. co_ramGib opts = Fin x)
      \<and> (\<forall>s. co_cpuModel opts = Some s \<longrightarrow> length s \<le> 128) \<and> isValidPrice (JStr (co_minPrice opts)))"

lemma request_fields:
  "field (request_message opts who c) ''type'' = JStr (js ''attest-request/v1'')" "field (request_message opts who c) ''providerId'' = JStr who"
  "field (request_message opts who c) ''signedAt'' = JStr (toIso c)" "field (request_message opts who c) ''model'' = JStr (js ''cpu/v1'')"
  "field (request_message opts who c) ''arch'' = JStr (js ''x64'')" "field (request_message opts who c) ''coreCount'' = JNum (co_coreCount opts)"
  "field (request_message opts who c) ''ramGib'' = JNum (co_ramGib opts)"
  "field (request_message opts who c) ''cpuModel'' =
     (case co_cpuModel opts of None \<Rightarrow> JUndef | Some s \<Rightarrow> if s = [] then JUndef else JStr s)"
  "isPlainObject (request_message opts who c)"
  by (auto simp: request_message_def obj_def isPlainObject_def split: option.split)

lemma request_json: "sound_options cf opts n \<Longrightarrow> wf_js (request_message opts who c)" "sound_options cf opts n \<Longrightarrow> plain_json (request_message opts who c)"
  by (auto simp: request_message_def obj_def sound_options_def is_finite_num_def split: option.split)

lemma go_check_request:
  assumes "sound_options (cfg E) opts n" and c: "iso_range c"
  shows "goes (check_request E (request_message opts who c)) w (\<lambda>_ w'. w' = w)"
proof -
  have o: "co_coreCount opts = Fin (of_int n)" "0 < n" "n \<le> maxWorkers (cfg E)" "\<exists>x > 0. co_ramGib opts = Fin x"
      "\<forall>s. co_cpuModel opts = Some s \<longrightarrow> length s \<le> 128" using assms(1) by (auto simp: sound_options_def)
  have n: "JNum (co_coreCount opts) = num_of_int n" by (simp add: num_of_int_def o)
  have p: "isPosInt (JNum (co_coreCount opts))" "int_of (JNum (co_coreCount opts)) = n"
    unfolding n using o(2) by (auto simp: isPosInt_iff)
  show ?thesis unfolding check_request_def request_fields
    using o(3-5) by (intro goes_guard goes_pass) (auto simp: p num_lt_def parseIso_toIso [OF c] split: option.splits if_splits)
qed

lemma service_signs: "healthy E pub T D \<Longrightarrow> is_ok (jcs p) \<Longrightarrow> \<exists>sig. signPayload (noble_fns E) p (svc_key E) = Some sig"
  using recover_sign [OF healthyD(1,2)] by blast

lemma service_address: "healthy E pub T D \<Longrightarrow> addressFromPrivateKey (noble_fns E) (svc_key E) = Some (pub_address (noble_fns E) pub)"
  using healthyD(2) by (simp add: addressFromPrivateKey_def key_ok_def)

lemma challenge_json: "is_ok (jcs (challenge_payload E cid who seed n now attester))"
proof -
  have "wf_js (challenge_payload E cid who seed n now attester)" "plain_json (challenge_payload E cid who seed n now attester)"
    by (simp_all add: challenge_payload_def obj_def jint_def num_of_int_def is_finite_num_def LANE_ORDER_def)
  then show ?thesis using serialize_ok_iff by (simp add: jcs_def)
qed

lemma go_postChallenge:
  assumes H: "healthy E pub T D" and w: "deploy d f U w" and c: "iso_range c" and r: "roomy (cfg E) D"
    and o: "sound_options (cfg E) opts n" and f: "uncounted f" "''chal-p'' \<notin> U" "''chal-ip'' \<notin> U"
    and vw: "readEnvelope (noble_fns E) req ''attest-request/v1'' = Inr vw" "payload vw = request_message opts who c"
    and d: "find_provider (hexToBuf (signer vw)) d \<noteq> None"
  shows "goes (postChallenge E req ip) w (\<lambda>r w'. status r = 201 \<and> (\<exists>cid sb now attester.
      HASH_RE cid \<and> now_in T D now \<and> field (body r) ''payload'' =
        challenge_payload E cid (signer vw) (hex_of sb) n now attester
      \<and> (\<exists>e \<ge> T + challengeTtlMs (cfg E). deploy d (f(KBench cid \<mapsto>
           (VBench (initial_state E (signer vw) (hex_of sb) (payload vw) now), Some e)))
           (insert ''chal-ip'' (insert ''chal-p'' U)) w')))"
proof -
  note h = noble_okD(1) [OF healthyD(1) [OF H]]
  have n: "int_of (JNum (co_coreCount opts)) = n" using o by (simp add: sound_options_def int_of_def)
  show ?thesis
    unfolding postChallenge_def Let_def
    apply (rule goes_lift, rule vw(1))
    apply (rule goes_bind, rule go_read [OF H w], elim conjE exE)
    apply (rule goes_guard, simp add: d)
    apply (rule goes_bind, unfold vw(2), rule go_check_request [OF o c])
    apply (rule goes_bind, hypsubst, erule go_rate [OF H _ f(1,2)], simp add: rl_challengePerProvider_def, elim conjE)
    apply (rule goes_bind, erule go_rate [OF H _ f(1)], simp add: f, simp add: rl_challengePerIp_def, elim conjE)
    apply (rule goes_guard, simp)
    apply (rule goes_bind, erule go_time [OF H], elim conjE)
    apply (rule goes_bind, erule go_random [OF H], elim conjE)
    apply (rule goes_bind, erule go_random [OF H], elim conjE)
    apply (rule goes_or, rule service_address [OF H])
    apply (rule exE [OF service_signs [OF H challenge_json]])
    apply (rule goes_or, assumption)
    apply (rule goes_bind, erule go_setBench [OF H], elim conjE exE)
    apply (rule goes_guard, simp)
    apply (simp add: goes_rules json_def request_fields n h)
    apply (blast intro: HASH_RE_hex)
    done
qed

subsection \<open>The lanes\<close>

text \<open>The state of a challenge whose lanes \<open>L\<close> are done and whose others wait.\<close>

definition lane_phase :: "env \<Rightarrow> int \<Rightarrow> int \<Rightarrow> jstr \<Rightarrow> bytes \<Rightarrow> int \<Rightarrow> LaneId set \<Rightarrow> BenchState \<Rightarrow> bool" where
  "lane_phase E T D who sb n L st =
     (bs_providerId st = who \<and> bs_seed st = hex_of sb \<and> bs_chainLen st = chainLen (cfg E)
      \<and> bs_checkpoints st = checkpoints (cfg E) \<and> bs_samples st = samples (cfg E)
      \<and> T + 2 * D \<le> bs_deadlineMs st \<and> is_finite_num (bs_ramGib st)
      \<and> (\<forall>l. ls_workers (bs_lanes st l) = laneWorkers n l)
      \<and> (\<forall>l. ls_status (bs_lanes st l) = (if l \<in> L then LaneDone else LanePending))
      \<and> (\<forall>l \<in> L. \<exists>e < D. ls_elapsedMs (bs_lanes st l) = Some e))"

definition started :: "LaneId \<Rightarrow> int \<Rightarrow> bytes \<Rightarrow> BenchState \<Rightarrow> BenchState" where
  "started l now nb = upd_lane l (\<lambda>s. s\<lparr>ls_status := LaneStarted, ls_issuedAt := Some now, ls_nonce := Some (hex_of nb)\<rparr>)"

lemma lane_of_name: "lane_of (js (lane_name l)) = Some l"
  by (cases l) (simp_all add: lane_of_def LANE_ORDER_def)

lemma go_loadState:
  assumes H: "healthy E pub T D" and w: "deploy d f U w" and c: "HASH_RE cid" and k: "f (KBench cid) = Some (VBench st, Some e)" "T + D \<le> e"
  shows "goes (loadState E cid) w (\<lambda>s w'. s = st \<and> deploy d f U w')"
  unfolding loadState_def
  by (rule goes_guard, simp add: c, rule goes_bind, rule go_getBench [OF H w k]) (simp add: goes_rules)

lemma go_lane: "goes (laneOrThrow (js (lane_name l))) w (\<lambda>k w'. k = l \<and> w' = w)"
  by (simp add: laneOrThrow_def lane_of_name goes_rules)

lemma go_start:
  assumes H: "healthy E pub T D" and w: "deploy d f U w" and c: "HASH_RE cid" and k: "f (KBench cid) = Some (VBench st, Some e)" "T + D \<le> e"
    and p: "lane_phase E T D who sb n L st" "l \<notin> L" "set (takeWhile (\<lambda>p. p \<noteq> l) LANE_ORDER) \<subseteq> L" and D: "0 < D"
  shows "goes (postLaneStart E cid (js (lane_name l))) w (\<lambda>r w'. status r = 200 \<and> (\<exists>nb now e'. now_in T D now
      \<and> field (body r) ''laneNonce'' = JStr (ox (hex_of nb)) \<and> T + D \<le> e'
      \<and> deploy d (f(KBench cid \<mapsto> (VBench (started l now nb st), Some e'))) U w'))"
proof -
  note h = noble_okD(1) [OF healthyD(1) [OF H]]
  have st: "ls_status (bs_lanes st l) = LanePending" "\<And>q. q \<in> L \<Longrightarrow> ls_status (bs_lanes st q) = LaneDone"
      "T + 2 * D \<le> bs_deadlineMs st" using p(1,2) by (auto simp: lane_phase_def)
  have set: "goes (setBench E cid (started l now nb st) (bs_deadlineMs st - now)) v (\<lambda>_ w'.
      \<exists>e' \<ge> T + D. deploy d (f(KBench cid \<mapsto> (VBench (started l now nb st), Some e'))) U w')"
    if "deploy d f U v" "now_in T D now" for v now nb
    using st(3) that(2) by (intro go_setBench_by [OF H that(1)]) (simp add: now_in_def)
  show ?thesis
    unfolding postLaneStart_def Let_def
    apply (rule goes_bind, rule go_loadState [OF H w c k], elim conjE)
    apply (rule goes_bind, erule go_time [OF H], elim conjE)
    apply (rule goes_guard, use st(3) D in \<open>simp add: now_in_def\<close>)
    apply (rule goes_bind, rule go_lane, elim conjE)
    apply (rule goes_guard, simp add: st)
    apply (rule goes_guard, use p(3) st(2) in \<open>auto\<close>)
    apply (rule goes_bind, rule go_random [OF H], assumption, elim conjE)
    apply (rule goes_bind, unfold h started_def [symmetric], rule set, assumption, assumption)
    apply (simp add: goes_rules json_def, blast)
    done
qed

text \<open>The parameters the server checks a lane against.\<close>

definition server_params :: "env \<Rightarrow> jstr \<Rightarrow> bytes \<Rightarrow> bytes \<Rightarrow> LaneId \<Rightarrow> LaneParams" where
  "server_params E who sb nb l =
     \<lparr>lp_seed = sb, lp_laneNonce = nb, lp_providerId = who, lp_laneId = js (lane_name l),
      lp_chainLen = nat (chainLen (cfg E)), lp_checkpoints = nat (checkpoints (cfg E)), lp_samples = nat (samples (cfg E))\<rparr>"

lemma lane_fields:
  "field (lane_message who cid laneId proofs) ''type'' = JStr (js ''lane-proof/v1'')" "field (lane_message who cid laneId proofs) ''providerId'' = JStr who"
  "field (lane_message who cid laneId proofs) ''challengeId'' = JStr cid" "field (lane_message who cid laneId proofs) ''laneId'' = JStr laneId"
  "field (lane_message who cid laneId proofs) ''workers'' = JArr (map proof_js proofs)" "isPlainObject (lane_message who cid laneId proofs)"
  by (simp_all add: lane_message_def obj_def isPlainObject_def)

lemma proof_json: "wf_js (proof_js x)" "plain_json (proof_js x)"
  by (auto simp: proof_js_def opening_js_def num_of_int_def is_finite_num_def split: option.split)

lemma lane_json: "wf_js (lane_message who cid laneId proofs)" "plain_json (lane_message who cid laneId proofs)"
  by (auto simp: lane_message_def obj_def proof_json)

lemma go_submit_checks:
  assumes H: "healthy E pub T D" and w: "deploy d f U w" and c: "HASH_RE cid" and r: "roomy (cfg E) D"
    and k: "f (KBench cid) = Some (VBench (started l now nb st), Some e)" "T + D \<le> e" and t: "now_in T D now"
    and p: "lane_phase E T D who sb n L st"
    and vw: "readEnvelope (noble_fns E) req ''lane-proof/v1'' = Inr vw" "payload vw = lane_message who cid (js (lane_name l)) proofs" "signer vw = who"
  shows "goes (submit_checks E cid (js (lane_name l)) req) w (\<lambda>s w'. deploy d f U w' \<and> (\<exists>el < D. \<exists>rt. now_in T D rt \<and>
      s = \<lparr>sb_state = started l now nb st, sb_lane = l, sb_receivedAt = rt, sb_elapsedMs = el,
           sb_params = server_params E who sb nb l, sb_proofs = JArr (map proof_js proofs)\<rparr>))"
proof -
  note N = healthyD(1) [OF H]
  have hex: "hexToBytes (noble_fns E) (hex_of b) = Some b" for b by (simp add: noble_okD [OF N])
  have st: "bs_providerId (started l now nb st) = who" "bs_seed (started l now nb st) = hex_of sb" "T + 2 * D \<le> bs_deadlineMs (started l now nb st)"
      "bs_lanes (started l now nb st) l = (bs_lanes st l)\<lparr>ls_status := LaneStarted, ls_issuedAt := Some now, ls_nonce := Some (hex_of nb)\<rparr>"
      "bs_chainLen (started l now nb st) = chainLen (cfg E)" "bs_checkpoints (started l now nb st) = checkpoints (cfg E)"
      "bs_samples (started l now nb st) = samples (cfg E)"
    using p by (simp_all add: lane_phase_def started_def upd_lane_def)
  have D: "0 < D" "D \<le> maxLaneMs (cfg E)" using r by (simp_all add: roomy_def)
  show ?thesis
    unfolding submit_checks_def Let_def
    apply (rule goes_lift, rule vw(1))
    apply (rule goes_bind, rule go_time [OF H w], elim conjE)
    apply (rule goes_bind, erule go_loadState [OF H], rule c, rule k(1), rule k(2), elim conjE)
    apply (rule goes_guard, simp add: st vw)
    apply (rule goes_guard, simp add: vw lane_fields)
    apply (rule goes_guard, use st(3) D in \<open>simp add: now_in_def\<close>)
    apply (rule goes_bind, rule go_lane, elim conjE)
    apply (rule goes_guard, simp add: st)
    apply (rule goes_or, simp add: st)
    apply (rule goes_bind [where P = "\<lambda>_ w'. deploy d f U w'"], use t D in \<open>simp add: goes_rules now_in_def\<close>)
    apply (rule goes_or, simp add: st hex)
    apply (rule goes_or, simp add: st hex)
    apply (use t in \<open>auto simp: goes_rules st vw lane_fields server_params_def now_in_def\<close>)
    done
qed

subsection \<open>The attestation\<close>

lemma fl_bounded: "0 \<le> x \<Longrightarrow> x \<le> 2 ^ 58 \<Longrightarrow> fl x = Fin (fl_val x)"
proof -
  assume x: "0 \<le> x" "x \<le> 2 ^ 58"
  have "fl_val (of_int 1 * 2 powi 58) = of_int 1 * 2 powi 58" by (rule fl_val_dyadic) simp_all
  then have "fl_val x \<le> 2 ^ 58" using fl_val_mono [OF x(2)] by simp
  moreover have "0 \<le> fl_val x" by (rule fl_val_nonneg [OF x(1)])
  moreover have "(2 :: rat) ^ 58 < 2 ^ 1024" by (rule power_strict_increasing) simp_all
  ultimately show ?thesis by (simp add: fl_def Let_def)
qed

lemma score_finite:
  assumes "0 \<le> k" "k \<le> 256" "0 \<le> L" "L \<le> 2 ^ 40" "1 \<le> e" "e \<le> 120000"
  shows "is_finite_num (laneScore k L (Fin (of_int e)))"
proof -
  have "k * L \<le> 256 * 2 ^ 40" using assms by (intro mult_mono) auto
  then have m: "of_int 0 \<le> (of_int (k * L) :: rat)" "(of_int (k * L) :: rat) \<le> of_int (2 ^ 48)"
    using assms by (simp_all only: of_int_le_iff) simp_all
  obtain r where r: "num_mul (Fin (of_int k)) (Fin (of_int L)) = Fin r" "0 \<le> r" "r \<le> 2 ^ 48"
    using fl_between_ints [OF m] by auto
  have "(1 :: rat) \<le> of_int e" "of_int e \<le> (120000 :: rat)" using assms(5,6) by (simp_all only: of_int_1_le_iff of_int_le_numeral_iff)
  then have q: "1 / 1024 \<le> of_int e / (1000 :: rat)" "of_int e / (1000 :: rat) \<le> 2 ^ 58" by simp_all
  have "fl_val (of_int 1 * 2 powi (- 10)) = of_int 1 * 2 powi (- 10)" by (rule fl_val_dyadic) simp_all
  then have "1 / 1024 \<le> fl_val (of_int e / 1000)" using fl_val_mono [OF q(1)] by (simp add: power_int_minus)
  moreover have "num_div (Fin (of_int e)) (Fin 1000) = Fin (fl_val (of_int e / 1000))"
    using fl_bounded [OF _ q(2)] q(1) by simp
  ultimately obtain s where s: "num_div (Fin (of_int e)) (Fin 1000) = Fin s" "1 / 1024 \<le> s" by blast
  have "r / s \<le> 2 ^ 48 / (1 / 1024)" using r s by (intro frac_le) auto
  moreover have "0 \<le> r / s" using r s by (intro divide_nonneg_pos) auto
  ultimately have "fl (r / s) = Fin (fl_val (r / s))" by (intro fl_bounded) simp_all
  then show ?thesis using r(1) s by (simp add: laneScore_def is_finite_num_def)
qed

lemma attestation_json:
  assumes r: "roomy (cfg E) D" and n: "0 < n" "n \<le> 256" and p: "lane_phase E T D who sb n UNIV st"
  shows "is_ok (jcs (attestation_payload E cid st t attester))"
proof -
  have f: "is_finite_num (lane_score st l)" for l
  proof -
    obtain e where e: "ls_elapsedMs (bs_lanes st l) = Some e" "e < D"
      using p unfolding lane_phase_def by blast
    have "0 \<le> laneWorkers n l" "laneWorkers n l \<le> 256" using n by (simp_all add: laneWorkers_def split: LaneId.split)
    then show ?thesis unfolding lane_score_def
      using p e r by (intro score_finite) (simp_all add: lane_phase_def roomy_def)
  qed
  have "wf_js (attestation_payload E cid st t attester)" "plain_json (attestation_payload E cid st t attester)"
    using f p by (cases "bs_cpuModel st"; simp add: attestation_payload_def obj_def jint_def num_of_int_def lane_phase_def
        is_finite_num_def [of "Fin _"])+
  then show ?thesis using serialize_ok_iff by (simp add: jcs_def)
qed

text \<open>The provider's attestation as the tables hold it.\<close>

definition attested :: "config \<Rightarrow> int \<Rightarrow> bytes \<Rightarrow> jstr \<Rightarrow> db \<Rightarrow> bool" where
  "attested c T pid aid d =
     (HASH_RE aid \<and> registered pid d \<and> hexToBuf aid \<in> l_hash ` set (payload_log d)
      \<and> (\<exists>a. find_att (hexToBuf aid) d = Some a \<and> at_provider a = pid \<and> at_model a = ''cpu/v1'' \<and> at_id a = hexToBuf aid
           \<and> T + attestationTtlMs c \<le> at_expires a))"

lemma go_close:
  assumes H: "healthy E pub T D" and w: "deploy d f U w" and r: "roomy (cfg E) D" and n: "0 < n" "n \<le> 256"
    and p: "lane_phase E T D who sb n UNIV st" and d: "registered (hexToBuf who) d" "attestations d = []" and t: "now_in T D rt"
  shows "goes (close_bench E cid st l rt el) w (\<lambda>r w'. status r = 200 \<and> (\<exists>aid d'.
      truthy (field (body r) ''attestation'') \<and> field (field (body r) ''attestation'') ''attestationId'' = JStr aid
      \<and> deploy d' (f(KBench cid := None)) U w' \<and> attested (cfg E) T (hexToBuf who) aid d' \<and> offers d' = offers d))"
proof -
  let ?att = "\<lambda>a. attestation_payload E cid st rt a" and ?pid = "hexToBuf who"
  note N = healthyD(1) [OF H]
  have ok: "is_ok (jcs (?att a))" for a by (rule attestation_json [OF r n p])
  have hash: "\<exists>h. payloadHash (noble_fns E) (?att a) = Inr h" for a by (rule hashed [OF ok])
  have row: "at_provider (attestation_row E i st rt s) = ?pid" "at_id (attestation_row E i st rt s) = i"
      "at_model (attestation_row E i st rt s) = ''cpu/v1''" "at_expires (attestation_row E i st rt s) = rt + attestationTtlMs (cfg E)" for i s
    using p by (simp_all add: attestation_row_def lane_phase_def)
  have ins: "goes (pg E (\<lambda>_. insert_attestation (attestation_row E (hexToBuf h) st rt s))) v
      (\<lambda>_ w'. \<exists>d''. deploy d'' f U w' \<and> attested (cfg E) T ?pid h d'' \<and> offers d'' = offers d)"
    if "deploy d' f U v" "signable d'" "hexToBuf h \<in> l_hash ` set (payload_log d')" "providers d' = providers d"
      "attestations d' = attestations d" "offers d' = offers d" "HASH_RE h" for d' h s v
    using that d t row
    by (intro goes_mono [OF go_pg [OF H that(1), where Q = "\<lambda>_ d''. attested (cfg E) T ?pid h d'' \<and> offers d'' = offers d"]])
      (auto simp: insert_attestation_def attested_def registered_def find_provider_def find_att_def signable_def now_in_def)
  have who: "bs_providerId st = who" using p by (simp add: lane_phase_def)
  show ?thesis
    unfolding close_bench_def Let_def who
    apply (rule goes_or, rule service_address [OF H])
    apply (rule exE [OF service_signs [OF H ok]])
    apply (rule goes_or, assumption)
    apply (rule exE [OF hash [of "pub_address (noble_fns E) pub"]])
    apply (rule goes_bind [where P = "\<lambda>h w'. w' = w \<and> payloadHash (noble_fns E) (?att (pub_address (noble_fns E) pub)) = Inr h \<and> HASH_RE h"],
        simp add: goes_rules payloadHash_shape [OF N], elim conjE)
    apply (hypsubst, rule goes_bind, rule go_log [OF H w ok], use d in \<open>simp add: registered_def\<close>, elim conjE exE)
    apply (rule goes_bind, rule ins, assumption+, elim conjE exE)
    apply (rule goes_bind, erule go_dropBench [OF H])
    apply (rule goes_lift, simp add: envelopeOut_def)
    apply (simp add: goes_rules json_def, blast)
    done
qed

subsection \<open>Submissions\<close>

definition finished :: "LaneId \<Rightarrow> int \<Rightarrow> BenchState \<Rightarrow> BenchState" where
  "finished l el = upd_lane l (\<lambda>s. s\<lparr>ls_status := LaneDone, ls_elapsedMs := Some el\<rparr>)"

lemma finished_phase:
  assumes "lane_phase E T D who sb n L st" and "el < D"
  shows "lane_phase E T D who sb n (insert l L) (finished l el (started l now nb st))"
  using assms by (auto simp: lane_phase_def finished_def started_def upd_lane_def)

lemma submitted:
  assumes H: "healthy E pub T D" and w: "deploy d f U w" and c: "HASH_RE cid" and r: "roomy (cfg E) D"
    and k: "f (KBench cid) = Some (VBench (started l now nb st), Some e)" "T + D \<le> e" and t: "now_in T D now"
    and p: "lane_phase E T D who sb n L st"
    and vw: "readEnvelope (noble_fns E) req ''lane-proof/v1'' = Inr vw" "payload vw = lane_message who cid (js (lane_name l)) proofs" "signer vw = who"
    and ok: "verifyLane (noble_fns E) (server_params E who sb nb l) (nat (laneWorkers n l)) cid (JArr (map proof_js proofs)) = Some (Inr LaneOk)"
  obtains el rt w1 sub where "deploy d f U w1" "el < D" "now_in T D rt" "sub = \<lparr>sb_state = started l now nb st, sb_lane = l, sb_receivedAt = rt,
        sb_elapsedMs = el, sb_params = server_params E who sb nb l, sb_proofs = JArr (map proof_js proofs)\<rparr>"
    "postLaneSubmit E cid (js (lane_name l)) req w = Some (submit_result E cid (js (lane_name l)) sub LaneOk w1)"
proof -
  from go_submit_checks [OF H w c r k t p vw] obtain el rt w1 sub where 1: "deploy d f U w1" "el < D" "now_in T D rt" "sub = \<lparr>sb_state = started l now nb st,
        sb_lane = l, sb_receivedAt = rt, sb_elapsedMs = el, sb_params = server_params E who sb nb l, sb_proofs = JArr (map proof_js proofs)\<rparr>"
      "submit_checks E cid (js (lane_name l)) req w = (Inr sub, w1)" by (auto simp: goes_def)
  have "ls_workers (bs_lanes (started l now nb st) l) = laneWorkers n l" using p by (simp add: lane_phase_def started_def upd_lane_def)
  then have "run_verifier E cid sub = Some (Inr LaneOk)" using ok by (simp add: run_verifier_def 1(4))
  then have "postLaneSubmit E cid (js (lane_name l)) req w = Some (submit_result E cid (js (lane_name l)) sub LaneOk w1)"
    using 1(5) by (simp add: postLaneSubmit_def)
  from that [OF 1(1-4) this] show thesis .
qed

lemma go_submit_next:
  assumes H: "healthy E pub T D" and w: "deploy d f U w" and p: "lane_phase E T D who sb n L st" and l: "insert l L \<noteq> UNIV"
    and el: "el < D" "now_in T D rt" and sub: "sub = \<lparr>sb_state = started l now nb st, sb_lane = l, sb_receivedAt = rt,
        sb_elapsedMs = el, sb_params = q, sb_proofs = v\<rparr>"
  shows "goes (submit_result E cid name sub LaneOk) w (\<lambda>r w'. status r = 200 \<and> field (body r) ''attestation'' = JUndef
     \<and> (\<exists>st' e'. lane_phase E T D who sb n (insert l L) st' \<and> T + D \<le> e' \<and> deploy d (f(KBench cid \<mapsto> (VBench st', Some e'))) U w'))"
proof -
  let ?st = "finished l el (started l now nb st)"
  have ph: "lane_phase E T D who sb n (insert l L) ?st" by (rule finished_phase [OF p el(1)])
  then have "\<not> (\<forall>k \<in> set LANE_ORDER. ls_status (bs_lanes ?st k) = LaneDone)" using l by (auto simp: lane_phase_def)
  then have s: "submit_result E cid name sub LaneOk =
      seqI (setBench E cid ?st (bs_deadlineMs (started l now nb st) - rt)) (\<lambda>_.
        ret (json 200 [(''verified'', JBool True), (''elapsedMs'', jint el), (''workers'', jint (ls_workers (bs_lanes ?st l)))]))"
    unfolding submit_result_def Let_def sub finished_def [symmetric] by auto
  have b: "T + D \<le> T + (bs_deadlineMs (started l now nb st) - rt)"
    using p el(2) by (simp add: lane_phase_def started_def upd_lane_def now_in_def)
  show ?thesis unfolding s
    by (rule goes_bind, rule go_setBench_by [OF H w b]) (use ph in \<open>auto simp: goes_rules json_def\<close>)
qed

lemma go_submit_last:
  assumes H: "healthy E pub T D" and w: "deploy d f U w" and r: "roomy (cfg E) D" and n: "0 < n" "n \<le> 256"
    and p: "lane_phase E T D who sb n L st" and l: "insert l L = UNIV" and d: "registered (hexToBuf who) d" "attestations d = []"
    and el: "el < D" "now_in T D rt" and sub: "sub = \<lparr>sb_state = started l now nb st, sb_lane = l, sb_receivedAt = rt,
        sb_elapsedMs = el, sb_params = q, sb_proofs = v\<rparr>"
  shows "goes (submit_result E cid name sub LaneOk) w (\<lambda>r w'. status r = 200 \<and> (\<exists>aid d'.
      truthy (field (body r) ''attestation'') \<and> field (field (body r) ''attestation'') ''attestationId'' = JStr aid
      \<and> deploy d' (f(KBench cid := None)) U w' \<and> attested (cfg E) T (hexToBuf who) aid d' \<and> offers d' = offers d))"
proof -
  let ?st = "finished l el (started l now nb st)"
  have ph: "lane_phase E T D who sb n UNIV ?st" using finished_phase [OF p el(1), of l now nb] l by simp
  then have "\<forall>k \<in> set LANE_ORDER. ls_status (bs_lanes ?st k) = LaneDone" by (auto simp: lane_phase_def)
  then have s: "submit_result E cid name sub LaneOk = close_bench E cid ?st l rt el"
    unfolding submit_result_def Let_def sub finished_def [symmetric] by simp
  show ?thesis unfolding s by (rule go_close [OF H w r n ph d el(2)])
qed

subsection \<open>The client's side\<close>

definition goesC :: "'a client \<Rightarrow> world \<Rightarrow> ('a \<Rightarrow> world \<Rightarrow> bool) \<Rightarrow> bool" where
  "goesC m w Q = (\<exists>a w'. m w = Some (Inr a, w') \<and> Q a w')"

lemma goesC_bind: "goesC m w P \<Longrightarrow> (\<And>a w'. P a w' \<Longrightarrow> goesC (f a) w' Q) \<Longrightarrow> goesC (bindC m f) w Q"
  by (fastforce simp: goesC_def bindC_def)

lemma goesC_ret: "goesC (retC a) w Q \<longleftrightarrow> Q a w"
  by (auto simp: goesC_def retC_def)

lemma goesC_or: "x = Some a \<Longrightarrow> goesC (f a) w Q \<Longrightarrow> goesC (bindC (or_broken x) f) w Q"
  by (simp add: goesC_def bindC_def or_broken_def retC_def)

lemma goesC_checked:
  assumes "handle E X ip rq w = Some (m w)" and "goes m w (\<lambda>r w'. status r < 400 \<and> Q (body r) w')"
  shows "goesC (checked stage (post E X ip rq)) w Q"
  using assms by (auto simp: goes_def goesC_def checked_def bindC_def post_def respond_def wrap_def retC_def)

lemma goesC_signed:
  assumes "signed_envelope (noble_fns E) p priv = Some e" and "handle E X ip (route (Some e)) w = Some (m w)"
    and "goes m w (\<lambda>r w'. status r < 400 \<and> Q (body r) w')"
  shows "goesC (send_signed E X ip priv stage route p) w Q"
  unfolding send_signed_def using assms by (intro goesC_or goesC_checked) auto

lemma as_count_int: "0 \<le> n \<Longrightarrow> as_count (jint n) = Some (nat n)"
  by (simp add: jint_def num_of_int_def)

lemma lanes_read: "0 \<le> n \<Longrightarrow> mapO read_lane (map (\<lambda>l. obj [(''laneId'', JStr (js (lane_name l))), (''workers'', jint (laneWorkers n l))]) ls)
    = Some (map (\<lambda>l. (js (lane_name l), nat (laneWorkers n l))) ls)"
proof (induction ls)
  case (Cons l ls)
  have "0 \<le> laneWorkers n l" using Cons.prems by (simp add: laneWorkers_def split: LaneId.split)
  then show ?case using Cons by (simp add: read_lane_def obj_def as_count_int)
qed simp

lemma challenge_read:
  assumes "roomy (cfg E) D" and "0 \<le> n"
  shows "read_challenge (challenge_payload E cid who seed n t a) = Some \<lparr>ch_id = cid, ch_seed = ox seed, ch_chainLen = nat (chainLen (cfg E)),
     ch_checkpoints = nat (checkpoints (cfg E)), ch_samples = nat (samples (cfg E)),
     ch_lanes = map (\<lambda>l. (js (lane_name l), nat (laneWorkers n l))) LANE_ORDER\<rparr>"
  using assms lanes_read [OF assms(2), of LANE_ORDER]
  by (simp add: read_challenge_def challenge_payload_def obj_def as_count_int roomy_def jarr_def)

text \<open>The sampling loop ends after \<open>k\<close> draws at the latest.\<close>

definition samples_end :: "env \<Rightarrow> nat \<Rightarrow> bool" where
  "samples_end E k = (\<forall>h. min (nat (samples (cfg E))) (nat (checkpoints (cfg E)))
     \<le> card (draw_index (noble_fns E) h (nat (checkpoints (cfg E))) ` {..<k}))"

lemma hex_tail: "HASH_RE c \<or> ADDRESS_RE c \<Longrightarrow> noble_ok N \<Longrightarrow> \<exists>b. hexToBytesR N (slice_from 2 c) = Inr b"
proof -
  assume c: "HASH_RE c \<or> ADDRESS_RE c" and N: "noble_ok N"
  have "list_all is_hex (drop 2 c)" using c by (auto simp: HASH_RE_def ADDRESS_RE_def list_all_iff)
  moreover have "even (length (drop 2 c))" using c by (auto simp: HASH_RE_def ADDRESS_RE_def)
  ultimately show ?thesis using unhex_total [of "drop 2 c"] by (auto simp: hexToBytesR_def noble_okD [OF N] slice_from_def)
qed

lemma lane_proved:
  assumes N: "noble_ok (noble_fns E)" and r: "roomy (cfg E) D" and k: "samples_end E k" and c: "HASH_RE cid" "ADDRESS_RE who"
  obtains proofs where "proveLane (noble_fns E) (server_params E who sb nb l) m cid = Some (Inr proofs)"
    "verifyLane (noble_fns E) (server_params E who sb nb l) m cid (JArr (map proof_js proofs)) = Some (Inr LaneOk)"
proof -
  let ?p = "server_params E who sb nb l"
  obtain a b where hex: "hexToBytesR (noble_fns E) (slice_from 2 (lp_providerId ?p)) = Inr a" "hexToBytesR (noble_fns E) (slice_from 2 cid) = Inr b"
    using hex_tail [of cid, OF _ N] hex_tail [of who, OF _ N] c by (auto simp: server_params_def)
  have q: "0 < lp_checkpoints ?p" "lp_checkpoints ?p dvd lp_chainLen ?p"
    using r by (auto simp: server_params_def roomy_def nat_dvd_iff)
  have s: "min (lp_samples ?p) (lp_checkpoints ?p) \<le> card (draw_index (noble_fns E) h (lp_checkpoints ?p) ` {..<k})" for h
    using k by (simp add: samples_end_def server_params_def)
  obtain proofs where 1: "proveLane (noble_fns E) ?p m cid = Some (Inr proofs)" using proveLane_returns [OF q hex s] by blast
  from proveLane_accepted [OF N q(1) this] that [OF 1] show thesis by blast
qed

text \<open>The challenge the client read.\<close>

definition client_challenge :: "env \<Rightarrow> jstr \<Rightarrow> bytes \<Rightarrow> int \<Rightarrow> Challenge" where
  "client_challenge E cid sb n = \<lparr>ch_id = cid, ch_seed = ox (hex_of sb), ch_chainLen = nat (chainLen (cfg E)),
     ch_checkpoints = nat (checkpoints (cfg E)), ch_samples = nat (samples (cfg E)),
     ch_lanes = map (\<lambda>l. (js (lane_name l), nat (laneWorkers n l))) LANE_ORDER\<rparr>"

lemma ox_tail: "slice_from 2 (ox s) = s"
  by (simp add: ox_def slice_from_def)

lemma params_agree:
  assumes "noble_ok (noble_fns E)" and "field start ''laneNonce'' = JStr (ox (hex_of nb))"
  shows "lane_params (noble_fns E) who (client_challenge E cid sb n) (js (lane_name l)) start = Some (server_params E who sb nb l)"
  using assms(2) by (simp add: lane_params_def client_challenge_def server_params_def noble_okD [OF assms(1)] ox_tail)

text \<open>One lane: started, proved and submitted; what comes back is \<open>r\<close> of \<open>submit_result\<close>.\<close>

lemma goC_lane:
  assumes H: "healthy E pub T D" and K: "key_ok (noble_fns E) priv mine" and who: "who = pub_address (noble_fns E) mine"
    and R: "roomy (cfg E) D" and S: "samples_end E m" and w: "deploy d (f(KBench cid \<mapsto> (VBench st, Some e))) U w"
    and c: "HASH_RE cid" and e: "T + D \<le> e"
    and p: "lane_phase E T D who sb n L st" "l \<notin> L" "set (takeWhile (\<lambda>p. p \<noteq> l) LANE_ORDER) \<subseteq> L"
    and rest: "\<And>f' st' el rt now nb q v sub w1. deploy d f' U w1 \<Longrightarrow> f'(KBench cid := None) = f(KBench cid := None) \<Longrightarrow>
        el < D \<Longrightarrow> now_in T D rt \<Longrightarrow> sub = \<lparr>sb_state = started l now nb st, sb_lane = l, sb_receivedAt = rt, sb_elapsedMs = el,
          sb_params = q, sb_proofs = v\<rparr> \<Longrightarrow>
        goes (submit_result E cid (js (lane_name l)) sub LaneOk) w1 (\<lambda>r w'. status r < 400 \<and>
          goesC (run_lanes E X ip priv who (client_challenge E cid sb n) rest
            (if truthy (field (body r) ''attestation'') then field (body r) ''attestation'' else att)) w' Q)"
  shows "goesC (run_lanes E X ip priv who (client_challenge E cid sb n) ((js (lane_name l), nat (laneWorkers n l)) # rest) att) w Q"
proof -
  note N = healthyD(1) [OF H]
  let ?f = "f(KBench cid \<mapsto> (VBench st, Some e))" and ?c = "client_challenge E cid sb n" and ?l = "js (lane_name l)"
  have D: "0 < D" using R by (simp add: roomy_def)
  have id: "ch_id ?c = cid" by (simp add: client_challenge_def)
  have start: "goesC (checked ''start'' (post E X ip (LaneStart cid ?l))) w (\<lambda>b w'. \<exists>nb now e'. now_in T D now
      \<and> field b ''laneNonce'' = JStr (ox (hex_of nb)) \<and> T + D \<le> e'
      \<and> deploy d (?f(KBench cid \<mapsto> (VBench (started l now nb st), Some e'))) U w')"
    by (rule goesC_checked [where m = "postLaneStart E cid ?l"], simp, rule goes_mono,
        rule go_start [OF H w c, where e = e], use e p D in simp_all) (elim conjE, simp)
  have submit: "goesC (send_signed E X ip priv ''submit'' (LaneSubmit cid ?l) (lane_message who cid ?l proofs)) w1
      (\<lambda>b w'. goesC (run_lanes E X ip priv who ?c rest (if truthy (field b ''attestation'') then field b ''attestation'' else att)) w' Q)"
    if nb: "now_in T D now" "T + D \<le> e'" and w1: "deploy d (?f(KBench cid \<mapsto> (VBench (started l now nb st), Some e'))) U w1"
      and ok: "verifyLane (noble_fns E) (server_params E who sb nb l) (nat (laneWorkers n l)) cid (JArr (map proof_js proofs)) = Some (Inr LaneOk)"
    for now nb e' proofs w1
  proof -
    let ?m = "lane_message who cid ?l proofs"
    obtain sig h where m: "signed_envelope (noble_fns E) ?m priv = Some (envelope ?m sig)"
        "readEnvelope (noble_fns E) (Some (envelope ?m sig)) ''lane-proof/v1'' =
          Inr \<lparr>payload = ?m, signature = sig, hash = h, signer = pub_address (noble_fns E) mine\<rparr>"
      by (rule message_ok [OF N K lane_json lane_fields(6) lane_fields(1)]) (simp_all add: lane_fields who)
    let ?g = "?f(KBench cid \<mapsto> (VBench (started l now nb st), Some e'))"
    have g: "?g (KBench cid) = Some (VBench (started l now nb st), Some e')" "?g(KBench cid := None) = f(KBench cid := None)" by simp_all
    have sw: "payload \<lparr>payload = ?m, signature = sig, hash = h, signer = pub_address (noble_fns E) mine\<rparr> = ?m"
        "signer \<lparr>payload = ?m, signature = sig, hash = h, signer = pub_address (noble_fns E) mine\<rparr> = who" by (simp_all add: who)
    obtain el rt w2 sub where s: "deploy d ?g U w2" "el < D" "now_in T D rt" "sub = \<lparr>sb_state = started l now nb st, sb_lane = l, sb_receivedAt = rt,
        sb_elapsedMs = el, sb_params = server_params E who sb nb l, sb_proofs = JArr (map proof_js proofs)\<rparr>"
      "postLaneSubmit E cid ?l (Some (envelope ?m sig)) w1 = Some (submit_result E cid ?l sub LaneOk w2)"
      by (rule submitted [OF H w1 c R g(1) nb(2,1) p(1) m(2) sw ok])
    have "goes (\<lambda>_. submit_result E cid ?l sub LaneOk w2) w1 (\<lambda>r w'. status r < 400 \<and>
        goesC (run_lanes E X ip priv who ?c rest (if truthy (field (body r) ''attestation'') then field (body r) ''attestation'' else att)) w' Q)"
      using rest [OF s(1) g(2) s(2-4)] by (simp add: goes_def)
    then show ?thesis
      by (intro goesC_signed [OF m(1), where m = "\<lambda>_. submit_result E cid ?l sub LaneOk w2"]) (simp_all add: s(5))
  qed
  show ?thesis
    unfolding run_lanes.simps id
    apply (rule goesC_bind [OF start], elim exE conjE)
    apply (rule goesC_or, erule params_agree [OF N])
    subgoal for b w1 nb now e'
      apply (rule lane_proved [OF N R S c, of who sb nb l "nat (laneWorkers n l)"], simp add: who pub_address_shape [OF N])
      apply (rule goesC_bind [where P = "\<lambda>ps w'. w' = w1 \<and> verifyLane (noble_fns E) (server_params E who sb nb l) (nat (laneWorkers n l)) cid
           (JArr (map proof_js ps)) = Some (Inr LaneOk)"])
       apply (simp add: goesC_def prove_lane_def)
      apply (elim conjE, hypsubst)
      apply (rule goesC_bind [OF submit], assumption+)
      done
    done
qed

lemma goC_next:
  assumes H: "healthy E pub T D" and K: "key_ok (noble_fns E) priv mine" and who: "who = pub_address (noble_fns E) mine"
    and R: "roomy (cfg E) D" and S: "samples_end E m" and c: "HASH_RE cid"
    and p: "lane_phase E T D who sb n L st" "l \<notin> L" "set (takeWhile (\<lambda>p. p \<noteq> l) LANE_ORDER) \<subseteq> L" "insert l L \<noteq> UNIV"
    and w: "deploy d (f(KBench cid \<mapsto> (VBench st, Some e))) U w" "T + D \<le> e"
    and rest: "\<And>st' e' w'. lane_phase E T D who sb n (insert l L) st' \<Longrightarrow> deploy d (f(KBench cid \<mapsto> (VBench st', Some e'))) U w' \<Longrightarrow>
        T + D \<le> e' \<Longrightarrow> goesC (run_lanes E X ip priv who (client_challenge E cid sb n) ls att) w' Q"
  shows "goesC (run_lanes E X ip priv who (client_challenge E cid sb n) ((js (lane_name l), nat (laneWorkers n l)) # ls) att) w Q"
proof (rule goC_lane [OF H K who R S w(1) c w(2) p(1-3)])
  fix f' st0 el rt now nb q v sub w1
  assume f': "deploy d f' U w1" "f'(KBench cid := None) = f(KBench cid := None)" and s: "el < D" "now_in T D rt"
    "sub = \<lparr>sb_state = started l now nb st, sb_lane = l, sb_receivedAt = rt, sb_elapsedMs = el, sb_params = q, sb_proofs = v\<rparr>"
  have u: "f'(KBench cid := x) = f(KBench cid := x)" for x using f'(2) by (metis fun_upd_upd)
  show "goes (submit_result E cid (js (lane_name l)) sub LaneOk) w1 (\<lambda>r w'. status r < 400 \<and>
      goesC (run_lanes E X ip priv who (client_challenge E cid sb n) ls
        (if truthy (field (body r) ''attestation'') then field (body r) ''attestation'' else att)) w' Q)"
    by (rule goes_mono [OF go_submit_next [OF H f'(1) p(1) p(4) s]], unfold u) (auto intro: rest)
qed

lemma goC_lanes:
  assumes H: "healthy E pub T D" and K: "key_ok (noble_fns E) priv mine" and who: "who = pub_address (noble_fns E) mine"
    and R: "roomy (cfg E) D" and S: "samples_end E m" and c: "HASH_RE cid" and n: "0 < n" "n \<le> 256"
    and p: "lane_phase E T D who sb n {} st" and w: "deploy d (f(KBench cid \<mapsto> (VBench st, Some e))) U w" "T + D \<le> e"
    and d: "registered (hexToBuf who) d" "attestations d = []"
  shows "goesC (run_lanes E X ip priv who (client_challenge E cid sb n) (ch_lanes (client_challenge E cid sb n)) JNull) w
    (\<lambda>a w'. truthy a \<and> (\<exists>aid d'. field a ''attestationId'' = JStr aid \<and> deploy d' (f(KBench cid := None)) U w'
      \<and> attested (cfg E) T (hexToBuf who) aid d' \<and> offers d' = offers d))"
proof -
  let ?c = "client_challenge E cid sb n"
  have ls: "ch_lanes ?c = map (\<lambda>l. (js (lane_name l), nat (laneWorkers n l))) [Single, Quad, Eight, Full]"
    by (simp add: client_challenge_def LANE_ORDER_def)
  have lanes: "insert Full {Eight, Quad, Single} = UNIV" "{Single} \<noteq> UNIV" "{Quad, Single} \<noteq> UNIV" "{Eight, Quad, Single} \<noteq> UNIV"
    by (auto intro: LaneId.exhaust)
  have before: "takeWhile (\<lambda>p. p \<noteq> Single) LANE_ORDER = []" "takeWhile (\<lambda>p. p \<noteq> Quad) LANE_ORDER = [Single]"
      "takeWhile (\<lambda>p. p \<noteq> Eight) LANE_ORDER = [Single, Quad]" "takeWhile (\<lambda>p. p \<noteq> Full) LANE_ORDER = [Single, Quad, Eight]"
    by (simp_all add: LANE_ORDER_def)
  let ?Q = "\<lambda>a w'. truthy a \<and> (\<exists>aid d'. field a ''attestationId'' = JStr aid \<and> deploy d' (f(KBench cid := None)) U w'
      \<and> attested (cfg E) T (hexToBuf who) aid d' \<and> offers d' = offers d)"
  have full: "goesC (run_lanes E X ip priv who ?c [(js (lane_name Full), nat (laneWorkers n Full))] JNull) w' ?Q"
    if ph: "lane_phase E T D who sb n {Eight, Quad, Single} st'" and w': "deploy d (f(KBench cid \<mapsto> (VBench st', Some e'))) U w'" "T + D \<le> e'"
    for st' e' w'
  proof (rule goC_lane [OF H K who R S w'(1) c w'(2) ph])
    fix f' st0 el rt now nb q v sub w1
    assume f': "deploy d f' U w1" "f'(KBench cid := None) = f(KBench cid := None)" and s: "el < D" "now_in T D rt"
      "sub = \<lparr>sb_state = started Full now nb st', sb_lane = Full, sb_receivedAt = rt, sb_elapsedMs = el, sb_params = q, sb_proofs = v\<rparr>"
    show "goes (submit_result E cid (js (lane_name Full)) sub LaneOk) w1 (\<lambda>r w'. status r < 400 \<and>
        goesC (run_lanes E X ip priv who ?c [] (if truthy (field (body r) ''attestation'') then field (body r) ''attestation'' else JNull)) w' ?Q)"
      by (rule goes_mono [OF go_submit_last [OF H f'(1) R n ph lanes(1) d s]], unfold f'(2)) (auto simp: goesC_ret)
  qed (simp_all add: before)
  show ?thesis unfolding ls list.map
    apply (rule goC_next [OF H K who R S c p _ _ _ w], simp, simp add: before, rule lanes)
    apply (rule goC_next [OF H K who R S c], assumption, simp, simp add: before, rule lanes, assumption, assumption)
    apply (rule goC_next [OF H K who R S c], assumption, simp, simp add: before, rule lanes, assumption, assumption)
    apply (rule full, assumption+)
    done
qed

subsection \<open>The offer\<close>

lemma offer_fields:
  "field (offer_message who aid c c') ''type'' = JStr (js ''offer/v1'')" "field (offer_message who aid c c') ''providerId'' = JStr who"
  "field (offer_message who aid c c') ''signedAt'' = JStr (toIso c)" "field (offer_message who aid c c') ''constraintsHint'' = JUndef"
  "field (offer_message who aid c c') ''expiresAt'' = JStr (toIso (c' + 7 * 86400000))"
  "isPlainObject (field (offer_message who aid c c') ''compute'')"
  "field (field (offer_message who aid c c') ''compute'') ''model'' = JStr (js ''cpu/v1'')"
  "field (field (offer_message who aid c c') ''compute'') ''attestationId'' = JStr aid"
  "wf_js (offer_message who aid c c')" "plain_json (offer_message who aid c c')" "isPlainObject (offer_message who aid c c')"
  by (simp_all add: offer_message_def obj_def isPlainObject_def)

text \<open>The tables after the offer: the provider's one offer, as the lookup joins it.\<close>

definition offered :: "int \<Rightarrow> bytes \<Rightarrow> bytes \<Rightarrow> db \<Rightarrow> bool" where
  "offered until pid oid d =
     (\<exists>row. offer_select (\<lambda>r. of_id r = oid) d = [row] \<and> or_heartbeat row = 60 \<and> is_ok (jcs (or_attPayload row))
        \<and> is_ok (jcs (of_template (or_offer row))) \<and> of_id (or_offer row) = oid \<and> of_provider (or_offer row) = pid
        \<and> of_revoked (or_offer row) = None \<and> until \<le> of_expires (or_offer row))"

lemma go_check_template:
  assumes c: "now_in T D c" "iso_range c" "now_in T D c'" "iso_range (c' + 7 * 86400000)" and R: "roomy (cfg E) D" and a: "HASH_RE aid"
    and t: "now_in T D t"
  shows "goes (check_template E t (offer_message who aid c c')) w (\<lambda>_ w'. w' = w)"
proof -
  have s: "c \<le> t + signedAtMaxFutureMs (cfg E)" "t < c' + 7 * 86400000" "c' + 7 * 86400000 \<le> t + templateMaxAheadMs (cfg E)"
    using c(1,3) t R by (auto simp: now_in_def roomy_def)
  show ?thesis unfolding check_template_def offer_fields
    using s a by (intro goes_guard goes_pass) (simp_all add: parseIso_toIso [OF c(2)] parseIso_toIso [OF c(4), simplified] isHash_def offer_fields(6))
qed

lemma offered_join:
  assumes "signable d" and "hexToBuf h \<in> l_hash ` set (payload_log d)" and "of_att r \<in> l_hash ` set (payload_log d)"
    and "offers d = [r]" and "of_id r = hexToBuf h" "of_provider r = pid" "of_revoked r = None" "until \<le> of_expires r" "is_ok (jcs (of_template r))"
    and "\<exists>p. find_provider pid d = Some p \<and> pr_heartbeat p = 60"
  shows "offered until pid (hexToBuf h) d"
proof -
  have f: "\<exists>x. find_log k d = Some x \<and> x \<in> set (payload_log d)" if "k \<in> l_hash ` set (payload_log d)" for k
  proof -
    have "find_log k d \<noteq> None" using that by (simp add: find_log_def find_key_None)
    then obtain x where "find_log k d = Some x" by blast
    then show ?thesis by (auto simp: find_log_def find_Some_iff)
  qed
  obtain x y where "find_log (hexToBuf h) d = Some x" "find_log (of_att r) d = Some y" "y \<in> set (payload_log d)"
    using f [OF assms(2)] f [OF assms(3)] by blast
  then show ?thesis using assms by (auto simp: offered_def offer_select_def join_offer_def signable_def)
qed

lemma go_postOffer:
  assumes H: "healthy E pub T D" and w: "deploy d f U w" and R: "roomy (cfg E) D"
    and c: "now_in T D c" "iso_range c" "now_in T D c'" "iso_range (c' + 7 * 86400000)"
    and f: "uncounted f" "''tpl'' \<notin> U" and d: "attested (cfg E) T (hexToBuf who) aid d" "offers d = []" and who: "ADDRESS_RE who"
    and vw: "readEnvelope (noble_fns E) req ''offer/v1'' = Inr vw" "payload vw = offer_message who aid c c'" "signer vw = who"
  shows "goes (postOffer E req) w (\<lambda>r w'. status r = 201 \<and> field (body r) ''offerId'' = JStr (hash vw)
     \<and> (\<exists>d'. deploy d' f (insert ''tpl'' U) w' \<and> offered (T + D) (hexToBuf who) (hexToBuf (hash vw)) d'))"
proof -
  let ?pid = "hexToBuf who" and ?V = "insert ''tpl'' U" and ?m = "offer_message who aid c c'"
  obtain a where a: "find_att (hexToBuf aid) d = Some a" "at_provider a = ?pid" "at_model a = ''cpu/v1''" "at_id a = hexToBuf aid"
      "T + attestationTtlMs (cfg E) \<le> at_expires a" and h: "HASH_RE aid" and g: "registered ?pid d"
      and l: "hexToBuf aid \<in> l_hash ` set (payload_log d)" using d(1) by (auto simp: attested_def)
  have ok: "is_ok (jcs ?m)" using serialize_ok_iff [OF offer_fields(9)] offer_fields(10) by (simp add: jcs_def)
  have e: "T + D \<le> min (c' + 7 * 86400000) (at_expires a)" using c(3) a(5) R by (auto simp: now_in_def roomy_def)
  have ins: "goes (pg E (\<lambda>t. insert_offer (offer_of (hexToBuf (hash vw)) ?pid a ?m (min (c' + 7 * 86400000) (at_expires a)) t))) v
      (\<lambda>_ w'. \<exists>d''. deploy d'' f ?V w' \<and> offered (T + D) ?pid (hexToBuf (hash vw)) d'')"
    if d': "deploy d' f ?V v" "signable d'" "hexToBuf (hash vw) \<in> l_hash ` set (payload_log d')"
      "l_hash ` set (payload_log d) \<subseteq> l_hash ` set (payload_log d')"
      "providers d' = providers d" "attestations d' = attestations d" "offers d' = offers d" for d' v
  proof (rule goes_mono [OF go_pg [OF H d'(1), where Q = "\<lambda>_ d''. offered (T + D) ?pid (hexToBuf (hash vw)) d''"]])
    fix t assume "now_in T D t"
    let ?r = "offer_of (hexToBuf (hash vw)) ?pid a ?m (min (c' + 7 * 86400000) (at_expires a)) t"
    have "hexToBuf aid \<in> at_id ` set (attestations d)" using find_att_Some [OF a(1)] by force
    then have "insert_offer ?r d' = Some ((), d'\<lparr>offers := [?r]\<rparr>)"
      using d' d(2) g a(4) by (simp add: insert_offer_def offer_of_def registered_def)
    moreover have "offered (T + D) ?pid (hexToBuf (hash vw)) (d'\<lparr>offers := [?r]\<rparr>)"
      by (rule offered_join [where r = ?r]) (use d' g a(4) l e ok in \<open>auto simp: signable_def offer_of_def registered_def find_provider_def\<close>)
    ultimately show "\<exists>b d''. insert_offer ?r d' = Some (b, d'') \<and> offered (T + D) ?pid (hexToBuf (hash vw)) d''" by blast
  qed blast
  have none: "find_offer_row k d = None" for k by (simp add: d(2) find_offer_row_def)
  have known: "find_provider ?pid d \<noteq> None" using g by (auto simp: registered_def)
  have exp: "t < at_expires a" if "now_in T D t" for t using that a(5) R by (auto simp: now_in_def roomy_def)
  show ?thesis
    unfolding postOffer_def Let_def
    apply (rule goes_lift, rule vw(1))
    apply (rule goes_bind, rule go_limited [OF H w f], simp add: rl_templatePerProvider_def)
    apply (unfold vw(2,3) offer_fields parseIso_toIso [OF c(4)] option.sel)
    apply (rule goes_bind, erule go_read [OF H], elim conjE exE)
    apply (rule goes_guard, simp add: known)
    apply (rule goes_bind, erule go_time [OF H], elim conjE)
    apply (rule goes_bind, rule go_check_template [OF c R h], assumption, hypsubst)
    apply (rule goes_bind, erule go_read [OF H], elim conjE exE)
    apply (simp only: jstr_of_def jsval.case a(1) option.case)
    apply (rule goes_guard, simp add: a(2) stored_address [OF who])
    apply (rule goes_guard, simp add: a(3))
    apply (rule goes_guard, use exp in \<open>simp add: not_le\<close>)
    apply (rule goes_bind, erule go_read [OF H], elim conjE exE)
    apply (simp only: none simp_thms if_False)
    apply (rule goes_bind, erule go_read [OF H], elim conjE exE)
    apply (rule goes_guard, use R in \<open>simp add: d(2) count_active_def roomy_def\<close>)
    apply (rule goes_bind, erule go_log [OF H _ ok], use g in \<open>simp add: registered_def\<close>, elim conjE exE)
    apply (rule goes_bind, rule ins, assumption+)
    apply (auto simp: goes_rules json_def)
    done
qed

subsection \<open>The heartbeat\<close>

lemma terms_fields:
  "field (terms_message opts who oid c c') ''type'' = JStr (js ''terms/v1'')" "field (terms_message opts who oid c c') ''providerId'' = JStr who"
  "field (terms_message opts who oid c c') ''offerId'' = JStr oid" "field (terms_message opts who oid c c') ''seq'' = jint 1"
  "field (terms_message opts who oid c c') ''signedAt'' = JStr (toIso c)" "field (terms_message opts who oid c c') ''unit'' = JStr (js ''GLM'')"
  "field (terms_message opts who oid c c') ''validUntil'' = JStr (toIso (c' + 180000))"
  "field (terms_message opts who oid c c') ''minPricePerHour'' = JStr (co_minPrice opts)"
  "field (terms_message opts who oid c c') ''capacity'' = obj [(''coresFree'', JNum (co_coreCount opts))]"
  "isPlainObject (terms_message opts who oid c c')"
  by (simp_all add: terms_message_def obj_def isPlainObject_def)

lemma terms_json_ok: "sound_options cf opts n \<Longrightarrow> wf_js (terms_message opts who oid c c')" "sound_options cf opts n \<Longrightarrow> plain_json (terms_message opts who oid c c')"
  by (auto simp: terms_message_def obj_def sound_options_def is_finite_num_def jint_def num_of_int_def)

lemma hash_lower: "HASH_RE h \<Longrightarrow> toLowerCase h = h"
  using lower_hex_toLowerCase [of "drop 2 h"] by (metis HASH_RE_def append_take_drop_id ox_def)

lemma go_findOffer:
  assumes H: "healthy E pub T D" and w: "deploy d f U w" and h: "HASH_RE oid" and o: "offered until pid (hexToBuf oid) d"
  shows "goes (findOffer E oid) w (\<lambda>x w'. deploy d f U w' \<and> (\<exists>row. x = Some row
    \<and> offer_select (\<lambda>r. of_id r = hexToBuf oid) d = [row]))"
proof -
  obtain row where s: "offer_select (\<lambda>r. of_id r = hexToBuf oid) d = [row]" using o by (auto simp: offered_def)
  show ?thesis
    unfolding findOffer_def Let_def hash_lower [OF h] using h s
    by (simp, intro goes_bind [OF go_read [OF H w]]) (auto simp: goes_rules)
qed

definition untouched :: "(rkey \<Rightarrow> (rval \<times> int option) option) \<Rightarrow> (rkey \<Rightarrow> (rval \<times> int option) option) \<Rightarrow> bool" where
  "untouched f f' = ((uncounted f \<longrightarrow> uncounted f') \<and> (\<forall>i. f' (KBusy i) = f (KBusy i) \<and> f' (KAvailSeq i) = f (KAvailSeq i)))"

lemma go_postTerms:
  assumes H: "healthy E pub T D" and w: "deploy d f U w" and R: "roomy (cfg E) D" and opts: "sound_options (cfg E) opts n"
    and c: "now_in T D c" "iso_range c" "now_in T D c'" "iso_range (c' + 180000)"
    and f: "uncounted f" "''terms'' \<notin> U" "f (KSeq oid) = None" and h: "HASH_RE oid" and who: "ADDRESS_RE who"
    and o: "offered (T + D) (hexToBuf who) (hexToBuf oid) d"
    and vw: "readEnvelope (noble_fns E) req ''terms/v1'' = Inr vw" "payload vw = terms_message opts who oid c c'" "signer vw = who"
  shows "goes (postTerms E oid req) w (\<lambda>r w'. status r = 200 \<and> (\<exists>f' v e. deploy d f' (insert ''terms'' U) w'
    \<and> f' (KTerms oid) = Some (VTerms v, Some e) \<and> T + D \<le> e \<and> tr_payload v = payload vw \<and> untouched f f'))"
proof -
  let ?m = "terms_message opts who oid c c'"
  obtain row where s: "offer_select (\<lambda>r. of_id r = hexToBuf oid) d = [row]" and row: "or_heartbeat row = 60" "of_id (or_offer row) = hexToBuf oid"
      "of_provider (or_offer row) = hexToBuf who" "of_revoked (or_offer row) = None" "T + D \<le> of_expires (or_offer row)"
    using o by (auto simp: offered_def)
  have D: "0 < D" "D \<le> 90000" using R by (simp_all add: roomy_def)
  have p: "isValidPrice (JStr (co_minPrice opts))" "valid_seq (jint 1)" "valid_capacity (obj [(''coresFree'', JNum (co_coreCount opts))])"
    using opts by (auto simp: sound_options_def valid_seq_def jint_def num_of_int_def is_integer_def num_lt_def valid_capacity_def obj_def isPlainObject_def)
  note iso = parseIso_toIso [OF c(2)] parseIso_toIso [OF c(4)]
  have times: "goes (check_times E t ?m) v (\<lambda>_ w'. w' = v)" if "now_in T D t" for t v
    unfolding check_times_def terms_fields iso
    using that c(1) R by (intro goes_guard goes_pass) (auto simp: now_in_def roomy_def)
  have target: "goes (check_target vw (or_offer row) t) v (\<lambda>_ w'. w' = v)" if "now_in T D t" for t v
    unfolding check_target_def vw(2,3) terms_fields
    using that row by (intro goes_guard goes_pass) (auto simp: now_in_def stored_address [OF who] stored_hash [OF h])
  have ttl: "T + D \<le> T + terms_ttl (c' + 180000) t 60" if "now_in T D t" for t
    using that c(3) D by (auto simp: terms_ttl_def now_in_def)
  show ?thesis
    unfolding postTerms_def Let_def
    apply (rule goes_lift, rule vw(1))
    apply (rule goes_bind, rule go_time [OF H w], elim conjE)
    apply (rule goes_bind, erule go_findOffer [OF H _ h o], elim conjE exE)
    apply (simp only: s list.inject option.case row(1,2) stored_hash [OF h])
    apply (rule goes_bind, rule go_limited [OF H _ f(1,2)], assumption, simp)
    apply (elim conjE, hypsubst, unfold row(1))
    apply (rule goes_bind, rule target, assumption)
    apply (unfold vw(2) terms_fields iso option.sel)
    apply (rule goes_guard, simp)
    apply (rule goes_guard, simp add: p)
    apply (rule goes_guard, simp add: p)
    apply (rule goes_bind, rule times, assumption)
    apply (rule goes_guard, use c(1,3) R in \<open>simp add: roomy_def now_in_def\<close>)
    apply (rule goes_guard, use c(3) D in \<open>simp add: now_in_def\<close>)
    apply (rule goes_guard, simp add: p)
    apply (hypsubst, unfold row(2) stored_hash [OF h])
    apply (rule goes_bind, erule go_seq(1) [OF H], rule f(3))
    apply (rule goes_bind, erule go_setTerms [OF H], elim conjE exE)
    apply (rule goes_guard, simp)
    apply (rule goes_bind, erule go_touch [OF H], elim exE)
    apply (simp add: goes_rules json_def, rule exI, rule conjI, assumption)
    apply (auto intro: order.trans [OF ttl] simp: untouched_def)
    done
qed

subsection \<open>The offer is live\<close>

text \<open>The busy flag, absent or still set at \<open>until\<close>.\<close>

definition marked :: "int \<Rightarrow> (rval \<times> int option) option \<Rightarrow> bool \<Rightarrow> bool" where
  "marked until v b = (if b then \<exists>e \<ge> until. v = Some (VFlag, Some e) else v = None)"

lemma go_getOffer:
  assumes H: "healthy E pub T D" and w: "deploy d f U w" and h: "HASH_RE oid" and o: "offered (T + D) pid (hexToBuf oid) d"
    and t: "f (KTerms oid) = Some (VTerms v, Some e)" "T + D \<le> e" "marked (T + D) (f (KBusy oid)) b"
  shows "goes (getOffer E oid) w (\<lambda>r w'. deploy d f U w' \<and> status r = 200 \<and> field (body r) ''offerId'' = JStr oid
    \<and> field (body r) ''status'' = JStr (js (if b then ''busy'' else ''active'')) \<and> field (field (field (body r) ''terms'') ''envelope'') ''payload'' = tr_payload v)"
proof -
  obtain row where s: "offer_select (\<lambda>r. of_id r = hexToBuf oid) d = [row]" and row: "of_id (or_offer row) = hexToBuf oid"
      "of_revoked (or_offer row) = None" "T + D \<le> of_expires (or_offer row)" "is_ok (jcs (or_attPayload row))" "is_ok (jcs (of_template (or_offer row)))"
    using o by (auto simp: offered_def)
  have terms: "goes (getTerms E oid) u (\<lambda>r w'. r = Some v \<and> deploy d f U w')" if "deploy d f U u" for u
    unfolding getTerms_def
    by (rule goes_bind, rule go_get(2) [OF H that _ t(1,2)]) (simp_all add: goes_rules reply_val_def as_terms_def)
  have busy: "goes (isBusy E oid) u (\<lambda>x w'. x = b \<and> deploy d f U w')" if "deploy d f U u" for u
    using deploy_value [OF that, of "KBusy oid"] t(3) that healthyD(7) [OF H, of "tick u"]
    by (auto simp: goes_def isBusy_def seqI_def send_up [OF healthyD(3) [OF H]] deploy_def ret_def alive_def marked_def split: if_splits)
  have out: "\<exists>x. envelopeOut (noble_fns E) p sig r = Inr x" if "is_ok (jcs p)" for p sig r
    using hashed [OF that, of "noble_fns E"] by (auto simp: envelopeOut_def)
  have json: "goes (offer_json E row (Some v) (if b then Busy else Active)) u (\<lambda>x w'. w' = u \<and> field x ''offerId'' = JStr oid
      \<and> field x ''status'' = JStr (js (if b then ''busy'' else ''active'')) \<and> field (field (field x ''terms'') ''envelope'') ''payload'' = tr_payload v)" for u
    unfolding offer_json_def Let_def
    apply (rule exE [OF out [OF row(5)]], rule goes_lift, assumption)
    apply (rule exE [OF out [OF row(4)]], rule goes_lift, assumption)
    apply (simp add: goes_rules row(1) stored_hash [OF h] obj_def terms_json_def)
    done
  have resp: "goes (offerResponse E row t) u (\<lambda>x w'. deploy d f U w' \<and> field x ''offerId'' = JStr oid
      \<and> field x ''status'' = JStr (js (if b then ''busy'' else ''active'')) \<and> field (field (field x ''terms'') ''envelope'') ''payload'' = tr_payload v)"
    if u: "deploy d f U u" and t: "now_in T D t" for u t
  proof -
    have "offerStatus (or_offer row) (Some v \<noteq> None) (Some v \<noteq> None \<and> b) t = (if b then Busy else Active)"
      using t row by (simp add: offerStatus_def now_in_def)
    note st = this
    show ?thesis unfolding offerResponse_def Let_def row(1) stored_hash [OF h]
      apply (rule goes_bind [OF terms [OF u]], elim conjE, hypsubst)
      apply (rule goes_bind, erule busy, elim conjE, hypsubst)
      apply (unfold st, rule goes_mono [OF json], simp)
      done
  qed
  show ?thesis
    unfolding getOffer_def
    apply (rule goes_bind, rule go_findOffer [OF H w h o], elim conjE exE)
    apply (simp only: s list.inject option.case)
    apply (rule goes_bind, erule go_time [OF H], elim conjE, hypsubst)
    apply (rule goes_bind, rule resp, assumption+)
    apply (simp add: goes_rules)
    done
qed

subsection \<open>The whole flow\<close>

lemma initial_phase:
  assumes "roomy (cfg E) D" and "sound_options (cfg E) opts n" and "now_in T D t"
  shows "lane_phase E T D who sb n {} (initial_state E who (hex_of sb) (request_message opts who c) t)"
  using assms by (auto simp: lane_phase_def initial_state_def request_fields sound_options_def int_of_def is_finite_num_def now_in_def roomy_def)

lemma fresh_deploy: "fresh_world w \<Longrightarrow> client w \<Longrightarrow> deploy (tables empty_world) Map.empty {} w"
  by (simp add: fresh_world_def deploy_def empty_kv_def)

text \<open>The four signed requests, each with what it leaves.\<close>

lemma stage_profile:
  assumes H: "healthy E pub T D" and K: "key_ok (noble_fns E) priv mine" and R: "roomy (cfg E) D" and c: "now_in T D c" "iso_range c"
    and w: "deploy d Map.empty {} w" "signable d" "providers d = []"
  shows "goesC (send_signed E X ip priv stage PostProvider (profile_message (pub_address (noble_fns E) mine) c)) w
    (\<lambda>_ w'. \<exists>d' U. deploy d' Map.empty U w' \<and> U \<subseteq> {''reg'', ''profile''} \<and> registered (hexToBuf (pub_address (noble_fns E) mine)) d'
      \<and> attestations d' = attestations d \<and> offers d' = offers d)"
proof -
  let ?who = "pub_address (noble_fns E) mine" let ?m = "profile_message ?who c"
  obtain sig h where m: "signed_envelope (noble_fns E) ?m priv = Some (envelope ?m sig)" "is_ok (jcs ?m)"
      "readEnvelope (noble_fns E) (Some (envelope ?m sig)) ''profile/v1'' = Inr \<lparr>payload = ?m, signature = sig, hash = h, signer = ?who\<rparr>"
    by (rule message_ok [OF healthyD(1) [OF H] K profile_fields(8-10,1,2)])
  have "goes (postProvider E ip (Some (envelope ?m sig))) w (\<lambda>r w'. status r = 201 \<and> (\<exists>d'. deploy d' Map.empty (insert ''profile'' (insert ''reg'' {})) w'
      \<and> registered (hexToBuf ?who) d' \<and> attestations d' = attestations d \<and> offers d' = offers d))"
    using go_postProvider [OF H w(1) c R _ _ _ m(3)] m(2) w(2,3) by (simp add: uncounted_def find_provider_def)
  then show ?thesis
    by (intro goesC_signed [OF m(1), where m = "postProvider E ip (Some (envelope ?m sig))"]) (simp, rule goes_mono, assumption, force)
qed

lemma stage_challenge:
  assumes H: "healthy E pub T D" and K: "key_ok (noble_fns E) priv mine" and R: "roomy (cfg E) D" and O: "sound_options (cfg E) opts n"
    and c: "iso_range c" and w: "deploy d f U w" "uncounted f" "U \<subseteq> {''reg'', ''profile''}" "registered (hexToBuf (pub_address (noble_fns E) mine)) d"
  shows "goesC (send_signed E X ip priv stage PostChallenge (request_message opts (pub_address (noble_fns E) mine) c)) w
    (\<lambda>b w'. \<exists>cid sb st e V. HASH_RE cid \<and> read_challenge (field b ''payload'') = Some (client_challenge E cid sb n)
      \<and> lane_phase E T D (pub_address (noble_fns E) mine) sb n {} st \<and> T + D \<le> e
      \<and> V \<subseteq> {''reg'', ''profile'', ''chal-p'', ''chal-ip''} \<and> deploy d (f(KBench cid \<mapsto> (VBench st, Some e))) V w')"
proof -
  let ?who = "pub_address (noble_fns E) mine" let ?m = "request_message opts ?who c"
  obtain sig h where m: "signed_envelope (noble_fns E) ?m priv = Some (envelope ?m sig)"
      "readEnvelope (noble_fns E) (Some (envelope ?m sig)) ''attest-request/v1'' = Inr \<lparr>payload = ?m, signature = sig, hash = h, signer = ?who\<rparr>"
    by (rule message_ok [OF healthyD(1) [OF H] K request_json [OF O] request_fields(9,1,2)])
  have n: "0 \<le> n" using O by (simp add: sound_options_def)
  have t: "T + D \<le> T + challengeTtlMs (cfg E)" using R by (simp add: roomy_def)
  have read: "read_challenge (challenge_payload E cid ?who (hex_of sb) n t a) = Some (client_challenge E cid sb n)" for cid sb t a
    by (simp add: challenge_read [OF R n] client_challenge_def)
  have fresh: "''chal-p'' \<notin> U" "''chal-ip'' \<notin> U" "find_provider (hexToBuf ?who) d \<noteq> None" using w(3,4) by (auto simp: registered_def)
  have "goes (postChallenge E (Some (envelope ?m sig)) ip) w (\<lambda>r w'. status r = 201 \<and> (\<exists>cid sb now attester.
      HASH_RE cid \<and> now_in T D now \<and> field (body r) ''payload'' = challenge_payload E cid ?who (hex_of sb) n now attester
      \<and> (\<exists>e \<ge> T + challengeTtlMs (cfg E). deploy d (f(KBench cid \<mapsto> (VBench (initial_state E ?who (hex_of sb) ?m now), Some e)))
           (insert ''chal-ip'' (insert ''chal-p'' U)) w')))"
    using go_postChallenge [OF H w(1) c R O w(2) fresh(1,2) m(2)] fresh(3) by simp
  then show ?thesis
    apply (intro goesC_signed [OF m(1), where m = "postChallenge E (Some (envelope ?m sig)) ip"], simp)
    apply (rule goes_mono, assumption, elim conjE exE)
    subgoal for r w' cid sb t a e
      using w(3) by (intro conjI exI [of _ cid] exI [of _ sb] exI [of _ "initial_state E ?who (hex_of sb) ?m t"] exI [of _ e]
        exI [of _ "insert ''chal-ip'' (insert ''chal-p'' U)"] initial_phase [OF R O]) (auto simp: read intro: order.trans [OF \<open>T + D \<le> _\<close>])
    done
qed

lemma stage_offer:
  assumes H: "healthy E pub T D" and K: "key_ok (noble_fns E) priv mine" and R: "roomy (cfg E) D"
    and c: "now_in T D c" "iso_range c" "now_in T D c'" "iso_range (c' + 7 * 86400000)"
    and w: "deploy d f U w" "uncounted f" "''tpl'' \<notin> U" "attested (cfg E) T (hexToBuf (pub_address (noble_fns E) mine)) aid d" "offers d = []"
  shows "goesC (send_signed E X ip priv stage PostOffer (offer_message (pub_address (noble_fns E) mine) aid c c')) w
    (\<lambda>b w'. \<exists>oid d'. field b ''offerId'' = JStr oid \<and> HASH_RE oid \<and> deploy d' f (insert ''tpl'' U) w'
      \<and> offered (T + D) (hexToBuf (pub_address (noble_fns E) mine)) (hexToBuf oid) d')"
proof -
  let ?who = "pub_address (noble_fns E) mine" let ?m = "offer_message ?who aid c c'"
  note N = healthyD(1) [OF H]
  obtain sig h where m: "signed_envelope (noble_fns E) ?m priv = Some (envelope ?m sig)" "HASH_RE h"
      "readEnvelope (noble_fns E) (Some (envelope ?m sig)) ''offer/v1'' = Inr \<lparr>payload = ?m, signature = sig, hash = h, signer = ?who\<rparr>"
    by (rule message_ok [OF N K offer_fields(9-11,1,2)])
  have "goes (postOffer E (Some (envelope ?m sig))) w (\<lambda>r w'. status r = 201 \<and> field (body r) ''offerId'' = JStr h
     \<and> (\<exists>d'. deploy d' f (insert ''tpl'' U) w' \<and> offered (T + D) (hexToBuf ?who) (hexToBuf h) d'))"
    using go_postOffer [OF H w(1) R c w(2-5) pub_address_shape [OF N] m(3)] by simp
  then show ?thesis using m(2)
    by (intro goesC_signed [OF m(1), where m = "postOffer E (Some (envelope ?m sig))"]) (simp, rule goes_mono, assumption, force)
qed

lemma stage_terms:
  assumes H: "healthy E pub T D" and K: "key_ok (noble_fns E) priv mine" and R: "roomy (cfg E) D" and O: "sound_options (cfg E) opts n"
    and c: "now_in T D c" "iso_range c" "now_in T D c'" "iso_range (c' + 180000)"
    and w: "deploy d f U w" "uncounted f" "''terms'' \<notin> U" "f (KSeq oid) = None" "HASH_RE oid"
      "offered (T + D) (hexToBuf (pub_address (noble_fns E) mine)) (hexToBuf oid) d"
  shows "goesC (send_signed E X ip priv stage (PostTerms oid) (terms_message opts (pub_address (noble_fns E) mine) oid c c')) w
    (\<lambda>_ w'. \<exists>f' v e. deploy d f' (insert ''terms'' U) w' \<and> f' (KTerms oid) = Some (VTerms v, Some e) \<and> T + D \<le> e
      \<and> field (tr_payload v) ''minPricePerHour'' = JStr (co_minPrice opts) \<and> untouched f f')"
proof -
  let ?who = "pub_address (noble_fns E) mine" let ?m = "terms_message opts ?who oid c c'"
  note N = healthyD(1) [OF H]
  obtain sig h where m: "signed_envelope (noble_fns E) ?m priv = Some (envelope ?m sig)"
      "readEnvelope (noble_fns E) (Some (envelope ?m sig)) ''terms/v1'' = Inr \<lparr>payload = ?m, signature = sig, hash = h, signer = ?who\<rparr>"
    by (rule message_ok [OF N K terms_json_ok [OF O] terms_fields(10,1,2)])
  have "goes (postTerms E oid (Some (envelope ?m sig))) w (\<lambda>r w'. status r = 200 \<and> (\<exists>f' v e. deploy d f' (insert ''terms'' U) w'
    \<and> f' (KTerms oid) = Some (VTerms v, Some e) \<and> T + D \<le> e \<and> tr_payload v = ?m \<and> untouched f f'))"
    using go_postTerms [OF H w(1) R O c w(2-5) pub_address_shape [OF N] w(6) m(2)] by simp
  then show ?thesis
    by (intro goesC_signed [OF m(1), where m = "postTerms E oid (Some (envelope ?m sig))"])
      (simp, rule goes_mono, assumption, force simp: terms_fields)
qed

text \<open>What the flow leaves: the offer in the tables, its terms in Redis, not busy.\<close>

definition published :: "int \<Rightarrow> jstr \<Rightarrow> jstr \<Rightarrow> jstr \<Rightarrow> world \<Rightarrow> bool" where
  "published until who price oid w =
     (\<exists>d f U v e. deploy d f U w \<and> HASH_RE oid \<and> offered until (hexToBuf who) (hexToBuf oid) d
        \<and> f (KTerms oid) = Some (VTerms v, Some e) \<and> until \<le> e \<and> f (KBusy oid) = None
        \<and> uncounted f \<and> ''avail'' \<notin> U \<and> f (KAvailSeq oid) = None
        \<and> field (tr_payload v) ''minPricePerHour'' = JStr price)"

lemma flow_goes:
  assumes H: "healthy E pub T D" and K: "key_ok (noble_fns E) (co_priv opts) mine" and R: "roomy (cfg E) D" and S: "samples_end E m"
    and O: "sound_options (cfg E) opts n" and now: "\<And>i. now_in T D (now i)" and iso: "iso_range T" "iso_range (T + D + 7 * 86400000)"
    and w: "fresh_world w" "client w"
  shows "goesC (runProviderFlow E X ip opts now) w (\<lambda>fl w'. fl_provider fl = pub_address (noble_fns E) mine
     \<and> published (T + D) (pub_address (noble_fns E) mine) (co_minPrice opts) (fl_offer fl) w')"
proof -
  let ?N = "noble_fns E" let ?who = "pub_address ?N mine" let ?pid = "hexToBuf ?who" and ?priv = "co_priv opts"
  note N = healthyD(1) [OF H]
  have n: "0 < n" "n \<le> 256" using O by (simp_all add: sound_options_def)
  have i: "iso_range (now j)" "iso_range (now j + 180000)" "iso_range (now j + 7 * 86400000)" for j
    using now [of j] iso by (auto simp: now_in_def iso_range_def)
  have addr: "addressFromPrivateKey ?N ?priv = Some ?who" using K by (simp add: addressFromPrivateKey_def key_ok_def)
  show ?thesis
    unfolding runProviderFlow_def Let_def
    apply (rule goesC_or, rule addr)
    apply (rule goesC_bind, rule stage_profile [OF H K R now i(1) fresh_deploy [OF w]])
      apply (simp add: signable_def empty_world_def, simp add: empty_world_def, elim exE conjE)
    apply (rule goesC_bind, rule stage_challenge [OF H K R O i(1)], assumption, simp add: uncounted_def, assumption, assumption, elim exE conjE)
    apply (rule goesC_or, assumption)
    apply (rule goesC_bind, rule goC_lanes [OF H K refl R S _ n], assumption, assumption, assumption, assumption, assumption,
        simp add: empty_world_def, elim exE conjE)
    apply (simp only: simp_thms if_False)
    apply (rule goesC_or, simp)
    apply (rule goesC_bind, rule stage_offer [OF H K R now i(1) now i(3)], assumption)
        apply (simp add: uncounted_def, blast, assumption, simp add: empty_world_def, elim exE conjE)
    apply (rule goesC_or, simp)
    apply (rule goesC_bind, rule stage_terms [OF H K R O now i(1) now i(2)], assumption)
         apply (simp add: uncounted_def, blast, simp, assumption, assumption, elim exE conjE)
    apply (simp add: goesC_ret published_def untouched_def uncounted_upd, intro exI conjI, assumption+)
          apply (simp_all add: uncounted_def)
    apply blast
    done
qed

subsection \<open>The busy signal\<close>

lemma avail_built:
  assumes "iso_range t"
  shows "avail_message who oid free None None t = Some (obj
     [(''type'', JStr (js ''avail/v1'')), (''providerId'', JStr who), (''offerId'', JStr oid), (''seq'', jint t), (''available'', JBool free),
      (''signedAt'', JStr (toIso t)), (''validUntil'', JStr (toIso (t + 600000)))])"
proof -
  have "fl (of_int (t + 600000)) = Fin (of_int (t + 600000))" using assms by (intro fl_of_int) (auto simp: iso_range_def)
  moreover have "\<bar>of_int (t + 600000) :: rat\<bar> \<le> 8640000000000000"
    using assms unfolding of_int_abs [symmetric] by (simp only: of_int_le_numeral_iff) (auto simp: iso_range_def)
  ultimately have "time_clip (num_add (Fin (of_int t)) (Fin 600000)) = Some (t + 600000)"
    by (simp add: time_clip_def ceiling_of_int [of "t + 600000", simplified])
  then show ?thesis by (simp add: avail_message_def num_min_def num_lt_def)
qed

lemma go_postAvailability:
  assumes H: "healthy E pub T D" and w: "deploy d f U w" and R: "roomy (cfg E) D" and c: "now_in T D c" "iso_range c" "iso_range (c + 600000)" "0 \<le> c"
    and f: "uncounted f" "''avail'' \<notin> U" "f (KAvailSeq oid) = None" and h: "HASH_RE oid" and who: "ADDRESS_RE who"
    and o: "offered (T + D) (hexToBuf who) (hexToBuf oid) d"
    and vw: "readEnvelope (noble_fns E) req ''avail/v1'' = Inr vw" "avail_message who oid False None None c = Some (payload vw)" "signer vw = who"
  shows "goes (postAvailability E oid req) w (\<lambda>r w'. status r = 200 \<and> (\<exists>f'. deploy d f' (insert ''avail'' U) w'
    \<and> (\<forall>i. f' (KTerms i) = f (KTerms i)) \<and> marked (T + D) (f' (KBusy oid)) True))"
proof -
  obtain row where s: "offer_select (\<lambda>r. of_id r = hexToBuf oid) d = [row]" and row: "of_id (or_offer row) = hexToBuf oid"
      "of_provider (or_offer row) = hexToBuf who" "of_revoked (or_offer row) = None" "T + D \<le> of_expires (or_offer row)"
    using o by (auto simp: offered_def)
  have D: "0 < D" "D \<le> 90000" "600000 \<le> availMaxValidityMs (cfg E)" using R by (simp_all add: roomy_def)
  have pv: "payload vw = obj
     [(''type'', JStr (js ''avail/v1'')), (''providerId'', JStr who), (''offerId'', JStr oid), (''seq'', jint c), (''available'', JBool False),
      (''signedAt'', JStr (toIso c)), (''validUntil'', JStr (toIso (c + 600000)))]"
    using vw(2) unfolding avail_built [OF c(2)] by simp
  have m: "field (payload vw) ''offerId'' = JStr oid" "field (payload vw) ''seq'' = jint c" "field (payload vw) ''available'' = JBool False"
      "field (payload vw) ''signedAt'' = JStr (toIso c)" "field (payload vw) ''validUntil'' = JStr (toIso (c + 600000))"
    by (simp_all add: pv obj_def)
  note iso = parseIso_toIso [OF c(2)] parseIso_toIso [OF c(3)]
  have q: "valid_seq (jint c)"
  proof -
    have "c \<le> 9007199254740991" using c(2) by (simp add: iso_range_def)
    then have "(of_int 0 :: rat) \<le> of_int c" "(of_int c :: rat) \<le> of_int 9007199254740991" using c(4) by (simp_all only: of_int_le_iff)
    then show ?thesis by (simp add: valid_seq_def jint_def num_of_int_def is_integer_def num_lt_def not_less)
  qed
  have times: "goes (check_times E t (payload vw)) v (\<lambda>_ w'. w' = v)" if "now_in T D t" for t v
    unfolding check_times_def m iso
    using that c(1) R by (intro goes_guard goes_pass) (auto simp: now_in_def roomy_def)
  have target: "goes (check_target vw (or_offer row) t) v (\<lambda>_ w'. w' = v)" if "now_in T D t" for t v
    unfolding check_target_def vw(3) m
    using that row by (intro goes_guard goes_pass) (auto simp: now_in_def stored_address [OF who] stored_hash [OF h])
  have ttl: "T + D \<le> T + max 1 (min (c + 600000 - t) (availMaxValidityMs (cfg E)))" if "now_in T D t" for t
    using that c(1) D by (auto simp: now_in_def)
  have busy: "goes (setBusy E oid (min (c + 600000 - t) (availMaxValidityMs (cfg E)))) u (\<lambda>ok w'. ok \<and> (\<exists>f'. deploy d f' V w'
      \<and> (\<forall>i. f' (KTerms i) = g (KTerms i)) \<and> marked (T + D) (f' (KBusy oid)) True))" if "deploy d g V u" "now_in T D t" for u t g V
    unfolding setBusy_def
    apply (rule goes_bind, rule go_set(1) [OF H that(1)], simp)
    apply (elim exE conjE, simp add: goes_rules, rule exI, rule conjI, assumption)
    apply (use ttl [OF that(2)] in \<open>auto simp: marked_def\<close>)
    done
  show ?thesis
    unfolding postAvailability_def Let_def
    apply (rule goes_lift, rule vw(1))
    apply (rule goes_bind, rule go_time [OF H w], elim conjE)
    apply (rule goes_bind, erule go_findOffer [OF H _ h o], elim conjE exE)
    apply (simp only: s list.inject option.case row(1) stored_hash [OF h])
    apply (rule goes_bind, rule go_limited [OF H _ f(1,2)], assumption, simp add: rl_availPerOffer_def)
    apply (elim conjE, hypsubst)
    apply (rule goes_bind, rule target, assumption)
    apply (unfold m iso option.sel)
    apply (rule goes_guard, simp)
    apply (rule goes_guard, simp add: q)
    apply (rule goes_bind, rule times, assumption)
    apply (rule goes_guard, use D in simp)
    apply (hypsubst, unfold row(1) stored_hash [OF h])
    apply (rule goes_bind, erule go_seq(2) [OF H], rule f(3))
    apply (simp only: simp_thms if_True)
    apply (rule goes_guard, use c(1) D in \<open>simp add: now_in_def\<close>)
    apply (rule goes_bind, erule busy, assumption, elim conjE exE)
    apply (rule goes_guard, simp)
    apply (auto simp: goes_rules json_def)
    done
qed

lemma stage_busy:
  assumes H: "healthy E pub T D" and K: "key_ok (noble_fns E) priv mine" and R: "roomy (cfg E) D"
    and c: "now_in T D c" "iso_range c" "iso_range (c + 600000)" "0 \<le> c"
    and w: "deploy d f U w" "uncounted f" "''avail'' \<notin> U" "f (KAvailSeq oid) = None" "HASH_RE oid"
      "offered (T + D) (hexToBuf (pub_address (noble_fns E) mine)) (hexToBuf oid) d"
  shows "goesC (setAvailability E X ip oid priv False None None c) w (\<lambda>r w'. status r = 200 \<and> (\<exists>f'. deploy d f' (insert ''avail'' U) w'
    \<and> (\<forall>i. f' (KTerms i) = f (KTerms i)) \<and> marked (T + D) (f' (KBusy oid)) True))"
proof -
  let ?who = "pub_address (noble_fns E) mine"
  note N = healthyD(1) [OF H]
  obtain m where a: "avail_message ?who oid False None None c = Some m" and m: "wf_js m" "plain_json m" "isPlainObject m"
      "field m ''type'' = JStr (js ''avail/v1'')" "field m ''providerId'' = JStr ?who"
    unfolding avail_built [OF c(2)] by (simp add: obj_def isPlainObject_def jint_def num_of_int_def is_finite_num_def)
  obtain sig h where s: "signed_envelope (noble_fns E) m priv = Some (envelope m sig)"
      "readEnvelope (noble_fns E) (Some (envelope m sig)) ''avail/v1'' = Inr \<lparr>payload = m, signature = sig, hash = h, signer = ?who\<rparr>"
    by (rule message_ok [OF N K m])
  have k: "addressFromPrivateKey (noble_fns E) priv = Some ?who" using K by (simp add: addressFromPrivateKey_def key_ok_def)
  have "goes (postAvailability E oid (Some (envelope m sig))) w (\<lambda>r w'. status r = 200 \<and> (\<exists>f'. deploy d f' (insert ''avail'' U) w'
    \<and> (\<forall>i. f' (KTerms i) = f (KTerms i)) \<and> marked (T + D) (f' (KBusy oid)) True))"
    using go_postAvailability [OF H w(1) R c w(2-5) pub_address_shape [OF N] w(6) s(2)] a by simp
  then show ?thesis unfolding setAvailability_def
    by (intro goesC_or [OF k] goesC_or [OF a] goesC_or [OF s(1)]) (auto simp: goes_def goesC_def post_def respond_def wrap_def)
qed

text \<open>
  C36: an honest provider gets through.  On a fresh deployment that answers, whose settings
  leave room for the time the flow takes and whose sampling ends, the reference provider
  registers, passes all four lanes, gets its attestation, publishes its offer and sends the
  heartbeat, whatever its key and, within the service's bounds, the machine it declares; the
  offer is then served as active, at the price asked, and as busy after the busy signal.
\<close>

theorem reference_provider_succeeds:
  assumes H: "healthy E pub T D" and K: "key_ok (noble_fns E) (co_priv opts) mine" and R: "roomy (cfg E) D" and S: "samples_end E m"
    and O: "sound_options (cfg E) opts n" and now: "\<And>i. now_in T D (now i)" and iso: "0 \<le> T" "iso_range (T + D + 7 * 86400000)"
    and w: "fresh_world w" "client w"
  shows "\<exists>fl w1 r w2 r' w3 r'' w4. runProviderFlow E X ip opts now w = Some (Inr fl, w1) \<and> fl_provider fl = pub_address (noble_fns E) mine
    \<and> respond E X ip' (GetOffer (fl_offer fl)) w1 = Some (r, w2) \<and> status r = 200 \<and> field (body r) ''status'' = JStr (js ''active'')
    \<and> field (field (field (field (body r) ''terms'') ''envelope'') ''payload'') ''minPricePerHour'' = JStr (co_minPrice opts)
    \<and> setAvailability E X ip (fl_offer fl) (co_priv opts) False None None (now 6) w2 = Some (Inr r', w3) \<and> status r' = 200
    \<and> respond E X ip' (GetOffer (fl_offer fl)) w3 = Some (r'', w4) \<and> field (body r'') ''status'' = JStr (js ''busy'')"
proof -
  let ?pid = "hexToBuf (pub_address (noble_fns E) mine)"
  have i: "iso_range T" "iso_range (now 6)" "iso_range (now 6 + 600000)" "0 \<le> now 6" using iso now [of 6] by (auto simp: now_in_def iso_range_def)
  obtain fl w1 d f U v e where r: "runProviderFlow E X ip opts now w = Some (Inr fl, w1)" "fl_provider fl = pub_address (noble_fns E) mine"
      "field (tr_payload v) ''minPricePerHour'' = JStr (co_minPrice opts)"
    and d: "deploy d f U w1" "HASH_RE (fl_offer fl)" "offered (T + D) ?pid (hexToBuf (fl_offer fl)) d"
      "f (KTerms (fl_offer fl)) = Some (VTerms v, Some e)" "T + D \<le> e" "f (KBusy (fl_offer fl)) = None"
      "uncounted f" "''avail'' \<notin> U" "f (KAvailSeq (fl_offer fl)) = None"
    using flow_goes [where now = now, OF H K R S O now i(1) iso(2) w, of X ip] unfolding goesC_def published_def by blast
  have "marked (T + D) (f (KBusy (fl_offer fl))) False" using d(6) by (simp add: marked_def)
  from go_getOffer [OF H d(1-5) this] obtain x w2 where g: "getOffer E (fl_offer fl) w1 = (Inr x, w2)" "deploy d f U w2" "status x = 200"
      "field (body x) ''status'' = JStr (js ''active'')" "field (field (field (body x) ''terms'') ''envelope'') ''payload'' = tr_payload v"
    by (auto simp: goes_def)
  from stage_busy [OF H K R now i(2-4) g(2) d(7-9,2,3), of X ip] obtain r' w3 f' where b: "setAvailability E X ip (fl_offer fl) (co_priv opts)
        False None None (now 6) w2 = Some (Inr r', w3)" "status r' = 200" "deploy d f' (insert ''avail'' U) w3"
      "f' (KTerms (fl_offer fl)) = f (KTerms (fl_offer fl))" "marked (T + D) (f' (KBusy (fl_offer fl))) True" by (auto simp: goesC_def)
  from go_getOffer [OF H b(3) d(2,3) b(4) [unfolded d(4)] d(5) b(5)] obtain y w4 where "getOffer E (fl_offer fl) w3 = (Inr y, w4)"
      "field (body y) ''status'' = JStr (js ''busy'')" by (auto simp: goes_def)
  then show ?thesis using r g b(1,2) by (auto simp: respond_def wrap_def)
qed

text \<open>A deployment to evaluate in: one sampled segment, and a clock that stands still.\<close>

definition quick_env :: env where
  "quick_env = still_env\<lparr>cfg := default_config\<lparr>samples := 1\<rparr>\<rparr>"

lemma quick_healthy: "healthy quick_env toy_pub 1800000000000 1000"
  using toy_ok toy_key by (simp add: healthy_def quick_env_def still_env_def demo_env_def redis_up_def)

lemma quick_roomy: "roomy (cfg quick_env) 1000"
  by (simp add: roomy_def quick_env_def default_config_def load_config_def int_setting_def num_def)

lemma quick_samples: "samples_end quick_env 1"
  by (simp add: samples_end_def quick_env_def lessThan_Suc)

definition quick_options :: ClientOptions where
  "quick_options = \<lparr>co_priv = [7], co_coreCount = Fin 16, co_ramGib = Fin 64, co_cpuModel = None, co_minPrice = js ''1.5''\<rparr>"

lemma quick_sound: "sound_options (cfg quick_env) quick_options 16"
proof -
  have "isValidPrice (JStr (js ''1.5''))" by code_simp
  then show ?thesis
    by (simp add: sound_options_def quick_options_def quick_env_def default_config_def load_config_def int_setting_def num_def)
qed

theorem reference_provider_succeeds_witness:
  "\<exists>fl w1 r w2. runProviderFlow quick_env plain_platform (js ''a'') quick_options (\<lambda>_. 1800000000000) empty_world = Some (Inr fl, w1)
    \<and> fl_provider fl = demo_address \<and> respond quick_env plain_platform (js ''b'') (GetOffer (fl_offer fl)) w1 = Some (r, w2)
    \<and> field (body r) ''status'' = JStr (js ''active'')"
proof -
  have w: "fresh_world empty_world" "client empty_world" by (simp_all add: fresh_world_def empty_world_def)
  have t: "noble_fns quick_env = toy" "key_ok toy (co_priv quick_options) toy_pub"
    using toy_key by (simp_all add: quick_env_def still_env_def demo_env_def)
  have c: "now_in 1800000000000 1000 1800000000000" "(0 :: int) \<le> 1800000000000" "iso_range (1800000000000 + 1000 + 7 * 86400000)"
    by (simp_all add: now_in_def iso_range_def)
  from reference_provider_succeeds [where now = "\<lambda>_. 1800000000000", OF quick_healthy _ quick_roomy quick_samples quick_sound c w, unfolded t(1), OF t(2)]
  show ?thesis unfolding demo_address_def by blast
qed

end
