(* ===== verification/Web_Api.thy ===== *)
theory Web_Api
  imports Simulator
begin

text \<open>
  The dashboard's client of the read API (\<open>src/web/src/api.ts\<close>): the shapes of the responses, the
  URLs of the requests, and how a response is read.  \<open>URLSearchParams\<close> prints and parses
  \<open>application/x-www-form-urlencoded\<close>.  Proved: the service finds in the URL of a search what
  the dashboard put there.
\<close>

subsection \<open>The responses\<close>

text \<open>A \<open>null\<close> or missing field is \<open>None\<close>.\<close>

record Scores =
  as_singleCore :: jsnum
  as_quadCore :: jsnum
  as_eightCore :: jsnum
  as_full :: jsnum
  as_ramBandwidth :: "jsnum option"
  as_dagHash :: "jsnum option"

record SimMatch =
  sm_providerId :: jstr
  sm_providerName :: jstr
  sm_offerId :: jstr
  sm_pricePerHour :: jstr
  sm_sinceIso :: jstr
  sm_untilIso :: jstr

record SimCounters =
  sn_queries :: jsnum
  sn_matches :: jsnum
  sn_noMatch :: jsnum
  sn_probeRejected :: jsnum
  sn_bugs :: jsnum

record DemandSimRequestor =
  dr_requestorId :: jstr
  dr_displayName :: jstr
  dr_shape :: jstr
  dr_coresMin :: "jsnum option"
  dr_ramGibMin :: "jsnum option"
  dr_scoreFullMin :: "jsnum option"
  dr_maxPricePerHour :: jstr
  dr_status :: sim_status
  dr_match :: "SimMatch option"
  dr_counters :: SimCounters
  dr_spent :: jsnum
  dr_jobs :: jsnum
  dr_updatedAt :: jstr

record SimJob =
  sj_id :: jsnum
  sj_requestorId :: jstr
  sj_requestorName :: jstr
  sj_shape :: jstr
  sj_providerId :: jstr
  sj_providerName :: jstr
  sj_offerId :: jstr
  sj_pricePerHour :: jstr
  sj_runMs :: jsnum
  sj_cost :: jsnum
  sj_startedAt :: jstr
  sj_settledAt :: jstr

record SimJobList =
  jl_jobs :: "SimJob list"
  jl_total :: jsnum

record SimEarnings =
  ea_providerId :: jstr
  ea_displayName :: jstr
  ea_earned :: jsnum
  ea_jobs :: jsnum
  ea_lastJobAt :: jstr

record DemandSim =
  ds_requestors :: "DemandSimRequestor list"
  ds_earnings :: "SimEarnings list"
  ds_spent :: jsnum
  ds_jobs :: jsnum

record PriceRange =
  pr_min :: jsnum
  pr_median :: jsnum
  pr_max :: jsnum

record Stats =
  st_at :: jsnum
  st_unit :: jstr
  st_providersTotal :: jsnum
  st_providersActive :: jsnum
  st_providersBusy :: "jsnum option"
  st_providersFree :: "jsnum option"
  st_offersActive :: jsnum
  st_offersLive :: jsnum
  st_offersBusy :: "jsnum option"
  st_attestationsValid :: jsnum
  st_liveCores :: jsnum
  st_liveRamGib :: jsnum
  st_price :: "PriceRange option"
  st_demandSim :: "DemandSim option"

record ItemAttestation =
  ia_coreCount :: jsnum
  ia_ramGib :: jsnum
  ia_cpuModel :: "jstr option"
  ia_scores :: Scores
  ia_expiresAt :: jstr

record ProviderItem =
  pi_providerId :: jstr
  pi_displayName :: jstr
  pi_heartbeatIntervalSec :: jsnum
  pi_activeOffers :: jsnum
  pi_liveOffers :: jsnum
  pi_busyOffers :: jsnum
  pi_attestation :: "ItemAttestation option"
  pi_firstSeenAt :: jstr
  pi_lastSeenAt :: "jstr option"

record ProviderList =
  pl_items :: "ProviderItem list"
  pl_total :: jsnum
  pl_limit :: jsnum
  pl_offset :: jsnum

record ProviderOffer =
  po_offerId :: jstr
  po_status :: OfferStatus
  po_minPricePerHour :: "jstr option"
  po_coresFree :: "jsnum option"
  po_expiresAt :: jstr

record DetailAttestation = ItemAttestation +
  da_id :: jstr
  da_model :: jstr

record ProviderDetail =
  pd_payload :: jsval
  pd_signature :: jstr
  pd_hash :: jstr
  pd_receivedAt :: jstr
  pd_attestation :: "DetailAttestation option"
  pd_offers :: "ProviderOffer list"
  pd_activeOffers :: jsnum
  pd_liveOffers :: jsnum
  pd_busyOffers :: jsnum
  pd_lastSeenAt :: "jstr option"
  pd_firstSeenAt :: jstr

record 'p Envelope =
  ev_payload :: 'p
  ev_signature :: jstr
  ev_hash :: "jstr option"
  ev_receivedAt :: jstr

record TemplatePayload =
  tp_providerId :: jstr
  tp_expiresAt :: jstr
  tp_constraintsHint :: "jstr option"

record AttestationPayload =
  ap_coreCount :: jsnum
  ap_ramGib :: jsnum
  ap_cpuModel :: "jstr option"
  ap_scores :: Scores

record TermsPayload =
  te_minPricePerHour :: jstr
  te_unit :: jstr
  te_validUntil :: jstr
  te_coresFree :: "jsnum option"

record OfferItem =
  oi_offerId :: jstr
  oi_template :: "TemplatePayload Envelope"
  oi_attestation :: "AttestationPayload Envelope"
  oi_terms :: "TermsPayload Envelope option"
  oi_status :: OfferStatus

record HistoryPoint =
  hp_at :: jsnum
  hp_providersTotal :: jsnum
  hp_providersActive :: jsnum
  hp_providersBusy :: jsnum
  hp_offersActive :: jsnum
  hp_offersLive :: jsnum
  hp_offersBusy :: jsnum
  hp_attestationsValid :: jsnum
  hp_liveCores :: jsnum
  hp_liveRamGib :: jsnum
  hp_price :: "PriceRange option"
  hp_sim :: "(jsnum \<times> jsnum) option"

datatype HistoryRange = H1 | H6 | H24 | D7 | D30

record StatsHistory =
  sh_range :: HistoryRange
  sh_stepSec :: jsnum
  sh_unit :: jstr
  sh_points :: "HistoryPoint list"

fun range_text :: "HistoryRange \<Rightarrow> string" where
  "range_text H1 = ''1h''"
| "range_text H6 = ''6h''"
| "range_text H24 = ''24h''"
| "range_text D7 = ''7d''"
| "range_text D30 = ''30d''"

subsection \<open>Query strings\<close>

definition form_safe :: "8 word \<Rightarrow> bool" where
  "form_safe b = ((48 \<le> b \<and> b \<le> 57) \<or> (65 \<le> b \<and> b \<le> 90) \<or> (97 \<le> b \<and> b \<le> 122) \<or> b \<in> {42, 45, 46, 95})"

definition hex_upper :: "int \<Rightarrow> 16 word" where
  "hex_upper n = of_int (if n < 10 then 48 + n else 55 + n)"

definition form_byte :: "8 word \<Rightarrow> jstr" where
  "form_byte b =
     (if b = 32 then [43] else if form_safe b then [of_int (uint b)]
      else [37, hex_upper (uint b div 16), hex_upper (uint b mod 16)])"

definition form_encode :: "jstr \<Rightarrow> jstr" where
  "form_encode s = concat (map form_byte (utf8 s))"

text \<open>\<open>String(q)\<close> of the pairs in order; \<open>q.set\<close> replaces a key's value or appends the pair.\<close>

type_synonym params = "(jstr \<times> jstr) list"

definition form_string :: "params \<Rightarrow> jstr" where
  "form_string ps = join [38] (map (\<lambda>(k, v). form_encode k @ 61 # form_encode v) ps)"

fun set_param :: "'k \<Rightarrow> 'v \<Rightarrow> ('k \<times> 'v) list \<Rightarrow> ('k \<times> 'v) list" where
  "set_param k v [] = [(k, v)]"
| "set_param k v ((k', v') # ps) = (if k' = k then (k, v) # ps else (k', v') # set_param k v ps)"

text \<open>The reader of the other side: a URL is ASCII, so a unit that is not escaped is a byte.\<close>

fun form_decode :: "jstr \<Rightarrow> bytes" where
  "form_decode [] = []"
| "form_decode (u # us) =
     (if u = 43 then 32 # form_decode us
      else if u = 37 then
        (case us of
           h # l # vs \<Rightarrow> (case (hex_val h, hex_val l) of
               (Some a, Some b) \<Rightarrow> of_int (16 * a + b) # form_decode vs
             | _ \<Rightarrow> 37 # form_decode us)
         | _ \<Rightarrow> 37 # form_decode us)
      else of_int (uint u) # form_decode us)"

fun split_on :: "'a \<Rightarrow> 'a list \<Rightarrow> 'a list list" where
  "split_on c [] = [[]]"
| "split_on c (x # xs) = (if x = c then [] # split_on c xs
     else (case split_on c xs of [] \<Rightarrow> [[x]] | y # ys \<Rightarrow> (x # y) # ys))"

definition form_text :: "jstr \<Rightarrow> jstr" where
  "form_text s = utf8_decode (form_decode s)"

definition form_pair :: "jstr \<Rightarrow> jstr \<times> jstr" where
  "form_pair s = (form_text (takeWhile (\<lambda>u. u \<noteq> 61) s), form_text (drop 1 (dropWhile (\<lambda>u. u \<noteq> 61) s)))"

definition form_parse :: "jstr \<Rightarrow> params" where
  "form_parse s = map form_pair (List.filter (\<lambda>x. x \<noteq> []) (split_on 38 s))"

text \<open>\<open>searchParams.get\<close> of the URL a request was sent to.\<close>

definition search_get :: "jstr \<Rightarrow> string \<Rightarrow> jstr option" where
  "search_get qs name = map_of (form_parse qs) (js name)"

subsection \<open>The requests\<close>

text \<open>
  An \<open>OfferFilters\<close> object is its own properties in the order they were set.  Paths without
  parameters are constants; a path is the text before the question mark and the query string.
\<close>

type_synonym OfferFilters = "(string \<times> jstr) list"

definition statsHistory_url :: "HistoryRange \<Rightarrow> jstr \<times> jstr" where
  "statsHistory_url r = (js ''/v1/stats/history'', js ''range='' @ js (range_text r))"

definition providers_url :: "jsnum \<Rightarrow> jsnum \<Rightarrow> jstr \<times> jstr" where
  "providers_url l off = (js ''/v1/providers'', js ''limit='' @ num_str l @ js ''&offset='' @ num_str off)"

definition truthy_text :: "jstr option \<Rightarrow> bool" where
  "truthy_text x = (case x of None \<Rightarrow> False | Some s \<Rightarrow> s \<noteq> [])"

definition simJobs_url :: "jsnum \<Rightarrow> jstr option \<Rightarrow> jstr option \<Rightarrow> jstr \<times> jstr" where
  "simJobs_url l requestor provider =
     (let q = [(js ''limit'', num_str l)];
          q = (if truthy_text requestor then set_param (js ''requestor'') (the requestor) q else q);
          q = (if truthy_text provider then set_param (js ''provider'') (the provider) q else q)
      in (js ''/v1/sim/jobs'', form_string q))"

definition provider_url :: "jstr \<Rightarrow> jstr \<times> jstr" where
  "provider_url i = (js ''/v1/providers/'' @ i, [])"

definition offers_params :: "OfferFilters \<Rightarrow> jsnum \<Rightarrow> jstr option \<Rightarrow> params" where
  "offers_params filters l cursor =
     (let q = foldl (\<lambda>q (k, v). if v \<noteq> [] then set_param (js k) v q else q) [] filters;
          q = set_param (js ''limit'') (num_str l) q
      in if truthy_text cursor then set_param (js ''cursor'') (the cursor) q else q)"

definition offers_url :: "OfferFilters \<Rightarrow> jsnum \<Rightarrow> jstr option \<Rightarrow> jstr \<times> jstr" where
  "offers_url filters l cursor = (js ''/v1/offers'', form_string (offers_params filters l cursor))"

text \<open>
  \<open>get\<close>: \<open>Inl\<close> is the message of the error thrown.  \<open>parsed\<close> is the body when it is JSON; one
  that is not fails in \<open>res.json()\<close> with the runtime's message, \<open>Inl None\<close>.
\<close>

definition get_message :: "jsval option \<Rightarrow> jsval" where
  "get_message b = (case b of Some v \<Rightarrow> field (field v ''error'') ''message'' | None \<Rightarrow> JUndef)"

definition api_get :: "jstr \<Rightarrow> int \<Rightarrow> jsval option \<Rightarrow> jsval option + jsval" where
  "api_get path st parsed =
     (if 200 \<le> st \<and> st \<le> 299 then (case parsed of None \<Rightarrow> Inl None | Some v \<Rightarrow> Inr v)
      else Inl (Some (let m = get_message parsed in
        if m \<noteq> JUndef \<and> m \<noteq> JNull then m else JStr (dec_str st @ js '' on '' @ path))))"

subsection \<open>Reading a query string back\<close>

lemma hex_upper_val: "0 \<le> n \<Longrightarrow> n < 16 \<Longrightarrow> hex_val (hex_upper n) = Some n"
proof -
  assume n: "0 \<le> n" "n < 16"
  have u: "uint (hex_upper n) = (if n < 10 then 48 + n else 55 + n)"
    unfolding hex_upper_def uint_word_of_int using n by (intro mod_pos_pos_trivial) auto
  show ?thesis using n by (auto simp: hex_val_def word_le_def is_digit_def u)
qed

lemma byte_unit: "uint (of_int (uint b) :: 16 word) = uint (b :: 8 word)"
  unfolding uint_word_of_int using uint_lt2p [of b] by (intro mod_pos_pos_trivial) auto

lemma ucast_unit [simp]: "uint (ucast (b :: 8 word) :: 16 word) = uint b" "ucast (ucast b :: 16 word) = b"
proof -
  show u: "uint (ucast (b :: 8 word) :: 16 word) = uint b" using byte_unit [of b] by simp
  show "ucast (ucast b :: 16 word) = b" by (metis u word_of_int_uint unsigned_of_int of_int_uint)
qed

lemma byte_unit_num: "(of_int (uint b) :: 16 word) = of_int n \<longleftrightarrow> uint (b :: 8 word) = n" if "0 \<le> n" "n < 256"
proof -
  have "uint (of_int n :: 16 word) = n" unfolding uint_word_of_int using that by (intro mod_pos_pos_trivial) auto
  then show ?thesis by (metis byte_unit)
qed

lemma form_safe_uint: "form_safe b \<Longrightarrow> uint b \<notin> {32, 37, 38, 43, 61} \<and> uint b < 128"
  by (auto simp: form_safe_def word_le_def)

lemma hex_upper_uint: "0 \<le> n \<Longrightarrow> n < 16 \<Longrightarrow> uint (hex_upper n) = (if n < 10 then 48 + n else 55 + n)"
  unfolding hex_upper_def uint_word_of_int by (intro mod_pos_pos_trivial) auto

lemma form_decode_byte: "form_decode (form_byte b @ t) = b # form_decode t"
proof (cases "b \<noteq> 32 \<and> form_safe b")
  case True
  then have "(of_int (uint b) :: 16 word) \<noteq> 43" "(of_int (uint b) :: 16 word) \<noteq> 37"
    using form_safe_uint [of b] byte_unit_num [of 43 b] byte_unit_num [of 37 b] by auto
  then show ?thesis using True by (simp add: form_byte_def)
next
  case False
  have b: "0 \<le> uint b" "uint b < 256" using uint_lt2p [of b] by auto
  have "hex_val (hex_upper (uint b div 16)) = Some (uint b div 16)" "hex_val (hex_upper (uint b mod 16)) = Some (uint b mod 16)"
    by (rule hex_upper_val; use b in linarith)+
  moreover have "16 * (uint b div 16) + uint b mod 16 = uint b" by simp
  ultimately show ?thesis using False by (auto simp: form_byte_def simp del: of_int_add of_int_mult)
qed

lemma form_byte_plain: "u \<in> set (form_byte b) \<Longrightarrow> u \<noteq> 38 \<and> u \<noteq> 61 \<and> u < 0x80"
proof -
  assume u: "u \<in> set (form_byte b)"
  have "uint u \<noteq> 38 \<and> uint u \<noteq> 61 \<and> uint u < 128"
  proof (cases "b \<noteq> 32 \<and> form_safe b")
    case True
    then show ?thesis using u form_safe_uint [of b] by (auto simp: form_byte_def)
  next
    case False
    have b: "0 \<le> uint b div 16" "uint b div 16 < 16" "0 \<le> uint b mod 16" "uint b mod 16 < 16" using uint_lt2p [of b] by (auto simp: pos_imp_zdiv_nonneg_iff)
    show ?thesis using u False hex_upper_uint [OF b(1,2)] hex_upper_uint [OF b(3,4)] b by (auto simp: form_byte_def split: if_splits)
  qed
  then show ?thesis by (auto simp: word_less_def)
qed

lemma form_decode_encode: "form_decode (form_encode s) = utf8 s"
proof -
  have "form_decode (concat (map form_byte bs)) = bs" for bs by (induction bs) (simp_all add: form_decode_byte)
  then show ?thesis by (simp add: form_encode_def)
qed

lemma form_text_encode: "list_all (\<lambda>u. u < 0x80) s \<Longrightarrow> form_text (form_encode s) = s"
  by (simp add: form_text_def form_decode_encode utf8_ascii utf8_decode_ascii del: of_int_uint)

lemma form_encode_plain: "38 \<notin> set (form_encode s)" "61 \<notin> set (form_encode s)"
  using form_byte_plain by (auto simp: form_encode_def)

lemma split_on_plain: "c \<notin> set xs \<Longrightarrow> split_on c xs = [xs]"
  by (induction xs) auto

lemma split_on_append: "c \<notin> set xs \<Longrightarrow> split_on c (xs @ c # ys) = xs # split_on c ys"
  by (induction xs) auto

lemma split_on_join: "list_all (\<lambda>x. c \<notin> set x) xs \<Longrightarrow> xs \<noteq> [] \<Longrightarrow> split_on c (join [c] xs) = xs"
proof (induction xs)
  case (Cons x xs)
  then show ?case by (cases xs) (auto simp: split_on_plain split_on_append)
qed simp

lemma form_pair_print:
  assumes "list_all (\<lambda>u. u < 0x80) k" "list_all (\<lambda>u. u < 0x80) v"
  shows "form_pair (form_encode k @ 61 # form_encode v) = (k, v)"
proof -
  have n: "\<And>u. u \<in> set (form_encode k) \<Longrightarrow> u \<noteq> 61" using form_encode_plain(2) by metis
  have "takeWhile (\<lambda>u. u \<noteq> 61) (form_encode k @ 61 # form_encode v) = form_encode k"
    "dropWhile (\<lambda>u. u \<noteq> 61) (form_encode k @ 61 # form_encode v) = 61 # form_encode v"
    by (subst takeWhile_append2 dropWhile_append2, use n in auto)+
  then show ?thesis by (simp add: form_pair_def form_text_encode assms)
qed

text \<open>Printing and parsing are inverse on ASCII keys and values.\<close>

lemma form_parse_string:
  assumes "\<And>k v. (k, v) \<in> set ps \<Longrightarrow> list_all (\<lambda>u. u < 0x80) k \<and> list_all (\<lambda>u. u < 0x80) v"
  shows "form_parse (form_string ps) = ps"
proof (cases "ps = []")
  case False
  let ?f = "\<lambda>(k, v). form_encode k @ 61 # form_encode v"
  have "list_all (\<lambda>x. 38 \<notin> set x) (map ?f ps)"
    using form_encode_plain by (auto simp: list_all_iff)
  from split_on_join [OF this] False have "split_on 38 (form_string ps) = map ?f ps" by (simp add: form_string_def)
  moreover have "List.filter (\<lambda>x. x \<noteq> []) (map ?f ps) = map ?f ps" by (auto simp: filter_id_conv)
  moreover have "map (form_pair \<circ> ?f) ps = map id ps" using form_pair_print assms by (intro map_cong) auto
  ultimately show ?thesis by (simp add: form_parse_def)
qed (simp add: form_parse_def form_string_def)

text \<open>The object behind the parameters: the last value set under a key.\<close>

lemma map_of_set_param [simp]: "map_of (set_param k v ps) = (map_of ps)(k \<mapsto> v)"
  by (induction k v ps rule: set_param.induct) auto

definition ascii :: "jstr \<Rightarrow> bool" where
  "ascii s = list_all (\<lambda>u. u < 0x80) s"

lemma map_of_filters:
  "distinct (map fst fs) \<Longrightarrow> map_of (foldl (\<lambda>q (k, v). if v \<noteq> [] then set_param (js k) v q else q) q fs) (js k)
     = (case map_of fs k of Some v \<Rightarrow> if v \<noteq> [] then Some v else map_of q (js k) | None \<Rightarrow> map_of q (js k))"
  by (induction fs arbitrary: q) (auto split: option.splits simp: map_of_eq_None_iff image_iff)

definition all_ascii :: "params \<Rightarrow> bool" where
  "all_ascii ps = list_all (\<lambda>(k, v). ascii k \<and> ascii v) ps"

lemma all_ascii_set_param: "all_ascii ps \<Longrightarrow> ascii k \<Longrightarrow> ascii v \<Longrightarrow> all_ascii (set_param k v ps)"
  unfolding all_ascii_def by (induction k v ps rule: set_param.induct) auto

lemma all_ascii_filters:
  "\<lbrakk>\<forall>(k, v) \<in> set fs. ascii (js k) \<and> ascii v; all_ascii q\<rbrakk>
     \<Longrightarrow> all_ascii (foldl (\<lambda>q (k, v). if v \<noteq> [] then set_param (js k) v q else q) q fs)"
proof (induction fs arbitrary: q)
  case (Cons a fs)
  then show ?case by (cases a) (simp add: all_ascii_set_param)
qed simp

lemma ascii_words: "ascii (js ''limit'')" "ascii (js ''cursor'')"
  by (simp_all add: ascii_def js_def of_char_def)

text \<open>
  C40: the query string of a search carries the dashboard's filters to the service: what the
  service reads under each name is the filter's value, unless it is empty, the page size and
  the cursor.
\<close>

theorem offers_query_read:
  assumes "distinct (map fst filters)" and "\<forall>(k, v) \<in> set filters. ascii (js k) \<and> ascii v \<and> k \<noteq> ''limit'' \<and> k \<noteq> ''cursor''"
    and "0 \<le> n" "n \<le> 10 ^ 15" and "case cursor of None \<Rightarrow> True | Some c \<Rightarrow> ascii c \<and> c \<noteq> []"
  shows "search_get (snd (offers_url filters (Fin (of_int n)) cursor)) =
    (\<lambda>name. if name = ''limit'' then Some (dec_str n) else if name = ''cursor'' then cursor
       else (case map_of filters name of Some v \<Rightarrow> if v = [] then None else Some v | None \<Rightarrow> None))"
proof
  fix name
  let ?q = "foldl (\<lambda>q (k, v). if v \<noteq> [] then set_param (js k) v q else q) [] filters"
  have d: "ascii (dec_str n)" using digits_ascii [OF dec_str_digits [OF assms(3)]] by (simp add: ascii_def)
  have num: "num_str (Fin (of_int n)) = dec_str n" by (rule num_str_int [OF assms(3,4)])
  have "all_ascii ?q" by (rule all_ascii_filters) (use assms(2) in \<open>auto simp: all_ascii_def\<close>)
  then have "all_ascii (offers_params filters (Fin (of_int n)) cursor)"
    unfolding offers_params_def num Let_def truthy_text_def using assms(5)
    by (auto intro!: all_ascii_set_param d ascii_words split: option.splits)
  then have "form_parse (form_string (offers_params filters (Fin (of_int n)) cursor)) = offers_params filters (Fin (of_int n)) cursor"
    by (intro form_parse_string) (auto simp: all_ascii_def ascii_def list_all_iff)
  then have s: "search_get (snd (offers_url filters (Fin (of_int n)) cursor)) name = map_of (offers_params filters (Fin (of_int n)) cursor) (js name)"
    by (simp add: search_get_def offers_url_def)
  have f: "map_of filters ''limit'' = None" "map_of filters ''cursor'' = None"
    using assms(2) by (auto simp: map_of_eq_None_iff)
  show "search_get (snd (offers_url filters (Fin (of_int n)) cursor)) name =
      (if name = ''limit'' then Some (dec_str n) else if name = ''cursor'' then cursor
       else (case map_of filters name of Some v \<Rightarrow> if v = [] then None else Some v | None \<Rightarrow> None))"
    unfolding s using assms(5) f
    by (auto simp: offers_params_def num Let_def truthy_text_def map_of_filters [OF assms(1)] split: option.splits)
qed

theorem offers_query_read_witness:
  "search_get (snd (offers_url [(''price.perHour.max'', js ''1 &='')] (Fin (of_int 25)) (Some (js ''ey''))) ) ''price.perHour.max''
     = Some (js ''1 &='')"
  by (subst offers_query_read) (simp_all add: ascii_def js_def of_char_def)

end
