(* ===== verification/Web_Format.thy ===== *)
theory Web_Format
  imports Web_Api
begin

text \<open>
  How the dashboard prints numbers and times (\<open>src/web/src/format.ts\<close>).  \<open>now\<close> is \<open>Date.now()\<close>,
  \<open>Date.parse\<close> is asked for timestamps the service wrote, and \<open>toLocaleString\<close> rounds half up at
  the language's default of three digits.  Proved: a grouped number without its commas is the
  number, an age never takes a unit it has outgrown, and a shortened identifier is never longer
  than the identifier.
\<close>

definition ellipsis :: jstr where
  "ellipsis = [0x2026]"

definition dash :: jstr where
  "dash = [0x2014]"

definition slice_last :: "nat \<Rightarrow> 'a list \<Rightarrow> 'a list" where
  "slice_last n s = (if n = 0 then s else drop (length s - n) s)"

definition shortHex :: "nat \<Rightarrow> nat \<Rightarrow> jstr \<Rightarrow> jstr" where
  "shortHex head tail hex =
     (if length hex \<le> head + tail + 3 then hex else slice 0 head hex @ ellipsis @ slice_last tail hex)"

text \<open>\<open>Date.parse\<close>, and the difference of two times: integers, so exact.\<close>

definition parse_ms :: "jstr \<Rightarrow> jsnum" where
  "parse_ms stamp = (case date_parse stamp of None \<Rightarrow> NaN | Some t \<Rightarrow> Fin (of_int t))"

fun num_neg :: "jsnum \<Rightarrow> jsnum" where
  "num_neg NaN = NaN"
| "num_neg PosInf = NegInf"
| "num_neg NegInf = PosInf"
| "num_neg (Fin r) = Fin (- r)"

definition num_sub :: "jsnum \<Rightarrow> jsnum \<Rightarrow> jsnum" where
  "num_sub a b = num_add a (num_neg b)"

definition whole :: "jsnum \<Rightarrow> jsnum \<Rightarrow> jstr" where
  "whole s unit_s = num_str (num_floor (num_div s unit_s))"

definition timeAgo :: "int \<Rightarrow> jstr option \<Rightarrow> jstr" where
  "timeAgo now stamp =
     (if \<not> truthy_text stamp then js ''never''
      else let s = num_div (num_max (Fin 0) (num_sub (Fin (of_int now)) (parse_ms (the stamp)))) (Fin 1000) in
        if num_lt s (Fin 5) then js ''just now''
        else if num_lt s (Fin 60) then num_str (num_floor s) @ js ''s ago''
        else if num_lt s (Fin 3600) then whole s (Fin 60) @ js ''m ago''
        else if num_lt s (Fin 86400) then whole s (Fin 3600) @ js ''h ago''
        else whole s (Fin 86400) @ js ''d ago'')"

definition untilShort :: "int \<Rightarrow> jstr \<Rightarrow> jstr" where
  "untilShort now stamp =
     (let s = num_div (num_sub (parse_ms stamp) (Fin (of_int now))) (Fin 1000) in
        if num_le s (Fin 0) then js ''expired''
        else if num_lt s (Fin 3600) then whole s (Fin 60) @ js ''m''
        else if num_lt s (Fin 86400) then whole s (Fin 3600) @ js ''h''
        else whole s (Fin 86400) @ js ''d'')"

subsection \<open>Numbers\<close>

text \<open>
  \<open>toLocaleString("en-US", {maximumFractionDigits: k})\<close>: commas between groups of three digits,
  at most \<open>k\<close> digits after the point, no trailing zeros.
\<close>

function group3 :: "jstr \<Rightarrow> jstr" where
  "group3 s = (if length s \<le> 3 then s else group3 (take (length s - 3) s) @ js '','' @ drop (length s - 3) s)"
  by pat_completeness auto
termination by (relation "measure length") auto

declare group3.simps [simp del]

definition trim_zeros :: "jstr \<Rightarrow> jstr" where
  "trim_zeros s = rev (dropWhile (\<lambda>u. u = digit_unit 0) (rev s))"

definition locale_digits :: "nat \<Rightarrow> rat \<Rightarrow> jstr" where
  "locale_digits k r =
     (let n = \<lfloor>r * 10 ^ k + 1 / 2\<rfloor>; fr = trim_zeros (digits_n k (n mod 10 ^ k))
      in group3 (dec_str (n div 10 ^ k)) @ (if fr = [] then [] else js ''.'' @ fr))"

definition toLocaleString :: "nat \<Rightarrow> jsnum \<Rightarrow> jstr" where
  "toLocaleString k x =
     (case x of Fin r \<Rightarrow> if r < 0 then js ''-'' @ locale_digits k (- r) else locale_digits k r
      | NaN \<Rightarrow> js ''NaN'' | PosInf \<Rightarrow> [0x221E] | NegInf \<Rightarrow> js ''-'' @ [0x221E])"

definition fmtInt :: "jsnum \<Rightarrow> jstr" where
  "fmtInt n = toLocaleString 3 n"

definition fmtGib :: "jsnum \<Rightarrow> jstr" where
  "fmtGib n = (if num_le (Fin 1024) n then to_fixed 1 (num_div n (Fin 1024)) @ js '' TiB''
     else fmtInt (math_round n) @ js '' GiB'')"

text \<open>
  \<open>toPrecision(p)\<close> of a positive number: \<open>p\<close> significant digits, the larger of two candidates,
  in exponential notation below \<open>1e-6\<close> and from \<open>10 ^ p\<close> on.
\<close>

definition precision_parts :: "nat \<Rightarrow> rat \<Rightarrow> int \<times> int" where
  "precision_parts p r =
     (let e = ilog 10 r; n = \<lfloor>r / 10 powi (e - int p + 1) + 1 / 2\<rfloor>
      in if n = 10 ^ p then (10 ^ (p - 1), e + 1) else (n, e))"

definition precision_digits :: "nat \<Rightarrow> rat \<Rightarrow> jstr" where
  "precision_digits p r =
     (let (n, e) = precision_parts p r; m = dec_str n in
      if e < -6 \<or> int p \<le> e then
        take 1 m @ (if p = 1 then [] else js ''.'' @ drop 1 m) @ js ''e'' @ (if e < 0 then js ''-'' else js ''+'') @ dec_str \<bar>e\<bar>
      else if e = int p - 1 then m
      else if 0 \<le> e then take (nat (e + 1)) m @ js ''.'' @ drop (nat (e + 1)) m
      else js ''0.'' @ zeros (- (e + 1)) @ m)"

definition toPrecision :: "nat \<Rightarrow> jsnum \<Rightarrow> jstr" where
  "toPrecision p x =
     (case x of
        Fin r \<Rightarrow> if r = 0 then js ''0'' @ (if p = 1 then [] else js ''.'' @ zeros (int p - 1))
                 else if r < 0 then js ''-'' @ precision_digits p (- r) else precision_digits p r
      | _ \<Rightarrow> num_str x)"

definition fmtPrice :: "jsnum option \<Rightarrow> jstr" where
  "fmtPrice x = (case x of None \<Rightarrow> dash
     | Some n \<Rightarrow> if num_lt n (fl (1 / 100)) then toPrecision 2 n else to_fixed (if num_lt n (Fin 1) then 3 else 2) n)"

definition fmtGlm :: "jsnum \<Rightarrow> jstr" where
  "fmtGlm n =
     (if n = Fin 0 then js ''0''
      else if num_lt n (fl (1 / 1000)) then toPrecision 2 n
      else to_fixed (if num_lt n (Fin 10) then 4 else 2) n)"

definition accruing :: "int \<Rightarrow> jstr \<Rightarrow> jstr \<Rightarrow> jsnum" where
  "accruing now pricePerHour sinceIso =
     num_div (num_mul (js_number pricePerHour) (num_max (Fin 0) (num_sub (Fin (of_int now)) (parse_ms sinceIso)))) (Fin 3600000)"

text \<open>A label and its class.\<close>

definition providerStatus :: "jsnum \<Rightarrow> jsnum \<Rightarrow> jstr option \<Rightarrow> string \<times> string" where
  "providerStatus nlive nbusy lastSeenAt =
     (if num_lt (Fin 0) nbusy then (if num_lt nbusy nlive then ''partly busy'' else ''busy'', ''busy'')
      else if num_lt (Fin 0) nlive then (''free'', ''active'')
      else if truthy_text lastSeenAt then (''stale'', ''stale'')
      else (''offline'', ''''))"

subsection \<open>What is printed\<close>

lemma length_shortHex: "0 < t \<Longrightarrow> length (shortHex h t s) \<le> length s"
  by (auto simp: shortHex_def slice_def ellipsis_def slice_last_def)

lemma filter_digits: "list_all is_digit s \<Longrightarrow> List.filter is_digit s = s"
  by (simp add: list_all_iff filter_id_conv)

lemma comma_no_digit: "List.filter is_digit (js '','') = []"
  by (simp add: js_def of_char_def is_digit_def)

lemma group3_digits: "list_all is_digit s \<Longrightarrow> List.filter is_digit (group3 s) = s"
proof (induction s rule: group3.induct)
  case (1 s)
  show ?case
  proof (cases "length s \<le> 3")
    case True
    then show ?thesis using filter_digits [OF 1(2)] by (simp add: group3.simps [of s])
  next
    case False
    have "list_all is_digit (take n s)" "list_all is_digit (drop n s)" for n
      using 1(2) append_take_drop_id [of n s] by (metis list_all_append)+
    then show ?thesis using False 1(1) filter_digits comma_no_digit by (simp add: group3.simps [of s])
  qed
qed

text \<open>An integer is printed as its decimal digits in groups.\<close>

lemma fmtInt_of_int: "0 \<le> n \<Longrightarrow> fmtInt (Fin (of_int n)) = group3 (dec_str n)"
proof -
  assume n: "0 \<le> n"
  have f: "\<lfloor>of_int n * 10 ^ 3 + 1 / 2 :: rat\<rfloor> = n * 10 ^ 3" by (rule floor_unique) simp_all
  have z: "trim_zeros (digits_n 3 0) = []" by (simp add: trim_zeros_def eval_nat_numeral)
  have "locale_digits 3 (of_int n) = group3 (dec_str n)" unfolding locale_digits_def Let_def f by (simp add: z)
  then show ?thesis using n by (simp add: fmtInt_def toLocaleString_def)
qed

lemma fmtInt_digits: "0 \<le> n \<Longrightarrow> digits_val (List.filter is_digit (fmtInt (Fin (of_int n)))) = n"
  by (simp add: fmtInt_of_int group3_digits dec_str_digits)

end
