(* ===== verification/Web_Chart.thy ===== *)
theory Web_Chart
  imports Web_Format
begin

text \<open>
  The history page: the series it draws (\<open>src/web/src/StatsPage.tsx\<close>) and the chart's scales and
  paths (\<open>src/web/src/LineChart.tsx\<close>).  Proved: with values below \<open>2 ^ 53\<close> every point a chart
  draws lies in the drawing area, and the settle rate is never negative.
\<close>

subsection \<open>Series\<close>

type_synonym points = "(jsnum \<times> jsnum option) list"

definition pick :: "HistoryPoint list \<Rightarrow> (HistoryPoint \<Rightarrow> jsnum option) \<Rightarrow> points" where
  "pick ps f = map (\<lambda>p. (hp_at p, f p)) ps"

text \<open>\<open>b < a\<close> masks a counter that was reset.\<close>

fun ratePerHour :: "HistoryPoint list \<Rightarrow> jsnum \<Rightarrow> (HistoryPoint \<Rightarrow> jsnum option) \<Rightarrow> points" where
  "ratePerHour (p # q # ps) stepSec f =
     (hp_at q, case (f p, f q) of
        (Some a, Some b) \<Rightarrow> if num_lt b a then None else Some (num_div (num_mul (num_sub b a) (Fin 3600)) stepSec)
      | _ \<Rightarrow> None) # ratePerHour (q # ps) stepSec f"
| "ratePerHour _ stepSec f = []"

record ChartSeries =
  cs_label :: jstr
  cs_points :: points
  cs_area :: bool

definition line :: "string \<Rightarrow> points \<Rightarrow> ChartSeries" where
  "line label ps = \<lparr>cs_label = js label, cs_points = ps, cs_area = False\<rparr>"

definition area :: "string \<Rightarrow> points \<Rightarrow> ChartSeries" where
  "area label ps = (line label ps)\<lparr>cs_area := True\<rparr>"

text \<open>A panel: its title, how its values are printed, its series.\<close>

record Panel =
  pa_title :: jstr
  pa_fmt :: "jsnum \<Rightarrow> jstr"
  pa_series :: "ChartSeries list"

definition stats_int :: "jsnum \<Rightarrow> jstr" where
  "stats_int v = toLocaleString 3 (math_round v)"

definition stats_ram :: "jsnum \<Rightarrow> jstr" where
  "stats_ram v = (if num_le (Fin 1024) v then to_fixed 1 (num_div v (Fin 1024)) @ js '' TiB'' else stats_int v @ js '' GiB'')"

definition StatsPage :: "jstr \<Rightarrow> StatsHistory option \<Rightarrow> Panel list" where
  "StatsPage unit_s data =
     (let pts = (case data of None \<Rightarrow> [] | Some d \<Rightarrow> sh_points d);
          stepSec = (case data of None \<Rightarrow> Fin 60 | Some d \<Rightarrow> sh_stepSec d);
          hasSim = (\<exists>p \<in> set pts. hp_sim p \<noteq> None)
      in
        [\<lparr>pa_title = js ''providers online'', pa_fmt = stats_int, pa_series =
            [area ''live'' (pick pts (Some \<circ> hp_providersActive)), line ''busy'' (pick pts (Some \<circ> hp_providersBusy))]\<rparr>,
         \<lparr>pa_title = js ''offers'', pa_fmt = stats_int, pa_series =
            [area ''live'' (pick pts (Some \<circ> hp_offersLive)), line ''busy'' (pick pts (Some \<circ> hp_offersBusy))]\<rparr>,
         \<lparr>pa_title = js ''live cores'', pa_fmt = stats_int, pa_series = [area ''cores'' (pick pts (Some \<circ> hp_liveCores))]\<rparr>,
         \<lparr>pa_title = js ''live ram'', pa_fmt = stats_ram, pa_series = [area ''ram'' (pick pts (Some \<circ> hp_liveRamGib))]\<rparr>,
         \<lparr>pa_title = js ''price '' @ unit_s @ js ''/h (live offers)'', pa_fmt = to_fixed 3, pa_series =
            [area ''median'' (pick pts (map_option pr_median \<circ> hp_price)), line ''min'' (pick pts (map_option pr_min \<circ> hp_price)),
             line ''max'' (pick pts (map_option pr_max \<circ> hp_price))]\<rparr>,
         \<lparr>pa_title = js ''valid attestations'', pa_fmt = stats_int, pa_series =
            [area ''attestations'' (pick pts (Some \<circ> hp_attestationsValid))]\<rparr>]
        @ (if \<not> hasSim then [] else
          [\<lparr>pa_title = js ''sim volume '' @ dash @ js '' cumulative '' @ unit_s @ js '' settled (dev only)'', pa_fmt = fmtGlm,
             pa_series = [area ''spent = earned'' (pick pts (map_option fst \<circ> hp_sim))]\<rparr>,
           \<lparr>pa_title = js ''sim jobs settled per hour (dev only)'', pa_fmt = to_fixed 1,
             pa_series = [area ''jobs/h'' (ratePerHour pts stepSec (map_option snd \<circ> hp_sim))]\<rparr>]))"

subsection \<open>The chart\<close>

definition chart_W :: rat where "chart_W = 640"
definition chart_H :: rat where "chart_H = 170"
definition chart_PAD :: rat where "chart_PAD = 6"

text \<open>The UTC fields of \<open>new Date(atSec * 1000)\<close>, for whole seconds.\<close>

definition fmtTime :: "int \<Rightarrow> jsnum \<Rightarrow> jstr" where
  "fmtTime atSec spanSec =
     (let ms = atSec * 1000; c = civil_of_day (ms div 86400000); t = ms mod 86400000;
          two = (\<lambda>n. pad_start 2 (dec_str n));
          hm = two (t div 3600000) @ js '':'' @ two (t div 60000 mod 60)
      in if num_le spanSec (Fin 86400) then hm
         else two (c_month c + 1) @ js ''-'' @ two (c_day c) @ js '' '' @ hm)"

fun widen :: "jsnum \<times> jsnum \<Rightarrow> jsnum option \<Rightarrow> jsnum \<times> jsnum" where
  "widen (lo, hi) None = (lo, hi)"
| "widen (lo, hi) (Some v) = (if num_lt v lo then v else lo, if num_lt hi v then v else hi)"

definition extent :: "ChartSeries list \<Rightarrow> jsnum \<times> jsnum" where
  "extent series = foldl widen (PosInf, NegInf) (concat (map (\<lambda>s. map snd (cs_points s)) series))"

record scale =
  sc_x0 :: jsnum
  sc_span :: jsnum
  sc_yLo :: jsnum
  sc_yHi :: jsnum

datatype chart = NotEnoughHistory | NoData | Chart scale

definition y_range :: "jsnum \<Rightarrow> jsnum \<Rightarrow> jsnum \<times> jsnum" where
  "y_range lo hi =
     (let (lo, hi) = (if hi = lo then (num_max (Fin 0) (num_sub lo (Fin 1)), num_add hi (Fin 1)) else (lo, hi));
          padY = num_mul (num_sub hi lo) (fl (8 / 100))
      in (num_max (Fin 0) (num_sub lo padY), num_add hi padY))"

definition LineChart :: "ChartSeries list \<Rightarrow> chart" where
  "LineChart series =
     (let xs = (case series of [] \<Rightarrow> [] | s # _ \<Rightarrow> map fst (cs_points s)) in
      if length xs < 2 then NotEnoughHistory
      else let x0 = hd xs; x1 = last xs; (lo, hi) = extent series in
        if \<not> is_finite_num lo then NoData
        else let (yLo, yHi) = y_range lo hi in
          Chart \<lparr>sc_x0 = x0, sc_span = num_sub x1 x0, sc_yLo = yLo, sc_yHi = yHi\<rparr>)"

definition chart_X :: "scale \<Rightarrow> jsnum \<Rightarrow> jsnum" where
  "chart_X c a = num_add (Fin chart_PAD) (num_mul (num_div (num_sub a (sc_x0 c)) (sc_span c)) (Fin (chart_W - 2 * chart_PAD)))"

definition chart_Y :: "scale \<Rightarrow> jsnum \<Rightarrow> jsnum" where
  "chart_Y c v = num_sub (Fin (chart_H - chart_PAD))
     (num_mul (num_div (num_sub v (sc_yLo c)) (num_sub (sc_yHi c) (sc_yLo c))) (Fin (chart_H - 2 * chart_PAD)))"

text \<open>The \<open>d\<close> attribute: the pen goes up at a missing value.\<close>

fun chart_path :: "scale \<Rightarrow> bool \<Rightarrow> points \<Rightarrow> jstr" where
  "chart_path c pen [] = []"
| "chart_path c pen ((a, None) # ps) = chart_path c False ps"
| "chart_path c pen ((a, Some v) # ps) =
     (if pen then js ''L'' else js ''M'') @ to_fixed 1 (chart_X c a) @ js '','' @ to_fixed 1 (chart_Y c v) @ chart_path c True ps"

definition area_path :: "scale \<Rightarrow> jsnum \<Rightarrow> points \<Rightarrow> jstr" where
  "area_path c x1 ps = chart_path c False ps
     @ js ''L'' @ to_fixed 1 (chart_X c x1) @ js '','' @ num_str (Fin (chart_H - chart_PAD))
     @ js ''L'' @ to_fixed 1 (chart_X c (sc_x0 c)) @ js '','' @ num_str (Fin (chart_H - chart_PAD)) @ js ''Z''"

text \<open>The point under the pointer, \<open>frac\<close> of the way along; the legend shows it, or the latest.\<close>

definition hover_index :: "nat \<Rightarrow> jsnum \<Rightarrow> jsnum \<Rightarrow> jsnum" where
  "hover_index n x width =
     math_round (num_mul (num_min (Fin 1) (num_max (Fin 0) (num_div x width))) (Fin (of_nat n - 1)))"

definition legend :: "(jsnum \<Rightarrow> jstr) \<Rightarrow> nat option \<Rightarrow> nat \<Rightarrow> ChartSeries list \<Rightarrow> (jstr \<times> jstr) list" where
  "legend fmt hover n series =
     (let hv = (case hover of None \<Rightarrow> n - 1 | Some i \<Rightarrow> i) in
      map (\<lambda>s. (cs_label s,
        if hv < length (cs_points s) then (case snd (cs_points s ! hv) of None \<Rightarrow> dash | Some v \<Rightarrow> fmt v) else dash)) series)"

subsection \<open>Every point lies in the drawing area\<close>

lemma fl_val_pow: "k \<le> 900 \<Longrightarrow> fl_val (2 ^ k) = 2 ^ k"
  using fl_val_dyadic [of 1 "int k"] by simp

lemma fl_within:
  assumes "0 \<le> x" "x \<le> 2 ^ k" "k \<le> 900"
  shows "fl x = Fin (fl_val x)" "0 \<le> fl_val x" "fl_val x \<le> 2 ^ k" "double (fl_val x)"
proof -
  show l: "0 \<le> fl_val x" "fl_val x \<le> 2 ^ k"
    using fl_val_mono [OF assms(1)] fl_val_mono [OF assms(2)] fl_val_pow [OF assms(3)] fl_val_of_int [of 0] by simp_all
  have "(2 :: rat) ^ k < 2 ^ 1024" using assms(3) by (intro power_strict_increasing) simp_all
  then have "fl_val x < 2 ^ 1024" using l by linarith
  then show "fl x = Fin (fl_val x)" "double (fl_val x)" using l by (simp_all add: fl_def Let_def double_def)
qed

lemma num_div_unit:
  assumes "0 \<le> d" "d \<le> s" "0 < s"
  shows "\<exists>q. num_div (Fin d) (Fin s) = Fin q \<and> 0 \<le> q \<and> q \<le> 1"
proof -
  have "0 \<le> d / s" "d / s \<le> 2 ^ 0" using assms by (simp_all add: field_simps)
  from fl_within [OF this] show ?thesis using assms(3) by auto
qed

lemma num_mul_part:
  assumes "0 \<le> q" "q \<le> 1" "0 \<le> m" "m \<le> 2 ^ 53"
  shows "\<exists>y. num_mul (Fin q) (Fin (of_int m)) = Fin y \<and> 0 \<le> y \<and> y \<le> of_int m"
proof -
  have m: "0 \<le> (of_int m :: rat)" "(of_int m :: rat) \<le> 2 ^ 53" using assms(3,4) by (simp, metis of_int_le_iff of_int_numeral of_int_power)
  have qm: "0 \<le> q * of_int m" "q * of_int m \<le> of_int m" using assms(1,2) m by (simp_all add: mult_left_le_one_le)
  from fl_within [of "q * of_int m" 53] fl_val_mono [OF qm(2)] fl_val_of_int [of m] qm(1) m assms(3,4) qm(2)
  show ?thesis by auto
qed

text \<open>Doubles are multiples of the least one, so that different ones have a difference.\<close>

lemma double_grid: "double r \<Longrightarrow> \<exists>k. r = of_int k * 2 powi (-1074)"
proof -
  assume "double r"
  then obtain n e where r: "r = of_int n * 2 powi e" "-1074 \<le> e" using fl_val_form [of r] by (auto simp: double_def)
  then obtain k where e: "e = int k + (-1074)" by (metis add.commute diff_add_cancel nonneg_int_cases diff_ge_0_iff_ge)
  have "(2 :: rat) powi (int k + c) = 2 ^ k * 2 powi c" for c by (simp add: power_int_add)
  then have "r = of_int (n * 2 ^ k) * 2 powi (-1074)" unfolding r(1) e by (simp only: of_int_mult of_int_power of_int_numeral mult.assoc)
  then show ?thesis by blast
qed

lemma double_diff_pos:
  assumes "double a" "double b" "a < b"
  shows "0 < fl_val (b - a)"
proof -
  obtain i j where g: "a = of_int i * 2 powi (-1074)" "b = of_int j * 2 powi (-1074)" using double_grid assms(1,2) by blast
  have p: "(0 :: rat) < 2 powi (-1074)" by simp
  have "of_int i < (of_int j :: rat)" using assms(3) p unfolding g by (simp add: mult_less_cancel_right)
  then have "(1 :: rat) \<le> of_int (j - i)" by simp
  then have "1 * 2 powi (-1074) \<le> of_int (j - i) * (2 :: rat) powi (-1074)" using p by (intro mult_right_mono) simp_all
  then have "2 powi (-1074) \<le> b - a" unfolding g by (simp add: algebra_simps)
  from fl_val_mono [OF this] fl_val_dyadic [of 1 "-1074"] p show ?thesis by simp
qed

lemma num_max_Fin [simp]: "num_max (Fin a) (Fin b) = Fin (max a b)"
  by (auto simp: num_max_def num_lt_def)

lemma num_sub_Fin [simp]: "num_sub (Fin a) (Fin b) = fl (a - b)"
  by (simp add: num_sub_def)

lemma double_0 [simp]: "double 0"
  by (simp add: double_def fl_val_def)

lemma fl_val_below: "double a \<Longrightarrow> 0 \<le> p \<Longrightarrow> fl_val (a - p) \<le> a" and fl_val_above: "double a \<Longrightarrow> 0 \<le> p \<Longrightarrow> a \<le> fl_val (a + p)"
  using fl_val_mono [of "a - p" a] fl_val_mono [of a "a + p"] by (simp_all add: double_def)

text \<open>\<open>fl\<close> of a difference that may be negative, under \<open>Math.max(0, \<dots>)\<close>.\<close>

lemma max_sub:
  assumes "double a" "0 \<le> a" "a \<le> 2 ^ 60" "0 \<le> p" "p \<le> 2 ^ 60"
  shows "\<exists>l. num_max (Fin 0) (num_sub (Fin a) (Fin p)) = Fin l \<and> double l \<and> 0 \<le> l \<and> l \<le> a"
proof -
  have "fl_val (- (2 ^ 60)) \<le> fl_val (a - p)" using assms(2,5) by (intro fl_val_mono) simp
  then have lo: "- (2 ^ 60) \<le> fl_val (a - p)" using fl_val_pow [of 60] by (simp add: fl_val_minus)
  have up: "fl_val (a - p) \<le> a" by (rule fl_val_below [OF assms(1,4)])
  have "(2 :: rat) ^ 60 < 2 ^ 1024" by simp
  then have f: "fl (a - p) = Fin (fl_val (a - p))" "\<bar>fl_val (a - p)\<bar> < 2 ^ 1024"
    using lo up assms(3) by (auto simp: fl_def Let_def abs_less_iff)
  then have "double (fl_val (a - p))" by (simp add: double_def)
  then show ?thesis using f up assms(2) by (auto simp: max_def)
qed

lemma pad_range:
  assumes "double a" "double b" "0 \<le> a" "a < b" "b \<le> 2 ^ 54"
  defines "p \<equiv> num_mul (num_sub (Fin b) (Fin a)) (fl (8 / 100))"
  shows "\<exists>l h. num_max (Fin 0) (num_sub (Fin a) p) = Fin l \<and> num_add (Fin b) p = Fin h
    \<and> double l \<and> double h \<and> 0 \<le> l \<and> l \<le> a \<and> b \<le> h \<and> h \<le> 2 ^ 60"
proof -
  have w: "fl (8 / 100) = Fin (fl_val (8 / 100))" "0 \<le> fl_val (8 / 100)" "fl_val (8 / 100) \<le> 1"
    using fl_within [of "8 / 100" 0] by simp_all
  have d: "fl (b - a) = Fin (fl_val (b - a))" "0 \<le> fl_val (b - a)" "fl_val (b - a) \<le> 2 ^ 54"
    using fl_within [of "b - a" 54] assms(3-5) by simp_all
  let ?m = "fl_val (b - a) * fl_val (8 / 100)"
  have m: "0 \<le> ?m" "?m \<le> 2 ^ 54" using mult_mono [OF d(3) w(3)] d(2) w(2) by simp_all
  have p: "p = Fin (fl_val ?m)" "0 \<le> fl_val ?m" "fl_val ?m \<le> 2 ^ 54"
    using fl_within [OF m] unfolding p_def num_sub_Fin d(1) w(1) num_mul.simps by simp_all
  have s: "0 \<le> b + fl_val ?m" "b + fl_val ?m \<le> 2 ^ 60" using p assms(3-5) by simp_all
  have "b \<le> fl_val (b + fl_val ?m)" by (rule fl_val_above [OF assms(2) p(2)])
  moreover have "a \<le> 2 ^ 60" "fl_val ?m \<le> 2 ^ 60" using p(3) assms(4,5) by simp_all
  ultimately show ?thesis
    using max_sub [OF assms(1,3) _ p(2)] fl_within [OF s] p(1) by auto
qed

lemma y_range_ok:
  assumes "double a" "double b" "0 \<le> a" "a \<le> b" "b < 2 ^ 53"
  shows "\<exists>l h. y_range (Fin a) (Fin b) = (Fin l, Fin h) \<and> double l \<and> double h \<and> 0 \<le> l \<and> l \<le> a \<and> b \<le> h \<and> l < h \<and> h \<le> 2 ^ 60"
proof (cases "a = b")
  case False
  then have ab: "a < b" "b \<le> 2 ^ 54" using assms(4,5) by simp_all
  from pad_range [OF assms(1-3) ab] obtain l h where "num_max (Fin 0) (num_sub (Fin a) (num_mul (num_sub (Fin b) (Fin a)) (fl (8 / 100)))) = Fin l"
    "num_add (Fin b) (num_mul (num_sub (Fin b) (Fin a)) (fl (8 / 100))) = Fin h" "double l" "double h" "0 \<le> l" "l \<le> a" "b \<le> h" "h \<le> 2 ^ 60" by blast
  then show ?thesis using False ab(1) by (auto simp: y_range_def Let_def simp del: num_sub_Fin num_add.simps)
next
  case True
  have a: "a < 2 ^ 53" "a \<le> 2 ^ 60" using assms(5) True by simp_all
  obtain lo where lo: "num_max (Fin 0) (num_sub (Fin a) (Fin 1)) = Fin lo" "double lo" "0 \<le> lo" "lo \<le> a"
    using max_sub [OF assms(1,3) a(2), of 1] by auto
  have hi: "num_add (Fin a) (Fin 1) = Fin (fl_val (a + 1))" "double (fl_val (a + 1))" "fl_val (a + 1) \<le> 2 ^ 54"
    using fl_within [of "a + 1" 54] assms(3) a(1) by simp_all
  have "\<bar>\<lfloor>a\<rfloor> + 1\<bar> \<le> 2 ^ 53" using assms(3) a(1) by (simp add: floor_less_iff)
  then have "of_int (\<lfloor>a\<rfloor> + 1) \<le> fl_val (a + 1)"
    using fl_val_mono [of "of_int (\<lfloor>a\<rfloor> + 1)" "a + 1"] fl_val_of_int [of "\<lfloor>a\<rfloor> + 1"] by simp
  then have up: "a < fl_val (a + 1)" by linarith
  then have "lo < fl_val (a + 1)" using lo(4) by simp
  from pad_range [OF lo(2) hi(2) lo(3) this hi(3)] obtain l h
    where "num_max (Fin 0) (num_sub (Fin lo) (num_mul (num_sub (Fin (fl_val (a + 1))) (Fin lo)) (fl (8 / 100)))) = Fin l"
      "num_add (Fin (fl_val (a + 1))) (num_mul (num_sub (Fin (fl_val (a + 1))) (Fin lo)) (fl (8 / 100))) = Fin h"
      "double l" "double h" "0 \<le> l" "l \<le> lo" "fl_val (a + 1) \<le> h" "h \<le> 2 ^ 60" by blast
  then show ?thesis using True lo(1,4) hi(1) up by (auto simp: y_range_def Let_def simp del: num_sub_Fin num_add.simps)
qed

text \<open>What the history endpoint sends: whole seconds and doubles that are not negative.\<close>

definition plain_value :: "jsnum \<Rightarrow> bool" where
  "plain_value v = (\<exists>r. v = Fin r \<and> double r \<and> 0 \<le> r \<and> r < 2 ^ 53)"

definition plain_series :: "int \<Rightarrow> int \<Rightarrow> ChartSeries list \<Rightarrow> bool" where
  "plain_series A B series =
     (0 \<le> A \<and> A < B \<and> B \<le> 2 ^ 53
      \<and> (\<exists>s ss. series = s # ss \<and> fst (hd (cs_points s)) = Fin (of_int A) \<and> fst (last (cs_points s)) = Fin (of_int B))
      \<and> (\<forall>s \<in> set series. \<forall>(a, v) \<in> set (cs_points s).
           (\<exists>n. a = Fin (of_int n) \<and> A \<le> n \<and> n \<le> B) \<and> (\<forall>x. v = Some x \<longrightarrow> plain_value x)))"

lemma widen_Fin: "widen (Fin a, Fin b) (Some (Fin r)) = (Fin (min a r), Fin (max b r))"
  by (auto simp: num_lt_def)

lemma widen_extent:
  assumes "\<And>v. Some v \<in> set vs \<Longrightarrow> plain_value v"
  shows "(foldl widen (PosInf, NegInf) vs = (PosInf, NegInf) \<and> (\<forall>v. Some v \<notin> set vs))
    \<or> (\<exists>a b. foldl widen (PosInf, NegInf) vs = (Fin a, Fin b) \<and> plain_value (Fin a) \<and> plain_value (Fin b) \<and> a \<le> b
        \<and> (\<forall>r. Some (Fin r) \<in> set vs \<longrightarrow> a \<le> r \<and> r \<le> b))"
  using assms
proof (induction vs rule: rev_induct)
  case (snoc v vs)
  show ?case
  proof (cases v)
    case None
    then show ?thesis using snoc by auto
  next
    case (Some x)
    then obtain r where r: "x = Fin r" "plain_value (Fin r)" using snoc.prems [of x] by (auto simp: plain_value_def)
    from snoc.IH snoc.prems consider "foldl widen (PosInf, NegInf) vs = (PosInf, NegInf)" "\<forall>v. Some v \<notin> set vs"
      | a b where "foldl widen (PosInf, NegInf) vs = (Fin a, Fin b)" "plain_value (Fin a)" "plain_value (Fin b)" "a \<le> b"
          "\<forall>r. Some (Fin r) \<in> set vs \<longrightarrow> a \<le> r \<and> r \<le> b" by fastforce
    then show ?thesis
    proof cases
      case 1
      then have "foldl widen (PosInf, NegInf) (vs @ [v]) = (Fin r, Fin r)" by (simp add: Some r(1) num_lt_def)
      then show ?thesis using 1(2) r Some by auto
    next
      case 2
      then have f: "foldl widen (PosInf, NegInf) (vs @ [v]) = (Fin (min a r), Fin (max b r))" by (simp add: Some r(1) widen_Fin del: widen.simps)
      have "plain_value (Fin (min a r))" "plain_value (Fin (max b r))" "min a r \<le> max b r"
        using 2 r(2) by (auto simp: min_def max_def)
      moreover have "\<forall>q. Some (Fin q) \<in> set (vs @ [v]) \<longrightarrow> min a r \<le> q \<and> q \<le> max b r"
        using 2(5) by (auto simp: Some r(1))
      ultimately show ?thesis using f by blast
    qed
  qed
qed simp

lemma chart_X_in:
  assumes "A \<le> n" "n \<le> B" "0 \<le> A" "A < B" "B \<le> 2 ^ 53"
  shows "\<exists>x. chart_X \<lparr>sc_x0 = Fin (of_int A), sc_span = num_sub (Fin (of_int B)) (Fin (of_int A)), sc_yLo = l, sc_yHi = h\<rparr>
      (Fin (of_int n)) = Fin x \<and> 6 \<le> x \<and> x \<le> 634"
proof -
  have s: "fl (of_int B - of_int A) = Fin (of_int (B - A))" "fl (of_int n - of_int A) = Fin (of_int (n - A))"
    using fl_of_int [of "B - A"] fl_of_int [of "n - A"] assms by simp_all
  have "(0 :: rat) \<le> of_int (n - A)" "of_int (n - A) \<le> (of_int (B - A) :: rat)" "(0 :: rat) < of_int (B - A)"
    using assms by simp_all
  from num_div_unit [OF this] obtain q where q: "num_div (Fin (of_int (n - A))) (Fin (of_int (B - A))) = Fin q" "0 \<le> q" "q \<le> 1" by blast
  from num_mul_part [OF q(2,3), of 628] obtain y where y: "num_mul (Fin q) (Fin 628) = Fin y" "0 \<le> y" "y \<le> 628" by auto
  have "fl_val (6 + y) \<le> 634" "6 \<le> fl_val (6 + y)"
    using fl_val_mono [of "6 + y" 634] fl_val_mono [of 6 "6 + y"] fl_val_of_int [of 634] fl_val_of_int [of 6] y by simp_all
  then show ?thesis
    using fl_within [of "6 + y" 60] y q(1) by (simp add: chart_X_def chart_PAD_def chart_W_def s del: of_int_diff num_div.simps num_mul.simps)
qed

lemma chart_Y_in:
  assumes "double l" "double h" "0 \<le> l" "l \<le> v" "v \<le> h" "l < h" "h \<le> 2 ^ 60" "sc_yLo c = Fin l" "sc_yHi c = Fin h"
  shows "\<exists>y. chart_Y c (Fin v) = Fin y \<and> 6 \<le> y \<and> y \<le> 164"
proof -
  have s: "fl (h - l) = Fin (fl_val (h - l))" "0 < fl_val (h - l)"
    using fl_within [of "h - l" 60] double_diff_pos [OF assms(1,2,6)] assms by simp_all
  have d: "fl (v - l) = Fin (fl_val (v - l))" "0 \<le> fl_val (v - l)" "fl_val (v - l) \<le> fl_val (h - l)"
    using fl_within [of "v - l" 60] fl_val_mono [of "v - l" "h - l"] assms by simp_all
  from num_div_unit [OF d(2,3) s(2)] obtain q where q: "num_div (Fin (fl_val (v - l))) (Fin (fl_val (h - l))) = Fin q" "0 \<le> q" "q \<le> 1" by blast
  from num_mul_part [OF q(2,3), of 158] obtain y where y: "num_mul (Fin q) (Fin 158) = Fin y" "0 \<le> y" "y \<le> 158" by auto
  have "fl_val (164 - y) \<le> 164" "6 \<le> fl_val (164 - y)"
    using fl_val_mono [of "164 - y" 164] fl_val_mono [of 6 "164 - y"] fl_val_of_int [of 164] fl_val_of_int [of 6] y by simp_all
  then show ?thesis
    using fl_within [of "164 - y" 60] y q(1)
    by (simp add: chart_Y_def chart_PAD_def chart_H_def assms(8,9) s d del: num_div.simps num_mul.simps)
qed

text \<open>
  C39: a chart of values below \<open>2 ^ 53\<close> stays in its box: the path goes through finite coordinates
  within the padding on all sides, also when all values are equal, when only one is known and
  whatever the rounding.
\<close>

theorem chart_in_box:
  assumes "plain_series A B series" and "LineChart series = Chart c"
    and "s \<in> set series" and "(a, Some v) \<in> set (cs_points s)"
  shows "\<exists>x y. chart_X c a = Fin x \<and> 6 \<le> x \<and> x \<le> 634 \<and> chart_Y c v = Fin y \<and> 6 \<le> y \<and> y \<le> 164"
proof -
  let ?vs = "concat (map (\<lambda>s. map snd (cs_points s)) series)"
  obtain n where n: "a = Fin (of_int n)" "A \<le> n" "n \<le> B" and v: "plain_value v"
    using assms(1,3,4) by (fastforce simp: plain_series_def)
  then obtain r where r: "v = Fin r" by (auto simp: plain_value_def)
  have ne: "Some v \<in> set ?vs" using assms(3,4) by force
  have p: "\<And>v. Some v \<in> set ?vs \<Longrightarrow> plain_value v" using assms(1) by (fastforce simp: plain_series_def)
  obtain lo hi where e: "extent series = (Fin lo, Fin hi)" "plain_value (Fin lo)" "plain_value (Fin hi)" "lo \<le> hi" "lo \<le> r" "r \<le> hi"
    using widen_extent [of ?vs, OF p] ne unfolding extent_def r by blast
  then obtain l h where y: "y_range (Fin lo) (Fin hi) = (Fin l, Fin h)" "double l" "double h" "0 \<le> l" "l \<le> lo" "hi \<le> h" "l < h" "h \<le> 2 ^ 60"
    using y_range_ok [of lo hi] by (auto simp: plain_value_def)
  obtain s0 ss where s0: "series = s0 # ss" "fst (hd (cs_points s0)) = Fin (of_int A)" "fst (last (cs_points s0)) = Fin (of_int B)"
    and AB: "0 \<le> A" "A < B" "B \<le> 2 ^ 53" using assms(1) by (auto simp: plain_series_def)
  have "cs_points s0 \<noteq> []" using assms(2) by (auto simp: LineChart_def s0(1))
  then have c: "c = \<lparr>sc_x0 = Fin (of_int A), sc_span = num_sub (Fin (of_int B)) (Fin (of_int A)), sc_yLo = Fin l, sc_yHi = Fin h\<rparr>"
    using assms(2) e(1) y(1) s0 by (auto simp: LineChart_def Let_def hd_map last_map is_finite_num_def split: if_splits simp del: num_sub_Fin)
  show ?thesis
    using chart_X_in [OF n(2,3) AB, of "Fin l" "Fin h"] chart_Y_in [OF y(2,3,4) _ _ y(7,8), of r c] e(5,6) y(5,6)
    unfolding n(1) r c by auto
qed

theorem chart_in_box_witness:
  "\<exists>c x y. LineChart [line ''busy'' [(Fin 60, Some (Fin 0)), (Fin 120, None), (Fin 180, Some (Fin 0))]] = Chart c
     \<and> chart_X c (Fin 180) = Fin x \<and> x \<le> 634 \<and> chart_Y c (Fin 0) = Fin y \<and> y \<le> 164"
proof -
  let ?s = "[line ''busy'' [(Fin 60, Some (Fin 0)), (Fin 120, None), (Fin 180, Some (Fin 0))]]"
  have p: "plain_value (Fin 0)" by (simp add: plain_value_def)
  have n: "\<exists>m. Fin 60 = Fin (of_int m) \<and> 60 \<le> m \<and> m \<le> 180" "\<exists>m. Fin 120 = Fin (of_int m) \<and> 60 \<le> m \<and> m \<le> 180"
    "\<exists>m. Fin 180 = Fin (of_int m) \<and> 60 \<le> m \<and> m \<le> 180"
    by (rule exI [of _ 60], simp, rule exI [of _ 120], simp, rule exI [of _ 180], simp)
  have s: "plain_series 60 180 ?s" using n p by (simp add: plain_series_def line_def)
  obtain c where c: "LineChart ?s = Chart c"
    by (auto simp: LineChart_def line_def extent_def num_lt_def is_finite_num_def y_range_def Let_def)
  have "\<exists>x y. chart_X c (Fin 180) = Fin x \<and> 6 \<le> x \<and> x \<le> 634 \<and> chart_Y c (Fin 0) = Fin y \<and> 6 \<le> y \<and> y \<le> 164"
    by (rule chart_in_box [OF s c, of "hd ?s"]) (simp_all add: line_def)
  then show ?thesis using c by blast
qed

end
