(* ===== verification/Web_Live.thy ===== *)
theory Web_Live
  imports Web_Api
begin

text \<open>
  The parts of the dashboard that keep state: the polling hook (\<open>src/web/src/usePoll.ts\<close>) and the
  offers table with its filters, its refresh and its \<open>load more\<close> (\<open>src/web/src/OffersTable.tsx\<close>).
  A component's state is a record and what can happen to it an event; requests that are under
  way are part of the state, and their answers come in any order.  Proved: a poll is always
  waiting for exactly one thing; the table shows the beginning of the results while no refresh
  comes after the last page and no filter changes under a request; and what it shows otherwise.
\<close>

subsection \<open>Polling\<close>

text \<open>
  \<open>ps_loop\<close> numbers the runs of the effect: a run is \<open>alive\<close> while it is the last.  \<open>ps_asked\<close>
  are the requests under way, by the run that sent them.
\<close>

record 'a poll =
  ps_data :: "'a option"
  ps_error :: "jsval option"
  ps_loop :: nat
  ps_timer :: bool
  ps_asked :: "nat list"

datatype 'a poll_event = Restart | TimerFires | Answer nat 'a | Failure nat jsval

definition ask :: "'a poll \<Rightarrow> 'a poll" where
  "ask s = s\<lparr>ps_asked := ps_asked s @ [ps_loop s]\<rparr>"

definition answered :: "nat \<Rightarrow> ('a poll \<Rightarrow> 'a poll) \<Rightarrow> 'a poll \<Rightarrow> 'a poll" where
  "answered n f s = (let s = s\<lparr>ps_asked := remove1 n (ps_asked s)\<rparr>
     in if n = ps_loop s then (f s)\<lparr>ps_timer := True\<rparr> else s)"

fun poll_step :: "'a poll_event \<Rightarrow> 'a poll \<Rightarrow> 'a poll" where
  "poll_step Restart s = ask (s\<lparr>ps_loop := Suc (ps_loop s), ps_timer := False\<rparr>)"
| "poll_step TimerFires s = ask (s\<lparr>ps_timer := False\<rparr>)"
| "poll_step (Answer n v) s = answered n (\<lambda>s. s\<lparr>ps_data := Some v, ps_error := None\<rparr>) s"
| "poll_step (Failure n m) s = answered n (\<lambda>s. s\<lparr>ps_error := Some m\<rparr>) s"

text \<open>The first render runs the effect once.\<close>

definition usePoll :: "'a poll" where
  "usePoll = poll_step Restart \<lparr>ps_data = None, ps_error = None, ps_loop = 0, ps_timer = False, ps_asked = []\<rparr>"

fun poll_can :: "'a poll \<Rightarrow> 'a poll_event \<Rightarrow> bool" where
  "poll_can s Restart = True"
| "poll_can s TimerFires = ps_timer s"
| "poll_can s (Answer n v) = (n \<in> set (ps_asked s))"
| "poll_can s (Failure n m) = (n \<in> set (ps_asked s))"

inductive polled :: "'a poll \<Rightarrow> bool" where
  mount: "polled usePoll"
| happens: "polled s \<Longrightarrow> poll_can s e \<Longrightarrow> polled (poll_step e s)"

subsection \<open>The offers table\<close>

definition PAGE :: int where
  "PAGE = 25"

definition DEFAULT_FILTERS :: OfferFilters where
  "DEFAULT_FILTERS = [(''freshness'', js ''normal''), (''availability'', js ''any''), (''sort'', js ''price'')]"

text \<open>A request for the first page, of its generation, or for the page behind a cursor.\<close>

datatype load = First nat OfferFilters | More OfferFilters jstr

fun load_url :: "load \<Rightarrow> jstr \<times> jstr" where
  "load_url (First g f) = offers_url f (Fin (of_int PAGE)) None"
| "load_url (More f c) = offers_url f (Fin (of_int PAGE)) (Some c)"

record 'i pager =
  pg_filters :: OfferFilters
  pg_pages :: "'i list list"
  pg_cursor :: "jstr option"
  pg_error :: "jsval option"
  pg_loading :: bool
  pg_generation :: nat
  pg_sent :: "load list"

datatype 'i pager_event =
    Pick OfferFilters
  | Refresh
  | Press
  | Reply load "'i list" "jstr option"
  | Lost load jsval

definition put_on_wire :: "load \<Rightarrow> 'i pager \<Rightarrow> 'i pager" where
  "put_on_wire l p = p\<lparr>pg_sent := pg_sent p @ [l]\<rparr>"

definition loadFirst :: "'i pager \<Rightarrow> 'i pager" where
  "loadFirst p = (let g = Suc (pg_generation p) in put_on_wire (First g (pg_filters p)) (p\<lparr>pg_generation := g\<rparr>))"

text \<open>The timer's guard \<open>generation.current >= 0\<close> holds of every generation.\<close>

definition interval_tick :: "'i pager \<Rightarrow> 'i pager" where
  "interval_tick p = (if pg_generation p \<ge> 0 then loadFirst p else p)"

definition filters_changed :: "OfferFilters \<Rightarrow> 'i pager \<Rightarrow> 'i pager" where
  "filters_changed f p = loadFirst (p\<lparr>pg_filters := f, pg_pages := [], pg_cursor := None\<rparr>)"

definition first_reply :: "nat \<Rightarrow> 'i list \<Rightarrow> jstr option \<Rightarrow> 'i pager \<Rightarrow> 'i pager" where
  "first_reply g items c p =
     (if g \<noteq> pg_generation p then p
      else p\<lparr>pg_pages := (if length (pg_pages p) > 1 then items # tl (pg_pages p) else [items]),
             pg_cursor := (case pg_cursor p of None \<Rightarrow> c | Some x \<Rightarrow> Some x), pg_error := None\<rparr>)"

definition first_failed :: "nat \<Rightarrow> jsval \<Rightarrow> 'i pager \<Rightarrow> 'i pager" where
  "first_failed g m p = (if g = pg_generation p then p\<lparr>pg_error := Some m\<rparr> else p)"

text \<open>The button is disabled while there is no cursor or a page is loading.\<close>

definition can_press :: "'i pager \<Rightarrow> bool" where
  "can_press p = (truthy_text (pg_cursor p) \<and> \<not> pg_loading p)"

definition loadMore :: "'i pager \<Rightarrow> 'i pager" where
  "loadMore p = (if \<not> truthy_text (pg_cursor p) then p
     else put_on_wire (More (pg_filters p) (the (pg_cursor p))) (p\<lparr>pg_loading := True\<rparr>))"

definition more_reply :: "'i list \<Rightarrow> jstr option \<Rightarrow> 'i pager \<Rightarrow> 'i pager" where
  "more_reply items c p = p\<lparr>pg_pages := pg_pages p @ [items], pg_cursor := c, pg_error := None, pg_loading := False\<rparr>"

definition more_failed :: "jsval \<Rightarrow> 'i pager \<Rightarrow> 'i pager" where
  "more_failed m p = p\<lparr>pg_error := Some m, pg_loading := False\<rparr>"

definition arrived :: "load \<Rightarrow> 'i pager \<Rightarrow> 'i pager" where
  "arrived l p = p\<lparr>pg_sent := remove1 l (pg_sent p)\<rparr>"

fun pager_step :: "'i pager_event \<Rightarrow> 'i pager \<Rightarrow> 'i pager" where
  "pager_step (Pick f) p = filters_changed f p"
| "pager_step Refresh p = interval_tick p"
| "pager_step Press p = loadMore p"
| "pager_step (Reply l items c) p =
     (case l of First g f \<Rightarrow> first_reply g items c | More f c0 \<Rightarrow> more_reply items c) (arrived l p)"
| "pager_step (Lost l m) p =
     (case l of First g f \<Rightarrow> first_failed g m | More f c0 \<Rightarrow> more_failed m) (arrived l p)"

definition OffersTable :: "'i pager" where
  "OffersTable = filters_changed DEFAULT_FILTERS
     \<lparr>pg_filters = DEFAULT_FILTERS, pg_pages = [], pg_cursor = None, pg_error = None, pg_loading = False,
      pg_generation = 0, pg_sent = []\<rparr>"

definition shown :: "'i pager \<Rightarrow> 'i list" where
  "shown p = concat (pg_pages p)"

subsection \<open>A poll never stops and never overlaps itself\<close>

definition waiting :: "'a poll \<Rightarrow> bool" where
  "waiting s = (count_list (ps_asked s) (ps_loop s) = (if ps_timer s then 0 else 1) \<and> (\<forall>n \<in> set (ps_asked s). n \<le> ps_loop s))"

lemma count_list_remove1: "count_list (remove1 n xs) m = (if n = m then count_list xs m - 1 else count_list xs m)"
  by (induction xs) (auto simp: count_list_0_iff Suc_diff_Suc gr0_conv_Suc)

lemma waiting_step: "waiting s \<Longrightarrow> poll_can s e \<Longrightarrow> waiting (poll_step e s)"
proof (cases e)
  case Restart
  assume "waiting s"
  then have "ps_loop s < Suc (ps_loop s)" "\<forall>n \<in> set (ps_asked s). n < Suc (ps_loop s)" by (auto simp: waiting_def less_Suc_eq_le)
  then have "Suc (ps_loop s) \<notin> set (ps_asked s)" by auto
  then show ?thesis using Restart \<open>waiting s\<close> by (auto simp: waiting_def ask_def count_list_0_iff)
qed (auto simp: waiting_def ask_def answered_def Let_def count_list_remove1 dest: notin_set_remove1 [THEN contrapos_pp] split: if_splits)

text \<open>
  While a polling component is mounted, exactly one thing keeps it going: either its timer is
  set or one request of its current run is under way, never both and never two requests; the
  answers to earlier runs, which may still arrive, leave what it shows as it is.
\<close>

theorem poll_keeps_going:
  assumes "polled s"
  shows "count_list (ps_asked s) (ps_loop s) + (if ps_timer s then 1 else 0) = 1
    \<and> (\<forall>n v m. n \<noteq> ps_loop s \<longrightarrow> (\<forall>e \<in> {Answer n v, Failure n m}. poll_step e s = s\<lparr>ps_asked := remove1 n (ps_asked s)\<rparr>))"
proof -
  have "waiting s" using assms
  proof induction
    case mount
    show ?case by (simp add: waiting_def usePoll_def ask_def)
  qed (rule waiting_step)
  then show ?thesis by (simp add: waiting_def answered_def Let_def)
qed

theorem poll_keeps_going_witness:
  "ps_timer (poll_step (Answer 1 (0 :: int)) usePoll) \<and> ps_asked (poll_step Restart (poll_step (Answer 1 (0 :: int)) usePoll)) = [2]
   \<and> count_list (ps_asked (poll_step (Answer 1 (0 :: int)) usePoll)) 1 + 1 = 1"
proof -
  let ?s = "poll_step (Answer 1 (0 :: int)) usePoll"
  have "polled ?s" by (rule polled.happens [OF polled.mount]) (simp add: usePoll_def ask_def)
  from poll_keeps_going [OF this] show ?thesis by (simp add: usePoll_def ask_def answered_def Let_def)
qed

subsection \<open>What the table shows\<close>

text \<open>
  A source of pages: the results of each filter, cut into pages of \<open>sz\<close>, where \<open>pos f k\<close> is the
  cursor behind the first \<open>k\<close> pages.
\<close>

definition cut :: "nat \<Rightarrow> 'i list \<Rightarrow> nat \<Rightarrow> 'i list" where
  "cut sz xs k = take sz (drop (k * sz) xs)"

definition cursor_behind :: "nat \<Rightarrow> 'i list \<Rightarrow> (nat \<Rightarrow> jstr) \<Rightarrow> nat \<Rightarrow> jstr option" where
  "cursor_behind sz xs pos k = (if k * sz < length xs then Some (pos k) else None)"

locale result_pages =
  fixes serve :: "OfferFilters \<Rightarrow> jstr option \<Rightarrow> 'i list \<times> jstr option"
    and results :: "OfferFilters \<Rightarrow> 'i list"
    and pos :: "OfferFilters \<Rightarrow> nat \<Rightarrow> jstr"
    and sz :: nat
  assumes pos_text: "pos f k \<noteq> []"
    and first_page: "serve f None = (cut sz (results f) 0, cursor_behind sz (results f) (pos f) 1)"
    and later_page: "0 < k \<Longrightarrow> k * sz < length (results f) \<Longrightarrow>
      serve f (Some (pos f k)) = (cut sz (results f) k, cursor_behind sz (results f) (pos f) (Suc k))"

fun reply_of :: "(OfferFilters \<Rightarrow> jstr option \<Rightarrow> 'i list \<times> jstr option) \<Rightarrow> load \<Rightarrow> 'i pager_event" where
  "reply_of serve (First g f) = Reply (First g f) (fst (serve f None)) (snd (serve f None))"
| "reply_of serve (More f c) = Reply (More f c) (fst (serve f (Some c))) (snd (serve f (Some c)))"

text \<open>
  What can happen while \<open>serve\<close> answers: the user and the timer act, requests are answered or
  lost.  \<open>orderly\<close> leaves two things out: a change of the filters while a page is loading, and
  a refresh that is answered when more than one page is shown and there is no further one.
\<close>

inductive happens :: "(OfferFilters \<Rightarrow> jstr option \<Rightarrow> 'i list \<times> jstr option) \<Rightarrow> 'i pager \<Rightarrow> 'i pager_event \<Rightarrow> bool" for serve p where
  picked: "happens serve p (Pick f)"
| ticked: "happens serve p Refresh"
| pressed: "can_press p \<Longrightarrow> happens serve p Press"
| answer: "l \<in> set (pg_sent p) \<Longrightarrow> happens serve p (reply_of serve l)"
| lost: "l \<in> set (pg_sent p) \<Longrightarrow> happens serve p (Lost l m)"

inductive_cases happensE: "happens serve p e"

fun orderly :: "'i pager \<Rightarrow> 'i pager_event \<Rightarrow> bool" where
  "orderly p (Pick f) = (\<not> pg_loading p)"
| "orderly p (Reply (First g f) items c) = (g = pg_generation p \<longrightarrow> pg_cursor p \<noteq> None \<or> length (pg_pages p) \<le> 1)"
| "orderly p _ = True"

inductive browsed :: "(OfferFilters \<Rightarrow> jstr option \<Rightarrow> 'i list \<times> jstr option) \<Rightarrow> 'i pager \<Rightarrow> bool" for serve where
  opened: "browsed serve OffersTable"
| event: "browsed serve p \<Longrightarrow> happens serve p e \<Longrightarrow> orderly p e \<Longrightarrow> browsed serve (pager_step e p)"

definition mores :: "load list \<Rightarrow> load list" where
  "mores ls = List.filter (\<lambda>l. case l of First _ _ \<Rightarrow> False | More _ _ \<Rightarrow> True) ls"

lemma mores_simps [simp]:
  "mores [] = []" "mores (ls @ [First g f]) = mores ls" "mores (ls @ [More f c]) = mores ls @ [More f c]"
  "mores (remove1 (First g f) ls) = mores ls" "mores (remove1 (More f c) ls) = remove1 (More f c) (mores ls)"
  "More f c \<in> set (mores ls) \<longleftrightarrow> More f c \<in> set ls"
  by (auto simp: mores_def filter_remove1 remove1_idem)

text \<open>The requests for a first page: no generation is ahead, and the current one has the current filters.\<close>

definition firsts_ok :: "load list \<Rightarrow> nat \<Rightarrow> OfferFilters \<Rightarrow> bool" where
  "firsts_ok ls g f = (\<forall>g' f'. First g' f' \<in> set ls \<longrightarrow> g' \<le> g \<and> (g' = g \<longrightarrow> f' = f))"

lemma firsts_ok_intros [intro]:
  "firsts_ok [] g f"
  "firsts_ok ls g f \<Longrightarrow> firsts_ok (ls @ [First (Suc g) f']) (Suc g) f'"
  "firsts_ok ls g f \<Longrightarrow> firsts_ok (ls @ [More f' c]) g f"
  "firsts_ok ls g f \<Longrightarrow> firsts_ok (remove1 l ls) g f"
  unfolding firsts_ok_def by (fastforce dest: notin_set_remove1 [THEN contrapos_pp])+

text \<open>The shape of a table that shows the beginning of its results.\<close>

definition first_pages :: "(OfferFilters \<Rightarrow> 'i list) \<Rightarrow> (OfferFilters \<Rightarrow> nat \<Rightarrow> jstr) \<Rightarrow> nat \<Rightarrow> 'i pager \<Rightarrow> bool" where
  "first_pages results pos sz p =
     (let f = pg_filters p; n = length (pg_pages p) in
        pg_pages p = map (cut sz (results f)) [0..<n]
        \<and> pg_cursor p = (if n = 0 then None else cursor_behind sz (results f) (pos f) n)
        \<and> (pg_loading p \<longrightarrow> 0 < n \<and> n * sz < length (results f)))"

definition reading :: "(OfferFilters \<Rightarrow> 'i list) \<Rightarrow> (OfferFilters \<Rightarrow> nat \<Rightarrow> jstr) \<Rightarrow> nat \<Rightarrow> 'i pager \<Rightarrow> bool" where
  "reading results pos sz p =
     (first_pages results pos sz p
      \<and> mores (pg_sent p) = (if pg_loading p then [More (pg_filters p) (pos (pg_filters p) (length (pg_pages p)))] else [])
      \<and> firsts_ok (pg_sent p) (pg_generation p) (pg_filters p))"

lemma cut_all: "concat (map (cut sz xs) [0..<n]) = take (n * sz) xs"
proof (induction n)
  case (Suc n)
  have "take (Suc n * sz) xs = take (n * sz) xs @ take sz (drop (n * sz) xs)"
    by (simp add: take_add [symmetric] add.commute)
  then show ?case using Suc by (simp add: cut_def)
qed simp

lemmas pager_defs = loadFirst_def put_on_wire_def interval_tick_def filters_changed_def first_reply_def first_failed_def
  loadMore_def more_reply_def more_failed_def arrived_def

lemma reading_opened: "reading results pos sz OffersTable"
  by (auto simp: OffersTable_def reading_def first_pages_def pager_defs Let_def mores_def firsts_ok_def)

lemma reading_filters:
  "reading results pos sz p \<Longrightarrow> \<not> pg_loading p \<Longrightarrow> reading results pos sz (filters_changed f p)"
  by (auto simp: reading_def first_pages_def pager_defs Let_def)

lemma reading_refresh: "reading results pos sz p \<Longrightarrow> reading results pos sz (interval_tick p)"
  by (auto simp: reading_def first_pages_def pager_defs Let_def)

lemma reading_press: "reading results pos sz p \<Longrightarrow> can_press p \<Longrightarrow> reading results pos sz (loadMore p)"
  by (auto simp: reading_def first_pages_def pager_defs can_press_def truthy_text_def cursor_behind_def Let_def split: if_splits option.splits)

text \<open>A request for a further page that is under way is the one of the press that is loading.\<close>

lemma reading_more:
  assumes "reading results pos sz p" "More f c \<in> set (pg_sent p)"
  shows "pg_loading p \<and> f = pg_filters p \<and> c = pos f (length (pg_pages p)) \<and> mores (pg_sent p) = [More f c]"
proof -
  have "More f c \<in> set (mores (pg_sent p))" using assms(2) by simp
  then have "pg_loading p \<and> mores (pg_sent p) = [More (pg_filters p) (pos (pg_filters p) (length (pg_pages p)))]
      \<and> More f c = More (pg_filters p) (pos (pg_filters p) (length (pg_pages p)))"
    using assms(1) unfolding reading_def by (metis list.distinct(1) list.set_cases set_ConsD)
  then show ?thesis by auto
qed

lemma reading_lost:
  assumes r: "reading results pos sz p" and l: "l \<in> set (pg_sent p)"
  shows "reading results pos sz (pager_step (Lost l m) p)"
proof (cases l)
  case (First g f)
  then show ?thesis using r by (auto simp: reading_def first_pages_def pager_defs Let_def)
next
  case (More f c)
  then show ?thesis using r reading_more [OF r, of f c] l by (auto simp: reading_def first_pages_def pager_defs Let_def)
qed

lemma first_pages_hd:
  assumes "first_pages results pos sz p" and n: "1 < length (pg_pages p)"
  shows "cut sz (results (pg_filters p)) 0 # tl (pg_pages p) = pg_pages p"
proof -
  have "[0..<length (pg_pages p)] = 0 # [1..<length (pg_pages p)]"
    using n by (metis One_nat_def less_trans upt_conv_Cons zero_less_one)
  moreover have "pg_pages p = map (cut sz (results (pg_filters p))) [0..<length (pg_pages p)]"
    using assms(1) by (simp add: first_pages_def Let_def)
  ultimately have "pg_pages p = cut sz (results (pg_filters p)) 0 # map (cut sz (results (pg_filters p))) [1..<length (pg_pages p)]"
    by (metis list.simps(9))
  then show ?thesis by (metis list.sel(3))
qed

text \<open>
  The other exception: a page of the old filters that arrives after the filters were changed is
  appended to the table of the new ones, with its cursor.
\<close>

lemma stale_page_appended:
  "\<lbrakk>p1 = pager_step (Pick f') p; p2 = pager_step (Reply (More f c) items nc) p1\<rbrakk>
     \<Longrightarrow> pg_filters p2 = f' \<and> shown p2 = items \<and> pg_cursor p2 = nc"
  by (simp add: pager_defs Let_def shown_def)

context result_pages
begin

lemma reading_first:
  assumes r: "reading results pos sz p" and l: "First g f \<in> set (pg_sent p)"
    and o: "orderly p (reply_of serve (First g f))"
  shows "reading results pos sz (pager_step (reply_of serve (First g f)) p)"
proof (cases "g = pg_generation p")
  case False
  then show ?thesis using r by (auto simp: reading_def first_pages_def pager_defs Let_def)
next
  case True
  then have f: "f = pg_filters p" using r l by (auto simp: reading_def firsts_ok_def)
  let ?n = "length (pg_pages p)" and ?xs = "results (pg_filters p)"
  show ?thesis
  proof (cases "1 < ?n")
    case True
    have "cut sz ?xs 0 # tl (pg_pages p) = pg_pages p"
      by (rule first_pages_hd [OF _ True, of results pos]) (use r in \<open>simp add: reading_def\<close>)
    moreover have "pg_pages p \<noteq> []" using True by auto
    ultimately show ?thesis using r o \<open>g = pg_generation p\<close> True f
      by (auto simp: reading_def first_pages_def pager_defs Let_def first_page split: option.splits)
  next
    case False
    then have "?n = 0 \<or> ?n = 1" by linarith
    then show ?thesis using r o \<open>g = pg_generation p\<close> f
      by (auto simp: reading_def first_pages_def pager_defs Let_def first_page split: option.splits)
  qed
qed

lemma reading_further:
  assumes r: "reading results pos sz p" and l: "More f c \<in> set (pg_sent p)"
  shows "reading results pos sz (pager_step (reply_of serve (More f c)) p)"
  using r reading_more [OF r l] later_page by (auto simp: reading_def first_pages_def pager_defs Let_def)

lemma browsed_reading: "browsed serve p \<Longrightarrow> reading results pos sz p"
proof (induction rule: browsed.induct)
  case (event p e)
  note r = event.IH
  from event.hyps(2) show ?case
  proof cases
    case (answer l)
    show ?thesis
    proof (cases l)
      case (First g f)
      with answer event.hyps(3) show ?thesis using reading_first [OF r] by blast
    next
      case (More f c)
      with answer show ?thesis using reading_further [OF r] by blast
    qed
  next
    case (lost l m)
    then show ?thesis using reading_lost [OF r] by blast
  qed (use event.hyps(3) reading_filters [OF r] reading_refresh [OF r] reading_press [OF r] in auto)
qed (rule reading_opened)

text \<open>What is shown while browsing: whole pages from the beginning, and the cursor behind them.\<close>

lemma browsed_shown:
  assumes "browsed serve p"
  shows "shown p = take (length (pg_pages p) * sz) (results (pg_filters p))"
    and "pg_pages p \<noteq> [] \<Longrightarrow> pg_cursor p = None \<longleftrightarrow> shown p = results (pg_filters p)"
proof -
  have r: "first_pages results pos sz p" using browsed_reading [OF assms] by (simp add: reading_def)
  show s: "shown p = take (length (pg_pages p) * sz) (results (pg_filters p))"
    unfolding shown_def using r cut_all by (metis first_pages_def)
  show "pg_pages p \<noteq> [] \<Longrightarrow> pg_cursor p = None \<longleftrightarrow> shown p = results (pg_filters p)"
    using r s by (auto simp: first_pages_def Let_def cursor_behind_def)
qed

text \<open>
  After the last page the refresh brings the cursor of the first page back, and the next press
  appends the second page again.
\<close>

lemma late_refresh:
  assumes r: "reading results pos sz p" and n: "\<not> pg_loading p" "1 < length (pg_pages p)" "pg_cursor p = None"
    and more: "sz < length (results (pg_filters p))"
    and p1: "p1 = pager_step Refresh p"
    and p2: "p2 = pager_step (reply_of serve (First (pg_generation p1) (pg_filters p))) p1"
    and p3: "p3 = pager_step Press p2"
    and p4: "p4 = pager_step (reply_of serve (More (pg_filters p) (pos (pg_filters p) 1))) p3"
  shows "can_press p2 \<and> shown p2 = results (pg_filters p) \<and> shown p4 = results (pg_filters p) @ cut sz (results (pg_filters p)) 1"
proof -
  let ?f = "pg_filters p" and ?n = "length (pg_pages p)"
  let ?xs = "results ?f"
  have fp: "first_pages results pos sz p" using r by (simp add: reading_def)
  have q1: "pg_pages p1 = pg_pages p" "pg_cursor p1 = None" "pg_filters p1 = ?f" "\<not> pg_loading p1"
    using n by (simp_all add: p1 pager_defs Let_def)
  have ne: "pg_pages p \<noteq> []" using n(2) by auto
  have b: "cursor_behind sz ?xs (pos ?f) ?n = None" using fp n(3) ne by (simp add: first_pages_def Let_def)
  have pg: "pg_pages p = map (cut sz ?xs) [0..<?n]" using fp by (simp add: first_pages_def Let_def)
  have h: "cut sz ?xs 0 # tl (pg_pages p) = pg_pages p" by (rule first_pages_hd [OF fp n(2)])
  have c1: "cursor_behind sz ?xs (pos ?f) 1 = Some (pos ?f 1)" using more by (simp add: cursor_behind_def)
  have q2: "pg_pages p2 = pg_pages p" "pg_cursor p2 = Some (pos ?f 1)" "pg_filters p2 = ?f" "\<not> pg_loading p2"
    using n(2) h c1 q1 by (simp_all add: p2 first_reply_def arrived_def first_page)
  have "shown p = take (?n * sz) ?xs"
    unfolding shown_def cut_all [symmetric] by (rule arg_cong [OF pg])
  then have "shown p = ?xs" using b by (simp add: cursor_behind_def split: if_splits)
  moreover have "can_press p2" using q2 pos_text by (simp add: can_press_def truthy_text_def)
  moreover have "pg_pages p4 = pg_pages p2 @ [cut sz ?xs 1]"
    using later_page [of 1 ?f] more by (simp add: p4 p3 loadMore_def put_on_wire_def arrived_def more_reply_def q2 truthy_text_def)
  ultimately show ?thesis using q2(1) by (simp add: shown_def)
qed

end

subsection \<open>The service as the source\<close>

text \<open>
  The page a search hands out, and the cursor with it, from its sorted results; \<open>fresh\<close> is the
  seed drawn when the request has no cursor.
\<close>

definition search_page :: "(jstr \<Rightarrow> 'e list) \<Rightarrow> jstr \<Rightarrow> jsnum \<Rightarrow> jstr option \<Rightarrow> thrown + 'e list \<times> jstr option" where
  "search_page results fresh l cur =
     seqR (parseCursor cur) (\<lambda>c.
       let seed = (case c of None \<Rightarrow> fresh | Some (s, _) \<Rightarrow> s); off = (case c of None \<Rightarrow> 0 | Some (_, n) \<Rightarrow> n);
           es = results seed; stop = num_add (Fin (of_int off)) l in
       Inr (take (num_trunc stop - nat off) (drop (nat off) es),
            if num_lt stop (Fin (of_nat (length es))) then Some (next_cursor seed stop) else None))"

definition search_pages :: "(OfferFilters \<Rightarrow> 'e list) \<Rightarrow> jstr \<Rightarrow> OfferFilters \<Rightarrow> jstr option \<Rightarrow> 'e list \<times> jstr option" where
  "search_pages es seed f cur =
     (case search_page (\<lambda>_. es f) seed (Fin (of_int PAGE)) cur of Inr r \<Rightarrow> r | Inl _ \<Rightarrow> ([], None))"

definition page_cursor :: "jstr \<Rightarrow> nat \<Rightarrow> jstr" where
  "page_cursor seed k = next_cursor seed (Fin (of_int (int k * PAGE)))"

lemma next_cursor_text: "next_cursor seed x \<noteq> []"
proof -
  have "utf8 (123 # us) \<noteq> []" for us by (cases us) (auto simp: utf8_point_def)
  moreover have "base64url bs \<noteq> []" if "bs \<noteq> []" for bs
    using that by (cases bs rule: sextets.cases) (auto simp: base64url_def)
  ultimately have "base64url (utf8 (123 # us)) \<noteq> []" for us by blast
  then show ?thesis unfolding next_cursor_def cursor_text_def append_Cons .
qed

lemma search_page_at:
  assumes "parseCursor cur = Inr c" and "seed = (case c of None \<Rightarrow> fresh | Some (s, _) \<Rightarrow> s)"
    and "(case c of None \<Rightarrow> 0 | Some (_, n) \<Rightarrow> n) = int k * PAGE" and "int (Suc k) * PAGE \<le> 2 ^ 53"
  shows "search_page results fresh (Fin (of_int PAGE)) cur
    = Inr (cut (nat PAGE) (results seed) k, cursor_behind (nat PAGE) (results seed) (page_cursor seed) (Suc k))"
proof -
  have e: "int k * PAGE + PAGE = int (Suc k) * PAGE" by (simp add: algebra_simps)
  have "num_add (Fin (of_int (int k * PAGE))) (Fin (of_int PAGE)) = Fin (of_int (int k * PAGE + PAGE))"
    by (rule num_add_int) (use assms(4) in \<open>simp only: e, simp add: PAGE_def\<close>)
  then have stop: "num_add (Fin (of_int (int k * PAGE))) (Fin (of_int PAGE)) = Fin (of_int (int (Suc k) * PAGE))"
    unfolding e .
  have n: "nat (int k * PAGE) = k * nat PAGE" "nat (int (Suc k) * PAGE) = Suc k * nat PAGE"
    by (simp_all add: PAGE_def nat_mult_distrib)
  have t: "num_trunc (Fin (of_int (int (Suc k) * PAGE))) = Suc k * nat PAGE"
    unfolding num_trunc_def jsnum.case floor_of_int by (rule n(2))
  have lt: "num_lt (Fin (of_int (int (Suc k) * PAGE))) (Fin (of_nat m)) \<longleftrightarrow> Suc k * nat PAGE < m" for m
  proof -
    have "num_lt (Fin (of_int (int (Suc k) * PAGE))) (Fin (of_int (int m))) \<longleftrightarrow> int (Suc k) * PAGE < int m"
      unfolding num_lt_def num_le.simps of_int_le_iff by linarith
    then show ?thesis using n(2) by (simp add: PAGE_def) linarith
  qed
  show ?thesis
    unfolding search_page_def assms(1) seqR_simps Let_def assms(2) [symmetric] assms(3) stop t n(1) lt
    by (simp add: cut_def cursor_behind_def page_cursor_def)
qed

text \<open>The seed is hexadecimal, and a search has at most \<open>10 ^ 15\<close> results.\<close>

definition hex_only :: "jstr \<Rightarrow> jstr" where
  "hex_only s = List.filter is_lower_hex s"

definition some_results :: "(OfferFilters \<Rightarrow> 'e list) \<Rightarrow> OfferFilters \<Rightarrow> 'e list" where
  "some_results es f = take (10 ^ 15 - 100) (es f)"

interpretation catalog: result_pages "search_pages (some_results es) (hex_only seed)" "some_results es"
  "\<lambda>f. page_cursor (hex_only seed)" "nat PAGE" for es seed
proof
  fix f :: OfferFilters and k
  show "page_cursor (hex_only seed) k \<noteq> []" by (simp add: page_cursor_def next_cursor_text)
  show "search_pages (some_results es) (hex_only seed) f None =
      (cut (nat PAGE) (some_results es f) 0, cursor_behind (nat PAGE) (some_results es f) (page_cursor (hex_only seed)) 1)"
    unfolding search_pages_def
    by (subst search_page_at [of _ None "hex_only seed" _ 0]) (simp_all add: parseCursor_def PAGE_def)
  assume k: "0 < k" "k * nat PAGE < length (some_results es f)"
  then have b: "int k * PAGE \<le> 10 ^ 15 - 100" by (simp add: some_results_def PAGE_def) 
  have h: "list_all is_lower_hex (hex_only seed)" by (simp add: hex_only_def list_all_iff)
  have "parseCursor (Some (page_cursor (hex_only seed) k)) = Inr (Some (hex_only seed, int k * PAGE))"
    unfolding page_cursor_def using b by (intro parse_next_cursor [OF h]) (simp_all add: PAGE_def)
  then show "search_pages (some_results es) (hex_only seed) f (Some (page_cursor (hex_only seed) k)) =
      (cut (nat PAGE) (some_results es f) k, cursor_behind (nat PAGE) (some_results es f) (page_cursor (hex_only seed)) (Suc k))"
    unfolding search_pages_def using b
    by (subst search_page_at [of _ "Some (hex_only seed, int k * PAGE)" "hex_only seed" _ k]) (simp_all add: PAGE_def)
qed

text \<open>What the answer to a search holds is such a page.\<close>

lemma parse_search_cursor: "parse_search c url = Inr (Some q) \<Longrightarrow> parseCursor (url ''cursor'') = Inr (q_cursor q)"
  unfolding parse_search_def Let_def
  by (clarsimp simp: seqR_Inr_iff split: if_splits option.splits)

lemma length_mapI: "mapI f xs w = (Inr ys, w') \<Longrightarrow> length ys = length xs"
  by (induction xs arbitrary: w ys) (auto simp: seqI_Inr)

lemma getOffers_page:
  assumes g: "getOffers E scan ip url w = (Inr r, w')" and q: "parse_search (cfg E) url = Inr (Some q)"
  shows "\<exists>now tm busy rows fresh es nc.
    search_page (\<lambda>seed. search_results (noble_fns E) q now tm busy seed rows) fresh (q_limit q) (url ''cursor'') = Inr (es, nc)
    \<and> field (body r) ''nextCursor'' = (case nc of None \<Rightarrow> JNull | Some c \<Rightarrow> JStr c)
    \<and> (\<exists>items. field (body r) ''items'' = JArr items \<and> length items = length es)"
proof -
  let ?off = "case q_cursor q of None \<Rightarrow> 0 | Some (_, n) \<Rightarrow> n"
  obtain rows now tm busy seed st items w1 w2 w3 w4
    where seed: "(case q_cursor q of None \<Rightarrow> seqI (randomBytes E 8) (\<lambda>b. ret (bytesToHex (noble_fns E) b)) | Some (s, _) \<Rightarrow> ret s) w1 = (Inr seed, w2)"
      and m: "mapI (\<lambda>e. offer_json E (en_row e) (tm (en_id e)) (st e))
          (result_page ?off (q_limit q) (search_results (noble_fns E) q now tm busy seed rows)) w3 = (Inr items, w4)"
      and r: "r = json 200 [(''items'', JArr items), (''nextCursor'',
          if num_lt (num_add (Fin (of_int ?off)) (q_limit q)) (Fin (of_nat (length (search_results (noble_fns E) q now tm busy seed rows))))
          then JStr (next_cursor seed (num_add (Fin (of_int ?off)) (q_limit q))) else JNull)]"
    using g unfolding getOffers_def Let_def by (auto simp: seqI_Inr liftI_Inr q)
  have s: "seed = (case q_cursor q of None \<Rightarrow> seed | Some (s, _) \<Rightarrow> s)"
    using seed by (cases "q_cursor q") auto
  show ?thesis
    by (rule exI [of _ now], rule exI [of _ tm], rule exI [of _ busy], rule exI [of _ rows], rule exI [of _ seed])
      (use length_mapI [OF m] r s in \<open>simp add: search_page_def parse_search_cursor [OF q] Let_def result_page_def json_def\<close>)
qed

lemma hex_only_id: "list_all is_lower_hex s \<Longrightarrow> hex_only s = s"
  by (simp add: hex_only_def list_all_iff filter_id_conv)

lemma some_results_id: "(\<And>f. length (es f) \<le> 10 ^ 15 - 100) \<Longrightarrow> some_results es = es"
  by (simp add: some_results_def fun_eq_iff)


lemma first_answer: "happens serve OffersTable (reply_of serve (First 1 DEFAULT_FILTERS))"
  by (rule happens.answer) (simp add: OffersTable_def pager_defs Let_def)


text \<open>
  C38: once every page is shown, the next refresh offers another page all the same, and pressing
  \<open>load more\<close> then shows the second page of the results twice.
\<close>

theorem refresh_repeats_page:
  assumes "browsed (search_pages es seed) p"
    and "list_all is_lower_hex seed" and "\<And>f. length (es f) \<le> 10 ^ 15 - 100"
    and "\<not> pg_loading p" "pg_cursor p = None" "1 < length (pg_pages p)" "25 < length (es (pg_filters p))"
    and "p1 = pager_step Refresh p"
    and "p2 = pager_step (reply_of (search_pages es seed) (First (pg_generation p1) (pg_filters p))) p1"
    and "p3 = pager_step Press p2"
    and "p4 = pager_step (reply_of (search_pages es seed) (More (pg_filters p) (page_cursor seed 1))) p3"
  shows "can_press p2 \<and> shown p2 = es (pg_filters p) \<and> shown p4 = es (pg_filters p) @ take 25 (drop 25 (es (pg_filters p)))"
  using catalog.late_refresh [OF catalog.browsed_reading, of es seed p p1 p2 p3 p4] assms
  by (simp add: hex_only_id some_results_id PAGE_def cut_def)

lemma thirty_pages:
  "search_pages (\<lambda>f. [0 ..< (30 :: nat)]) (js ''0f'') f None = ([0..<25], Some (page_cursor (js ''0f'') 1))"
  "search_pages (\<lambda>f. [0 ..< (30 :: nat)]) (js ''0f'') f (Some (page_cursor (js ''0f'') 1)) = ([25..<30], None)"
proof -
  have h: "hex_only (js ''0f'') = js ''0f''" by (rule hex_only_id) (simp add: js_cons is_lower_hex_def of_char_def)
  have e: "some_results (\<lambda>f. [0 ..< (30 :: nat)]) = (\<lambda>f. [0..<30])" by (rule some_results_id) simp
  show "search_pages (\<lambda>f. [0 ..< (30 :: nat)]) (js ''0f'') f None = ([0..<25], Some (page_cursor (js ''0f'') 1))"
    using catalog.first_page [of "\<lambda>f. [0 ..< (30 :: nat)]" "js ''0f''" f] by (simp add: h e cut_def cursor_behind_def PAGE_def)
  show "search_pages (\<lambda>f. [0 ..< (30 :: nat)]) (js ''0f'') f (Some (page_cursor (js ''0f'') 1)) = ([25..<30], None)"
    using catalog.later_page [of 1 "\<lambda>f. [0 ..< (30 :: nat)]" f "js ''0f''"]
    by (simp add: h e cut_def cursor_behind_def PAGE_def)
qed

theorem refresh_repeats_page_witness:
  "\<exists>p (p2 :: nat pager) p4. browsed (search_pages (\<lambda>f. [0 ..< (30 :: nat)]) (js ''0f'')) p \<and> shown p = [0..<30] \<and> pg_cursor p = None
     \<and> can_press p2 \<and> shown p4 = [0..<30] @ take 25 (drop 25 [0..<30])"
proof -
  let ?s = "search_pages (\<lambda>f. [0 ..< (30 :: nat)]) (js ''0f'')" and ?c = "page_cursor (js ''0f'') 1"
  define p0 where "p0 = pager_step (reply_of ?s (First 1 DEFAULT_FILTERS)) OffersTable"
  define pa where "pa = pager_step Press p0"
  define p where "p = pager_step (reply_of ?s (More DEFAULT_FILTERS ?c)) pa"
  have c: "page_cursor (js ''0f'') (Suc 0) \<noteq> []" by (simp add: page_cursor_def next_cursor_text)
  have v0: "p0 = \<lparr>pg_filters = DEFAULT_FILTERS, pg_pages = [[0..<25]], pg_cursor = Some ?c, pg_error = None,
      pg_loading = False, pg_generation = 1, pg_sent = []\<rparr>"
    by (simp add: p0_def OffersTable_def pager_defs Let_def thirty_pages(1) del: upt_rec_numeral)
  have va: "pa = p0\<lparr>pg_loading := True, pg_sent := [More DEFAULT_FILTERS ?c]\<rparr>"
    by (simp add: pa_def v0 pager_defs truthy_text_def c del: upt_rec_numeral)
  have v: "p = p0\<lparr>pg_pages := [[0..<25], [25..<30]], pg_cursor := None\<rparr>"
    by (simp add: p_def va v0 pager_defs thirty_pages(2) [unfolded One_nat_def] del: upt_rec_numeral)
  have b0: "browsed ?s p0" unfolding p0_def
    by (rule browsed.event [OF browsed.opened first_answer]) (simp add: OffersTable_def pager_defs Let_def)
  have ba: "browsed ?s pa" unfolding pa_def
    by (rule browsed.event [OF b0 happens.pressed]) (simp_all add: can_press_def v0 truthy_text_def c del: upt_rec_numeral)
  have b: "browsed ?s p" unfolding p_def
    by (rule browsed.event [OF ba happens.answer]) (simp_all add: va)
  have "list_all is_lower_hex (js ''0f'')" by (simp add: js_cons is_lower_hex_def of_char_def)
  let ?p1 = "pager_step Refresh p"
  let ?p2 = "pager_step (reply_of ?s (First (pg_generation ?p1) (pg_filters p))) ?p1"
  let ?p4 = "pager_step (reply_of ?s (More (pg_filters p) ?c)) (pager_step Press ?p2)"
  have q: "pg_cursor p = None" "\<not> pg_loading p" "1 < length (pg_pages p)" by (simp_all add: v v0)
  have "can_press ?p2 \<and> shown ?p2 = [0..<30] \<and> shown ?p4 = [0..<30] @ take 25 (drop 25 [0..<30])"
    by (rule refresh_repeats_page [OF b \<open>list_all is_lower_hex (js ''0f'')\<close> _ q(2,1,3) _ refl refl refl refl]) simp_all
  moreover have "shown p = [0..<30]" using upt_add_eq_append [of 0 25 5] by (simp add: v v0 shown_def del: upt_rec_numeral)
  ultimately show ?thesis using b q(1) by blast
qed

end
