(* ===== verification/Web_Views.thy ===== *)
theory Web_Views
  imports Web_Format Web_Live
begin

text \<open>
  What the dashboard's tables, tiles and cards say: the text of each cell, from the response it
  was made of (\<open>src/web/src/*.tsx\<close>).  Elements, classes, links and fixed captions are left out.  One
  reading \<open>now\<close> of the clock serves a rendering.  Proved: the provider pages a reader can reach.
\<close>

subsection \<open>Texts\<close>

definition or_dash :: "('a \<Rightarrow> jstr) \<Rightarrow> 'a option \<Rightarrow> jstr" where
  "or_dash f x = (case x of None \<Rightarrow> dash | Some v \<Rightarrow> f v)"

definition num_truthy :: "jsnum \<Rightarrow> bool" where
  "num_truthy x = (x \<noteq> NaN \<and> x \<noteq> Fin 0)"

definition opt_truthy :: "jsnum option \<Rightarrow> bool" where
  "opt_truthy x = (case x of None \<Rightarrow> False | Some v \<Rightarrow> num_truthy v)"

definition at_least_text :: "jstr" where
  "at_least_text = [0x2265]"

definition dot_sep :: jstr where
  "dot_sep = js '' '' @ [0xB7] @ js '' ''"

fun pill_text :: "sim_status \<Rightarrow> string" where
  "pill_text Searching = ''searching''"
| "pill_text Probing = ''probing''"
| "pill_text Running = ''running''"
| "pill_text Idle = ''idle''"

fun PILL :: "sim_status \<Rightarrow> string" where
  "PILL Running = ''active''"
| "PILL Probing = ''stale''"
| "PILL Searching = ''''"
| "PILL Idle = ''''"

definition num_sum :: "jsnum list \<Rightarrow> jsnum" where
  "num_sum xs = foldl num_add (Fin 0) xs"

subsection \<open>Offers\<close>

definition OfferRow_cells :: "int \<Rightarrow> OfferItem \<Rightarrow> jstr list" where
  "OfferRow_cells now o_item =
     (let att = ev_payload (oi_attestation o_item); terms = map_option ev_payload (oi_terms o_item);
          t = ev_payload (oi_template o_item) in
        [shortHex 12 4 (oi_offerId o_item), shortHex 10 4 (tp_providerId t), or_dash id (ap_cpuModel att),
         num_str (ap_coreCount att), num_str (ap_ramGib att), fmtInt (as_full (ap_scores att)),
         or_dash te_minPricePerHour terms, or_dash num_str (Option.bind terms te_coresFree),
         js (status_name (oi_status o_item)), untilShort now (tp_expiresAt t)])"

text \<open>\<open>setFilters((f) => ({ ...f, [k]: e.target.value }))\<close>, and the foot of the table.\<close>

definition set_filter :: "string \<Rightarrow> jstr \<Rightarrow> 'i pager \<Rightarrow> 'i pager_event" where
  "set_filter k v p = Pick (set_param k v (pg_filters p))"

definition more_button :: "'i pager \<Rightarrow> bool \<times> jstr" where
  "more_button p =
     (\<not> truthy_text (pg_cursor p) \<or> pg_loading p,
      if pg_loading p then js ''loading'' @ ellipsis else if truthy_text (pg_cursor p) then js ''load more'' else js ''all loaded'')"

subsection \<open>Providers\<close>

definition liveness :: "int \<Rightarrow> ProviderItem \<Rightarrow> string \<times> jstr" where
  "liveness now p =
     (if num_lt (Fin 0) (pi_liveOffers p) then (''on'', js ''live'' @ dot_sep @ timeAgo now (pi_lastSeenAt p))
      else if truthy_text (pi_lastSeenAt p) then (''warn'', js ''stale'' @ dot_sep @ timeAgo now (pi_lastSeenAt p))
      else ('''', js ''never seen''))"

definition ProviderRow_cells :: "int \<Rightarrow> ProviderItem \<Rightarrow> jstr list" where
  "ProviderRow_cells now p =
     [pi_displayName p, shortHex 10 4 (pi_providerId p),
      js (fst (providerStatus (pi_liveOffers p) (pi_busyOffers p) (pi_lastSeenAt p))),
      or_dash id (Option.bind (pi_attestation p) ia_cpuModel),
      or_dash (num_str \<circ> ia_coreCount) (pi_attestation p), or_dash (num_str \<circ> ia_ramGib) (pi_attestation p),
      or_dash (fmtInt \<circ> as_full \<circ> ia_scores) (pi_attestation p),
      num_str (pi_liveOffers p) @ js ''/'' @ num_str (pi_activeOffers p), snd (liveness now p)]"

text \<open>The offset and what the buttons do to it; \<open>n_all\<close> (\<open>total\<close>) is 0 while nothing has arrived.\<close>

definition prev_offset :: "int \<Rightarrow> int option" where
  "prev_offset offset = (if offset = 0 then None else Some (max 0 (offset - PAGE)))"

definition next_offset :: "int \<Rightarrow> int \<Rightarrow> int option" where
  "next_offset n_all offset = (if offset + PAGE \<ge> n_all then None else Some (offset + PAGE))"

definition range_hint :: "int \<Rightarrow> int \<Rightarrow> jstr" where
  "range_hint n_all offset =
     (if n_all = 0 then js ''0''
      else dec_str (offset + 1) @ [0x2013] @ num_str (Fin (of_int (min (offset + PAGE) n_all))) @ js '' of '' @ num_str (Fin (of_int n_all)))"

subsection \<open>Simulated demand\<close>

definition wants :: "DemandSimRequestor \<Rightarrow> jstr" where
  "wants r =
     (let parts = (if opt_truthy (dr_coresMin r) then [at_least_text @ num_str (the (dr_coresMin r)) @ js ''c''] else [])
        @ (if opt_truthy (dr_ramGibMin r) then [at_least_text @ num_str (the (dr_ramGibMin r)) @ js '' GiB''] else [])
        @ (if opt_truthy (dr_scoreFullMin r) then [js ''score '' @ at_least_text @ fmtInt (the (dr_scoreFullMin r))] else [])
      in if parts \<noteq> [] then join dot_sep parts else js ''anything'')"

definition match_accruing :: "int \<Rightarrow> DemandSimRequestor \<Rightarrow> jsnum" where
  "match_accruing now r =
     (case dr_match r of None \<Rightarrow> Fin 0 | Some m \<Rightarrow> accruing now (sm_pricePerHour m) (sm_sinceIso m))"

definition DemandRow_cells :: "int \<Rightarrow> jstr \<Rightarrow> DemandSimRequestor \<Rightarrow> jstr list" where
  "DemandRow_cells now unit_s r =
     [dr_displayName r, dr_shape r, wants r, dr_maxPricePerHour r, js (pill_text (dr_status r)),
      or_dash (\<lambda>m. sm_providerName m @ js '' @ '' @ sm_pricePerHour m @ js '' '' @ unit_s @ js ''/h'' @ dot_sep
         @ untilShort now (sm_untilIso m) @ js '' left'') (dr_match r),
      fmtGlm (num_add (dr_spent r) (match_accruing now r)), fmtInt (dr_jobs r), fmtInt (sn_noMatch (dr_counters r)),
      fmtInt (sn_queries (dr_counters r)), fmtInt (sn_bugs (dr_counters r)), timeAgo now (Some (dr_updatedAt r))]"

definition demand_requestors :: "DemandSim option \<Rightarrow> DemandSimRequestor list" where
  "demand_requestors d = (case d of None \<Rightarrow> [] | Some x \<Rightarrow> ds_requestors x)"

definition liveSpend :: "int \<Rightarrow> DemandSim option \<Rightarrow> jsnum" where
  "liveSpend now d = num_sum (map (match_accruing now) (demand_requestors d))"

definition demand_total :: "int \<Rightarrow> DemandSim option \<Rightarrow> jstr" where
  "demand_total now d = fmtGlm (num_add (case d of None \<Rightarrow> Fin 0 | Some x \<Rightarrow> ds_spent x) (liveSpend now d))"

definition earnings_cells :: "int \<Rightarrow> SimEarnings \<Rightarrow> jstr list" where
  "earnings_cells now e = [ea_displayName e, fmtGlm (ea_earned e), fmtInt (ea_jobs e), timeAgo now (Some (ea_lastJobAt e))]"

text \<open>The columns of the parties are omitted on a party's own page.\<close>

definition sim_job_cells :: "int \<Rightarrow> jstr option \<Rightarrow> jstr option \<Rightarrow> SimJob \<Rightarrow> jstr list" where
  "sim_job_cells now requestor provider j =
     [timeAgo now (Some (sj_settledAt j))]
     @ (if truthy_text requestor then [] else [sj_requestorName j])
     @ (if truthy_text provider then [] else [sj_providerName j])
     @ [sj_shape j, sj_pricePerHour j, num_str (math_round (num_div (sj_runMs j) (Fin 1000))) @ js ''s'', fmtGlm (sj_cost j)]"

definition sim_jobs_hint :: "SimJobList option \<Rightarrow> jstr" where
  "sim_jobs_hint d = (case d of None \<Rightarrow> ellipsis
     | Some x \<Rightarrow> dec_str (int (length (jl_jobs x))) @ js '' of '' @ num_str (jl_total x) @ js '' settled jobs'')"

subsection \<open>Tiles and the header\<close>

definition Tiles :: "Stats option \<Rightarrow> (string \<times> jstr) list" where
  "Tiles stats =
     (let n = (\<lambda>f. or_dash (fmtInt \<circ> f) stats); opt = (\<lambda>label x. case x of None \<Rightarrow> [] | Some v \<Rightarrow> [(label, fmtInt v)]);
          price = Option.bind stats st_price; unit_s = (case stats of None \<Rightarrow> js ''GLM'' | Some s \<Rightarrow> st_unit s) in
        [(''providers'', n st_providersTotal), (''providers live'', n st_providersActive)]
        @ opt ''providers free'' (Option.bind stats st_providersFree)
        @ opt ''providers busy'' (Option.bind stats st_providersBusy)
        @ [(''offers active'', n st_offersActive), (''offers live'', n st_offersLive)]
        @ (case Option.bind stats st_offersBusy of None \<Rightarrow> []
             | Some b \<Rightarrow> if num_lt (Fin 0) b then [(''offers busy'', fmtInt b)] else [])
        @ [(''live cores'', n st_liveCores), (''live ram'', or_dash (fmtGib \<circ> st_liveRamGib) stats),
           (''median price'', or_dash (\<lambda>s. fmtPrice (map_option pr_median (st_price s))) stats @ unit_s @ js ''/h''),
           (''price range'', or_dash (\<lambda>p. fmtPrice (Some (pr_min p)) @ [0x2013] @ fmtPrice (Some (pr_max p))) price)]
        @ (case Option.bind stats st_demandSim of None \<Rightarrow> []
             | Some d \<Rightarrow> [(''sim spend = earnings'', fmtGlm (ds_spent d) @ unit_s)]))"

text \<open>\<open>GET /v1/health\<close> as the header shows it; \<open>failed\<close> is the last poll's error.\<close>

record Health =
  he_postgres :: jstr
  he_redis :: jstr

definition conn_text :: "Health option \<Rightarrow> jstr option \<Rightarrow> bool \<times> jstr" where
  "conn_text health failed =
     (case health of
        Some h \<Rightarrow>
          if \<not> truthy_text failed \<and> he_postgres h = js ''ok''
          then (True, if he_redis h = js ''ok'' then js ''registry up'' else js ''up'' @ dot_sep @ js ''liveness degraded'')
          else (False, js ''unreachable'')
      | None \<Rightarrow> (False, js ''unreachable''))"

subsection \<open>The card of a provider\<close>

definition text_of :: "jsval \<Rightarrow> jstr" where
  "text_of v = (case v of JStr s \<Rightarrow> s | JNum x \<Rightarrow> num_str x | _ \<Rightarrow> [])"

definition strings_of :: "jsval \<Rightarrow> jstr list" where
  "strings_of v = (case v of JArr vs \<Rightarrow> map text_of vs | _ \<Rightarrow> [])"

definition nullish :: "jsval \<Rightarrow> bool" where
  "nullish v = (v = JUndef \<or> v = JNull)"

definition provider_heading :: "jstr \<Rightarrow> ProviderDetail option \<Rightarrow> jstr" where
  "provider_heading i data =
     (case data of None \<Rightarrow> shortHex 10 4 i
      | Some d \<Rightarrow> let n = field (pd_payload d) ''displayName'' in if nullish n then shortHex 10 4 i else text_of n)"

definition profile_grid :: "int \<Rightarrow> ProviderDetail option \<Rightarrow> (string \<times> jstr) list" where
  "profile_grid now data =
     (let f = (\<lambda>g. case data of None \<Rightarrow> ellipsis | Some d \<Rightarrow> g d) in
        [(''net endpoints'', f (\<lambda>d. let t = join (js '', '') (strings_of (field (pd_payload d) ''netEndpoints'')) in if t = [] then dash else t)),
         (''contact'', f (\<lambda>d. let v = field (pd_payload d) ''contact'' in if nullish v then dash else text_of v)),
         (''heartbeat interval'', f (\<lambda>d. text_of (field (pd_payload d) ''heartbeatIntervalSec'') @ js ''s'')),
         (''first seen'', f (\<lambda>d. let t = slice 0 19 (pd_firstSeenAt d) in
            (takeWhile (\<lambda>u. u \<noteq> 84) t @ (case dropWhile (\<lambda>u. u \<noteq> 84) t of [] \<Rightarrow> [] | _ # r \<Rightarrow> 32 # r)) @ js '' UTC'')),
         (''last seen'', f (\<lambda>d. timeAgo now (pd_lastSeenAt d))),
         (''offers live / busy / active'', f (\<lambda>d. num_str (pd_liveOffers d) @ js '' / '' @ num_str (pd_busyOffers d) @ js '' / ''
            @ num_str (pd_activeOffers d)))])"

definition attestation_grid :: "int \<Rightarrow> DetailAttestation \<Rightarrow> (string \<times> jstr) list" where
  "attestation_grid now att =
     (let sc = ia_scores att in
        [(''cpu'', or_dash id (ia_cpuModel att)),
         (''cores / ram'', num_str (ia_coreCount att) @ js '' / '' @ num_str (ia_ramGib att) @ js '' GiB''),
         (''scores (single / quad / eight / full)'', join (js '' / '')
            [fmtInt (as_singleCore sc), fmtInt (as_quadCore sc), fmtInt (as_eightCore sc), fmtInt (as_full sc)]),
         (''expires'', untilShort now (ia_expiresAt att) @ js '' ('' @ slice 0 10 (ia_expiresAt att) @ js '')''),
         (''attestation id'', shortHex 18 6 (da_id att))])"

definition offer_cells :: "int \<Rightarrow> ProviderOffer \<Rightarrow> jstr list" where
  "offer_cells now po_o =
     [shortHex 12 4 (po_offerId po_o), or_dash id (po_minPricePerHour po_o), or_dash num_str (po_coresFree po_o),
      js (status_name (po_status po_o)), untilShort now (po_expiresAt po_o)]"

text \<open>The simulator's view of a provider: what it earned, and who rents it now.\<close>

definition card_earnings :: "jstr \<Rightarrow> DemandSim option \<Rightarrow> SimEarnings option" where
  "card_earnings i d = Option.bind d (\<lambda>x. find (\<lambda>e. ea_providerId e = i) (ds_earnings x))"

definition card_hirers :: "jstr \<Rightarrow> DemandSim option \<Rightarrow> DemandSimRequestor list" where
  "card_hirers i d = List.filter (\<lambda>r. map_option sm_providerId (dr_match r) = Some i) (demand_requestors d)"

definition earnings_grid :: "int \<Rightarrow> jstr \<Rightarrow> jstr \<Rightarrow> DemandSim option \<Rightarrow> (string \<times> jstr) list" where
  "earnings_grid now unit_s i d =
     (let e = card_earnings i d; hs = card_hirers i d in
      if d = None \<or> (e = None \<and> hs = []) then []
      else
        [(''earned (completed jobs)'', fmtGlm (case e of None \<Rightarrow> Fin 0 | Some x \<Rightarrow> ea_earned x) @ js '' '' @ unit_s),
         (''jobs completed'', fmtInt (case e of None \<Rightarrow> Fin 0 | Some x \<Rightarrow> ea_jobs x)),
         (''last job'', or_dash (\<lambda>x. timeAgo now (Some (ea_lastJobAt x))) e),
         (''accruing now'', if hs = [] then dash
            else js ''+'' @ fmtGlm (num_sum (map (match_accruing now) hs)) @ js '' '' @ unit_s),
         (''currently hired by'', if hs = [] then js ''nobody''
            else join (js '', '') (map (\<lambda>r. dr_displayName r @ js '' @ '' @ sm_pricePerHour (the (dr_match r)) @ js '' '' @ unit_s @ js ''/h'') hs))])"

subsection \<open>The card of a simulated requestor\<close>

definition card_requestor :: "jstr \<Rightarrow> DemandSim option \<Rightarrow> DemandSimRequestor option" where
  "card_requestor i d = find (\<lambda>r. dr_requestorId r = i) (demand_requestors d)"

definition card_wants :: "DemandSimRequestor \<Rightarrow> jstr" where
  "card_wants r =
     (let t = join dot_sep
        ((if opt_truthy (dr_coresMin r) then [at_least_text @ num_str (the (dr_coresMin r)) @ js '' cores''] else [])
         @ (if opt_truthy (dr_ramGibMin r) then [at_least_text @ num_str (the (dr_ramGibMin r)) @ js '' GiB ram''] else [])
         @ (if opt_truthy (dr_scoreFullMin r) then [js ''score '' @ at_least_text @ fmtInt (the (dr_scoreFullMin r))] else []))
      in if t = [] then js ''anything'' else t)"

definition RequestorCard :: "int \<Rightarrow> jstr \<Rightarrow> DemandSimRequestor \<Rightarrow> (string \<times> (string \<times> jstr) list) list" where
  "RequestorCard now unit_s r =
     [(''job shape'',
        [(''shape'', dr_shape r), (''wants'', card_wants r),
         (''price ceiling'', dr_maxPricePerHour r @ js '' '' @ unit_s @ js ''/h''), (''updated'', timeAgo now (Some (dr_updatedAt r)))]),
      (''spending'',
        [(''spent (completed jobs)'', fmtGlm (dr_spent r) @ js '' '' @ unit_s),
         (''accruing now'', if dr_match r = None then dash else js ''+'' @ fmtGlm (match_accruing now r) @ js '' '' @ unit_s),
         (''jobs completed (all time)'', fmtInt (dr_jobs r)),
         (''avg per job'', if num_lt (Fin 0) (dr_jobs r) then fmtGlm (num_div (dr_spent r) (dr_jobs r)) @ js '' '' @ unit_s else dash)]),
      (''current job'', case dr_match r of None \<Rightarrow> []
        | Some m \<Rightarrow>
           [(''provider'', sm_providerName m), (''offer'', shortHex 14 6 (sm_offerId m)),
            (''price'', sm_pricePerHour m @ js '' '' @ unit_s @ js ''/h''), (''started'', timeAgo now (Some (sm_sinceIso m))),
            (''ends in'', untilShort now (sm_untilIso m))]),
      (''counters'', let c = dr_counters r in
        [(''queries'', fmtInt (sn_queries c)), (''matches'', fmtInt (sn_matches c)), (''no match'', fmtInt (sn_noMatch c)),
         (''probe rejected'', fmtInt (sn_probeRejected c)), (''bugs observed'', fmtInt (sn_bugs c))])]"

subsection \<open>Facts\<close>

lemma set_filter_reads: "pager_step (set_filter k v p) p = filters_changed (set_param k v (pg_filters p)) p"
  by (simp add: set_filter_def)

text \<open>The offsets a reader reaches: pages of the directory, never before its start, never behind its end.\<close>

inductive paged :: "int \<Rightarrow> int \<Rightarrow> bool" for n_all where
  start: "paged n_all 0"
| earlier: "paged n_all k \<Longrightarrow> prev_offset k = Some k' \<Longrightarrow> paged n_all k'"
| further: "paged n_all k \<Longrightarrow> next_offset n_all k = Some k' \<Longrightarrow> paged n_all k'"

lemma paged_offsets: "paged n_all k \<Longrightarrow> PAGE dvd k \<and> 0 \<le> k \<and> (k = 0 \<or> k < n_all)"
proof (induction rule: paged.induct)
  case (earlier k k')
  then obtain m where "k = PAGE * m" by auto
  then show ?case using earlier by (cases "k - PAGE < 0") (auto simp: prev_offset_def PAGE_def max_def split: if_splits)
qed (auto simp: next_offset_def PAGE_def split: if_splits)

end
