(* ===== verification/Vectors.thy ===== *)
theory Vectors
  imports Attest
begin

text \<open>
  The generator of the vectors that the provider agent is tested against
  (\<open>scripts/gen-bench-vectors.ts\<close>).  A result is \<open>None\<close> when a sampling does not end.  Proved: what
  it writes is consistent with the service: the verifier accepts the proofs of both lanes, the
  signature recovers the address, and the run ends without an exception when the digests yield
  enough distinct indices.
\<close>

definition vec_hex :: "noble \<Rightarrow> bytes \<Rightarrow> jsval" where
  "vec_hex N b = JStr (hex0x N b)"

definition repeat_str :: "nat \<Rightarrow> string \<Rightarrow> jstr" where
  "repeat_str n s = concat (replicate n (js s))"

text \<open>A key that every reader knows.\<close>

definition vec_priv :: "noble \<Rightarrow> bytes option" where
  "vec_priv N = hexToBytes N (repeat_str 31 ''00'' @ js ''01'')"

definition jcsCases :: "jsval list" where
  "jcsCases =
     [JNull, JBool True, JBool False, jint 0, jint (- 1), jint 9007199254740991, JStr (js ''plain''), JObj [], JArr [],
      JObj [(js ''b'', jint 1), (js ''a'', JArr [jint 1, JStr (js ''x''), JNull, JBool False]), ([0xE9], JStr (js ''u'')),
            (js ''e'', obj [(''z'', jint 0), (''y'', JArr [JObj []])])],
      JObj [([0xFFFD], JStr (js ''replacement'')), ([0xD800, 0xDC00], JStr (js ''supplementary'')),
            (js ''A'', JStr (js ''ascii'')), ([0x65, 0x301], JStr (js ''combining''))],
      JObj [(js ''s'', JStr (js ''quote'' @ [34] @ js '' back'' @ [92] @ js '' slash/ ctl'' @ [1, 8, 12, 10, 13, 9, 31]
            @ js '' del'' @ [127] @ js '' '' @ [0xE9] @ js '' '' @ [0xD83D, 0xDE00]))]]"

definition cryptoPayload :: "jstr \<Rightarrow> jsval" where
  "cryptoPayload providerId = obj
     [(''type'', JStr (js ''attest-request/v1'')), (''providerId'', JStr providerId), (''model'', JStr (js ''cpu/v1'')),
      (''arch'', JStr (js ''x64'')), (''coreCount'', jint 16), (''ramGib'', jint 64),
      (''cpuModel'', JStr (js ''Vector CPU (test)'')), (''signedAt'', JStr (js ''2026-07-04T12:00:00.000Z''))]"

record lane_request =
  lr_params :: LaneParams
  lr_workers :: nat
  lr_challengeId :: jstr

definition laneVector_request ::
    "noble \<Rightarrow> jstr \<Rightarrow> string \<Rightarrow> string \<Rightarrow> string \<Rightarrow> string \<Rightarrow> nat \<Rightarrow> nat \<Rightarrow> nat \<Rightarrow> nat \<Rightarrow> thrown + lane_request" where
  "laneVector_request N providerId seedByte nonceByte chalByte laneId workers L C K =
     seqR (hexToBytesR N (repeat_str 32 seedByte)) (\<lambda>seed.
     seqR (hexToBytesR N (repeat_str 16 nonceByte)) (\<lambda>nonce.
     Inr \<lparr>lr_params = \<lparr>lp_seed = seed, lp_laneNonce = nonce, lp_providerId = providerId, lp_laneId = js laneId,
            lp_chainLen = L, lp_checkpoints = C, lp_samples = K\<rparr>,
          lr_workers = workers, lr_challengeId = js ''0x'' @ repeat_str 32 chalByte\<rparr>))"

definition params_json :: "noble \<Rightarrow> LaneParams \<Rightarrow> jsval" where
  "params_json N p = obj
     [(''seed'', vec_hex N (lp_seed p)), (''laneNonce'', vec_hex N (lp_laneNonce p)), (''providerId'', JStr (lp_providerId p)),
      (''laneId'', JStr (lp_laneId p)), (''chainLen'', jint (int (lp_chainLen p))), (''checkpoints'', jint (int (lp_checkpoints p))),
      (''samples'', jint (int (lp_samples p)))]"

definition laneVector :: "noble \<Rightarrow> lane_request \<Rightarrow> (thrown + jsval) option" where
  "laneVector N q =
     (let p = lr_params q; ws = [0..<lr_workers q] in
      case seqR (mapR (computeChain N p) ws) (\<lambda>chs. seqR (mapR (s0 N p) ws) (\<lambda>starts. Inr (chs, starts))) of
        Inl e \<Rightarrow> Some (Inl e)
      | Inr (chs, starts) \<Rightarrow>
          let roots = map (\<lambda>c. merkleRoot N (merkleLeaves N c)) chs in
          (case sampleIndices N (lr_challengeId q) (lp_laneId p) roots (lp_samples p) (lp_checkpoints p) of
             None \<Rightarrow> None
           | Some r \<Rightarrow>
               map_option (\<lambda>pr. seqR r (\<lambda>sampled. seqR pr (\<lambda>proofs. Inr (obj
                 [(''params'', params_json N p), (''workers'', jint (int (lr_workers q))), (''challengeId'', JStr (lr_challengeId q)),
                  (''s0'', JArr (map (vec_hex N) starts)), (''checkpoints'', JArr (map (\<lambda>c. JArr (map (vec_hex N) c)) chs)),
                  (''roots'', JArr (map (vec_hex N) roots)), (''sampledIndices'', JArr (map (\<lambda>i. jint (int i)) sampled)),
                  (''proofs'', JArr (map proof_js proofs))]))))
                 (proveLane N p (lr_workers q) (lr_challengeId q))))"

definition jcsR :: "jsval \<Rightarrow> thrown + jstr" where
  "jcsR v = (case jcs v of Inl e \<Rightarrow> Inl Uncaught | Inr s \<Rightarrow> Inr s)"

definition crypto_vector :: "noble \<Rightarrow> thrown + jstr \<times> jsval" where
  "crypto_vector N =
     (case vec_priv N of None \<Rightarrow> Inl Uncaught
      | Some priv \<Rightarrow> (case addressFromPrivateKey N priv of None \<Rightarrow> Inl Uncaught
      | Some who \<Rightarrow> (case signPayload N (cryptoPayload who) priv of None \<Rightarrow> Inl Uncaught
      | Some sig \<Rightarrow> seqR (jcsR (cryptoPayload who)) (\<lambda>text. case payloadHash N (cryptoPayload who) of Inl e \<Rightarrow> Inl Uncaught
      | Inr h \<Rightarrow> Inr (who, obj [(''privKey'', vec_hex N priv), (''address'', JStr who), (''payload'', cryptoPayload who),
          (''canonical'', JStr text), (''digestHash'', JStr h), (''signature'', JStr sig)])))))"

text \<open>The two lanes; six checkpoints give levels of odd width.\<close>

definition vector_lanes :: "noble \<Rightarrow> jstr \<Rightarrow> thrown + lane_request list" where
  "vector_lanes N who =
     seqR (laneVector_request N who ''11'' ''22'' ''33'' ''quad'' 2 64 8 3) (\<lambda>a.
     seqR (laneVector_request N who ''44'' ''55'' ''66'' ''full'' 3 24 6 4) (\<lambda>b. Inr [a, b]))"

fun all_lanes :: "noble \<Rightarrow> lane_request list \<Rightarrow> (thrown + jsval list) option" where
  "all_lanes N [] = Some (Inr [])"
| "all_lanes N (q # qs) =
     (case laneVector N q of None \<Rightarrow> None
      | Some (Inl e) \<Rightarrow> Some (Inl e)
      | Some (Inr v) \<Rightarrow> map_option (\<lambda>r. seqR r (\<lambda>vs. Inr (v # vs))) (all_lanes N qs))"

definition vectors :: "noble \<Rightarrow> (thrown + jsval) option" where
  "vectors N =
     (case seqR (mapR (\<lambda>v. seqR (jcsR v) (\<lambda>t. Inr (obj [(''value'', v), (''canonical'', JStr t)]))) jcsCases) (\<lambda>cases.
           seqR (crypto_vector N) (\<lambda>(who, c). seqR (vector_lanes N who) (\<lambda>qs. Inr (cases, c, qs)))) of
        Inl e \<Rightarrow> Some (Inl e)
      | Inr (cases, c, qs) \<Rightarrow>
          map_option (\<lambda>r. seqR r (\<lambda>ls. Inr (obj [(''jcs'', JArr cases), (''crypto'', c), (''lanes'', JArr ls)]))) (all_lanes N qs))"

subsection \<open>The vectors are right\<close>

lemma laneVector_verifies:
  assumes "noble_ok N" and "0 < lp_checkpoints (lr_params q)" and "laneVector N q = Some (Inr v)"
  shows "verifyLane N (lr_params q) (lr_workers q) (lr_challengeId q) (field v ''proofs'') = Some (Inr LaneOk)"
proof -
  obtain proofs where "proveLane N (lr_params q) (lr_workers q) (lr_challengeId q) = Some (Inr proofs)"
      "field v ''proofs'' = JArr (map proof_js proofs)"
    using assms(3) by (auto simp: laneVector_def Let_def obj_def seqR_Inr_iff split: sum.splits option.splits)
  then show ?thesis using proveLane_accepted [OF assms(1,2)] by metis
qed

lemma all_lanes_verify:
  "\<lbrakk>noble_ok N; all_lanes N qs = Some (Inr vs); \<forall>q \<in> set qs. 0 < lp_checkpoints (lr_params q)\<rbrakk>
     \<Longrightarrow> list_all2 (\<lambda>q v. verifyLane N (lr_params q) (lr_workers q) (lr_challengeId q) (field v ''proofs'') = Some (Inr LaneOk)) qs vs"
proof (induction qs arbitrary: vs)
  case (Cons q qs)
  then obtain v vs' where v: "laneVector N q = Some (Inr v)" "all_lanes N qs = Some (Inr vs')" "vs = v # vs'"
    by (auto simp: seqR_Inr_iff split: option.splits sum.splits)
  then show ?case using Cons laneVector_verifies by simp
qed simp

lemma cryptoPayload_ok: "is_ok (jcs (cryptoPayload who))"
proof -
  have "wf_js (cryptoPayload who)" "plain_json (cryptoPayload who)"
    by (simp_all add: cryptoPayload_def obj_def jint_def num_of_int_def is_finite_num_def)
  then show ?thesis using serialize_ok_iff by (simp add: jcs_def)
qed

lemma jcsCases_ok: "list_all (\<lambda>v. wf_js v \<and> plain_json v) jcsCases"
  by code_simp

lemma jcs_cases_total: "\<exists>cs. mapR (\<lambda>v. seqR (jcsR v) (\<lambda>t. Inr (obj [(''value'', v), (''canonical'', JStr t)]))) jcsCases = Inr cs"
proof -
  have "\<exists>t. jcsR v = Inr t" if "v \<in> set jcsCases" for v
  proof -
    have "is_ok (jcs v)" using that jcsCases_ok serialize_ok_iff [of v] by (simp add: jcs_def list_all_iff)
    then show ?thesis by (auto simp: jcsR_def is_ok_iff)
  qed
  then obtain g where "\<And>v. v \<in> set jcsCases \<Longrightarrow> jcsR v = Inr (g v)" by metis
  then have "mapR (\<lambda>v. seqR (jcsR v) (\<lambda>t. Inr (obj [(''value'', v), (''canonical'', JStr t)]))) jcsCases
      = Inr (map (\<lambda>v. obj [(''value'', v), (''canonical'', JStr (g v))]) jcsCases)"
    by (intro mapR_total) simp
  then show ?thesis by blast
qed

lemma laneVector_returns:
  assumes C: "0 < lp_checkpoints (lr_params q)" "lp_checkpoints (lr_params q) dvd lp_chainLen (lr_params q)"
    and hex: "hexToBytesR N (slice_from 2 (lp_providerId (lr_params q))) = Inr pid" "hexToBytesR N (slice_from 2 (lr_challengeId q)) = Inr cb"
    and dr: "\<And>h. min (lp_samples (lr_params q)) (lp_checkpoints (lr_params q)) \<le> card (draw_index N h (lp_checkpoints (lr_params q)) ` {..<n})"
  shows "\<exists>v. laneVector N q = Some (Inr v)"
proof -
  let ?p = "lr_params q"
  obtain st cps where t: "\<And>w. s0 N ?p w = Inr (st w)" "\<And>w. computeChain N ?p w = Inr (cps w)"
    using computeChain_total [OF C hex(1)] by metis
  then have m: "mapR (s0 N ?p) [0..<lr_workers q] = Inr (map st [0..<lr_workers q])"
    "mapR (computeChain N ?p) [0..<lr_workers q] = Inr (map cps [0..<lr_workers q])"
    by (intro mapR_total; simp)+
  have "\<exists>out. sampleIndices N (lr_challengeId q) (lp_laneId ?p) rts (lp_samples ?p) (lp_checkpoints ?p) = Some (Inr out)" for rts
    using sample_loop_returns [OF dr] by (auto simp: sampleIndices_def hex(2))
  then obtain out where o: "sampleIndices N (lr_challengeId q) (lp_laneId ?p)
      (map (\<lambda>c. merkleRoot N (merkleLeaves N c)) (map cps [0..<lr_workers q])) (lp_samples ?p) (lp_checkpoints ?p) = Some (Inr out)"
    by blast
  obtain pr where "proveLane N ?p (lr_workers q) (lr_challengeId q) = Some (Inr pr)"
    using proveLane_returns [OF C hex dr] by blast
  then show ?thesis unfolding laneVector_def Let_def m seqR_simps sum.case prod.case o by simp
qed

lemma hex_bytes: "noble_ok N \<Longrightarrow> list_all is_hex s \<Longrightarrow> even (length s) \<Longrightarrow> \<exists>b. hexToBytesR N s = Inr b"
  using unhex_total [of s] by (auto simp: hexToBytesR_def noble_okD)

lemma hex_literals:
  "list_all is_hex (repeat_str 32 ''11'')" "list_all is_hex (repeat_str 16 ''22'')" "list_all is_hex (repeat_str 32 ''33'')"
  "list_all is_hex (repeat_str 32 ''44'')" "list_all is_hex (repeat_str 16 ''55'')" "list_all is_hex (repeat_str 32 ''66'')"
  "length (repeat_str n [a, b]) = 2 * n"
  by (code_simp, code_simp, code_simp, code_simp, code_simp, code_simp)
    (simp add: repeat_str_def length_concat sum_list_replicate map_replicate)

lemma crypto_vector_right:
  assumes N: "noble_ok N" and k: "vec_priv N = Some priv" "key_ok N priv pub"
  shows "\<exists>c sig. crypto_vector N = Inr (pub_address N pub, c) \<and> field c ''signature'' = JStr sig
    \<and> recoverSigner N (cryptoPayload (pub_address N pub)) sig = Inr (Some (pub_address N pub))"
proof -
  let ?who = "pub_address N pub"
  obtain sig where sig: "signPayload N (cryptoPayload ?who) priv = Some sig"
    "recoverSigner N (cryptoPayload ?who) sig = Inr (Some ?who)"
    using recover_sign [OF N k(2) cryptoPayload_ok [of ?who]] by blast
  obtain t where t: "serialize (cryptoPayload ?who) = Inr t" using cryptoPayload_ok [of ?who] by (auto simp: jcs_def is_ok_iff)
  have "addressFromPrivateKey N priv = Some ?who" using k(2) by (simp add: addressFromPrivateKey_def key_ok_def)
  then show ?thesis
    using sig t k(1) by (simp add: crypto_vector_def jcsR_def jcs_def payloadHash_def payloadDigest_def jcsBytes_def obj_def)
qed

text \<open>
  The run ends with a file in which the signature is the well-known key's and the proofs are
  accepted by the verifier of the service.
\<close>

theorem vectors_right:
  assumes N: "noble_ok N" and k: "vec_priv N = Some priv" "key_ok N priv pub"
    and dr: "\<And>h. 3 \<le> card (draw_index N h 8 ` {..<n})" "\<And>h. 4 \<le> card (draw_index N h 6 ` {..<n})"
  shows "\<exists>v sig qs ls. vectors N = Some (Inr v) \<and> field (field v ''crypto'') ''signature'' = JStr sig
    \<and> recoverSigner N (cryptoPayload (pub_address N pub)) sig = Inr (Some (pub_address N pub))
    \<and> vector_lanes N (pub_address N pub) = Inr qs \<and> field v ''lanes'' = JArr ls
    \<and> list_all2 (\<lambda>q l. verifyLane N (lr_params q) (lr_workers q) (lr_challengeId q) (field l ''proofs'') = Some (Inr LaneOk)) qs ls"
proof -
  let ?who = "pub_address N pub"
  obtain c sig where c: "crypto_vector N = Inr (?who, c)" "field c ''signature'' = JStr sig"
      "recoverSigner N (cryptoPayload ?who) sig = Inr (Some ?who)" using crypto_vector_right [OF N k] by blast
  obtain cs where cs: "mapR (\<lambda>v. seqR (jcsR v) (\<lambda>t. Inr (obj [(''value'', v), (''canonical'', JStr t)]))) jcsCases = Inr cs"
    using jcs_cases_total by blast
  obtain s1 n1 s2 n2 where b: "hexToBytesR N (repeat_str 32 ''11'') = Inr s1" "hexToBytesR N (repeat_str 16 ''22'') = Inr n1"
      "hexToBytesR N (repeat_str 32 ''44'') = Inr s2" "hexToBytesR N (repeat_str 16 ''55'') = Inr n2"
    using hex_bytes [OF N hex_literals(1)] hex_bytes [OF N hex_literals(2)] hex_bytes [OF N hex_literals(4)]
      hex_bytes [OF N hex_literals(5)] hex_literals(7) by auto
  define q1 where "q1 = \<lparr>lr_params = \<lparr>lp_seed = s1, lp_laneNonce = n1, lp_providerId = ?who, lp_laneId = js ''quad'',
      lp_chainLen = 64, lp_checkpoints = 8, lp_samples = 3\<rparr>, lr_workers = 2, lr_challengeId = js ''0x'' @ repeat_str 32 ''33''\<rparr>"
  define q2 where "q2 = \<lparr>lr_params = \<lparr>lp_seed = s2, lp_laneNonce = n2, lp_providerId = ?who, lp_laneId = js ''full'',
      lp_chainLen = 24, lp_checkpoints = 6, lp_samples = 4\<rparr>, lr_workers = 3, lr_challengeId = js ''0x'' @ repeat_str 32 ''66''\<rparr>"
  have qs: "vector_lanes N ?who = Inr [q1, q2]" by (simp add: vector_lanes_def laneVector_request_def b q1_def q2_def)
  have pid: "\<exists>b. hexToBytesR N (slice_from 2 ?who) = Inr b"
    by (simp add: hexToBytesR_def pub_address_def ox_def noble_okD [OF N] slice_from_def)
  have cid: "slice_from 2 (js ''0x'' @ s) = s" for s by (simp add: slice_from_def)
  have "\<exists>v. laneVector N q1 = Some (Inr v)" "\<exists>v. laneVector N q2 = Some (Inr v)"
    using pid hex_bytes [OF N hex_literals(3)] hex_bytes [OF N hex_literals(6)] hex_literals(7) dr
      laneVector_returns [of q1 N _ _ n] laneVector_returns [of q2 N _ _ n]
    by (auto simp: q1_def q2_def cid)
  then obtain l1 l2 where l: "laneVector N q1 = Some (Inr l1)" "laneVector N q2 = Some (Inr l2)" by blast
  then have al: "all_lanes N [q1, q2] = Some (Inr [l1, l2])" by simp
  have "vectors N = Some (Inr (obj [(''jcs'', JArr cs), (''crypto'', c), (''lanes'', JArr [l1, l2])]))"
    unfolding vectors_def cs c(1) seqR_simps prod.case qs sum.case al by simp
  moreover have "list_all2 (\<lambda>q l. verifyLane N (lr_params q) (lr_workers q) (lr_challengeId q) (field l ''proofs'') = Some (Inr LaneOk)) [q1, q2] [l1, l2]"
    by (rule all_lanes_verify [OF N al]) (simp add: q1_def q2_def)
  ultimately show ?thesis using c(2,3) qs by (auto simp: obj_def)
qed

end
